(* ===== verification/Prelude.thy ===== *)
theory Prelude
  imports Main "HOL-Library.Word"
begin

text \<open>
  Shared vocabulary of the development: the fixed-width integer types and the status values of
  \<^verbatim>\<open>include/lettuce/types.h\<close> and \<^verbatim>\<open>include/lettuce/errors.h\<close>, the collections of simplification
  rules the components fill, and the generic lemmas about words and lists that they share.
\<close>

unbundle bit_operations_syntax

section \<open>Types and constants of the public ABI\<close>

type_synonym u8 = "8 word"
type_synonym u16 = "16 word"
type_synonym u32 = "32 word"
type_synonym u64 = "64 word"
type_synonym s64 = "64 word" \<comment> \<open>a C int64_t, read with \<^const>\<open>sint\<close>\<close>

type_synonym service_id = u32
type_synonym resource_id = u32
type_synonym domain_id = u32
type_synonym operation_id = u32

abbreviation LETTUCE_SERVICE_ID_INVALID :: service_id where
  "LETTUCE_SERVICE_ID_INVALID \<equiv> 0"
abbreviation LETTUCE_RESOURCE_ID_INVALID :: resource_id where
  "LETTUCE_RESOURCE_ID_INVALID \<equiv> 0"
abbreviation LETTUCE_DOMAIN_ID_INVALID :: domain_id where
  "LETTUCE_DOMAIN_ID_INVALID \<equiv> 0"
abbreviation LETTUCE_OPERATION_ID_INVALID :: operation_id where
  "LETTUCE_OPERATION_ID_INVALID \<equiv> 0"

datatype LettuceStatus =
    LETTUCE_STATUS_OK
  | LETTUCE_STATUS_ERROR
  | LETTUCE_STATUS_INVALID_ARGUMENT
  | LETTUCE_STATUS_DENIED
  | LETTUCE_STATUS_NOT_FOUND
  | LETTUCE_STATUS_BUSY
  | LETTUCE_STATUS_TIMEOUT
  | LETTUCE_STATUS_UNAVAILABLE
  | LETTUCE_STATUS_NOT_SUPPORTED
  | LETTUCE_STATUS_ABORTED
  | LETTUCE_STATUS_OVERFLOW
  | LETTUCE_STATUS_INTERNAL
  | LETTUCE_STATUS_INVALID_STATE
  | LETTUCE_STATUS_INVALID_SERVICE
  | LETTUCE_STATUS_INACTIVE_SERVICE
  | LETTUCE_STATUS_DIFFERENT_LAYER
  | LETTUCE_STATUS_CAPABILITY_DENIED
  | LETTUCE_STATUS_INVALID_OPERATION
  | LETTUCE_STATUS_INVALID_RESOURCE
  | LETTUCE_STATUS_INVALID_TARGET_ENTRY

fun status_code :: "LettuceStatus \<Rightarrow> u32" where
  "status_code LETTUCE_STATUS_OK = 0"
| "status_code LETTUCE_STATUS_ERROR = 1"
| "status_code LETTUCE_STATUS_INVALID_ARGUMENT = 2"
| "status_code LETTUCE_STATUS_DENIED = 3"
| "status_code LETTUCE_STATUS_NOT_FOUND = 4"
| "status_code LETTUCE_STATUS_BUSY = 5"
| "status_code LETTUCE_STATUS_TIMEOUT = 6"
| "status_code LETTUCE_STATUS_UNAVAILABLE = 7"
| "status_code LETTUCE_STATUS_NOT_SUPPORTED = 8"
| "status_code LETTUCE_STATUS_ABORTED = 9"
| "status_code LETTUCE_STATUS_OVERFLOW = 10"
| "status_code LETTUCE_STATUS_INTERNAL = 11"
| "status_code LETTUCE_STATUS_INVALID_STATE = 12"
| "status_code LETTUCE_STATUS_INVALID_SERVICE = 13"
| "status_code LETTUCE_STATUS_INACTIVE_SERVICE = 14"
| "status_code LETTUCE_STATUS_DIFFERENT_LAYER = 15"
| "status_code LETTUCE_STATUS_CAPABILITY_DENIED = 16"
| "status_code LETTUCE_STATUS_INVALID_OPERATION = 17"
| "status_code LETTUCE_STATUS_INVALID_RESOURCE = 18"
| "status_code LETTUCE_STATUS_INVALID_TARGET_ENTRY = 19"

lemma status_code_inj: "status_code a = status_code b \<longleftrightarrow> a = b"
  by (cases a; cases b) simp_all

named_theorems table_simps \<open>lengths and lookups of the fixed kernel tables\<close>
named_theorems frame_simps \<open>fields an operation leaves unchanged\<close>

section \<open>Generic lemmas\<close>

lemma add_mod_eq_iff: "(m + k) mod n = m mod n \<longleftrightarrow> n dvd k" for m k n :: nat
proof
  assume "(m + k) mod n = m mod n"
  then have "n dvd (m + k) - m"
    by (rule mod_eq_dvd_iff_nat [THEN iffD1, rotated]) simp
  then show "n dvd k" by simp
qed (auto elim: dvdE)

lemma take_Suc_update: "n < length xs \<Longrightarrow> take (Suc n) (xs[n := x]) = take n xs @ [x]"
  by (simp add: take_Suc_conv_app_nth)

lemma all_nth_update:
  "i < length xs \<Longrightarrow> (\<forall>e \<in> set xs. P e) \<Longrightarrow> P x \<Longrightarrow> (\<forall>e \<in> set (xs[i := x]). P e)"
  using set_update_subset_insert [of xs i x] by auto

lemma nth_update_if: "j < length xs \<Longrightarrow> xs[i := x] ! j = (if i = j then x else xs ! j)"
  by simp

lemma unat_ucast_32_64 [simp]: "unat (ucast (w :: u32) :: u64) = unat w"
  using unsigned_less [of w, where ?'a = nat] by (simp add: unsigned_ucast_eq take_bit_eq_mod)

lemma in_map_upt: "k < n \<Longrightarrow> f k \<in> set (map f [0..<n])"
  by simp

lemma distinct_bounded_length:
  "distinct xs \<Longrightarrow> set xs \<subseteq> {..<n} \<Longrightarrow> length xs \<le> n" for xs :: "nat list"
  by (metis card_lessThan card_mono distinct_card finite_lessThan)

lemma distinct_bounded_length_less:
  fixes xs :: "nat list"
  assumes "distinct xs" "set xs \<subseteq> {..<n}" "i < n" "i \<notin> set xs"
  shows "length xs < n"
  using distinct_bounded_length [of "i # xs" n] assms by auto

end
