(* ===== verification/Dynamic_Array.thy ===== *)
theory Dynamic_Array
  imports Prelude
begin

text \<open>
  The heap-backed circular array of \<^verbatim>\<open>shared/dynamic_array/dynamic_array.c\<close>. Elements are pointers
  (addresses, NULL being 0), sizes are 64-bit. The heap is a parameter: \<^verbatim>\<open>malloc\<close> takes a number of
  bytes and yields the cells of a fresh block, with arbitrary contents, or fails. An array pointer
  that may be NULL is an option. The array is shown to implement a double-ended list.
\<close>

section \<open>Data and operations\<close>

record DynamicArray =
  da_head :: u64
  da_count :: u64
  da_capacity :: u64
  da_data :: "u64 list option"

abbreviation ARRAY_INITIAL_CAPACITY :: u64 where "ARRAY_INITIAL_CAPACITY \<equiv> 4"
abbreviation ARRAY_GROWTH_FACTOR :: u64 where "ARRAY_GROWTH_FACTOR \<equiv> 2"
abbreviation POINTER_SIZE :: u64 where "POINTER_SIZE \<equiv> 8"
abbreviation SIZE_MAX :: u64 where "SIZE_MAX \<equiv> -1"

type_synonym heap_alloc = "u64 \<Rightarrow> u64 list option"

definition array_init_struct :: "heap_alloc \<Rightarrow> DynamicArray \<Rightarrow> bool \<times> DynamicArray" where
  "array_init_struct malloc a =
     (let a' = a\<lparr>da_head := 0, da_count := 0, da_capacity := ARRAY_INITIAL_CAPACITY,
                 da_data := malloc (ARRAY_INITIAL_CAPACITY * POINTER_SIZE)\<rparr>
      in if da_data a' = None then (False, a'\<lparr>da_capacity := 0\<rparr>) else (True, a'))"

definition array_init ::
  "heap_alloc \<Rightarrow> DynamicArray option \<Rightarrow> bool \<times> DynamicArray option" where
  "array_init malloc array =
     (case array of None \<Rightarrow> (False, None)
      | Some a \<Rightarrow> (let (ok, a') = array_init_struct malloc a in (ok, Some a')))"

text \<open>The wrap-around step \<^verbatim>\<open>if (idx >= cap) idx -= cap;\<close> that every access makes.\<close>

definition wrap_index :: "u64 \<Rightarrow> u64 \<Rightarrow> u64" where
  "wrap_index cap idx = (if idx \<ge> cap then idx - cap else idx)"

definition array_get :: "DynamicArray option \<Rightarrow> u64 \<Rightarrow> u64" where
  "array_get array index =
     (case array of None \<Rightarrow> 0
      | Some a \<Rightarrow> (case da_data a of None \<Rightarrow> 0
        | Some d \<Rightarrow> if index \<ge> da_count a then 0
            else d ! unat (wrap_index (da_capacity a) (da_head a + index))))"

definition array_set ::
  "DynamicArray option \<Rightarrow> u64 \<Rightarrow> u64 \<Rightarrow> bool \<times> DynamicArray option" where
  "array_set array index item =
     (case array of None \<Rightarrow> (False, array)
      | Some a \<Rightarrow> (case da_data a of None \<Rightarrow> (False, array)
        | Some d \<Rightarrow> if index \<ge> da_count a then (False, array)
            else (True, Some (a\<lparr>da_data :=
              Some (d[unat (wrap_index (da_capacity a) (da_head a + index)) := item])\<rparr>))))"

definition resize :: "heap_alloc \<Rightarrow> DynamicArray \<Rightarrow> bool \<times> DynamicArray" where
  "resize malloc a =
     (if da_capacity a = 0 then (False, a)
      else if da_capacity a > SIZE_MAX div (ARRAY_GROWTH_FACTOR * POINTER_SIZE) then (False, a)
      else
        let new_capacity = da_capacity a * ARRAY_GROWTH_FACTOR in
        case malloc (new_capacity * POINTER_SIZE) of
          None \<Rightarrow> (False, a)
        | Some fresh \<Rightarrow>
            let old = (case da_data a of None \<Rightarrow> [] | Some d \<Rightarrow> d);
                new_data = map (\<lambda>i. if i < unat (da_count a)
                    then old ! unat (wrap_index (da_capacity a) (da_head a + of_nat i))
                    else fresh ! i) [0..<length fresh]
            in (True, a\<lparr>da_data := Some new_data, da_capacity := new_capacity, da_head := 0\<rparr>))"

definition array_push_struct :: "heap_alloc \<Rightarrow> DynamicArray \<Rightarrow> u64 \<Rightarrow> bool \<times> DynamicArray" where
  "array_push_struct malloc a item =
     (let (ok, a1) = (if da_data a = None then array_init_struct malloc a else (True, a)) in
      if \<not> ok then (False, a1)
      else let (ok2, a2) = (if da_count a1 \<ge> da_capacity a1 then resize malloc a1 else (True, a1)) in
      if \<not> ok2 then (False, a2)
      else
        let tail = wrap_index (da_capacity a2) (da_head a2 + da_count a2) in
        (True, a2\<lparr>da_data := map_option (\<lambda>d. d[unat tail := item]) (da_data a2),
                  da_count := da_count a2 + 1\<rparr>))"

definition array_push ::
  "heap_alloc \<Rightarrow> DynamicArray option \<Rightarrow> u64 \<Rightarrow> bool \<times> DynamicArray option" where
  "array_push malloc array item =
     (case array of None \<Rightarrow> (False, None)
      | Some a \<Rightarrow> (let (ok, a') = array_push_struct malloc a item in (ok, Some a')))"

definition array_pop :: "DynamicArray option \<Rightarrow> u64 \<times> DynamicArray option" where
  "array_pop array =
     (case array of None \<Rightarrow> (0, array)
      | Some a \<Rightarrow> (case da_data a of None \<Rightarrow> (0, array)
        | Some d \<Rightarrow> if da_count a = 0 then (0, array)
            else let tail = wrap_index (da_capacity a) (da_head a + da_count a - 1) in
              (d ! unat tail, Some (a\<lparr>da_count := da_count a - 1\<rparr>))))"

definition array_enqueue ::
  "heap_alloc \<Rightarrow> DynamicArray option \<Rightarrow> u64 \<Rightarrow> bool \<times> DynamicArray option" where
  "array_enqueue malloc array item = array_push malloc array item"

definition array_dequeue :: "DynamicArray option \<Rightarrow> u64 \<times> DynamicArray option" where
  "array_dequeue array =
     (case array of None \<Rightarrow> (0, array)
      | Some a \<Rightarrow> (case da_data a of None \<Rightarrow> (0, array)
        | Some d \<Rightarrow> if da_count a = 0 then (0, array)
            else let next_head = (if da_head a + 1 \<ge> da_capacity a then 0 else da_head a + 1) in
              (d ! unat (da_head a), Some (a\<lparr>da_head := next_head, da_count := da_count a - 1\<rparr>))))"

definition array_free :: "DynamicArray option \<Rightarrow> DynamicArray option" where
  "array_free array =
     map_option (\<lambda>a. a\<lparr>da_data := None, da_head := 0, da_count := 0, da_capacity := 0\<rparr>) array"

section \<open>Abstraction and invariant\<close>

definition array_cells :: "DynamicArray \<Rightarrow> u64 list" where
  "array_cells a = (case da_data a of None \<Rightarrow> [] | Some d \<Rightarrow> d)"

definition array_list :: "DynamicArray \<Rightarrow> u64 list" where
  "array_list a = map (\<lambda>i. array_cells a ! ((unat (da_head a) + i) mod unat (da_capacity a)))
     [0..<unat (da_count a)]"

definition array_inv :: "DynamicArray \<Rightarrow> bool" where
  "array_inv a \<longleftrightarrow>
     (case da_data a of
        None \<Rightarrow> da_head a = 0 \<and> da_count a = 0 \<and> da_capacity a = 0
      | Some d \<Rightarrow> length d = unat (da_capacity a) \<and> 0 < unat (da_capacity a) \<and>
          unat (da_capacity a) \<le> 2 ^ 61 \<and> unat (da_head a) < unat (da_capacity a) \<and>
          unat (da_count a) \<le> unat (da_capacity a))"

text \<open>What the code relies on of \<^verbatim>\<open>malloc\<close>: a block it hands out has the requested size.\<close>

definition malloc_ok :: "heap_alloc \<Rightarrow> bool" where
  "malloc_ok malloc \<longleftrightarrow> (\<forall>n d. malloc n = Some d \<longrightarrow> length d = unat n div 8)"

lemma unat_wrap_index:
  assumes "unat h < unat cap" "i \<le> unat cap" "unat cap \<le> 2 ^ 61"
  shows "unat (wrap_index cap (h + of_nat i)) = (unat h + i) mod unat cap"
proof -
  have i: "unat (of_nat i :: u64) = i"
    using assms by (simp add: unat_of_nat)
  have s: "unat (h + of_nat i) = unat h + i"
    using assms i by (simp add: unat_word_ariths)
  show ?thesis
  proof (cases "unat h + i < unat cap")
    case True
    then show ?thesis using s by (simp add: wrap_index_def word_le_nat_alt)
  next
    case False
    then have le: "cap \<le> h + of_nat i" using s by (simp add: word_le_nat_alt)
    then have "unat (wrap_index cap (h + of_nat i)) = unat h + i - unat cap"
      using s by (simp add: wrap_index_def unat_sub)
    moreover have "(unat h + i) mod unat cap = unat h + i - unat cap"
      using False assms by (simp add: mod_if)
    ultimately show ?thesis by simp
  qed
qed

lemma ring_inj:
  fixes h i j c :: nat
  assumes "i < c" "j < c"
  shows "(h + i) mod c = (h + j) mod c \<longleftrightarrow> i = j"
proof
  assume eq: "(h + i) mod c = (h + j) mod c"
  show "i = j"
  proof (rule ccontr)
    assume "i \<noteq> j"
    then consider "i < j" | "j < i" by linarith
    then show False
    proof cases
      case 1
      with eq have "c dvd j - i"
        using mod_eq_dvd_iff_nat [of "h + i" "h + j" c] by simp
      with 1 assms show False by (auto dest: dvd_imp_le)
    next
      case 2
      with eq have "c dvd i - j"
        using mod_eq_dvd_iff_nat [of "h + j" "h + i" c] by simp
      with 2 assms show False by (auto dest: dvd_imp_le)
    qed
  qed
qed simp

lemma length_array_list [simp]: "length (array_list a) = unat (da_count a)"
  by (simp add: array_list_def)

lemma nth_array_list:
  "i < unat (da_count a) \<Longrightarrow>
     array_list a ! i = array_cells a ! ((unat (da_head a) + i) mod unat (da_capacity a))"
  by (simp add: array_list_def)

lemma array_inv_data: "array_inv a \<Longrightarrow> da_data a = Some d \<Longrightarrow>
    length d = unat (da_capacity a) \<and> 0 < unat (da_capacity a) \<and> unat (da_capacity a) \<le> 2 ^ 61 \<and>
    unat (da_head a) < unat (da_capacity a) \<and> unat (da_count a) \<le> unat (da_capacity a)"
  by (simp add: array_inv_def)

lemma array_inv_null: "array_inv a \<Longrightarrow> da_data a = None \<Longrightarrow> array_list a = []"
  by (simp add: array_inv_def array_list_def)

text \<open>Writing one cell of the ring changes one element of the list.\<close>

lemma array_list_write:
  assumes "array_inv a" "da_data a = Some d" "k < unat (da_capacity a)"
  shows "array_list (a\<lparr>da_data := Some (d[(unat (da_head a) + k) mod unat (da_capacity a) := x])\<rparr>)
    = (array_list a)[k := x]"
proof (rule nth_equalityI)
  fix i
  assume "i < length (array_list (a\<lparr>da_data :=
    Some (d[(unat (da_head a) + k) mod unat (da_capacity a) := x])\<rparr>))"
  then have i: "i < unat (da_count a)" by simp
  moreover have "i < unat (da_capacity a)"
    using i array_inv_data [OF assms(1,2)] by simp
  moreover note ring_inj [OF this assms(3), of "unat (da_head a)"] array_inv_data [OF assms(1,2)]
  ultimately show "array_list (a\<lparr>da_data :=
      Some (d[(unat (da_head a) + k) mod unat (da_capacity a) := x])\<rparr>) ! i = (array_list a)[k := x] ! i"
    using assms(2) by (auto simp: nth_array_list array_cells_def nth_list_update)
qed simp

lemma array_list_snoc:
  assumes "array_inv a" "da_data a = Some d" "unat (da_count a) < unat (da_capacity a)"
  shows "array_list (a\<lparr>da_data := Some (d[(unat (da_head a) + unat (da_count a)) mod unat (da_capacity a) := x]),
      da_count := da_count a + 1\<rparr>) = array_list a @ [x]"
proof -
  let ?d = "d[(unat (da_head a) + unat (da_count a)) mod unat (da_capacity a) := x]"
  have c: "unat (da_count a + 1) = Suc (unat (da_count a))"
    using assms(3) array_inv_data [OF assms(1,2)] by (simp add: unat_word_ariths)
  have "array_list (a\<lparr>da_data := Some ?d, da_count := da_count a + 1\<rparr>)
      = array_list (a\<lparr>da_data := Some ?d\<rparr>) @ [?d ! ((unat (da_head a) + unat (da_count a)) mod unat (da_capacity a))]"
    by (simp add: array_list_def array_cells_def c)
  also have "\<dots> = array_list a @ [x]"
    using array_list_write [OF assms(1,2,3), of x] array_inv_data [OF assms(1,2)]
    by (simp add: list_update_beyond)
  finally show ?thesis .
qed

section \<open>Operations on the list\<close>

lemma init_spec:
  assumes "malloc_ok malloc" "array_init_struct malloc a = (ok, a')"
  shows "array_inv a'" "array_list a' = []" "ok \<longleftrightarrow> malloc 32 \<noteq> None"
  using assms by (auto simp: array_init_struct_def malloc_ok_def array_inv_def array_list_def Let_def
      split: if_splits)

lemma get_spec:
  assumes "array_inv a"
  shows "array_get (Some a) index =
    (if unat index < unat (da_count a) then array_list a ! unat index else 0)"
proof (cases "da_data a")
  case None
  then show ?thesis using assms by (simp add: array_get_def array_inv_def)
next
  case (Some d)
  then show ?thesis
    using array_inv_data [OF assms Some] unat_wrap_index [of "da_head a" "da_capacity a" "unat index"]
    by (auto simp: array_get_def nth_array_list array_cells_def word_le_nat_alt)
qed

lemma set_spec:
  assumes "array_inv a" "array_set (Some a) index x = (ok, a')"
  shows "if unat index < unat (da_count a)
    then ok \<and> (\<exists>b. a' = Some b \<and> array_inv b \<and> array_list b = (array_list a)[unat index := x])
    else \<not> ok \<and> a' = Some a"
proof (cases "da_data a")
  case None
  then show ?thesis using assms by (simp add: array_set_def array_inv_def)
next
  case (Some d)
  note inv = array_inv_data [OF assms(1) Some]
  have w: "unat (wrap_index (da_capacity a) (da_head a + index)) =
      (unat (da_head a) + unat index) mod unat (da_capacity a)" if "unat index < unat (da_count a)"
    using unat_wrap_index [of "da_head a" "da_capacity a" "unat index"] that inv by simp
  show ?thesis
    using assms Some w array_list_write [OF assms(1) Some, of "unat index" x] inv
    by (auto simp: array_set_def word_le_nat_alt array_inv_def)
qed

lemma pop_spec:
  assumes "array_inv a"
  shows "array_pop (Some a) =
    (if array_list a = [] then (0, Some a)
     else (last (array_list a), Some (a\<lparr>da_count := da_count a - 1\<rparr>)))"
    and "array_list a \<noteq> [] \<Longrightarrow> array_inv (a\<lparr>da_count := da_count a - 1\<rparr>) \<and>
      array_list (a\<lparr>da_count := da_count a - 1\<rparr>) = butlast (array_list a)"
proof -
  have ne: "array_list a = [] \<longleftrightarrow> da_count a = 0"
    by (simp add: unat_eq_zero flip: length_0_conv)
  have d: "\<exists>d. da_data a = Some d" if "da_count a \<noteq> 0"
    using that assms by (auto simp: array_inv_def split: option.splits)
  have c: "unat (da_count a - 1) = unat (da_count a) - 1" "0 < unat (da_count a)" if "da_count a \<noteq> 0"
    using that by (simp_all add: unat_minus_one unat_gt_0)
  show "array_list a \<noteq> [] \<Longrightarrow> array_inv (a\<lparr>da_count := da_count a - 1\<rparr>) \<and>
      array_list (a\<lparr>da_count := da_count a - 1\<rparr>) = butlast (array_list a)"
    using d c assms ne
    by (auto simp: array_inv_def intro!: nth_equalityI simp: nth_array_list nth_butlast array_cells_def)
  show "array_pop (Some a) =
    (if array_list a = [] then (0, Some a)
     else (last (array_list a), Some (a\<lparr>da_count := da_count a - 1\<rparr>)))"
  proof (cases "da_count a = 0")
    case True
    then show ?thesis using ne by (simp add: array_pop_def split: option.splits)
  next
    case False
    then obtain d where d': "da_data a = Some d" using d by blast
    have e: "da_head a + da_count a - 1 = da_head a + of_nat (unat (da_count a) - 1)"
      using c [OF False] by (metis add_diff_eq of_nat_unat ucast_id c(1))
    have "unat (wrap_index (da_capacity a) (da_head a + da_count a - 1)) =
        (unat (da_head a) + (unat (da_count a) - 1)) mod unat (da_capacity a)"
      unfolding e by (rule unat_wrap_index) (use array_inv_data [OF assms d'] in auto)
    then show ?thesis
      using False ne d' c [OF False] by (simp add: array_pop_def last_conv_nth nth_array_list array_cells_def)
  qed
qed


lemma dequeue_spec:
  assumes "array_inv a" "array_list a \<noteq> []"
  obtains a' where "array_dequeue (Some a) = (hd (array_list a), Some a')" "array_inv a'"
    "array_list a' = tl (array_list a)"
proof -
  have n0: "da_count a \<noteq> 0"
    using assms(2) by (simp add: unat_eq_zero flip: length_0_conv)
  then obtain d where d: "da_data a = Some d"
    using assms(1) by (auto simp: array_inv_def split: option.splits)
  note inv = array_inv_data [OF assms(1) d]
  define nh where "nh = (if da_head a + 1 \<ge> da_capacity a then 0 else da_head a + 1)"
  let ?a = "a\<lparr>da_head := nh, da_count := da_count a - 1\<rparr>"
  have h1: "unat (da_head a + 1) = Suc (unat (da_head a))"
    using inv by (simp add: unat_word_ariths)
  have nh: "unat nh = (Suc (unat (da_head a))) mod unat (da_capacity a)"
    using inv h1 by (auto simp: nh_def word_le_nat_alt mod_if)
  have c: "unat (da_count a - 1) = unat (da_count a) - 1" "0 < unat (da_count a)"
    using n0 by (simp_all add: unat_minus_one unat_gt_0)
  have "array_inv ?a"
    using inv d nh c by (auto simp: array_inv_def)
  moreover have "array_list ?a = tl (array_list a)"
  proof (rule nth_equalityI)
    fix i
    assume "i < length (array_list ?a)"
    then have i: "i < unat (da_count a) - 1" using c by simp
    then show "array_list ?a ! i = tl (array_list a) ! i"
      using nh c d by (simp add: nth_array_list nth_tl array_cells_def mod_simps)
  qed (simp add: c)
  moreover have "array_dequeue (Some a) = (hd (array_list a), Some ?a)"
    using n0 d inv c assms(2) by (simp add: array_dequeue_def nh_def hd_conv_nth nth_array_list array_cells_def)
  ultimately show ?thesis using that by blast
qed

lemma resize_spec:
  assumes "malloc_ok malloc" "array_inv a" "da_data a = Some d" "resize malloc a = (ok, a')"
  shows "if ok
    then array_inv a' \<and> array_list a' = array_list a \<and> da_count a' = da_count a \<and> da_data a' \<noteq> None \<and>
      unat (da_capacity a') = 2 * unat (da_capacity a)
    else a' = a"
proof (cases ok)
  case False
  then show ?thesis using assms(4) by (auto simp: resize_def Let_def split: if_splits option.splits)
next
  case True
  note inv = array_inv_data [OF assms(2,3)]
  from True assms(3,4) obtain fresh where small: "da_capacity a \<le> SIZE_MAX div 16"
    and fresh: "malloc (da_capacity a * 2 * 8) = Some fresh"
    and a': "a' = a\<lparr>da_data := Some (map (\<lambda>i. if i < unat (da_count a)
        then d ! unat (wrap_index (da_capacity a) (da_head a + of_nat i)) else fresh ! i) [0..<length fresh]),
      da_capacity := da_capacity a * 2, da_head := 0\<rparr>"
    by (auto simp: resize_def Let_def not_less split: if_splits option.splits)
  have cap: "unat (da_capacity a) \<le> 1152921504606846975"
    using small by (simp add: word_le_nat_alt unat_div_distrib)
  have c2: "unat (da_capacity a * 2) = 2 * unat (da_capacity a)"
    using cap by (simp add: unat_word_ariths)
  have len: "length fresh = 2 * unat (da_capacity a)"
    using assms(1) fresh cap by (auto simp: malloc_ok_def unat_word_ariths)
  have "array_list a' = array_list a"
    by (rule nth_equalityI)
      (use inv assms(3) len c2 in \<open>auto simp: a' nth_array_list array_cells_def unat_wrap_index\<close>)
  then show ?thesis using True inv c2 len cap by (simp add: a' array_inv_def)
qed

lemma push_spec:
  assumes "malloc_ok malloc" "array_inv a" "array_push_struct malloc a x = (ok, a')"
  shows "array_inv a' \<and> array_list a' = (if ok then array_list a @ [x] else array_list a)"
proof -
  obtain ok1 a1 where 1: "(if da_data a = None then array_init_struct malloc a else (True, a)) = (ok1, a1)"
    by fastforce
  have s1: "array_inv a1 \<and> array_list a1 = array_list a"
    using 1 assms(2) init_spec [OF assms(1)] array_inv_null by (metis prod.inject)
  have d1: "\<exists>d. da_data a1 = Some d" if ok1
    using 1 that by (auto simp: array_init_struct_def Let_def split: if_splits)
  show ?thesis
  proof (cases ok1)
    case False
    then show ?thesis using 1 s1 assms(3) by (auto simp: array_push_struct_def)
  next
    case ok1: True
    then obtain d where d: "da_data a1 = Some d" using d1 by blast
    obtain ok2 a2 where 2: "(if da_count a1 \<ge> da_capacity a1 then resize malloc a1 else (True, a1)) = (ok2, a2)"
      by fastforce
    show ?thesis
    proof (cases ok2)
      case False
      then have "a2 = a1"
        using 2 resize_spec [OF assms(1) conjunct1 [OF s1] d] by (metis prod.inject)
      then show ?thesis using 1 2 ok1 False s1 assms(3) by (auto simp: array_push_struct_def)
    next
      case ok2: True
      have s2: "array_inv a2 \<and> array_list a2 = array_list a \<and> (\<exists>d. da_data a2 = Some d) \<and>
          unat (da_count a2) < unat (da_capacity a2)"
      proof (cases "da_count a1 \<ge> da_capacity a1")
        case True
        then show ?thesis
          using 2 ok2 s1 resize_spec [OF assms(1) conjunct1 [OF s1] d, of ok2 a2] array_inv_data [OF conjunct1 [OF s1] d]
          by auto
      next
        case False
        then show ?thesis using 2 d s1 by (auto simp: word_le_nat_alt)
      qed
      then obtain d2 where d2: "da_data a2 = Some d2" by blast
      note inv2 = array_inv_data [OF conjunct1 [OF s2] d2]
      have w: "unat (wrap_index (da_capacity a2) (da_head a2 + da_count a2)) =
          (unat (da_head a2) + unat (da_count a2)) mod unat (da_capacity a2)"
        using unat_wrap_index [of "da_head a2" "da_capacity a2" "unat (da_count a2)"] inv2 by simp
      have a': "ok \<and> a' = a2\<lparr>da_data := Some (d2[(unat (da_head a2) + unat (da_count a2)) mod unat (da_capacity a2) := x]),
          da_count := da_count a2 + 1\<rparr>"
        using assms(3) 1 2 ok1 ok2 d2 w by (auto simp: array_push_struct_def Let_def)
      have "unat (da_count a2 + 1) = Suc (unat (da_count a2))"
        using s2 inv2 by (simp add: unat_word_ariths)
      then have "array_inv a'" using a' inv2 s2 by (simp add: array_inv_def)
      then show ?thesis
        using a' s2 array_list_snoc [of a2 d2 x] d2 by simp
    qed
  qed
qed


section \<open>The double-ended list a client sees\<close>

datatype array_op =
    Op_Init | Op_Get u64 | Op_Set u64 u64 | Op_Push u64 | Op_Pop | Op_Enqueue u64 | Op_Dequeue | Op_Free

datatype array_out = Out_Flag bool | Out_Item u64 | Out_None

fun array_step :: "heap_alloc \<Rightarrow> array_op \<Rightarrow> DynamicArray option \<Rightarrow> array_out \<times> DynamicArray option" where
  "array_step malloc Op_Init a = map_prod Out_Flag id (array_init malloc a)"
| "array_step malloc (Op_Get i) a = (Out_Item (array_get a i), a)"
| "array_step malloc (Op_Set i x) a = map_prod Out_Flag id (array_set a i x)"
| "array_step malloc (Op_Push x) a = map_prod Out_Flag id (array_push malloc a x)"
| "array_step malloc Op_Pop a = map_prod Out_Item id (array_pop a)"
| "array_step malloc (Op_Enqueue x) a = map_prod Out_Flag id (array_enqueue malloc a x)"
| "array_step malloc Op_Dequeue a = map_prod Out_Item id (array_dequeue a)"
| "array_step malloc Op_Free a = (Out_None, array_free a)"

text \<open>
  The abstract object: a list, and for each operation the observations it allows and the list it
  leaves. Initialisation and growth may fail, which is an observation; nothing else may.
\<close>

fun list_step :: "array_op \<Rightarrow> array_out \<Rightarrow> u64 list \<Rightarrow> u64 list option" where
  "list_step Op_Init (Out_Flag ok) xs = Some []"
| "list_step (Op_Get i) (Out_Item p) xs =
     (if p = (if unat i < length xs then xs ! unat i else 0) then Some xs else None)"
| "list_step (Op_Set i x) (Out_Flag ok) xs =
     (if ok = (unat i < length xs) then Some (xs[unat i := x]) else None)"
| "list_step (Op_Push x) (Out_Flag ok) xs = Some (if ok then xs @ [x] else xs)"
| "list_step Op_Pop (Out_Item p) xs =
     (if p = (if xs = [] then 0 else last xs) then Some (butlast xs) else None)"
| "list_step (Op_Enqueue x) (Out_Flag ok) xs = Some (if ok then xs @ [x] else xs)"
| "list_step Op_Dequeue (Out_Item p) xs =
     (if p = (if xs = [] then 0 else hd xs) then Some (tl xs) else None)"
| "list_step Op_Free Out_None xs = Some []"
| "list_step _ _ _ = None"

fun object_run :: "('op \<Rightarrow> 's \<Rightarrow> 'out \<times> 's) \<Rightarrow> 'op list \<Rightarrow> 's \<Rightarrow> 'out list \<times> 's" where
  "object_run step [] s = ([], s)"
| "object_run step (p # ps) s =
     (let (q, s1) = step p s; (qs, s2) = object_run step ps s1 in (q # qs, s2))"

fun spec_run :: "('op \<Rightarrow> 'out \<Rightarrow> 'a \<Rightarrow> 'a option) \<Rightarrow> 'op list \<Rightarrow> 'out list \<Rightarrow> 'a \<Rightarrow> 'a option" where
  "spec_run spec [] [] x = Some x"
| "spec_run spec (p # ps) (q # qs) x = Option.bind (spec p q x) (spec_run spec ps qs)"
| "spec_run spec _ _ x = None"

text \<open>
  An object implements a specification when every step keeps its invariant and shows an observation
  the specification allows on the abstract value; then so does every run.
\<close>

locale implements =
  fixes inv :: "'s \<Rightarrow> bool" and abs :: "'s \<Rightarrow> 'a"
    and step :: "'op \<Rightarrow> 's \<Rightarrow> 'out \<times> 's" and spec :: "'op \<Rightarrow> 'out \<Rightarrow> 'a \<Rightarrow> 'a option"
  assumes step_ok: "inv s \<Longrightarrow> step p s = (q, s') \<Longrightarrow> inv s' \<and> spec p q (abs s) = Some (abs s')"
begin

lemma run_ok:
  "inv s \<Longrightarrow> object_run step ps s = (qs, s') \<Longrightarrow> inv s' \<and> spec_run spec ps qs (abs s) = Some (abs s')"
proof (induction ps arbitrary: s qs)
  case Nil
  then show ?case by auto
next
  case (Cons p ps)
  obtain q s1 where 1: "step p s = (q, s1)" by fastforce
  obtain qs' where "object_run step ps s1 = (qs', s')" "qs = q # qs'"
    using Cons.prems(2) 1 by (auto split: prod.splits)
  then show ?case using Cons.IH [of s1 qs'] step_ok [OF Cons.prems(1) 1] by simp
qed

end

definition array_ptr_inv :: "heap_alloc \<Rightarrow> DynamicArray option \<Rightarrow> bool" where
  "array_ptr_inv malloc p \<longleftrightarrow> malloc_ok malloc \<and> (\<exists>a. p = Some a \<and> array_inv a)"

definition array_ptr_list :: "DynamicArray option \<Rightarrow> u64 list" where
  "array_ptr_list p = (case p of None \<Rightarrow> [] | Some a \<Rightarrow> array_list a)"

lemma array_step_push:
  assumes "malloc_ok malloc" "array_inv a" "array_push malloc (Some a) x = (ok, p)"
  shows "array_ptr_inv malloc p \<and> array_ptr_list p = (if ok then array_list a @ [x] else array_list a)"
  using assms push_spec [OF assms(1,2), of x]
  by (auto simp: array_push_def array_ptr_inv_def array_ptr_list_def split: prod.splits)

lemma array_step_init:
  assumes "malloc_ok malloc" "array_init malloc (Some a) = (ok, p)"
  shows "array_ptr_inv malloc p \<and> array_ptr_list p = []"
  using assms init_spec [OF assms(1), of a]
  by (auto simp: array_init_def array_ptr_inv_def array_ptr_list_def split: prod.splits)

lemma array_step_pop:
  assumes "malloc_ok malloc" "array_inv a" "array_pop (Some a) = (x, p)"
  shows "array_ptr_inv malloc p \<and> array_ptr_list p = butlast (array_list a) \<and>
    x = (if array_list a = [] then 0 else last (array_list a))"
  using assms pop_spec [OF assms(2)]
  by (auto simp: array_ptr_inv_def array_ptr_list_def split: if_splits)

lemma array_step_dequeue:
  assumes "malloc_ok malloc" "array_inv a" "array_dequeue (Some a) = (x, p)"
  shows "array_ptr_inv malloc p \<and> array_ptr_list p = tl (array_list a) \<and>
    x = (if array_list a = [] then 0 else hd (array_list a))"
proof (cases "array_list a = []")
  case True
  then have "da_count a = 0" by (simp add: unat_eq_zero flip: length_0_conv)
  then show ?thesis using assms True
    by (auto simp: array_dequeue_def array_ptr_inv_def array_ptr_list_def split: option.splits)
next
  case False
  then obtain a' where "array_dequeue (Some a) = (hd (array_list a), Some a')" "array_inv a'"
      "array_list a' = tl (array_list a)"
    by (rule dequeue_spec [OF assms(2)])
  then show ?thesis using assms False by (simp add: array_ptr_inv_def array_ptr_list_def)
qed

lemma array_step_set:
  assumes "malloc_ok malloc" "array_inv a" "array_set (Some a) i x = (ok, p)"
  shows "array_ptr_inv malloc p \<and> array_ptr_list p = (array_list a)[unat i := x] \<and>
    ok = (unat i < length (array_list a))"
  using assms set_spec [OF assms(2,3)]
  by (auto simp: array_ptr_inv_def array_ptr_list_def list_update_beyond split: if_splits)

lemma array_step_ok:
  assumes "array_ptr_inv malloc s" "array_step malloc p s = (q, s')"
  shows "array_ptr_inv malloc s' \<and> list_step p q (array_ptr_list s) = Some (array_ptr_list s')"
proof -
  from assms(1) obtain a where m: "malloc_ok malloc" and s: "s = Some a" and inv: "array_inv a"
    by (auto simp: array_ptr_inv_def)
  have l: "array_ptr_list s = array_list a" by (simp add: s array_ptr_list_def)
  show ?thesis
  proof (cases p)
    case Op_Init
    then show ?thesis using assms(2) s array_step_init [OF m, of a] by (cases "array_init malloc s") auto
  next
    case (Op_Get i)
    then show ?thesis using assms s l get_spec [OF inv, of i] by auto
  next
    case (Op_Set i x)
    then show ?thesis using assms(2) s l array_step_set [OF m inv, of i x]
      by (cases "array_set s i x") auto
  next
    case (Op_Push x)
    then show ?thesis using assms(2) s l array_step_push [OF m inv, of x]
      by (cases "array_push malloc s x") auto
  next
    case Op_Pop
    then show ?thesis using assms(2) s l array_step_pop [OF m inv] by (cases "array_pop s") auto
  next
    case (Op_Enqueue x)
    then show ?thesis using assms(2) s l array_step_push [OF m inv, of x]
      by (cases "array_push malloc s x") (auto simp: array_enqueue_def)
  next
    case Op_Dequeue
    then show ?thesis using assms(2) s l array_step_dequeue [OF m inv] by (cases "array_dequeue s") auto
  next
    case Op_Free
    then show ?thesis using assms(2) m s
      by (auto simp: array_free_def array_ptr_inv_def array_ptr_list_def array_inv_def array_list_def)
  qed
qed

interpretation dynamic_array: implements "array_ptr_inv malloc" array_ptr_list "array_step malloc" list_step
  for malloc
  by unfold_locales (rule array_step_ok)

text \<open>
  C24: The circular array implements a double-ended list. Whatever sequence of initialise, get, set,
  push, pop, enqueue, dequeue and free calls is made on a well-formed array, with whatever allocator
  that returns blocks of the size it was asked for, every result is the one the list gives (NULL
  or false out of range and on empty, an unchanged list when growth fails), and the array stays
  well-formed.
\<close>

theorem array_refines_list:
  assumes "malloc_ok malloc" "array_inv a" "object_run (array_step malloc) ops (Some a) = (outs, p)"
  shows "spec_run list_step ops outs (array_list a) = Some (array_ptr_list p) \<and> array_ptr_inv malloc p"
  using dynamic_array.run_ok [of malloc "Some a" ops outs p] assms
  by (simp add: array_ptr_inv_def array_ptr_list_def)

definition demo_malloc :: heap_alloc where
  "demo_malloc n = (if n \<le> 64 then Some (replicate (unat n div 8) 0) else None)"

definition null_array :: DynamicArray where
  "null_array = \<lparr>da_head = 0, da_count = 0, da_capacity = 0, da_data = None\<rparr>"

definition demo_array_ops :: "array_op list" where
  "demo_array_ops = [Op_Push 1, Op_Enqueue 2, Op_Dequeue, Op_Push 3, Op_Push 4, Op_Push 5, Op_Push 6,
     Op_Get 4, Op_Set 0 9, Op_Dequeue, Op_Pop]"

lemma demo_malloc_ok: "malloc_ok demo_malloc"
  by (simp add: malloc_ok_def demo_malloc_def)

lemma array_refines_list_witness:
  "malloc_ok demo_malloc \<and> array_inv null_array \<and>
   fst (object_run (array_step demo_malloc) demo_array_ops (Some null_array)) =
     [Out_Flag True, Out_Flag True, Out_Item 1, Out_Flag True, Out_Flag True, Out_Flag True, Out_Flag True,
      Out_Item 6, Out_Flag True, Out_Item 9, Out_Item 6] \<and>
   spec_run list_step demo_array_ops (fst (object_run (array_step demo_malloc) demo_array_ops (Some null_array)))
     (array_list null_array) = Some [3, 4, 5]"
proof -
  have inv: "array_inv null_array" by (simp add: array_inv_def null_array_def)
  have run: "fst (object_run (array_step demo_malloc) demo_array_ops (Some null_array)) =
      [Out_Flag True, Out_Flag True, Out_Item 1, Out_Flag True, Out_Flag True, Out_Flag True, Out_Flag True,
       Out_Item 6, Out_Flag True, Out_Item 9, Out_Item 6]"
    and lst: "array_ptr_list (snd (object_run (array_step demo_malloc) demo_array_ops (Some null_array))) = [3, 4, 5]"
    by code_simp+
  show ?thesis
    using array_refines_list [OF demo_malloc_ok inv prod.collapse [symmetric], of demo_array_ops]
      demo_malloc_ok inv lst unfolding run by simp
qed

text \<open>
  When growth fails, why. A push onto a well-formed array returns false only if the allocator
  refused the block it was asked for, or doubling the capacity would overflow the size of a block;
  a full array of capacity c asks for exactly 16 c bytes.
\<close>

theorem array_push_failure:
  assumes "array_inv a" "fst (array_push malloc (Some a) x) = False"
  shows "(da_data a = None \<and> malloc 32 = None) \<or>
    (da_count a = da_capacity a \<and>
      (malloc (da_capacity a * 16) = None \<or> unat (da_capacity a) * 16 \<ge> 2 ^ 64))"
proof (cases "da_data a")
  case None
  then show ?thesis using assms(2)
    by (auto simp: array_push_def array_push_struct_def array_init_struct_def Let_def split: if_splits)
next
  case (Some d)
  note inv = array_inv_data [OF assms(1) Some]
  have full: "da_capacity a \<le> da_count a" and r: "\<not> fst (resize malloc a)"
    using assms(2) Some
    by (auto simp: array_push_def array_push_struct_def Let_def split: if_splits prod.splits)
  have "da_count a = da_capacity a"
    using full inv by (simp add: word_le_nat_alt word_unat_eq_iff)
  moreover have "da_capacity a \<noteq> 0" using inv by auto
  moreover have "unat (da_capacity a) * 16 \<ge> 2 ^ 64" if "da_capacity a > SIZE_MAX div 16"
    using that by (simp add: word_less_nat_alt unat_div_distrib)
  ultimately show ?thesis
    using r by (auto simp: resize_def Let_def mult.assoc split: if_splits option.splits)
qed

lemma array_push_failure_witness:
  "array_inv null_array \<and> \<not> fst (array_push (\<lambda>_. None) (Some null_array) 7) \<and> da_data null_array = None"
  using array_push_failure [of null_array "\<lambda>_. None" 7]
  by (simp add: array_inv_def null_array_def array_push_def array_push_struct_def array_init_struct_def)

end
