(* ===== verification/Handles.thy ===== *)
theory Handles
  imports Prelude
begin

text \<open>
  Generational handles. The capability table, the page-pool allocator, the shared buffers and the
  task table all name a slot by a word that carries the slot number and the generation the slot
  had when the handle was issued. This theory holds the 16-bit generation counter, the packing of
  slot and generation into 32 bits, and two interfaces: \<^verbatim>\<open>handle_codec\<close>, an encoder and a decoder
  that are inverse on the slots of a table, and \<^verbatim>\<open>generation_discipline\<close>, a table whose operations
  either leave the generation of a slot alone or advance it by one.
\<close>

section \<open>Generations\<close>

text \<open>
  A generation is a \<^verbatim>\<open>uint16_t\<close> that is incremented when a slot is released, with the value 0
  skipped: \<^verbatim>\<open>generation += 1; if (generation == 0) generation = 1;\<close>.
\<close>

definition next_generation :: "u16 \<Rightarrow> u16" where
  "next_generation g = (let g' = g + 1 in if g' = 0 then 1 else g')"

lemma unat_next_generation: "unat (next_generation g) = unat g mod 65535 + 1"
proof -
  have lt: "unat g < 65536"
    using unsigned_less [of g, where ?'a = nat] by simp
  have *: "unat (g + 1) = (unat g + 1) mod 65536"
    by (simp add: unat_word_ariths)
  show ?thesis
  proof (cases "unat g = 65535")
    case True
    with * have "unat (g + 1) = 0" by simp
    then have "g + 1 = 0" by (rule unat_eq_zero [THEN iffD1])
    with True show ?thesis by (simp add: next_generation_def)
  next
    case False
    with lt * have **: "unat (g + 1) = unat g + 1" by simp
    then have "g + 1 \<noteq> 0" by (metis Suc_eq_plus1 nat.distinct(1) unat_0)
    with False lt ** show ?thesis by (simp add: next_generation_def)
  qed
qed

lemma next_generation_nonzero [simp]: "next_generation g \<noteq> 0"
  by (simp add: next_generation_def Let_def)

lemma unat_next_generation_iter:
  assumes "g \<noteq> 0"
  shows "unat ((next_generation ^^ k) g) = (unat g - 1 + k) mod 65535 + 1"
proof (induction k)
  case 0
  have "0 < unat g" "unat g < 65536"
    using assms unsigned_less [of g, where ?'a = nat] by (simp_all add: unat_gt_0)
  then show ?case by simp
next
  case (Suc k)
  then show ?case
    by (simp add: unat_next_generation mod_Suc_eq)
qed

text \<open>The generation counter has period 65535: a value comes back after 65535 increments, not before.\<close>

lemma next_generation_iter_eq_iff:
  assumes "g \<noteq> 0"
  shows "(next_generation ^^ k) g = g \<longleftrightarrow> 65535 dvd k"
proof -
  obtain m where m: "unat g = Suc m" "m < 65535"
    using assms unsigned_less [of g, where ?'a = nat] by (cases "unat g") (auto simp: unat_eq_zero)
  have "(next_generation ^^ k) g = g \<longleftrightarrow> (m + k) mod 65535 = m mod 65535"
    using m by (simp add: word_unat_eq_iff unat_next_generation_iter [OF assms])
  also have "\<dots> \<longleftrightarrow> 65535 dvd k"
    by (rule add_mod_eq_iff)
  finally show ?thesis .
qed

lemma next_generation_iter_neq:
  assumes "g \<noteq> 0" "0 < k" "k < 65535"
  shows "(next_generation ^^ k) g \<noteq> g"
  using assms by (simp add: next_generation_iter_eq_iff dvd_imp_le nat_dvd_not_less)

lemma next_generation_neq [simp]: "next_generation g \<noteq> g"
proof (cases "g = 0")
  case False
  then show ?thesis using next_generation_iter_neq [of g 1] by simp
qed (simp add: next_generation_def)

section \<open>Handles: a generation and a slot in one 32-bit word\<close>

text \<open>
  Bits 31..16 of a handle hold the generation, bits 15..0 the slot number plus one, so that the
  handle 0 is never issued. The three handle tables build the word with the same expression
  \<^verbatim>\<open>((uint32_t)generation << 16) | ((uint32_t)slot + 1)\<close>.
\<close>

definition handle_pack :: "u32 \<Rightarrow> u16 \<Rightarrow> u32" where
  "handle_pack slot generation = push_bit 16 (ucast generation :: u32) OR (slot + 1)"

definition handle_slot :: "u32 \<Rightarrow> u32" where
  "handle_slot h = h AND 0xFFFF"

definition handle_generation :: "u32 \<Rightarrow> u16" where
  "handle_generation h = ucast (drop_bit 16 h)"

lemma handle_slot_mod: "unat (handle_slot h) = unat h mod 65536"
proof -
  have "handle_slot h = take_bit 16 h"
    by (simp add: handle_slot_def take_bit_eq_mask mask_eq_exp_minus_1)
  then have "unat (handle_slot h) = take_bit 16 (unat h)"
    by (simp only: unsigned_take_bit_eq)
  then show ?thesis by (simp add: take_bit_eq_mod)
qed

lemma handle_generation_div: "unat (handle_generation h) = unat h div 65536"
proof -
  have "unat h div 65536 < 65536"
    using unsigned_less [of h, where ?'a = nat] by (simp add: less_mult_imp_div_less)
  then show ?thesis
    by (simp add: handle_generation_def unsigned_ucast_eq drop_bit_eq_div
        unat_div_distrib take_bit_eq_mod)
qed

lemma unat_handle_pack:
  assumes "unat slot < 65535"
  shows "unat (handle_pack slot g) = unat g * 65536 + unat slot + 1"
proof -
  have slot1: "unat (slot + 1) = unat slot + 1"
    using assms by (simp add: unat_word_ariths)
  have g: "unat g < 65536"
    using unsigned_less [of g, where ?'a = nat] by simp
  have disj: "push_bit 16 (ucast g :: u32) AND (slot + 1) = 0"
  proof (rule bit_eqI)
    fix n
    have "\<not> bit (slot + 1) n" if "16 \<le> n"
    proof -
      have "unat (take_bit 16 (slot + 1)) = unat (slot + 1) mod 65536"
        by (simp add: take_bit_eq_mod unat_mod_distrib)
      also have "\<dots> = unat (slot + 1)"
        using assms slot1 by simp
      finally have "take_bit 16 (slot + 1) = slot + 1"
        by (rule word_unat_eq_iff [THEN iffD2])
      then show ?thesis using that by (metis bit_take_bit_iff not_less)
    qed
    then show "bit (push_bit 16 (ucast g :: u32) AND (slot + 1)) n = bit (0 :: u32) n"
      by (auto simp: bit_and_iff bit_push_bit_iff)
  qed
  have sum: "handle_pack slot g = push_bit 16 (ucast g) + (slot + 1)"
    unfolding handle_pack_def using disj by (simp only: disjunctive_add_eq_or)
  have pb: "unat (push_bit 16 (ucast g :: u32)) = unat g * 65536"
    using g by (simp add: push_bit_eq_mult unat_word_ariths(2) unsigned_ucast_eq take_bit_eq_mod)
  show ?thesis
    unfolding sum using g assms by (simp add: unat_word_ariths(1) pb slot1)
qed

lemma handle_slot_pack:
  "unat slot < 65535 \<Longrightarrow> handle_slot (handle_pack slot g) = slot + 1"
  by (rule word_unat_eq_iff [THEN iffD2])
    (simp add: handle_slot_mod unat_handle_pack unat_word_ariths)

lemma handle_generation_pack:
  "unat slot < 65535 \<Longrightarrow> handle_generation (handle_pack slot g) = g"
  by (rule word_unat_eq_iff [THEN iffD2])
    (simp add: handle_generation_div unat_handle_pack)

lemma handle_pack_nonzero: "unat slot < 65535 \<Longrightarrow> handle_pack slot g \<noteq> 0"
  using unat_handle_pack [of slot g] by (metis add_is_0 one_neq_zero unat_0)

lemma handle_pack_unpack:
  assumes "handle_slot h \<noteq> 0" "unat (handle_slot h - 1) < 65535"
  shows "handle_pack (handle_slot h - 1) (handle_generation h) = h"
proof -
  have pos: "0 < unat (handle_slot h)"
    using assms(1) by (simp add: unat_gt_0)
  have "unat (handle_slot h - 1) = unat (handle_slot h) - 1"
    using assms(1) by (simp add: unat_minus_one)
  then have "unat (handle_pack (handle_slot h - 1) (handle_generation h)) = unat h"
    using assms(2) pos
    by (simp add: unat_handle_pack handle_generation_div handle_slot_mod)
  then show ?thesis by (rule word_unat_eq_iff [THEN iffD2])
qed

lemma slot_plus_1_nonzero: "w + 1 \<noteq> 0" if "unat (w :: u32) < 65535"
proof -
  have "unat (w + 1) = unat w + 1"
    using that by (simp add: unat_word_ariths)
  then show ?thesis by (auto simp: unat_eq_zero [symmetric])
qed

lemma unat_ucast_16_32 [simp]: "unat (ucast (w :: u16) :: u32) = unat w"
  using unsigned_less [of w, where ?'a = nat] by (simp add: unsigned_ucast_eq take_bit_eq_mod)

lemma unat_ucast_32_16: "unat w < 65536 \<Longrightarrow> unat (ucast (w :: u32) :: u16) = unat w"
  by (simp add: unsigned_ucast_eq take_bit_eq_mod)

lemma unat_handle_slot_minus_1: "unat (handle_slot h - 1) < 65536 \<or> handle_slot h = 0"
  using unat_minus_one [of "handle_slot h"] by (auto simp: handle_slot_mod)

section \<open>Interfaces\<close>

locale handle_codec =
  fixes enc :: "nat \<Rightarrow> u16 \<Rightarrow> u32"
    and dec :: "u32 \<Rightarrow> (nat \<times> u16) option"
    and size :: nat
  assumes dec_enc: "i < size \<Longrightarrow> dec (enc i g) = Some (i, g)"
    and enc_dec: "dec h = Some (i, g) \<Longrightarrow> i < size \<and> enc i g = h"
    and dec_zero: "dec 0 = None"
begin

lemma dec_slot_bound: "dec h = Some (i, g) \<Longrightarrow> i < size"
  by (simp add: enc_dec)

lemma dec_inj: "dec h = Some p \<Longrightarrow> dec h' = Some p \<Longrightarrow> h = h'"
  by (cases p) (metis enc_dec)

lemma enc_eq_iff: "i < size \<Longrightarrow> enc i g = h \<longleftrightarrow> dec h = Some (i, g)"
  using dec_enc enc_dec by blast

lemma enc_inj: "i < size \<Longrightarrow> j < size \<Longrightarrow> enc i g = enc j g' \<longleftrightarrow> i = j \<and> g = g'"
  using enc_eq_iff dec_enc by fastforce

lemma enc_nonzero: "i < size \<Longrightarrow> enc i g \<noteq> 0"
  using dec_enc [of i g] dec_zero by auto

end

locale generation_discipline =
  fixes gen :: "'st \<Rightarrow> nat \<Rightarrow> u16"
    and inv :: "'st \<Rightarrow> bool"
    and step :: "'op \<Rightarrow> 'st \<Rightarrow> 'st"
    and size :: nat
  assumes inv_step: "inv s \<Longrightarrow> inv (step a s)"
    and gen_step: "inv s \<Longrightarrow> i < size \<Longrightarrow>
      gen (step a s) i = gen s i \<or> gen (step a s) i = next_generation (gen s i)"
begin

lemma run_inv: "inv s \<Longrightarrow> inv (fold step as s)"
  by (induction as arbitrary: s) (simp_all add: inv_step)

lemma run_generation:
  "inv s \<Longrightarrow> i < size \<Longrightarrow>
     \<exists>k \<le> length as. gen (fold step as s) i = (next_generation ^^ k) (gen s i)"
proof (induction as arbitrary: s)
  case Nil
  then show ?case by simp
next
  case (Cons a as)
  obtain k where k: "k \<le> length as"
      "gen (fold step as (step a s)) i = (next_generation ^^ k) (gen (step a s) i)"
    using Cons.IH [of "step a s"] Cons.prems inv_step by blast
  from gen_step [OF Cons.prems] show ?case
  proof
    assume "gen (step a s) i = gen s i"
    with k show ?thesis by (intro exI [of _ k]) simp
  next
    assume "gen (step a s) i = next_generation (gen s i)"
    with k show ?thesis by (intro exI [of _ "Suc k"]) (simp add: funpow_swap1)
  qed
qed

text \<open>
  A generation that was left behind does not come back within the next 65533 operations,
  whatever they are.
\<close>

lemma run_stale:
  assumes "inv s" "i < size" "g \<noteq> 0" "gen s i = next_generation g" "length as < 65534"
  shows "gen (fold step as s) i \<noteq> g"
proof -
  obtain k where k: "k \<le> length as" "gen (fold step as s) i = (next_generation ^^ k) (gen s i)"
    using run_generation [OF assms(1,2)] by blast
  then have "gen (fold step as s) i = (next_generation ^^ Suc k) g"
    using assms(4) by (simp add: funpow_swap1)
  then show ?thesis
    using next_generation_iter_neq [OF assms(3), of "Suc k"] k(1) assms(5) by simp
qed

end


text \<open>
  A store of objects named by handles. \<^verbatim>\<open>grants\<close> says which requests may make an object appear and
  \<^verbatim>\<open>removes\<close> which may make one disappear; nothing else touches an object.
\<close>

locale handle_store =
  fixes view :: "'st \<Rightarrow> u32 \<Rightarrow> 'v option"
    and inv :: "'st \<Rightarrow> bool"
    and step :: "'op \<Rightarrow> 'st \<Rightarrow> 'st"
    and grants :: "'op \<Rightarrow> 'v \<Rightarrow> bool"
    and removes :: "'op \<Rightarrow> u32 \<Rightarrow> 'v \<Rightarrow> bool"
  assumes step_inv: "inv s \<Longrightarrow> inv (step a s)"
    and step_new: "inv s \<Longrightarrow> view (step a s) h = Some v \<Longrightarrow> view s h = Some v \<or> grants a v"
    and step_keep: "inv s \<Longrightarrow> view s h = Some v \<Longrightarrow> \<not> removes a h v \<Longrightarrow> view (step a s) h = Some v"
begin

lemma run_inv: "inv s \<Longrightarrow> inv (fold step as s)"
  by (induction as arbitrary: s) (simp_all add: step_inv)

lemma run_provenance:
  "inv s \<Longrightarrow> view (fold step as s) h = Some v \<Longrightarrow> view s h = Some v \<or> (\<exists>a \<in> set as. grants a v)"
  by (induction as arbitrary: s) (auto dest: step_new step_inv)

lemma run_persistence:
  "inv s \<Longrightarrow> view s h = Some v \<Longrightarrow> \<forall>a \<in> set as. \<not> removes a h v \<Longrightarrow> view (fold step as s) h = Some v"
  by (induction as arbitrary: s) (simp_all add: step_inv step_keep)

end

section \<open>The packing as a codec\<close>

text \<open>The common decoder of 32-bit handles, for a table of \<^verbatim>\<open>n\<close> slots, and its encoder.\<close>

definition slot_encode :: "nat \<Rightarrow> u16 \<Rightarrow> u32" where
  "slot_encode i g = handle_pack (of_nat i) g"

definition slot_decode :: "nat \<Rightarrow> u32 \<Rightarrow> (nat \<times> u16) option" where
  "slot_decode n h =
     (if h = 0 \<or> handle_slot h = 0 \<or> n \<le> unat (handle_slot h - 1) then None
      else Some (unat (handle_slot h - 1), handle_generation h))"

lemma slot_codec:
  assumes "n \<le> 65535"
  shows "handle_codec slot_encode (slot_decode n) n"
proof
  fix i g
  assume i: "i < n"
  then have u: "unat (of_nat i :: u32) = i"
    using assms by (simp add: unat_of_nat)
  then show "slot_decode n (slot_encode i g) = Some (i, g)"
    using i assms slot_plus_1_nonzero [of "of_nat i"]
    by (simp add: slot_decode_def slot_encode_def handle_pack_nonzero handle_slot_pack handle_generation_pack)
next
  fix h i g
  assume d: "slot_decode n h = Some (i, g)"
  then have "of_nat i = handle_slot h - 1" "unat (handle_slot h - 1) < 65535"
    using assms by (auto simp: slot_decode_def split: if_splits)
  then show "i < n \<and> slot_encode i g = h"
    using d handle_pack_unpack [of h] by (auto simp: slot_decode_def slot_encode_def split: if_splits)
next
  show "slot_decode n 0 = None" by (simp add: slot_decode_def)
qed

end
