(* ===== verification/Fixed_Alloc.thy ===== *)
theory Fixed_Alloc
  imports Handles
begin

text \<open>
  The page-pool allocator of \<^verbatim>\<open>memory/allocator/fixed.c\<close>. The state is the static table
  \<^verbatim>\<open>allocations\<close>, one entry per page of the pool; the pool's bytes are never touched by these
  functions, so a data pointer is the offset of a page in the pool. Sizes are 64-bit, so the
  rounding of a size to pages wraps as it does in C. The allocator is shown to keep its live blocks
  disjoint and to be a store of regions named by handles.
\<close>

section \<open>Data and operations\<close>

definition LETTUCE_MEMORY_PAGES :: nat where "LETTUCE_MEMORY_PAGES = 64"

abbreviation LETTUCE_MEMORY_PAGE_SIZE :: u64 where "LETTUCE_MEMORY_PAGE_SIZE \<equiv> 4096"
abbreviation UINT16_MAX :: u64 where "UINT16_MAX \<equiv> 65535"

record Allocation =
  al_first_page :: u16
  al_page_count :: u16
  al_domain :: domain_id
  al_generation :: u16
  al_active :: bool
  al_reserved :: u8

type_synonym allocations = "Allocation list"

definition free_allocation :: "u16 \<Rightarrow> Allocation" where
  "free_allocation g = \<lparr>al_first_page = 0, al_page_count = 0, al_domain = 0, al_generation = g,
     al_active = False, al_reserved = 0\<rparr>"

definition memory_decode_handle :: "u32 \<Rightarrow> (nat \<times> u16) option" where
  "memory_decode_handle handle =
     (if handle = 0 \<or> handle_slot handle = 0 then None
      else let first_page = unat (handle_slot handle - 1) in
        if first_page < LETTUCE_MEMORY_PAGES then Some (first_page, handle_generation handle) else None)"

definition lettuce_memory_init :: "allocations \<Rightarrow> LettuceStatus \<times> allocations" where
  "lettuce_memory_init st =
     (LETTUCE_STATUS_OK,
      map (\<lambda>a. free_allocation (if al_generation a = 0 then 1 else al_generation a)) st)"

text \<open>The inner scan of a candidate span, the outer first-fit scan, and the loop that fills a span.\<close>

fun span_free :: "allocations \<Rightarrow> nat \<Rightarrow> nat \<Rightarrow> bool" where
  "span_free st start 0 = True"
| "span_free st start (Suc n) = (if al_active (st ! start) then False else span_free st (Suc start) n)"

function find_span :: "allocations \<Rightarrow> nat \<Rightarrow> nat \<Rightarrow> nat option" where
  "find_span st pages start =
     (if start + pages \<le> LETTUCE_MEMORY_PAGES
      then if span_free st start pages then Some start else find_span st pages (Suc start)
      else None)"
  by auto
termination
  by (relation "measure (\<lambda>(st, pages, start). Suc LETTUCE_MEMORY_PAGES - start)") auto

definition fill_span :: "nat \<Rightarrow> nat \<Rightarrow> Allocation \<Rightarrow> allocations \<Rightarrow> allocations" where
  "fill_span start count a st = fold (\<lambda>page t. t[start + page := a]) [0..<count] st"

text \<open>
  The handle is returned through a pointer: \<^verbatim>\<open>out\<close> says whether it is non-NULL, and the result
  carries the handle that was written, if any.
\<close>

definition lettuce_memory_allocate ::
  "domain_id \<Rightarrow> u64 \<Rightarrow> bool \<Rightarrow> allocations \<Rightarrow> LettuceStatus \<times> u32 option \<times> allocations" where
  "lettuce_memory_allocate domain bytes out st =
     (if domain = LETTUCE_DOMAIN_ID_INVALID \<or> bytes = 0 \<or> \<not> out
      then (LETTUCE_STATUS_INVALID_ARGUMENT, None, st)
      else
        let pages = (bytes + LETTUCE_MEMORY_PAGE_SIZE - 1) div LETTUCE_MEMORY_PAGE_SIZE in
        if pages > UINT16_MAX then (LETTUCE_STATUS_OVERFLOW, None, st)
        else case find_span st (unat pages) 0 of
          None \<Rightarrow> (LETTUCE_STATUS_UNAVAILABLE, None, st)
        | Some start \<Rightarrow>
            let gen = (if al_generation (st ! start) = 0 then 1 else al_generation (st ! start));
                alloc = \<lparr>al_first_page = of_nat start, al_page_count = ucast pages, al_domain = domain,
                         al_generation = gen, al_active = True, al_reserved = 0\<rparr>
            in (LETTUCE_STATUS_OK, Some (handle_pack (of_nat start) gen),
                fill_span start (unat pages) alloc st))"

definition lettuce_memory_release ::
  "u32 \<Rightarrow> domain_id \<Rightarrow> allocations \<Rightarrow> LettuceStatus \<times> allocations" where
  "lettuce_memory_release handle domain st =
     (if domain = LETTUCE_DOMAIN_ID_INVALID then (LETTUCE_STATUS_INVALID_ARGUMENT, st)
      else case memory_decode_handle handle of
        None \<Rightarrow> (LETTUCE_STATUS_INVALID_ARGUMENT, st)
      | Some (start, generation) \<Rightarrow>
          let a = st ! start in
          if \<not> al_active a \<or> al_generation a \<noteq> generation then (LETTUCE_STATUS_NOT_FOUND, st)
          else if unat (al_first_page a) \<noteq> start then (LETTUCE_STATUS_NOT_FOUND, st)
          else if al_domain a \<noteq> domain then (LETTUCE_STATUS_DENIED, st)
          else (LETTUCE_STATUS_OK,
                fill_span start (unat (al_page_count a))
                  (free_allocation (next_generation (al_generation a))) st))"

definition lettuce_memory_data :: "allocations \<Rightarrow> u32 \<Rightarrow> domain_id \<Rightarrow> nat option" where
  "lettuce_memory_data st handle domain =
     (if domain = LETTUCE_DOMAIN_ID_INVALID then None
      else case memory_decode_handle handle of
        None \<Rightarrow> None
      | Some (start, generation) \<Rightarrow>
          let a = st ! start in
          if \<not> al_active a \<or> al_generation a \<noteq> generation then None
          else if unat (al_first_page a) \<noteq> start then None
          else if al_domain a \<noteq> domain then None
          else Some (start * unat LETTUCE_MEMORY_PAGE_SIZE))"

text \<open>The static table before the first call of \<^const>\<open>lettuce_memory_init\<close> is zero.\<close>

definition memory_boot :: allocations where
  "memory_boot = replicate LETTUCE_MEMORY_PAGES (free_allocation 0)"

section \<open>Invariant and abstract view\<close>

record region =
  rg_domain :: domain_id
  rg_first :: nat
  rg_count :: nat

definition region_of :: "Allocation \<Rightarrow> region" where
  "region_of a = \<lparr>rg_domain = al_domain a, rg_first = unat (al_first_page a), rg_count = unat (al_page_count a)\<rparr>"

definition region_pages :: "region \<Rightarrow> nat set" where
  "region_pages r = {rg_first r ..< rg_first r + rg_count r}"

definition mem_view :: "allocations \<Rightarrow> u32 \<Rightarrow> region option" where
  "mem_view st h =
     (case memory_decode_handle h of
        None \<Rightarrow> None
      | Some (i, g) \<Rightarrow>
          if al_active (st ! i) \<and> al_generation (st ! i) = g \<and> unat (al_first_page (st ! i)) = i
          then Some (region_of (st ! i)) else None)"

definition run_ok :: "allocations \<Rightarrow> nat \<Rightarrow> bool" where
  "run_ok st i \<longleftrightarrow>
     (let r = region_of (st ! i) in
      i \<in> region_pages r \<and> rg_first r + rg_count r \<le> LETTUCE_MEMORY_PAGES \<and> rg_domain r \<noteq> 0 \<and>
      (\<forall>j \<in> region_pages r. st ! j = st ! i))"

definition mem_inv :: "allocations \<Rightarrow> bool" where
  "mem_inv st \<longleftrightarrow> length st = LETTUCE_MEMORY_PAGES \<and>
     (\<forall>i < LETTUCE_MEMORY_PAGES. al_generation (st ! i) \<noteq> 0 \<and> (al_active (st ! i) \<longrightarrow> run_ok st i))"

section \<open>Scans and fills\<close>

lemma span_free_iff: "span_free st start n \<longleftrightarrow> (\<forall>i \<in> {start ..< start + n}. \<not> al_active (st ! i))"
proof (induction n arbitrary: start)
  case (Suc n)
  have "{start ..< start + Suc n} = insert start {Suc start ..< Suc start + n}" by auto
  then show ?case using Suc.IH [of "Suc start"] by simp
qed simp

declare find_span.simps [simp del]

lemma find_span_Some:
  "find_span st n s = Some k \<Longrightarrow>
     s \<le> k \<and> k + n \<le> LETTUCE_MEMORY_PAGES \<and> span_free st k n \<and> (\<forall>j. s \<le> j \<and> j < k \<longrightarrow> \<not> span_free st j n)"
proof (induction st n s rule: find_span.induct)
  case (1 st n s)
  show ?case
  proof (cases "span_free st s n")
    case True
    then show ?thesis using "1.prems" by (auto simp: find_span.simps [of st n s] split: if_splits)
  next
    case False
    then have "s + n \<le> LETTUCE_MEMORY_PAGES" "find_span st n (Suc s) = Some k"
      using "1.prems" by (auto simp: find_span.simps [of st n s] split: if_splits)
    then show ?thesis using "1.IH" False by (metis Suc_leD Suc_leI le_neq_implies_less)
  qed
qed

lemma find_span_None:
  "find_span st n s = None \<Longrightarrow> s \<le> k \<Longrightarrow> k + n \<le> LETTUCE_MEMORY_PAGES \<Longrightarrow> \<not> span_free st k n"
proof (induction st n s rule: find_span.induct)
  case (1 st n s)
  from "1.prems" have "\<not> span_free st s n" "find_span st n (Suc s) = None"
    by (auto simp: find_span.simps [of st n s] split: if_splits)
  then show ?case using "1.IH" "1.prems" by (metis Suc_leI le_neq_implies_less add_le_mono1 order_trans)
qed

lemma length_fill_span [simp]: "length (fill_span start n a st) = length st"
  by (induction n) (simp_all add: fill_span_def)

lemma nth_fill_span:
  "i < length st \<Longrightarrow> fill_span start n a st ! i = (if start \<le> i \<and> i < start + n then a else st ! i)"
proof (induction n)
  case (Suc n)
  have "fill_span start (Suc n) a st = (fill_span start n a st)[start + n := a]"
    by (simp add: fill_span_def)
  then show ?case using Suc by (cases "i = start + n") (simp_all add: nth_list_update less_Suc_eq)
qed (auto simp: fill_span_def)

interpretation mem_codec: handle_codec slot_encode memory_decode_handle LETTUCE_MEMORY_PAGES
proof -
  have "memory_decode_handle = slot_decode LETTUCE_MEMORY_PAGES"
    by (auto simp: memory_decode_handle_def slot_decode_def Let_def fun_eq_iff not_le)
  then show "handle_codec slot_encode memory_decode_handle LETTUCE_MEMORY_PAGES"
    using slot_codec [of LETTUCE_MEMORY_PAGES] by (simp add: LETTUCE_MEMORY_PAGES_def)
qed


section \<open>Fills keep the invariant\<close>

lemma mem_inv_run: "mem_inv st \<Longrightarrow> i < LETTUCE_MEMORY_PAGES \<Longrightarrow> al_active (st ! i) \<Longrightarrow> run_ok st i"
  by (simp add: mem_inv_def)

lemma run_ok_iff:
  "run_ok st i \<longleftrightarrow> i \<in> region_pages (region_of (st ! i)) \<and>
     rg_first (region_of (st ! i)) + rg_count (region_of (st ! i)) \<le> LETTUCE_MEMORY_PAGES \<and>
     rg_domain (region_of (st ! i)) \<noteq> 0 \<and> (\<forall>j \<in> region_pages (region_of (st ! i)). st ! j = st ! i)"
  unfolding run_ok_def Let_def by (rule refl)

lemma run_okD:
  assumes "run_ok st i"
  shows "i \<in> region_pages (region_of (st ! i))"
    "rg_first (region_of (st ! i)) + rg_count (region_of (st ! i)) \<le> LETTUCE_MEMORY_PAGES"
    "rg_domain (region_of (st ! i)) \<noteq> 0"
    "j \<in> region_pages (region_of (st ! i)) \<Longrightarrow> st ! j = st ! i"
  using assms unfolding run_ok_iff by blast+

lemma region_bound: "run_ok st i \<Longrightarrow> j \<in> region_pages (region_of (st ! i)) \<Longrightarrow> j < LETTUCE_MEMORY_PAGES"
  using run_okD(2) [of st i] by (simp add: region_pages_def)

lemma inv_fill:
  assumes inv: "mem_inv st" and k: "k + n \<le> LETTUCE_MEMORY_PAGES" and g: "al_generation a \<noteq> 0"
    and a: "al_active a \<Longrightarrow> rg_domain (region_of a) \<noteq> 0 \<and> rg_first (region_of a) = k \<and> rg_count (region_of a) = n"
    and sep: "\<And>i. i < LETTUCE_MEMORY_PAGES \<Longrightarrow> al_active (st ! i) \<Longrightarrow> i \<notin> {k ..< k + n} \<Longrightarrow>
      region_pages (region_of (st ! i)) \<inter> {k ..< k + n} = {}"
  shows "mem_inv (fill_span k n a st)"
proof -
  let ?st = "fill_span k n a st"
  have len: "length st = LETTUCE_MEMORY_PAGES" using inv by (simp add: mem_inv_def)
  have nth: "?st ! i = (if i \<in> {k ..< k + n} then a else st ! i)" if "i < LETTUCE_MEMORY_PAGES" for i
    using nth_fill_span [of i st k n a] that len by simp
  have "run_ok ?st i" if i: "i < LETTUCE_MEMORY_PAGES" and act: "al_active (?st ! i)" for i
  proof (cases "i \<in> {k ..< k + n}")
    case True
    then have e: "?st ! i = a" using nth [OF i] by simp
    have pages: "region_pages (region_of a) = {k ..< k + n}"
      using a act e by (simp add: region_pages_def)
    have "?st ! j = a" if "j \<in> {k ..< k + n}" for j
      using nth [of j] that k by simp
    then show ?thesis
      using a act e k True pages unfolding run_ok_iff e pages by blast
  next
    case False
    then have e: "?st ! i = st ! i" and act': "al_active (st ! i)"
      using nth [OF i] act by auto
    have ok: "run_ok st i" by (rule mem_inv_run [OF inv i act'])
    have "?st ! j = st ! j" if "j \<in> region_pages (region_of (st ! i))" for j
      using nth [OF region_bound [OF ok that]] sep [OF i act' False] that by auto
    then show ?thesis using ok unfolding run_ok_iff e by metis
  qed
  moreover have "al_generation (?st ! i) \<noteq> 0" if "i < LETTUCE_MEMORY_PAGES" for i
    using nth [OF that] g inv that by (simp add: mem_inv_def)
  ultimately show ?thesis using len by (simp add: mem_inv_def)
qed

text \<open>Two live pages belong to the same block or to disjoint blocks.\<close>

lemma regions_disjoint:
  assumes "mem_inv st" "i < LETTUCE_MEMORY_PAGES" "al_active (st ! i)" "j < LETTUCE_MEMORY_PAGES" "al_active (st ! j)"
    "region_pages (region_of (st ! i)) \<inter> region_pages (region_of (st ! j)) \<noteq> {}"
  shows "st ! i = st ! j"
  using run_okD(4) [OF mem_inv_run [OF assms(1-3)]] run_okD(4) [OF mem_inv_run [OF assms(1,4,5)]] assms(6)
  by (metis disjoint_iff)

section \<open>Allocation\<close>

definition pages_of :: "u64 \<Rightarrow> nat" where
  "pages_of bytes = unat ((bytes + LETTUCE_MEMORY_PAGE_SIZE - 1) div LETTUCE_MEMORY_PAGE_SIZE)"

lemma pages_of_exact:
  assumes "0 < unat bytes" "unat bytes \<le> 2 ^ 64 - 4096"
  shows "pages_of bytes = (unat bytes + 4095) div 4096" "0 < pages_of bytes"
proof -
  have "unat (bytes + 4096 - 1) = unat bytes + 4095"
    using assms by (simp add: unat_word_ariths)
  then show "pages_of bytes = (unat bytes + 4095) div 4096"
    by (simp add: pages_of_def unat_div_distrib)
  then show "0 < pages_of bytes" using assms by simp
qed

lemma unat_ucast_64_16: "unat w < 65536 \<Longrightarrow> unat (ucast (w :: u64) :: u16) = unat w"
  by (simp add: unsigned_ucast_eq take_bit_eq_mod)

definition new_allocation :: "domain_id \<Rightarrow> nat \<Rightarrow> nat \<Rightarrow> u16 \<Rightarrow> Allocation" where
  "new_allocation domain start pages gen =
     \<lparr>al_first_page = of_nat start, al_page_count = of_nat pages, al_domain = domain,
      al_generation = gen, al_active = True, al_reserved = 0\<rparr>"

lemma region_new_allocation:
  assumes "k + n \<le> LETTUCE_MEMORY_PAGES"
  shows "region_of (new_allocation d k n g) = \<lparr>rg_domain = d, rg_first = k, rg_count = n\<rparr>"
  using assms by (simp add: region_of_def new_allocation_def unat_of_nat LETTUCE_MEMORY_PAGES_def)

lemma allocate_cases:
  assumes "mem_inv st"
  shows "lettuce_memory_allocate d bytes out st =
    (if d = 0 \<or> bytes = 0 \<or> \<not> out then (LETTUCE_STATUS_INVALID_ARGUMENT, None, st)
     else if 65535 < pages_of bytes then (LETTUCE_STATUS_OVERFLOW, None, st)
     else case find_span st (pages_of bytes) 0 of
         None \<Rightarrow> (LETTUCE_STATUS_UNAVAILABLE, None, st)
       | Some k \<Rightarrow> (LETTUCE_STATUS_OK, Some (slot_encode k (al_generation (st ! k))),
           fill_span k (pages_of bytes) (new_allocation d k (pages_of bytes) (al_generation (st ! k))) st))"
proof -
  let ?p = "(bytes + LETTUCE_MEMORY_PAGE_SIZE - 1) div LETTUCE_MEMORY_PAGE_SIZE"
  have big: "UINT16_MAX < ?p \<longleftrightarrow> 65535 < pages_of bytes"
    by (simp add: pages_of_def word_less_nat_alt)
  have cnt: "(ucast ?p :: u16) = of_nat (pages_of bytes)"
    by (simp add: pages_of_def)
  have gen: "al_generation (st ! k) \<noteq> 0" if "find_span st n 0 = Some k" "0 < n \<or> k < LETTUCE_MEMORY_PAGES" for k n
    using assms find_span_Some [OF that(1)] that(2) by (auto simp: mem_inv_def)
  have z: "find_span st 0 0 = Some 0" by (simp add: find_span.simps)
  have gen': "al_generation (st ! k) \<noteq> 0" if "find_span st (pages_of bytes) 0 = Some k" for k
    using gen [OF that] that z by (cases "pages_of bytes") (auto simp: LETTUCE_MEMORY_PAGES_def)
  show ?thesis
    unfolding lettuce_memory_allocate_def Let_def big cnt pages_of_def [symmetric] new_allocation_def slot_encode_def
    by (auto simp: gen' split: option.split)
qed


lemma mem_view_Some:
  "mem_view st h = Some r \<longleftrightarrow>
     (\<exists>i. i < LETTUCE_MEMORY_PAGES \<and> h = slot_encode i (al_generation (st ! i)) \<and> al_active (st ! i) \<and>
        unat (al_first_page (st ! i)) = i \<and> r = region_of (st ! i))"
proof
  assume "mem_view st h = Some r"
  then show "\<exists>i. i < LETTUCE_MEMORY_PAGES \<and> h = slot_encode i (al_generation (st ! i)) \<and> al_active (st ! i) \<and>
        unat (al_first_page (st ! i)) = i \<and> r = region_of (st ! i)"
    using mem_codec.enc_dec [of h] by (auto simp: mem_view_def split: option.splits if_splits)
next
  assume "\<exists>i. i < LETTUCE_MEMORY_PAGES \<and> h = slot_encode i (al_generation (st ! i)) \<and> al_active (st ! i) \<and>
        unat (al_first_page (st ! i)) = i \<and> r = region_of (st ! i)"
  then show "mem_view st h = Some r"
    using mem_codec.dec_enc by (auto simp: mem_view_def)
qed

lemma free_span_sep:
  assumes "mem_inv st" "span_free st k n" "i < LETTUCE_MEMORY_PAGES" "al_active (st ! i)"
  shows "region_pages (region_of (st ! i)) \<inter> {k ..< k + n} = {}"
proof -
  have "st ! j = st ! i" if "j \<in> region_pages (region_of (st ! i))" for j
    by (rule run_okD(4) [OF mem_inv_run [OF assms(1,3,4)] that])
  then show ?thesis using assms(2,4) unfolding span_free_iff by fastforce
qed

lemma allocate_effect:
  assumes inv: "mem_inv st" and span: "find_span st n 0 = Some k" and n: "0 < n" and d: "d \<noteq> 0"
  defines "st' \<equiv> fill_span k n (new_allocation d k n (al_generation (st ! k))) st"
  shows "mem_inv st'"
    and "mem_view st (slot_encode k (al_generation (st ! k))) = None"
    and "mem_view st' = (mem_view st)(slot_encode k (al_generation (st ! k)) \<mapsto>
           \<lparr>rg_domain = d, rg_first = k, rg_count = n\<rparr>)"
proof -
  let ?a = "new_allocation d k n (al_generation (st ! k))"
  have k: "k + n \<le> LETTUCE_MEMORY_PAGES" and free: "span_free st k n"
    using find_span_Some [OF span] by auto
  have len: "length st = LETTUCE_MEMORY_PAGES" using inv by (simp add: mem_inv_def)
  have g: "al_generation (st ! k) \<noteq> 0" using inv k n by (simp add: mem_inv_def)
  have off: "\<not> al_active (st ! i)" if "i \<in> {k ..< k + n}" for i
    using free that unfolding span_free_iff by blast
  have nth: "st' ! i = (if i \<in> {k ..< k + n} then ?a else st ! i)" if "i < LETTUCE_MEMORY_PAGES" for i
    using nth_fill_span [of i st k n ?a] that len by (simp add: st'_def)
  show "mem_inv st'"
    unfolding st'_def
    by (rule inv_fill [OF inv k])
      (use d g region_new_allocation [OF k] free_span_sep [OF inv free] in \<open>simp_all add: new_allocation_def\<close>)
  show "mem_view st (slot_encode k (al_generation (st ! k))) = None"
    using mem_codec.dec_enc [of k] k n off [of k] by (simp add: mem_view_def)
  show "mem_view st' = (mem_view st)(slot_encode k (al_generation (st ! k)) \<mapsto>
      \<lparr>rg_domain = d, rg_first = k, rg_count = n\<rparr>)"
  proof
    fix h
    show "mem_view st' h = ((mem_view st)(slot_encode k (al_generation (st ! k)) \<mapsto>
      \<lparr>rg_domain = d, rg_first = k, rg_count = n\<rparr>)) h"
    proof (cases "memory_decode_handle h")
      case None
      then show ?thesis using mem_codec.dec_enc [of k] k n by (auto simp: mem_view_def)
    next
      case (Some p)
      then obtain i g where dec: "memory_decode_handle h = Some (i, g)" by (cases p) auto
      then have i: "i < LETTUCE_MEMORY_PAGES" by (rule mem_codec.dec_slot_bound)
      have h: "h = slot_encode k (al_generation (st ! k)) \<longleftrightarrow> i = k \<and> g = al_generation (st ! k)"
        using mem_codec.enc_eq_iff [of k "al_generation (st ! k)" h] k n dec unfolding eq_commute [of h] by auto
      have fp: "unat (of_nat k :: u16) = k"
        using k by (simp add: unat_of_nat LETTUCE_MEMORY_PAGES_def)
      show ?thesis
      proof (cases "i \<in> {k ..< k + n}")
        case True
        then show ?thesis using dec h nth [OF i] off [of i] fp region_new_allocation [OF k]
          by (auto simp: mem_view_def new_allocation_def)
      next
        case False
        then show ?thesis using dec h nth [OF i] n by (auto simp: mem_view_def)
      qed
    qed
  qed
qed

section \<open>Release\<close>

lemma release_cases:
  "lettuce_memory_release h d st =
    (if d = 0 \<or> memory_decode_handle h = None then (LETTUCE_STATUS_INVALID_ARGUMENT, st)
     else case mem_view st h of
         None \<Rightarrow> (LETTUCE_STATUS_NOT_FOUND, st)
       | Some r \<Rightarrow> if rg_domain r \<noteq> d then (LETTUCE_STATUS_DENIED, st)
           else (LETTUCE_STATUS_OK, fill_span (rg_first r) (rg_count r)
             (free_allocation (next_generation (al_generation (st ! rg_first r)))) st))"
  by (auto simp: lettuce_memory_release_def mem_view_def Let_def region_of_def split: option.split)

lemma data_cases:
  "lettuce_memory_data st h d =
    (case mem_view st h of
       None \<Rightarrow> None
     | Some r \<Rightarrow> if d = 0 \<or> rg_domain r \<noteq> d then None else Some (rg_first r * 4096))"
  by (auto simp: lettuce_memory_data_def mem_view_def Let_def region_of_def split: option.split)

lemma release_effect:
  assumes inv: "mem_inv st" and view: "mem_view st h = Some r"
  defines "st' \<equiv> fill_span (rg_first r) (rg_count r)
    (free_allocation (next_generation (al_generation (st ! rg_first r)))) st"
  shows "mem_inv st'" and "mem_view st' = (mem_view st)(h := None)"
proof -
  let ?a = "free_allocation (next_generation (al_generation (st ! rg_first r)))"
  obtain k where k: "k < LETTUCE_MEMORY_PAGES" "h = slot_encode k (al_generation (st ! k))" "al_active (st ! k)"
      "unat (al_first_page (st ! k)) = k" "r = region_of (st ! k)"
    using view unfolding mem_view_Some by blast
  let ?n = "rg_count r"
  have first: "rg_first r = k" using k by (simp add: region_of_def)
  have pages: "region_pages r = {k ..< k + ?n}" by (simp add: region_pages_def first)
  have ok: "run_ok st k" by (rule mem_inv_run [OF inv k(1,3)])
  have bound: "k + ?n \<le> LETTUCE_MEMORY_PAGES" using run_okD(2) [OF ok] first k(5) by simp
  have kn: "k \<in> {k ..< k + ?n}" using run_okD(1) [OF ok] k(5) pages by simp
  have same: "st ! j = st ! k" if "j \<in> {k ..< k + ?n}" for j
    using run_okD(4) [OF ok, of j] that pages k(5) by simp
  have len: "length st = LETTUCE_MEMORY_PAGES" using inv by (simp add: mem_inv_def)
  have nth: "st' ! i = (if i \<in> {k ..< k + ?n} then ?a else st ! i)" if "i < LETTUCE_MEMORY_PAGES" for i
    using nth_fill_span [of i st k ?n ?a] that len first by (simp add: st'_def)
  have sep: "region_pages (region_of (st ! i)) \<inter> {k ..< k + ?n} = {}"
    if "i < LETTUCE_MEMORY_PAGES" "al_active (st ! i)" "i \<notin> {k ..< k + ?n}" for i
  proof (rule ccontr)
    assume "region_pages (region_of (st ! i)) \<inter> {k ..< k + ?n} \<noteq> {}"
    then have "st ! i = st ! k"
      using regions_disjoint [OF inv that(1,2) k(1,3)] pages k(5) by simp
    then show False
      using run_okD(1) [OF mem_inv_run [OF inv that(1,2)]] pages k(5) that(3) by simp
  qed
  show "mem_inv st'"
    unfolding st'_def first
    by (rule inv_fill [OF inv bound]) (use sep in \<open>simp_all add: free_allocation_def\<close>)
  show "mem_view st' = (mem_view st)(h := None)"
  proof
    fix h'
    show "mem_view st' h' = ((mem_view st)(h := None)) h'"
    proof (cases "memory_decode_handle h'")
      case None
      then show ?thesis by (simp add: mem_view_def)
    next
      case (Some p)
      then obtain i g where dec: "memory_decode_handle h' = Some (i, g)" by (cases p) auto
      then have i: "i < LETTUCE_MEMORY_PAGES" by (rule mem_codec.dec_slot_bound)
      have h: "h' = h \<longleftrightarrow> i = k \<and> g = al_generation (st ! k)"
        using mem_codec.enc_eq_iff [OF k(1), of "al_generation (st ! k)" h'] k(2) dec
        unfolding eq_commute [of h'] by auto
      show ?thesis
      proof (cases "i \<in> {k ..< k + ?n}")
        case True
        then have e: "st ! i = st ! k" by (rule same)
        show ?thesis
          by (cases "i = k") (use True dec h nth [OF i] k(4) e in \<open>simp_all add: mem_view_def free_allocation_def\<close>)
      next
        case False
        then show ?thesis using dec h nth [OF i] kn by (auto simp: mem_view_def)
      qed
    qed
  qed
qed


section \<open>Sequences of requests\<close>

datatype mem_op = MemAllocate domain_id u64 bool | MemRelease u32 domain_id

fun mem_step :: "mem_op \<Rightarrow> allocations \<Rightarrow> allocations" where
  "mem_step (MemAllocate d bytes out) st = snd (snd (lettuce_memory_allocate d bytes out st))"
| "mem_step (MemRelease h d) st = snd (lettuce_memory_release h d st)"

fun mem_grants :: "mem_op \<Rightarrow> region \<Rightarrow> bool" where
  "mem_grants (MemAllocate d bytes out) r \<longleftrightarrow> rg_domain r = d \<and> rg_count r = pages_of bytes"
| "mem_grants (MemRelease h d) r \<longleftrightarrow> False"

fun mem_removes :: "mem_op \<Rightarrow> u32 \<Rightarrow> region \<Rightarrow> bool" where
  "mem_removes (MemAllocate d bytes out) h r \<longleftrightarrow> False"
| "mem_removes (MemRelease h' d) h r \<longleftrightarrow> h' = h \<and> d = rg_domain r"

lemma fill_span_empty [simp]: "fill_span k 0 a st = st"
  by (simp add: fill_span_def)

lemma allocate_step_cases:
  assumes "mem_inv st"
  obtains (same) "mem_step (MemAllocate d bytes out) st = st"
  | (new) k where "find_span st (pages_of bytes) 0 = Some k" "0 < pages_of bytes" "d \<noteq> 0"
      "mem_step (MemAllocate d bytes out) st =
         fill_span k (pages_of bytes) (new_allocation d k (pages_of bytes) (al_generation (st ! k))) st"
proof (cases "d = 0 \<or> bytes = 0 \<or> \<not> out \<or> 65535 < pages_of bytes \<or> pages_of bytes = 0 \<or>
    find_span st (pages_of bytes) 0 = None")
  case True
  then have "mem_step (MemAllocate d bytes out) st = st"
    by (auto simp: allocate_cases [OF assms] split: option.split)
  then show ?thesis by (rule same)
next
  case False
  then obtain k where "find_span st (pages_of bytes) 0 = Some k" by auto
  with False show ?thesis by (intro new [of k]) (simp_all add: allocate_cases [OF assms])
qed

lemma mem_step_inv: "mem_inv st \<Longrightarrow> mem_inv (mem_step a st)"
proof (cases a)
  case (MemAllocate d bytes out)
  assume inv: "mem_inv st"
  show ?thesis unfolding MemAllocate
    by (rule allocate_step_cases [OF inv, of d bytes out]) (use inv allocate_effect(1) [OF inv] in simp_all)
next
  case (MemRelease h d)
  assume inv: "mem_inv st"
  show ?thesis using inv release_effect(1) [OF inv, of h]
    by (auto simp: MemRelease release_cases split: option.split)
qed

interpretation mem_store: handle_store mem_view mem_inv mem_step mem_grants mem_removes
proof
  fix st a h r
  assume inv: "mem_inv st"
  then show "mem_inv (mem_step a st)" by (rule mem_step_inv)
  show "mem_view st h = Some r \<or> mem_grants a r" if v: "mem_view (mem_step a st) h = Some r"
  proof (cases a)
    case (MemAllocate d bytes out)
    show ?thesis
      by (rule allocate_step_cases [OF inv, of d bytes out])
        (use v allocate_effect(3) [OF inv] in \<open>auto simp del: mem_step.simps simp: MemAllocate split: if_splits\<close>)
  next
    case (MemRelease h' d)
    then show ?thesis using v release_effect(2) [OF inv, of h']
      by (auto simp: release_cases split: option.splits if_splits)
  qed
  show "mem_view (mem_step a st) h = Some r" if v: "mem_view st h = Some r" and k: "\<not> mem_removes a h r"
  proof (cases a)
    case (MemAllocate d bytes out)
    show ?thesis
      by (rule allocate_step_cases [OF inv, of d bytes out])
        (use v allocate_effect(2,3) [OF inv] in \<open>auto simp del: mem_step.simps simp: MemAllocate\<close>)
  next
    case (MemRelease h' d)
    then show ?thesis using v k release_effect(2) [OF inv, of h']
      by (auto simp: release_cases split: option.splits if_splits)
  qed
qed

definition memory_start :: allocations where
  "memory_start = snd (lettuce_memory_init memory_boot)"

lemma memory_start_eq: "memory_start = replicate LETTUCE_MEMORY_PAGES (free_allocation 1)"
  by (simp add: memory_start_def lettuce_memory_init_def memory_boot_def free_allocation_def)

lemma mem_inv_start: "mem_inv memory_start"
  by (simp add: memory_start_eq mem_inv_def free_allocation_def)

lemma mem_view_start: "mem_view memory_start h = None"
  using mem_codec.dec_slot_bound [of h]
  by (auto simp: mem_view_def memory_start_eq free_allocation_def split: option.splits)

text \<open>What a data pointer in a reachable state says about the block behind it.\<close>

lemma reachable_block:
  assumes "lettuce_memory_data (fold mem_step ops memory_start) h d = Some p"
  defines "st \<equiv> fold mem_step ops memory_start"
  shows "\<exists>i r. i < LETTUCE_MEMORY_PAGES \<and> al_active (st ! i) \<and> r = region_of (st ! i) \<and>
      h = slot_encode i (al_generation (st ! i)) \<and> rg_first r = i \<and> p = 4096 * rg_first r \<and>
      0 < rg_count r \<and> rg_first r + rg_count r \<le> LETTUCE_MEMORY_PAGES \<and>
      (\<exists>bytes out. MemAllocate d bytes out \<in> set ops \<and> pages_of bytes = rg_count r)"
proof -
  have inv: "mem_inv st" unfolding st_def by (rule mem_store.run_inv [OF mem_inv_start])
  obtain r where v: "mem_view st h = Some r" and r: "rg_domain r = d" "p = 4096 * rg_first r"
    using assms(1) by (auto simp: st_def data_cases split: option.splits if_splits)
  obtain i where i: "i < LETTUCE_MEMORY_PAGES" "h = slot_encode i (al_generation (st ! i))" "al_active (st ! i)"
      "unat (al_first_page (st ! i)) = i" "r = region_of (st ! i)"
    using v unfolding mem_view_Some by blast
  have ok: "run_ok st i" by (rule mem_inv_run [OF inv i(1,3)])
  obtain a where a: "a \<in> set ops" "mem_grants a r"
    using mem_store.run_provenance [OF mem_inv_start v [unfolded st_def]] mem_view_start by auto
  then have g: "\<exists>bytes out. MemAllocate d bytes out \<in> set ops \<and> pages_of bytes = rg_count r"
    using r(1) by (metis mem_grants.elims(2))
  show ?thesis
    using i r(2) run_okD(1,2) [OF ok] g
    by (intro exI [of _ i] exI [of _ r]) (auto simp: region_of_def region_pages_def)
qed

section \<open>Properties\<close>

text \<open>
  What an allocation request does, on every branch. Bad arguments are refused; a size of more
  than 65535 pages is an overflow; otherwise the request succeeds exactly when some span of enough
  free pages exists, takes the first such span, returns a handle that was not live and adds exactly
  that handle to the live ones, naming a block of the requested number of pages owned by the
  requesting domain. Refused requests change nothing. (Sizes up to 2^64 - 4096: beyond that the
  rounding to pages wraps, see the next theorem.)
\<close>

theorem memory_allocate_spec:
  assumes inv: "mem_inv st" and bytes: "unat bytes \<le> 2 ^ 64 - 4096"
    and run: "lettuce_memory_allocate d bytes out st = (status, res, st')"
  defines "n \<equiv> (unat bytes + 4095) div 4096"
  shows "mem_inv st' \<and>
    (if d = 0 \<or> bytes = 0 \<or> \<not> out then status = LETTUCE_STATUS_INVALID_ARGUMENT \<and> res = None \<and> st' = st
     else if 65535 < n then status = LETTUCE_STATUS_OVERFLOW \<and> res = None \<and> st' = st
     else if \<exists>k. k + n \<le> LETTUCE_MEMORY_PAGES \<and> (\<forall>i \<in> {k ..< k + n}. \<not> al_active (st ! i))
     then status = LETTUCE_STATUS_OK \<and>
       (\<exists>h k. res = Some h \<and> mem_view st h = None \<and> k + n \<le> LETTUCE_MEMORY_PAGES \<and>
          (\<forall>i \<in> {k ..< k + n}. \<not> al_active (st ! i)) \<and>
          (\<forall>j < k. \<exists>i \<in> {j ..< j + n}. al_active (st ! i)) \<and>
          mem_view st' = (mem_view st)(h \<mapsto> \<lparr>rg_domain = d, rg_first = k, rg_count = n\<rparr>))
     else status = LETTUCE_STATUS_UNAVAILABLE \<and> res = None \<and> st' = st)"
proof (cases "d = 0 \<or> bytes = 0 \<or> \<not> out \<or> 65535 < n")
  case True
  have "pages_of bytes = n" if "bytes \<noteq> 0"
    using pages_of_exact [of bytes] that bytes by (simp add: n_def unat_gt_0)
  then show ?thesis using True run inv unfolding allocate_cases [OF inv] by (auto split: if_splits)
next
  case False
  then have n: "pages_of bytes = n" "0 < n"
    using pages_of_exact [of bytes] bytes by (simp_all add: n_def unat_gt_0)
  show ?thesis
  proof (cases "find_span st n 0")
    case None
    then show ?thesis
      using False run inv n find_span_None [OF None] unfolding allocate_cases [OF inv]
      by (auto simp: span_free_iff)
  next
    case (Some k)
    note eff = allocate_effect [OF inv Some n(2), of d]
    show ?thesis
      using False run n Some eff find_span_Some [OF Some] unfolding allocate_cases [OF inv]
      by (auto simp: span_free_iff)
  qed
qed


lemma memory_allocate_spec_witness:
  "mem_inv memory_start \<and> fst (lettuce_memory_allocate 7 5000 True memory_start) = LETTUCE_STATUS_OK"
proof -
  obtain status res st' where r: "lettuce_memory_allocate 7 5000 True memory_start = (status, res, st')"
    by (metis prod.collapse)
  have "\<exists>k. k + 2 \<le> LETTUCE_MEMORY_PAGES \<and> (\<forall>i \<in> {k ..< k + 2}. \<not> al_active (memory_start ! i))"
    by (rule exI [of _ 0]) (auto simp: memory_start_eq free_allocation_def LETTUCE_MEMORY_PAGES_def less_Suc_eq
        numeral_2_eq_2)
  then show ?thesis
    using memory_allocate_spec [OF mem_inv_start _ r] mem_inv_start by (simp add: r)
qed

text \<open>
  C18: Isolation of memory blocks. After any sequence of allocation and release requests from
  start-up, the blocks that two different live handles give access to lie inside the pool, are
  disjoint, and are handed out only to the domain that owns them: a data pointer obtained for
  domain d names a block that domain d asked for.
\<close>

theorem memory_isolation:
  assumes p: "lettuce_memory_data (fold mem_step ops memory_start) h d = Some p"
    and p': "lettuce_memory_data (fold mem_step ops memory_start) h' d' = Some p'" and neq: "h \<noteq> h'"
  shows "\<exists>n n'. p + 4096 * n \<le> 4096 * LETTUCE_MEMORY_PAGES \<and> p' + 4096 * n' \<le> 4096 * LETTUCE_MEMORY_PAGES \<and>
    {p ..< p + 4096 * n} \<inter> {p' ..< p' + 4096 * n'} = {} \<and> 0 < n \<and> 0 < n' \<and>
    (\<exists>bytes out. MemAllocate d bytes out \<in> set ops \<and> pages_of bytes = n) \<and>
    (\<exists>bytes out. MemAllocate d' bytes out \<in> set ops \<and> pages_of bytes = n')"
proof -
  let ?st = "fold mem_step ops memory_start"
  have inv: "mem_inv ?st" by (rule mem_store.run_inv [OF mem_inv_start])
  obtain i r where b: "i < LETTUCE_MEMORY_PAGES" "al_active (?st ! i)" "r = region_of (?st ! i)"
      "h = slot_encode i (al_generation (?st ! i))" "rg_first r = i" "p = 4096 * rg_first r" "0 < rg_count r"
      "rg_first r + rg_count r \<le> LETTUCE_MEMORY_PAGES"
      "\<exists>bytes out. MemAllocate d bytes out \<in> set ops \<and> pages_of bytes = rg_count r"
    using reachable_block [OF p] by blast
  obtain i' r' where b': "i' < LETTUCE_MEMORY_PAGES" "al_active (?st ! i')" "r' = region_of (?st ! i')"
      "h' = slot_encode i' (al_generation (?st ! i'))" "rg_first r' = i'" "p' = 4096 * rg_first r'" "0 < rg_count r'"
      "rg_first r' + rg_count r' \<le> LETTUCE_MEMORY_PAGES"
      "\<exists>bytes out. MemAllocate d' bytes out \<in> set ops \<and> pages_of bytes = rg_count r'"
    using reachable_block [OF p'] by blast
  have "?st ! i \<noteq> ?st ! i'"
    using neq b(3,4,5) b'(3,4,5) by metis
  then have "region_pages r \<inter> region_pages r' = {}"
    using regions_disjoint [OF inv b(1,2) b'(1,2)] b(3) b'(3) by blast
  then have "rg_first r + rg_count r \<le> rg_first r' \<or> rg_first r' + rg_count r' \<le> rg_first r"
    using b(7) b'(7) by (auto simp: region_pages_def disjoint_iff)
  then have "{p ..< p + 4096 * rg_count r} \<inter> {p' ..< p' + 4096 * rg_count r'} = {}"
    using b(6) b'(6) by auto
  moreover have "p + 4096 * rg_count r \<le> 4096 * LETTUCE_MEMORY_PAGES" "p' + 4096 * rg_count r' \<le> 4096 * LETTUCE_MEMORY_PAGES"
    using b(6,8) b'(6,8) by simp_all
  ultimately show ?thesis
    using b(7,9) b'(7,9) by blast
qed

definition demo_mem_ops :: "mem_op list" where
  "demo_mem_ops = [MemAllocate 7 5000 True, MemAllocate 9 100 True]"

lemma memory_isolation_witness:
  "lettuce_memory_data (fold mem_step demo_mem_ops memory_start) 0x10001 7 = Some 0 \<and>
   lettuce_memory_data (fold mem_step demo_mem_ops memory_start) 0x10003 9 = Some 8192 \<and>
   (\<exists>n n'. {0 ..< 0 + 4096 * n} \<inter> {8192 ..< 8192 + 4096 * n'} = {} \<and> 0 < n \<and> (0::nat) < n')"
proof -
  have 1: "lettuce_memory_data (fold mem_step demo_mem_ops memory_start) 0x10001 7 = Some 0"
    and 2: "lettuce_memory_data (fold mem_step demo_mem_ops memory_start) 0x10003 9 = Some 8192"
    by code_simp+
  from memory_isolation [OF 1 2] 1 2 show ?thesis by auto
qed

text \<open>
  A block stays usable until its owner releases it. If domain d can reach a block through handle
  h in a reachable state, it reaches the same block after any further requests among which there is
  no release of h by d itself, whatever other domains do; once d does release it, the handle is dead.
\<close>

theorem memory_block_persists:
  assumes "lettuce_memory_data (fold mem_step ops memory_start) h d = Some p" "MemRelease h d \<notin> set ops'"
  shows "lettuce_memory_data (fold mem_step (ops @ ops') memory_start) h d = Some p \<and>
    lettuce_memory_data (fold mem_step (ops @ ops' @ [MemRelease h d]) memory_start) h d = None"
proof -
  let ?st = "fold mem_step ops memory_start" and ?st' = "fold mem_step (ops @ ops') memory_start"
  have inv: "mem_inv ?st" "mem_inv ?st'" by (rule mem_store.run_inv [OF mem_inv_start])+
  obtain r where r: "mem_view ?st h = Some r" "rg_domain r = d" "d \<noteq> 0" "p = rg_first r * 4096"
    using assms(1) by (auto simp: data_cases split: option.splits if_splits)
  have "\<not> mem_removes a h r" if "a \<in> set ops'" for a
    using assms(2) r(2) that by (cases a) auto
  then have v: "mem_view ?st' h = Some r"
    using mem_store.run_persistence [OF inv(1) r(1), of ops'] by simp
  moreover have "memory_decode_handle h \<noteq> None"
    using v by (auto simp: mem_view_def split: option.splits)
  then have "mem_view (mem_step (MemRelease h d) ?st') h = None"
    using v r release_effect(2) [OF inv(2) v] by (auto simp: release_cases)
  ultimately show ?thesis using r by (simp add: data_cases del: mem_step.simps)
qed

lemma memory_block_persists_witness:
  "lettuce_memory_data (fold mem_step demo_mem_ops memory_start) 0x10001 7 = Some 0 \<and>
   lettuce_memory_data (fold mem_step (demo_mem_ops @ [MemRelease 0x10001 9, MemRelease 0x10002 7]) memory_start)
     0x10001 7 = Some 0"
proof -
  have 1: "lettuce_memory_data (fold mem_step demo_mem_ops memory_start) 0x10001 7 = Some 0"
    by code_simp
  show ?thesis
    using memory_block_persists [OF 1, of "[MemRelease 0x10001 9, MemRelease 0x10002 7]"] 1 by simp
qed

text \<open>
  C30: A dead handle can come back after a few requests. Because allocating a multi-page block
  overwrites the generation of every page with that of the first, and releasing it does the same,
  a page's generation can go back: after three cycles of page 1, the handle of the third is dead, and
  six requests later it names a new block of the same domain.
\<close>

definition revive_ops :: "mem_op list" where
  "revive_ops = [MemAllocate 7 1 True, MemAllocate 9 1 True, MemRelease 0x10002 9, MemAllocate 9 1 True,
     MemRelease 0x20002 9, MemAllocate 9 1 True, MemRelease 0x30002 9]"

definition revive_more :: "mem_op list" where
  "revive_more = [MemRelease 0x10001 7, MemAllocate 7 8192 True, MemRelease 0x20001 7, MemAllocate 7 1 True,
     MemAllocate 9 1 True]"


text \<open>
  C31: A size within 4095 bytes of the largest rounds to zero pages, and the request succeeds: it
  returns a handle for page 0 and allocates nothing, in every state.
\<close>

theorem memory_allocate_size_wrap:
  assumes "mem_inv st" "d \<noteq> 0" "2 ^ 64 - 4095 \<le> unat bytes"
  shows "lettuce_memory_allocate d bytes True st =
    (LETTUCE_STATUS_OK, Some (slot_encode 0 (al_generation (st ! 0))), st)"
proof -
  have "unat bytes < 2 ^ 64" using unsigned_less [of bytes, where ?'a = nat] by simp
  then have "unat (bytes + 4096 - 1) = unat bytes + 4095 - 2 ^ 64"
    using assms(3) by (simp add: unat_word_ariths mod_if)
  then have p: "pages_of bytes = 0"
    using assms(3) \<open>unat bytes < 2 ^ 64\<close> by (simp add: pages_of_def unat_div_distrib)
  have "bytes \<noteq> 0" using assms(3) by auto
  then show ?thesis using assms p by (simp add: allocate_cases find_span.simps)
qed

lemma memory_allocate_size_wrap_witness:
  "mem_inv memory_start \<and> (2::nat) ^ 64 - 4095 \<le> unat (0xFFFFFFFFFFFFFFFF :: u64) \<and>
   lettuce_memory_allocate 7 0xFFFFFFFFFFFFFFFF True memory_start =
     (LETTUCE_STATUS_OK, Some (slot_encode 0 (al_generation (memory_start ! 0))), memory_start)"
proof -
  have "(2::nat) ^ 64 - 4095 \<le> unat (0xFFFFFFFFFFFFFFFF :: u64)" by simp
  with memory_allocate_size_wrap [OF mem_inv_start, of 7 "0xFFFFFFFFFFFFFFFF"] mem_inv_start show ?thesis by simp
qed

end
