(* ===== verification/Capability.thy ===== *)
theory Capability
  imports Handles
begin

text \<open>
  The supervisor capability table: \<^verbatim>\<open>kernel/main/capability.c\<close> with its entry type of
  \<^verbatim>\<open>kernel/include/capability_internal.h\<close> and the permission bits of
  \<^verbatim>\<open>include/lettuce/capability.h\<close>. The state holds the three static variables of the file. The
  table is shown to refine a partial map from handles to capabilities.
\<close>

section \<open>Data\<close>

abbreviation LETTUCE_CAPABILITY_OP_NONE :: u32 where "LETTUCE_CAPABILITY_OP_NONE \<equiv> 0"
abbreviation LETTUCE_CAP_CALL :: u32 where "LETTUCE_CAP_CALL \<equiv> 1"
abbreviation LETTUCE_CAP_READ :: u32 where "LETTUCE_CAP_READ \<equiv> 2"
abbreviation LETTUCE_CAP_WRITE :: u32 where "LETTUCE_CAP_WRITE \<equiv> 4"
abbreviation LETTUCE_CAP_MAP :: u32 where "LETTUCE_CAP_MAP \<equiv> 8"
abbreviation LETTUCE_CAP_SIGNAL :: u32 where "LETTUCE_CAP_SIGNAL \<equiv> 16"
abbreviation LETTUCE_CAP_CRITICAL :: u32 where "LETTUCE_CAP_CRITICAL \<equiv> 32"

definition LETTUCE_CAPABILITY_KNOWN_PERMISSIONS :: u32 where
  "LETTUCE_CAPABILITY_KNOWN_PERMISSIONS =
     LETTUCE_CAP_CALL OR LETTUCE_CAP_READ OR LETTUCE_CAP_WRITE OR LETTUCE_CAP_MAP OR
     LETTUCE_CAP_SIGNAL OR LETTUCE_CAP_CRITICAL"

abbreviation LETTUCE_CAPABILITY_INVALID :: u32 where "LETTUCE_CAPABILITY_INVALID \<equiv> 0"

definition LETTUCE_CAPABILITY_TABLE_SIZE :: nat where
  "LETTUCE_CAPABILITY_TABLE_SIZE = 4096"

record LettuceCapabilityEntry =
  ce_generation :: u16
  ce_active :: bool
  ce_reserved :: u8
  ce_owner :: service_id
  ce_target :: service_id
  ce_operation :: operation_id
  ce_resource :: resource_id
  ce_permissions :: u32

record capability_state =
  capability_table :: "LettuceCapabilityEntry list"
  free_slots :: "u16 list"
  free_slot_count :: u16

section \<open>Operations\<close>

definition make_handle :: "u16 \<Rightarrow> u16 \<Rightarrow> u32" where
  "make_handle slot generation = handle_pack (ucast slot) generation"

definition decode_handle :: "u32 \<Rightarrow> (u16 \<times> u16) option" where
  "decode_handle handle =
     (if handle = LETTUCE_CAPABILITY_INVALID then None
      else let encoded_slot = handle_slot handle in
        if encoded_slot = 0 then None
        else let decoded_slot = encoded_slot - 1 in
          if unat decoded_slot \<ge> LETTUCE_CAPABILITY_TABLE_SIZE then None
          else Some (ucast decoded_slot, handle_generation handle))"

definition capability_entry_init :: LettuceCapabilityEntry where
  "capability_entry_init =
     \<lparr>ce_generation = 1, ce_active = False, ce_reserved = 0,
      ce_owner = LETTUCE_SERVICE_ID_INVALID, ce_target = LETTUCE_SERVICE_ID_INVALID,
      ce_operation = LETTUCE_OPERATION_ID_INVALID, ce_resource = LETTUCE_RESOURCE_ID_INVALID,
      ce_permissions = LETTUCE_CAPABILITY_OP_NONE\<rparr>"

definition lettuce_capability_init :: capability_state where
  "lettuce_capability_init =
     \<lparr>capability_table = map (\<lambda>i. capability_entry_init) [0..<LETTUCE_CAPABILITY_TABLE_SIZE],
      free_slots = map (\<lambda>i. of_nat (LETTUCE_CAPABILITY_TABLE_SIZE - 1 - i))
                     [0..<LETTUCE_CAPABILITY_TABLE_SIZE],
      free_slot_count = of_nat LETTUCE_CAPABILITY_TABLE_SIZE\<rparr>"

definition lettuce_capability_create ::
  "service_id \<Rightarrow> service_id \<Rightarrow> operation_id \<Rightarrow> u32 \<Rightarrow> resource_id \<Rightarrow>
   capability_state \<Rightarrow> u32 \<times> capability_state" where
  "lettuce_capability_create owner target operation permissions resource st =
     (if owner = LETTUCE_SERVICE_ID_INVALID \<or> target = LETTUCE_SERVICE_ID_INVALID \<or>
         operation = LETTUCE_OPERATION_ID_INVALID \<or> resource = LETTUCE_RESOURCE_ID_INVALID
      then (LETTUCE_CAPABILITY_INVALID, st)
      else if permissions = LETTUCE_CAPABILITY_OP_NONE \<or>
              permissions AND NOT LETTUCE_CAPABILITY_KNOWN_PERMISSIONS \<noteq> 0
      then (LETTUCE_CAPABILITY_INVALID, st)
      else if free_slot_count st = 0
      then (LETTUCE_CAPABILITY_INVALID, st)
      else
        let count = free_slot_count st - 1;
            slot = free_slots st ! unat count;
            entry = (capability_table st ! unat slot)
              \<lparr>ce_owner := owner, ce_target := target, ce_operation := operation,
               ce_resource := resource, ce_permissions := permissions, ce_active := True\<rparr>
        in (make_handle slot (ce_generation entry),
            st\<lparr>free_slot_count := count,
               capability_table := (capability_table st)[unat slot := entry]\<rparr>))"

definition lettuce_capability_revoke :: "u32 \<Rightarrow> capability_state \<Rightarrow> bool \<times> capability_state" where
  "lettuce_capability_revoke handle st =
     (case decode_handle handle of
        None \<Rightarrow> (False, st)
      | Some (slot, generation) \<Rightarrow>
          let entry = capability_table st ! unat slot in
          if \<not> ce_active entry \<or> ce_generation entry \<noteq> generation then (False, st)
          else
            let entry' = entry
                  \<lparr>ce_owner := LETTUCE_SERVICE_ID_INVALID, ce_target := LETTUCE_SERVICE_ID_INVALID,
                   ce_operation := LETTUCE_OPERATION_ID_INVALID,
                   ce_resource := LETTUCE_RESOURCE_ID_INVALID,
                   ce_permissions := LETTUCE_CAPABILITY_OP_NONE, ce_active := False,
                   ce_generation := next_generation (ce_generation entry)\<rparr>
            in (True,
                st\<lparr>capability_table := (capability_table st)[unat slot := entry'],
                   free_slots := (free_slots st)[unat (free_slot_count st) := slot],
                   free_slot_count := free_slot_count st + 1\<rparr>))"

text \<open>The trusted caller identity, \<^verbatim>\<open>current_service_id()\<close>, is an argument.\<close>

definition lettuce_capability_check ::
  "capability_state \<Rightarrow> service_id \<Rightarrow> u32 \<Rightarrow> service_id \<Rightarrow> operation_id \<Rightarrow> u32 \<Rightarrow> resource_id \<Rightarrow> bool" where
  "lettuce_capability_check st current handle target operation permission resource =
     (if permission = LETTUCE_CAPABILITY_OP_NONE then False
      else case decode_handle handle of
        None \<Rightarrow> False
      | Some (slot, generation) \<Rightarrow>
          let entry = capability_table st ! unat slot in
          if \<not> ce_active entry \<or> ce_generation entry \<noteq> generation then False
          else if current = LETTUCE_SERVICE_ID_INVALID then False
          else if ce_owner entry \<noteq> current then False
          else if ce_target entry \<noteq> target then False
          else if ce_operation entry \<noteq> operation then False
          else if resource \<noteq> ce_resource entry then False
          else if ce_permissions entry AND permission \<noteq> permission then False
          else True)"

section \<open>Abstract view: a partial map from handles to capabilities\<close>

record capability =
  cap_owner :: service_id
  cap_target :: service_id
  cap_operation :: operation_id
  cap_resource :: resource_id
  cap_permissions :: u32

definition cap_of_entry :: "LettuceCapabilityEntry \<Rightarrow> capability" where
  "cap_of_entry e = \<lparr>cap_owner = ce_owner e, cap_target = ce_target e,
     cap_operation = ce_operation e, cap_resource = ce_resource e,
     cap_permissions = ce_permissions e\<rparr>"

definition cap_view :: "capability_state \<Rightarrow> u32 \<Rightarrow> capability option" where
  "cap_view st h =
     (case decode_handle h of
        None \<Rightarrow> None
      | Some (slot, g) \<Rightarrow>
          let e = capability_table st ! unat slot in
          if ce_active e \<and> ce_generation e = g then Some (cap_of_entry e) else None)"

definition cap_valid :: "capability \<Rightarrow> bool" where
  "cap_valid c \<longleftrightarrow>
     cap_owner c \<noteq> 0 \<and> cap_target c \<noteq> 0 \<and> cap_operation c \<noteq> 0 \<and> cap_resource c \<noteq> 0 \<and>
     cap_permissions c \<noteq> 0 \<and>
     cap_permissions c AND NOT LETTUCE_CAPABILITY_KNOWN_PERMISSIONS = 0"

definition cap_allows ::
  "capability \<Rightarrow> service_id \<Rightarrow> service_id \<Rightarrow> operation_id \<Rightarrow> u32 \<Rightarrow> resource_id \<Rightarrow> bool" where
  "cap_allows c caller target operation permission resource \<longleftrightarrow>
     permission \<noteq> 0 \<and> caller \<noteq> 0 \<and> cap_owner c = caller \<and> cap_target c = target \<and>
     cap_operation c = operation \<and> cap_resource c = resource \<and>
     cap_permissions c AND permission = permission"

definition free_list :: "capability_state \<Rightarrow> nat list" where
  "free_list st = map unat (take (unat (free_slot_count st)) (free_slots st))"

definition entry_ok :: "LettuceCapabilityEntry \<Rightarrow> bool" where
  "entry_ok e \<longleftrightarrow> ce_generation e \<noteq> 0 \<and> (ce_active e \<longrightarrow> cap_valid (cap_of_entry e))"

definition cap_inv :: "capability_state \<Rightarrow> bool" where
  "cap_inv st \<longleftrightarrow>
     length (capability_table st) = LETTUCE_CAPABILITY_TABLE_SIZE \<and>
     length (free_slots st) = LETTUCE_CAPABILITY_TABLE_SIZE \<and>
     unat (free_slot_count st) \<le> LETTUCE_CAPABILITY_TABLE_SIZE \<and>
     distinct (free_list st) \<and>
     set (free_list st) \<subseteq> {..<LETTUCE_CAPABILITY_TABLE_SIZE} \<and>
     (\<forall>i < LETTUCE_CAPABILITY_TABLE_SIZE.
        i \<in> set (free_list st) \<longleftrightarrow> \<not> ce_active (capability_table st ! i)) \<and>
     (\<forall>e \<in> set (capability_table st). entry_ok e)"

section \<open>Handle encoding\<close>

lemma table_size_bound: "LETTUCE_CAPABILITY_TABLE_SIZE < 65535"
  by (simp add: LETTUCE_CAPABILITY_TABLE_SIZE_def)

lemma decode_make_handle:
  assumes "unat slot < LETTUCE_CAPABILITY_TABLE_SIZE"
  shows "decode_handle (make_handle slot g) = Some (slot, g)"
proof -
  have lt: "unat (ucast slot :: u32) < 65535"
    using assms table_size_bound by simp
  have "(ucast slot :: u32) + 1 \<noteq> 0"
    using lt by (rule slot_plus_1_nonzero)
  moreover have "ucast (ucast slot :: u32) = slot"
    using lt by (simp add: word_unat_eq_iff unat_ucast_32_16)
  ultimately show ?thesis
    using assms lt
    by (simp add: decode_handle_def make_handle_def handle_pack_nonzero handle_slot_pack
        handle_generation_pack Let_def)
qed

lemma make_decode_handle:
  assumes "decode_handle h = Some (slot, g)"
  shows "unat slot < LETTUCE_CAPABILITY_TABLE_SIZE \<and> make_handle slot g = h"
proof -
  from assms have h: "handle_slot h \<noteq> 0" "unat (handle_slot h - 1) < LETTUCE_CAPABILITY_TABLE_SIZE"
    and slot: "slot = ucast (handle_slot h - 1)" and g: "g = handle_generation h"
    by (auto simp: decode_handle_def Let_def split: if_splits)
  have u: "unat slot = unat (handle_slot h - 1)"
    using h(2) table_size_bound by (simp add: slot unat_ucast_32_16)
  then have "ucast slot = handle_slot h - 1"
    by (simp add: word_unat_eq_iff)
  with h u g table_size_bound handle_pack_unpack [of h] show ?thesis
    by (simp add: make_handle_def)
qed

definition cap_encode :: "nat \<Rightarrow> u16 \<Rightarrow> u32" where
  "cap_encode i g = make_handle (of_nat i) g"

definition cap_decode :: "u32 \<Rightarrow> (nat \<times> u16) option" where
  "cap_decode h = map_option (\<lambda>(s, g). (unat s, g)) (decode_handle h)"

interpretation cap_codec: handle_codec cap_encode cap_decode LETTUCE_CAPABILITY_TABLE_SIZE
proof
  fix i :: nat and g
  assume "i < LETTUCE_CAPABILITY_TABLE_SIZE"
  then have "unat (of_nat i :: u16) = i"
    using table_size_bound by (simp add: unat_of_nat)
  with \<open>i < LETTUCE_CAPABILITY_TABLE_SIZE\<close> show "cap_decode (cap_encode i g) = Some (i, g)"
    by (simp add: cap_decode_def cap_encode_def decode_make_handle)
next
  fix h i g
  assume "cap_decode h = Some (i, g)"
  then show "i < LETTUCE_CAPABILITY_TABLE_SIZE \<and> cap_encode i g = h"
    by (auto simp: cap_decode_def cap_encode_def dest: make_decode_handle)
next
  show "cap_decode 0 = None"
    by (simp add: cap_decode_def decode_handle_def)
qed

section \<open>Invariant\<close>

lemma cap_view_decode:
  "cap_view st h =
     (case cap_decode h of
        None \<Rightarrow> None
      | Some (i, g) \<Rightarrow>
          if ce_active (capability_table st ! i) \<and> ce_generation (capability_table st ! i) = g
          then Some (cap_of_entry (capability_table st ! i)) else None)"
  by (auto simp: cap_view_def cap_decode_def Let_def split: option.splits)

lemma cap_inv_entry_ok:
  "cap_inv st \<Longrightarrow> i < LETTUCE_CAPABILITY_TABLE_SIZE \<Longrightarrow> entry_ok (capability_table st ! i)"
  by (simp add: cap_inv_def)

lemma length_free_list:
  "cap_inv st \<Longrightarrow> length (free_list st) = unat (free_slot_count st)"
  by (simp add: cap_inv_def free_list_def)

lemma free_list_init: "free_list lettuce_capability_init = rev [0..<LETTUCE_CAPABILITY_TABLE_SIZE]"
proof (rule nth_equalityI)
  have c: "unat (free_slot_count lettuce_capability_init) = LETTUCE_CAPABILITY_TABLE_SIZE"
    by (simp add: lettuce_capability_init_def LETTUCE_CAPABILITY_TABLE_SIZE_def)
  show len: "length (free_list lettuce_capability_init) = length (rev [0..<LETTUCE_CAPABILITY_TABLE_SIZE])"
    using c by (simp add: free_list_def lettuce_capability_init_def)
  fix i
  assume "i < length (free_list lettuce_capability_init)"
  then have i: "i < LETTUCE_CAPABILITY_TABLE_SIZE" using len by simp
  then have "LETTUCE_CAPABILITY_TABLE_SIZE - Suc i < 65536"
    using table_size_bound by simp
  with i c show "free_list lettuce_capability_init ! i = rev [0..<LETTUCE_CAPABILITY_TABLE_SIZE] ! i"
    by (simp add: free_list_def lettuce_capability_init_def rev_nth unat_of_nat del: of_nat_diff)
qed

lemma cap_inv_init: "cap_inv lettuce_capability_init"
  unfolding cap_inv_def free_list_init
  by (auto simp: lettuce_capability_init_def capability_entry_init_def entry_ok_def
      LETTUCE_CAPABILITY_TABLE_SIZE_def)

lemma pop_slot:
  assumes "cap_inv st" "free_slot_count st \<noteq> 0"
  shows "unat (free_slot_count st) = Suc (unat (free_slot_count st - 1))"
    and "free_list st = map unat (take (unat (free_slot_count st - 1)) (free_slots st)) @
           [unat (free_slots st ! unat (free_slot_count st - 1))]"
    and "unat (free_slots st ! unat (free_slot_count st - 1)) < LETTUCE_CAPABILITY_TABLE_SIZE"
proof -
  show cnt: "unat (free_slot_count st) = Suc (unat (free_slot_count st - 1))"
    using assms(2) by (simp add: unat_minus_one unat_gt_0)
  then have "unat (free_slot_count st - 1) < length (free_slots st)"
    using assms(1) by (simp add: cap_inv_def)
  then show fl: "free_list st = map unat (take (unat (free_slot_count st - 1)) (free_slots st)) @
           [unat (free_slots st ! unat (free_slot_count st - 1))]"
    using cnt by (simp add: free_list_def take_Suc_conv_app_nth)
  show "unat (free_slots st ! unat (free_slot_count st - 1)) < LETTUCE_CAPABILITY_TABLE_SIZE"
    using assms(1) fl by (simp add: cap_inv_def)
qed

lemma create_guard:
  "\<not> cap_valid \<lparr>cap_owner = ow, cap_target = t, cap_operation = op, cap_resource = r,
      cap_permissions = p\<rparr> \<or> free_slot_count st = 0 \<Longrightarrow>
   lettuce_capability_create ow t op p r st = (0, st)"
  unfolding lettuce_capability_create_def cap_valid_def by auto

lemma create_handle_nonzero:
  assumes "cap_inv st" "free_slot_count st \<noteq> 0"
    "cap_valid \<lparr>cap_owner = ow, cap_target = t, cap_operation = op, cap_resource = r,
       cap_permissions = p\<rparr>"
  shows "fst (lettuce_capability_create ow t op p r st) \<noteq> 0"
proof -
  let ?slot = "free_slots st ! unat (free_slot_count st - 1)"
  have "fst (lettuce_capability_create ow t op p r st)
      = make_handle ?slot (ce_generation (capability_table st ! unat ?slot))"
    using assms(2,3) by (simp add: lettuce_capability_create_def cap_valid_def Let_def)
  moreover have "decode_handle (make_handle ?slot g) \<noteq> None" for g
    using pop_slot(3) [OF assms(1,2)] by (simp add: decode_make_handle)
  ultimately show ?thesis by (metis decode_handle_def)
qed

lemma create_zero_iff:
  assumes "cap_inv st"
  shows "fst (lettuce_capability_create ow t op p r st) = 0 \<longleftrightarrow>
    \<not> cap_valid \<lparr>cap_owner = ow, cap_target = t, cap_operation = op, cap_resource = r,
                 cap_permissions = p\<rparr> \<or> free_slot_count st = 0"
  using create_guard create_handle_nonzero [OF assms] by (metis fst_conv)

lemma create_zero_unchanged:
  assumes "cap_inv st" "fst (lettuce_capability_create ow t op p r st) = 0"
  shows "snd (lettuce_capability_create ow t op p r st) = st"
  using create_guard create_zero_iff [OF assms(1)] assms(2) by (metis snd_conv)

lemma create_success:
  assumes c: "lettuce_capability_create ow t op p r st = (h, st')" and "h \<noteq> 0" and inv: "cap_inv st"
  obtains i e where
    "i < LETTUCE_CAPABILITY_TABLE_SIZE"
    "free_list st = free_list st' @ [i]"
    "e = (capability_table st ! i)\<lparr>ce_owner := ow, ce_target := t, ce_operation := op,
           ce_resource := r, ce_permissions := p, ce_active := True\<rparr>"
    "capability_table st' = (capability_table st)[i := e]"
    "free_slots st' = free_slots st"
    "unat (free_slot_count st) = Suc (unat (free_slot_count st'))"
    "cap_decode h = Some (i, ce_generation (capability_table st ! i))"
    "cap_valid (cap_of_entry e)"
proof -
  let ?count = "free_slot_count st - 1"
  let ?slot = "free_slots st ! unat ?count"
  from c \<open>h \<noteq> 0\<close> have nz: "free_slot_count st \<noteq> 0"
    and h: "h = make_handle ?slot (ce_generation (capability_table st ! unat ?slot))"
    and st': "st' = st\<lparr>free_slot_count := ?count,
               capability_table := (capability_table st)[unat ?slot :=
                 (capability_table st ! unat ?slot)
              \<lparr>ce_owner := ow, ce_target := t, ce_operation := op,
               ce_resource := r, ce_permissions := p, ce_active := True\<rparr>]\<rparr>"
    and v: "ow \<noteq> 0" "t \<noteq> 0" "op \<noteq> 0" "r \<noteq> 0" "p \<noteq> 0"
           "p AND NOT LETTUCE_CAPABILITY_KNOWN_PERMISSIONS = 0"
    by (auto simp: lettuce_capability_create_def Let_def split: if_splits)
  note cnt = pop_slot(1) [OF inv nz] and lt = pop_slot(3) [OF inv nz]
  have fl: "free_list st = free_list st' @ [unat ?slot]"
    unfolding pop_slot(2) [OF inv nz] by (simp add: st' free_list_def)
  show ?thesis
    using lt fl h v cnt
    by (intro that [of "unat ?slot" "(capability_table st ! unat ?slot)
              \<lparr>ce_owner := ow, ce_target := t, ce_operation := op,
               ce_resource := r, ce_permissions := p, ce_active := True\<rparr>"])
      (simp_all add: st' cap_decode_def decode_make_handle cap_valid_def cap_of_entry_def)
qed

lemma cap_inv_create:
  assumes inv: "cap_inv st"
  shows "cap_inv (snd (lettuce_capability_create ow t op p r st))"
proof (cases "fst (lettuce_capability_create ow t op p r st) = 0")
  case True
  with create_zero_unchanged [OF inv True] inv show ?thesis by simp
next
  case False
  obtain h st' where c: "lettuce_capability_create ow t op p r st = (h, st')"
    by fastforce
  with False have "h \<noteq> 0" by simp
  from c this inv obtain i e where ie:
    "i < LETTUCE_CAPABILITY_TABLE_SIZE" "free_list st = free_list st' @ [i]"
    "e = (capability_table st ! i)\<lparr>ce_owner := ow, ce_target := t, ce_operation := op,
           ce_resource := r, ce_permissions := p, ce_active := True\<rparr>"
    "capability_table st' = (capability_table st)[i := e]"
    "free_slots st' = free_slots st"
    "unat (free_slot_count st) = Suc (unat (free_slot_count st'))"
    "cap_valid (cap_of_entry e)"
    by (rule create_success)
  have "entry_ok e"
    using cap_inv_entry_ok [OF inv ie(1)] ie(3,7) by (simp add: entry_ok_def)
  then have "\<forall>e \<in> set (capability_table st'). entry_ok e"
    using inv ie(1) unfolding ie(4) by (intro all_nth_update) (simp_all add: cap_inv_def)
  moreover have "j \<in> set (free_list st') \<longleftrightarrow> \<not> ce_active (capability_table st' ! j)"
    if "j < LETTUCE_CAPABILITY_TABLE_SIZE" for j
    using inv that ie(1,2,3,4) by (cases "j = i") (auto simp: cap_inv_def)
  ultimately show ?thesis
    using inv ie(1,2,4,5,6) c by (auto simp: cap_inv_def)
qed

definition revoked_entry :: "LettuceCapabilityEntry \<Rightarrow> LettuceCapabilityEntry" where
  "revoked_entry e = e\<lparr>ce_owner := 0, ce_target := 0, ce_operation := 0, ce_resource := 0,
     ce_permissions := 0, ce_active := False, ce_generation := next_generation (ce_generation e)\<rparr>"

lemma revoke_success:
  assumes r: "lettuce_capability_revoke h st = (True, st')" and inv: "cap_inv st"
  obtains i where
    "i < LETTUCE_CAPABILITY_TABLE_SIZE"
    "cap_decode h = Some (i, ce_generation (capability_table st ! i))"
    "ce_active (capability_table st ! i)"
    "capability_table st' = (capability_table st)[i := revoked_entry (capability_table st ! i)]"
    "length (free_slots st') = length (free_slots st)"
    "unat (free_slot_count st') = Suc (unat (free_slot_count st))"
    "free_list st' = free_list st @ [i]"
    "unat (free_slot_count st) < LETTUCE_CAPABILITY_TABLE_SIZE"
proof -
  from r obtain slot where d: "decode_handle h = Some (slot, ce_generation (capability_table st ! unat slot))"
    and act: "ce_active (capability_table st ! unat slot)"
    and st': "st' = st\<lparr>capability_table := (capability_table st)
                    [unat slot := revoked_entry (capability_table st ! unat slot)],
                   free_slots := (free_slots st)[unat (free_slot_count st) := slot],
                   free_slot_count := free_slot_count st + 1\<rparr>"
    by (auto simp: lettuce_capability_revoke_def revoked_entry_def Let_def
        split: option.splits if_splits)
  have lt: "unat slot < LETTUCE_CAPABILITY_TABLE_SIZE"
    using make_decode_handle [OF d] by simp
  then have "unat slot \<notin> set (free_list st)"
    using inv act by (auto simp: cap_inv_def)
  then have cnt: "unat (free_slot_count st) < LETTUCE_CAPABILITY_TABLE_SIZE"
    using distinct_bounded_length_less [of "free_list st"] inv lt length_free_list [OF inv]
    by (auto simp: cap_inv_def)
  then have cnt': "unat (free_slot_count st + 1) = Suc (unat (free_slot_count st))"
    using table_size_bound by (simp add: unat_word_ariths)
  have "free_list st' = free_list st @ [unat slot]"
    using cnt inv by (simp add: free_list_def st' cnt' take_Suc_update cap_inv_def)
  with d act lt cnt cnt' show ?thesis
    by (intro that [of "unat slot"]) (simp_all add: st' cap_decode_def)
qed

lemma revoke_failure: "fst (lettuce_capability_revoke h st) = False \<Longrightarrow>
    snd (lettuce_capability_revoke h st) = st"
  by (auto simp: lettuce_capability_revoke_def Let_def split: option.splits if_splits)

lemma revoke_iff: "fst (lettuce_capability_revoke h st) \<longleftrightarrow> cap_view st h \<noteq> None"
  by (auto simp: lettuce_capability_revoke_def cap_view_def Let_def split: option.splits)

lemma cap_inv_revoke:
  assumes inv: "cap_inv st"
  shows "cap_inv (snd (lettuce_capability_revoke h st))"
proof (cases "fst (lettuce_capability_revoke h st)")
  case False
  with revoke_failure [of h st] inv show ?thesis by simp
next
  case True
  then obtain st' where r: "lettuce_capability_revoke h st = (True, st')"
    by (metis prod.collapse)
  from r inv obtain i where i:
    "i < LETTUCE_CAPABILITY_TABLE_SIZE"
    "capability_table st' = (capability_table st)[i := revoked_entry (capability_table st ! i)]"
    "length (free_slots st') = length (free_slots st)"
    "unat (free_slot_count st') = Suc (unat (free_slot_count st))"
    "free_list st' = free_list st @ [i]"
    "unat (free_slot_count st) < LETTUCE_CAPABILITY_TABLE_SIZE"
    "ce_active (capability_table st ! i)"
    by (rule revoke_success)
  have "entry_ok (revoked_entry (capability_table st ! i))"
    by (simp add: entry_ok_def revoked_entry_def)
  then have "\<forall>e \<in> set (capability_table st'). entry_ok e"
    using inv i(1) unfolding i(2) by (intro all_nth_update) (simp_all add: cap_inv_def)
  moreover have "j \<in> set (free_list st') \<longleftrightarrow> \<not> ce_active (capability_table st' ! j)"
    if "j < LETTUCE_CAPABILITY_TABLE_SIZE" for j
    using inv that i(1,2,5) by (cases "j = i") (auto simp: cap_inv_def revoked_entry_def)
  moreover have "i \<notin> set (free_list st)"
    using inv i(1,7) by (auto simp: cap_inv_def)
  ultimately show ?thesis
    using inv i r by (auto simp: cap_inv_def)
qed

section \<open>Refinement of the handle map\<close>

lemma cap_view_init: "cap_view lettuce_capability_init = Map.empty"
proof
  fix h
  show "cap_view lettuce_capability_init h = None"
  proof (cases "cap_decode h")
    case (Some p)
    then obtain i g where "cap_decode h = Some (i, g)" by (cases p) auto
    with cap_codec.dec_slot_bound show ?thesis
      by (simp add: cap_view_decode lettuce_capability_init_def capability_entry_init_def)
  qed (simp add: cap_view_decode)
qed

lemma cap_view_update_slot:
  assumes "length (capability_table st) = LETTUCE_CAPABILITY_TABLE_SIZE"
    and "cap_decode h = Some (i, g)"
    and "capability_table st' = (capability_table st)[i := e]"
  shows "cap_view st' h' =
    (case cap_decode h' of
       Some (j, g') \<Rightarrow> if j = i
         then (if ce_active e \<and> ce_generation e = g' then Some (cap_of_entry e) else None)
         else cap_view st h'
     | None \<Rightarrow> None)"
  using assms cap_codec.dec_slot_bound [OF assms(2)]
  by (auto simp: cap_view_decode split: option.splits)

lemma cap_view_other_handle:
  assumes "length (capability_table st) = LETTUCE_CAPABILITY_TABLE_SIZE"
    and "cap_decode h = Some (i, ce_generation (capability_table st ! i))"
    and "capability_table st' = (capability_table st)[i := e]"
    and "ce_active e \<Longrightarrow> ce_generation e = ce_generation (capability_table st ! i)"
    and "h' \<noteq> h"
  shows "cap_view st' h' =
    (if \<exists>g. cap_decode h' = Some (i, g) then None else cap_view st h')"
proof -
  have "cap_decode h' \<noteq> Some (i, ce_generation (capability_table st ! i))"
    using assms(2,5) cap_codec.dec_inj by blast
  then show ?thesis
    unfolding cap_view_update_slot [OF assms(1,2,3)]
    using assms(4) by (cases "cap_decode h'") (auto simp: cap_view_decode split: if_splits)
qed

lemma cap_view_same_slot_None:
  assumes "cap_decode h = Some (i, ce_generation (capability_table st ! i))" "h' \<noteq> h"
    "cap_decode h' = Some (i, g)"
  shows "cap_view st h' = None"
  using assms cap_codec.dec_inj [of h' "(i, g)" h] by (auto simp: cap_view_decode)

lemma cap_view_create:
  assumes c: "lettuce_capability_create ow t op p r st = (h, st')" and nz: "h \<noteq> 0" and inv: "cap_inv st"
  shows "cap_view st h = None"
    and "cap_view st' = (cap_view st)(h \<mapsto> \<lparr>cap_owner = ow, cap_target = t, cap_operation = op,
                           cap_resource = r, cap_permissions = p\<rparr>)"
proof -
  from c nz inv obtain i e where ie:
    "i < LETTUCE_CAPABILITY_TABLE_SIZE" "free_list st = free_list st' @ [i]"
    "e = (capability_table st ! i)\<lparr>ce_owner := ow, ce_target := t, ce_operation := op,
           ce_resource := r, ce_permissions := p, ce_active := True\<rparr>"
    "capability_table st' = (capability_table st)[i := e]"
    "cap_decode h = Some (i, ce_generation (capability_table st ! i))"
    by (rule create_success)
  have len: "length (capability_table st) = LETTUCE_CAPABILITY_TABLE_SIZE"
    using inv by (simp add: cap_inv_def)
  have inactive: "\<not> ce_active (capability_table st ! i)"
    using inv ie(1,2) by (auto simp: cap_inv_def)
  then show "cap_view st h = None"
    by (simp add: cap_view_decode ie(5))
  show "cap_view st' = (cap_view st)(h \<mapsto> \<lparr>cap_owner = ow, cap_target = t, cap_operation = op,
                           cap_resource = r, cap_permissions = p\<rparr>)"
  proof
    fix h'
    show "cap_view st' h' = ((cap_view st)(h \<mapsto> \<lparr>cap_owner = ow, cap_target = t, cap_operation = op,
                           cap_resource = r, cap_permissions = p\<rparr>)) h'"
    proof (cases "h' = h")
      case True
      then show ?thesis
        by (simp add: cap_view_update_slot [OF len ie(5,4)] ie(5))
          (simp add: ie(3) cap_of_entry_def)
    next
      case False
      then show ?thesis
        using cap_view_other_handle [OF len ie(5,4) _ False] cap_view_same_slot_None [OF ie(5) False]
        by (cases "\<exists>g. cap_decode h' = Some (i, g)") (auto simp: ie(3))
    qed
  qed
qed

lemma cap_view_revoke:
  assumes r: "lettuce_capability_revoke h st = (True, st')" and inv: "cap_inv st"
  shows "cap_view st' = (cap_view st)(h := None)"
proof -
  from r inv obtain i where i:
    "i < LETTUCE_CAPABILITY_TABLE_SIZE"
    "capability_table st' = (capability_table st)[i := revoked_entry (capability_table st ! i)]"
    "cap_decode h = Some (i, ce_generation (capability_table st ! i))"
    by (rule revoke_success)
  have len: "length (capability_table st) = LETTUCE_CAPABILITY_TABLE_SIZE"
    using inv by (simp add: cap_inv_def)
  show ?thesis
  proof
    fix h'
    show "cap_view st' h' = ((cap_view st)(h := None)) h'"
    proof (cases "h' = h")
      case True
      then show ?thesis
        by (simp add: cap_view_update_slot [OF len i(3,2)] i(3) revoked_entry_def)
    next
      case False
      then show ?thesis
        using cap_view_other_handle [OF len i(3,2) _ False] cap_view_same_slot_None [OF i(3) False]
        by (cases "\<exists>g. cap_decode h' = Some (i, g)") (auto simp: revoked_entry_def)
    qed
  qed
qed

lemma check_eq_view:
  "lettuce_capability_check st current h target operation permission resource \<longleftrightarrow>
     (\<exists>c. cap_view st h = Some c \<and> cap_allows c current target operation permission resource)"
  by (auto simp: lettuce_capability_check_def cap_view_def cap_allows_def cap_of_entry_def Let_def
      split: option.splits)

section \<open>The contract of a capability store\<close>

datatype cap_op =
    CapCreate service_id service_id operation_id u32 resource_id
  | CapRevoke u32

text \<open>One request to the table, for any implementation of its two mutating operations.\<close>

fun store_step ::
  "(service_id \<Rightarrow> service_id \<Rightarrow> operation_id \<Rightarrow> u32 \<Rightarrow> resource_id \<Rightarrow> 'st \<Rightarrow> u32 \<times> 'st) \<Rightarrow>
   (u32 \<Rightarrow> 'st \<Rightarrow> bool \<times> 'st) \<Rightarrow> cap_op \<Rightarrow> 'st \<Rightarrow> 'st" where
  "store_step create revoke (CapCreate ow t op p r) s = snd (create ow t op p r s)"
| "store_step create revoke (CapRevoke h) s = snd (revoke h s)"

locale capability_store =
  fixes view :: "'st \<Rightarrow> u32 \<Rightarrow> capability option"
    and create :: "service_id \<Rightarrow> service_id \<Rightarrow> operation_id \<Rightarrow> u32 \<Rightarrow> resource_id \<Rightarrow> 'st \<Rightarrow> u32 \<times> 'st"
    and revoke :: "u32 \<Rightarrow> 'st \<Rightarrow> bool \<times> 'st"
    and check :: "'st \<Rightarrow> service_id \<Rightarrow> u32 \<Rightarrow> service_id \<Rightarrow> operation_id \<Rightarrow> u32 \<Rightarrow> resource_id \<Rightarrow> bool"
    and inv :: "'st \<Rightarrow> bool"
  assumes inv_create: "inv s \<Longrightarrow> inv (snd (create ow t op p r s))"
    and inv_revoke: "inv s \<Longrightarrow> inv (snd (revoke h s))"
    and create_fresh: "inv s \<Longrightarrow> create ow t op p r s = (h, s') \<Longrightarrow> h \<noteq> 0 \<Longrightarrow> view s h = None"
    and create_view: "inv s \<Longrightarrow> create ow t op p r s = (h, s') \<Longrightarrow> h \<noteq> 0 \<Longrightarrow>
      view s' = (view s)(h \<mapsto> \<lparr>cap_owner = ow, cap_target = t, cap_operation = op,
                              cap_resource = r, cap_permissions = p\<rparr>)"
    and create_none: "inv s \<Longrightarrow> create ow t op p r s = (0, s') \<Longrightarrow> s' = s"
    and revoke_view: "inv s \<Longrightarrow> revoke h s = (True, s') \<Longrightarrow> view s' = (view s)(h := None)"
    and revoke_none: "revoke h s = (False, s') \<Longrightarrow> s' = s"
    and check_view: "check s cur h t op p r \<longleftrightarrow>
      (\<exists>c. view s h = Some c \<and> cap_allows c cur t op p r)"
begin

lemma inv_run: "inv s \<Longrightarrow> inv (fold (store_step create revoke) ops s)"
proof (induction ops arbitrary: s)
  case (Cons a ops)
  then show ?case by (cases a) (simp_all add: inv_create inv_revoke)
qed simp

lemma create_then_check:
  assumes "inv s" "create ow t op p r s = (h, s')" "h \<noteq> 0"
  shows "check s' cur h t' op' p' r' \<longleftrightarrow>
    p' \<noteq> 0 \<and> cur \<noteq> 0 \<and> cur = ow \<and> t' = t \<and> op' = op \<and> r' = r \<and> p AND p' = p'"
  using create_view [OF assms] by (auto simp: check_view cap_allows_def)

lemma revoke_then_check:
  assumes "inv s" "revoke h s = (True, s')"
  shows "\<not> check s' cur h t op p r"
  using revoke_view [OF assms] by (simp add: check_view)

lemma create_frame:
  assumes "inv s" "create ow t op p r s = (h, s')" "h' \<noteq> h"
  shows "check s' cur h' t' op' p' r' = check s cur h' t' op' p' r'"
  using create_view [OF assms(1,2)] create_none [OF assms(1), of ow t op p r s'] assms(2,3)
  by (cases "h = 0") (auto simp: check_view)

lemma revoke_frame:
  assumes "inv s" "revoke h s = (b, s')" "h' \<noteq> h"
  shows "check s' cur h' t' op' p' r' = check s cur h' t' op' p' r'"
  using revoke_view [OF assms(1), of h s'] revoke_none [of h s s'] assms(2,3)
  by (cases b) (auto simp: check_view)

lemma step_view:
  assumes "inv s" "view (store_step create revoke a s) h = Some c"
  shows "view s h = Some c \<or> a = CapCreate (cap_owner c) (cap_target c) (cap_operation c)
    (cap_permissions c) (cap_resource c)"
proof (cases a)
  case (CapCreate ow t op p r)
  obtain h' s' where c: "create ow t op p r s = (h', s')" by fastforce
  show ?thesis
  proof (cases "h' = 0")
    case True
    with c create_none [OF assms(1), of ow t op p r s'] CapCreate assms(2) show ?thesis by simp
  next
    case False
    with c create_view [OF assms(1) c] CapCreate assms(2) show ?thesis
      by (auto split: if_splits)
  qed
next
  case (CapRevoke h')
  obtain b s' where r: "revoke h' s = (b, s')" by fastforce
  with CapRevoke assms revoke_view [OF assms(1), of h' s'] revoke_none [of h' s s'] show ?thesis
    by (cases b) (auto split: if_splits)
qed

lemma provenance:
  assumes "inv s" "view s = Map.empty" "view (fold (store_step create revoke) ops s) h = Some c"
  shows "CapCreate (cap_owner c) (cap_target c) (cap_operation c) (cap_permissions c)
    (cap_resource c) \<in> set ops"
  using assms(3)
proof (induction ops rule: rev_induct)
  case Nil
  with assms(2) show ?case by simp
next
  case (snoc a ops)
  then show ?case
    using step_view [OF inv_run [OF assms(1)], of a ops h c] by auto
qed

end

interpretation cap_store: capability_store cap_view lettuce_capability_create
  lettuce_capability_revoke lettuce_capability_check cap_inv
proof
  show "s' = s" if "cap_inv s" "lettuce_capability_create ow t op p r s = (0, s')"
    for s ow t op p r s'
    using create_zero_unchanged [OF that(1)] that(2) by (metis fst_conv snd_conv)
  show "s' = s" if "lettuce_capability_revoke h s = (False, s')" for h s s'
    using revoke_failure [of h s] that by simp
qed (simp_all add: cap_inv_create cap_inv_revoke cap_view_create cap_view_revoke check_eq_view)

definition cap_step :: "cap_op \<Rightarrow> capability_state \<Rightarrow> capability_state" where
  "cap_step = store_step lettuce_capability_create lettuce_capability_revoke"

definition cap_slot_generation :: "capability_state \<Rightarrow> nat \<Rightarrow> u16" where
  "cap_slot_generation st i = ce_generation (capability_table st ! i)"

lemma cap_generation_step:
  assumes inv: "cap_inv st" and "i < LETTUCE_CAPABILITY_TABLE_SIZE"
  shows "cap_slot_generation (cap_step a st) i = cap_slot_generation st i \<or>
    cap_slot_generation (cap_step a st) i = next_generation (cap_slot_generation st i)"
proof (cases a)
  case (CapCreate ow t op p r)
  obtain h st' where c: "lettuce_capability_create ow t op p r st = (h, st')" by fastforce
  show ?thesis
  proof (cases "h = 0")
    case True
    with c cap_store.create_none [OF inv, of ow t op p r st'] CapCreate show ?thesis by (simp add: cap_step_def)
  next
    case False
    from c False inv obtain j e where "capability_table st' = (capability_table st)[j := e]"
        "ce_generation e = ce_generation (capability_table st ! j)" "j < LETTUCE_CAPABILITY_TABLE_SIZE"
      by (rule create_success) simp
    with c CapCreate inv show ?thesis
      by (cases "j = i") (simp_all add: cap_step_def cap_slot_generation_def cap_inv_def)
  qed
next
  case (CapRevoke h)
  obtain b st' where r: "lettuce_capability_revoke h st = (b, st')" by fastforce
  show ?thesis
  proof (cases b)
    case False
    with r cap_store.revoke_none [of h st st'] CapRevoke show ?thesis by (simp add: cap_step_def)
  next
    case True
    with r have r': "lettuce_capability_revoke h st = (True, st')" by simp
    from r' inv obtain j where "j < LETTUCE_CAPABILITY_TABLE_SIZE"
        "capability_table st' = (capability_table st)[j := revoked_entry (capability_table st ! j)]"
      by (rule revoke_success)
    with r CapRevoke inv show ?thesis
      by (cases "j = i")
        (simp_all add: cap_step_def cap_slot_generation_def cap_inv_def revoked_entry_def)
  qed
qed

interpretation cap_generations: generation_discipline cap_slot_generation cap_inv cap_step
  LETTUCE_CAPABILITY_TABLE_SIZE
proof
  show "cap_inv (cap_step a s)" if "cap_inv s" for a s
    using that by (cases a) (simp_all add: cap_step_def cap_inv_create cap_inv_revoke)
qed (rule cap_generation_step)

section \<open>Properties\<close>

text \<open>Concrete facts about the first capability issued after initialisation.\<close>

lemma create_first:
  "lettuce_capability_create 10 20 1 LETTUCE_CAP_CALL 1 lettuce_capability_init =
     (0x10001, snd (lettuce_capability_create 10 20 1 LETTUCE_CAP_CALL 1 lettuce_capability_init))"
  by (simp add: lettuce_capability_create_def lettuce_capability_init_def capability_entry_init_def
      LETTUCE_CAPABILITY_TABLE_SIZE_def LETTUCE_CAPABILITY_KNOWN_PERMISSIONS_def Let_def
      make_handle_def handle_pack_def)

definition first_cap_state :: capability_state where
  "first_cap_state = snd (lettuce_capability_create 10 20 1 LETTUCE_CAP_CALL 1 lettuce_capability_init)"

lemma cap_inv_first: "cap_inv first_cap_state"
  unfolding first_cap_state_def by (rule cap_inv_create [OF cap_inv_init])

lemma first_cap_live: "cap_view first_cap_state 0x10001 \<noteq> None"
  using cap_view_create(2) [OF create_first _ cap_inv_init] by (simp add: first_cap_state_def)

lemma revoke_first: "lettuce_capability_revoke 0x10001 first_cap_state =
    (True, snd (lettuce_capability_revoke 0x10001 first_cap_state))"
  using first_cap_live revoke_iff [of "0x10001" first_cap_state] by (metis prod.collapse)


text \<open>
  C12: No authority is forged. If a check succeeds after any sequence of requests from the
  initialised table, then that sequence contains a create request whose owner is the trusted
  caller, whose target, operation and resource are the requested ones, and whose permissions
  include the requested ones.
\<close>

theorem capability_provenance:
  assumes "lettuce_capability_check (fold cap_step ops lettuce_capability_init) caller h t op p r"
  shows "\<exists>perms. CapCreate caller t op perms r \<in> set ops \<and> perms AND p = p \<and> caller \<noteq> 0"
proof -
  obtain c where c: "cap_view (fold cap_step ops lettuce_capability_init) h = Some c"
      "cap_allows c caller t op p r"
    using assms check_eq_view by blast
  from cap_store.provenance [OF cap_inv_init cap_view_init, of ops h c] c
  show ?thesis
    by (auto simp: cap_step_def cap_allows_def)
qed

theorem capability_provenance_witness:
  "lettuce_capability_check
     (fold cap_step [CapCreate 10 20 1 LETTUCE_CAP_CALL 1] lettuce_capability_init)
     10 0x10001 20 1 LETTUCE_CAP_CALL 1 \<and>
   (\<exists>perms. CapCreate 10 20 1 perms 1 \<in> set [CapCreate 10 20 1 LETTUCE_CAP_CALL 1] \<and>
     perms AND LETTUCE_CAP_CALL = LETTUCE_CAP_CALL \<and> (10 :: u32) \<noteq> 0)"
proof -
  have "lettuce_capability_check
     (fold cap_step [CapCreate 10 20 1 LETTUCE_CAP_CALL 1] lettuce_capability_init)
     10 0x10001 20 1 LETTUCE_CAP_CALL 1"
    using cap_store.create_then_check [OF cap_inv_init create_first] by (simp add: cap_step_def)
  from this capability_provenance [OF this] show ?thesis by (rule conjI)
qed

text \<open>
  A successful create hands out a handle that was not live before, and the only change it
  makes to the handle map is to add the requested capability under that handle; a create fails,
  without changing anything, exactly when an identifier or the permission mask is invalid or no
  free slot is left.
\<close>

theorem capability_create_spec:
  assumes "cap_inv st" "lettuce_capability_create ow t op p r st = (h, st')"
  shows "if cap_valid \<lparr>cap_owner = ow, cap_target = t, cap_operation = op, cap_resource = r,
                       cap_permissions = p\<rparr> \<and> free_slot_count st \<noteq> 0
     then h \<noteq> 0 \<and> cap_view st h = None \<and>
       cap_view st' = (cap_view st)(h \<mapsto> \<lparr>cap_owner = ow, cap_target = t, cap_operation = op,
                              cap_resource = r, cap_permissions = p\<rparr>)
     else h = 0 \<and> st' = st"
  using create_zero_iff [OF assms(1), of ow t op p r] create_zero_unchanged [OF assms(1), of ow t op p r]
    cap_view_create [OF assms(2) _ assms(1)] assms(2)
  by auto

theorem capability_create_spec_witness:
  "cap_inv lettuce_capability_init \<and>
   lettuce_capability_create 10 20 1 LETTUCE_CAP_CALL 1 lettuce_capability_init
     = (0x10001, first_cap_state) \<and>
   (if cap_valid \<lparr>cap_owner = 10, cap_target = 20, cap_operation = 1, cap_resource = 1,
                       cap_permissions = LETTUCE_CAP_CALL\<rparr> \<and>
       free_slot_count lettuce_capability_init \<noteq> 0
     then (0x10001 :: u32) \<noteq> 0 \<and> cap_view lettuce_capability_init 0x10001 = None \<and>
       cap_view first_cap_state = (cap_view lettuce_capability_init)(0x10001 \<mapsto>
         \<lparr>cap_owner = 10, cap_target = 20, cap_operation = 1, cap_resource = 1,
          cap_permissions = LETTUCE_CAP_CALL\<rparr>)
     else (0x10001 :: u32) = 0 \<and> first_cap_state = lettuce_capability_init)"
proof -
  have c: "lettuce_capability_create 10 20 1 LETTUCE_CAP_CALL 1 lettuce_capability_init
     = (0x10001, first_cap_state)"
    using create_first by (simp only: first_cap_state_def)
  show ?thesis
    using cap_inv_init c capability_create_spec [OF cap_inv_init c] by (intro conjI)
qed

text \<open>
  C14: Revocation is immediate and lasting. Once a handle has been revoked, no check of that
  handle succeeds, for any caller and any request, after any further sequence of up to 65533
  create and revoke requests; the slot may meanwhile be reused under other handles.
\<close>

theorem capability_revoked_stays_dead:
  assumes "cap_inv st" "lettuce_capability_revoke h st = (True, st')" "length ops < 65534"
  shows "\<not> lettuce_capability_check (fold cap_step ops st') caller h t op p r"
proof -
  from assms(2,1) obtain i where i: "i < LETTUCE_CAPABILITY_TABLE_SIZE"
      "cap_decode h = Some (i, cap_slot_generation st i)"
      "capability_table st' = (capability_table st)[i := revoked_entry (capability_table st ! i)]"
    by (rule revoke_success) (simp add: cap_slot_generation_def)
  have inv': "cap_inv st'"
    using cap_inv_revoke [OF assms(1), of h] assms(2) by simp
  have g: "cap_slot_generation st i \<noteq> 0"
    using cap_inv_entry_ok [OF assms(1) i(1)] by (simp add: entry_ok_def cap_slot_generation_def)
  have "cap_slot_generation st' i = next_generation (cap_slot_generation st i)"
    using i assms(1) by (simp add: cap_slot_generation_def cap_inv_def revoked_entry_def)
  then have "cap_slot_generation (fold cap_step ops st') i \<noteq> cap_slot_generation st i"
    using cap_generations.run_stale [OF inv' i(1) g _ assms(3)] by simp
  then have "cap_view (fold cap_step ops st') h = None"
    using i(2) by (simp add: cap_view_decode cap_slot_generation_def)
  then show ?thesis by (simp add: check_eq_view)
qed

theorem capability_revoked_stays_dead_witness:
  "\<not> lettuce_capability_check
     (fold cap_step [CapCreate 10 20 1 LETTUCE_CAP_CALL 1]
       (snd (lettuce_capability_revoke 0x10001 first_cap_state)))
     10 0x10001 20 1 LETTUCE_CAP_CALL 1"
  by (rule capability_revoked_stays_dead [OF cap_inv_first revoke_first]) simp

text \<open>
  Requests for one handle never disturb another. Creating a capability or revoking a handle
  leaves the outcome of every check of every other handle unchanged, and revoking succeeds
  exactly on the live handles.
\<close>

theorem capability_isolation:
  assumes "cap_inv st"
  shows "(h' \<noteq> fst (lettuce_capability_create ow t op p r st) \<longrightarrow>
     lettuce_capability_check (snd (lettuce_capability_create ow t op p r st)) caller h' t' op' p' r'
       = lettuce_capability_check st caller h' t' op' p' r') \<and>
    (h' \<noteq> h \<longrightarrow>
     lettuce_capability_check (snd (lettuce_capability_revoke h st)) caller h' t' op' p' r'
       = lettuce_capability_check st caller h' t' op' p' r') \<and>
    (fst (lettuce_capability_revoke h st) \<longleftrightarrow> cap_view st h \<noteq> None)"
  using cap_store.create_frame [OF assms prod.collapse [symmetric]]
    cap_store.revoke_frame [OF assms prod.collapse [symmetric]]
  by (simp add: revoke_iff)

theorem capability_isolation_witness:
  "cap_inv first_cap_state \<and>
   lettuce_capability_check (snd (lettuce_capability_revoke 0x10002 first_cap_state))
       10 0x10001 20 1 LETTUCE_CAP_CALL 1
     = lettuce_capability_check first_cap_state 10 0x10001 20 1 LETTUCE_CAP_CALL 1"
  using cap_inv_first
    capability_isolation [OF cap_inv_first, where h' = "0x10001" and h = "0x10002"] by simp

end
