(* ===== verification/Shared_Buffer.thy ===== *)
theory Shared_Buffer
  imports Capability
begin

text \<open>
  The shared buffers of \<^verbatim>\<open>memory/shared/buffer.c\<close>. The state is the static table \<^verbatim>\<open>buffers\<close>, payloads
  included. The trusted caller identity \<^verbatim>\<open>current_service_id()\<close> and the capability table that
  \<^verbatim>\<open>lettuce_capability_check\<close> reads are arguments. A data pointer is the number of the buffer whose
  payload it points to.
\<close>

section \<open>Data and operations\<close>

definition LETTUCE_SHARED_BUFFER_COUNT :: nat where "LETTUCE_SHARED_BUFFER_COUNT = 16"
definition LETTUCE_SHARED_BUFFER_SIZE :: nat where "LETTUCE_SHARED_BUFFER_SIZE = 4096"
abbreviation LETTUCE_SHARED_READ_OPERATION :: operation_id where "LETTUCE_SHARED_READ_OPERATION \<equiv> 0x100"
abbreviation LETTUCE_SHARED_WRITE_OPERATION :: operation_id where "LETTUCE_SHARED_WRITE_OPERATION \<equiv> 0x101"

record SharedBuffer =
  sb_size :: u64
  sb_resource :: resource_id
  sb_read_capability :: u32
  sb_write_capability :: u32
  sb_owner :: service_id
  sb_generation :: u16
  sb_active :: bool
  sb_data :: "u8 list"

type_synonym shared_buffers = "SharedBuffer list"

definition zero_payload :: "u8 list" where
  "zero_payload = replicate LETTUCE_SHARED_BUFFER_SIZE 0"

definition empty_buffer :: "u16 \<Rightarrow> SharedBuffer" where
  "empty_buffer g = \<lparr>sb_size = 0, sb_resource = 0, sb_read_capability = 0, sb_write_capability = 0,
     sb_owner = 0, sb_generation = g, sb_active = False, sb_data = zero_payload\<rparr>"

definition buffer_decode_handle :: "u32 \<Rightarrow> (nat \<times> u16) option" where
  "buffer_decode_handle handle =
     (if handle = 0 \<or> handle_slot handle = 0 then None
      else let slot = unat (handle_slot handle - 1) in
        if slot < LETTUCE_SHARED_BUFFER_COUNT then Some (slot, handle_generation handle) else None)"

definition lettuce_shared_buffer_init :: "shared_buffers \<Rightarrow> LettuceStatus \<times> shared_buffers" where
  "lettuce_shared_buffer_init st =
     (LETTUCE_STATUS_OK,
      map (\<lambda>b. empty_buffer (if sb_generation b = 0 then 1 else sb_generation b)) st)"

text \<open>The scan \<^verbatim>\<open>for (i = 0; i < COUNT; ++i) if (buffers[i].active) continue; ...\<close>.\<close>

function first_free :: "shared_buffers \<Rightarrow> nat \<Rightarrow> nat option" where
  "first_free st i =
     (if i < LETTUCE_SHARED_BUFFER_COUNT
      then if sb_active (st ! i) then first_free st (Suc i) else Some i
      else None)"
  by auto
termination
  by (relation "measure (\<lambda>(st, i). LETTUCE_SHARED_BUFFER_COUNT - i)") auto

definition lettuce_shared_buffer_create ::
  "service_id \<Rightarrow> service_id \<Rightarrow> resource_id \<Rightarrow> u64 \<Rightarrow> u32 \<Rightarrow> u32 \<Rightarrow> bool \<Rightarrow>
   shared_buffers \<Rightarrow> LettuceStatus \<times> u32 option \<times> shared_buffers" where
  "lettuce_shared_buffer_create current owner resource bytes read_capability write_capability out st =
     (if owner = LETTUCE_SERVICE_ID_INVALID \<or> resource = LETTUCE_RESOURCE_ID_INVALID \<or> bytes = 0 \<or>
         unat bytes > LETTUCE_SHARED_BUFFER_SIZE \<or> \<not> out
      then (LETTUCE_STATUS_INVALID_ARGUMENT, None, st)
      else if current \<noteq> owner then (LETTUCE_STATUS_DENIED, None, st)
      else case first_free st 0 of
        None \<Rightarrow> (LETTUCE_STATUS_UNAVAILABLE, None, st)
      | Some i \<Rightarrow>
          let gen = (if sb_generation (st ! i) = 0 then 1 else sb_generation (st ! i)) in
          (LETTUCE_STATUS_OK, Some (handle_pack (of_nat i) gen),
           st[i := (st ! i)\<lparr>sb_owner := owner, sb_resource := resource, sb_size := bytes,
                sb_read_capability := read_capability, sb_write_capability := write_capability,
                sb_generation := gen, sb_active := True, sb_data := zero_payload\<rparr>]))"

text \<open>
  The two out-pointers of the access are non-NULL when \<^verbatim>\<open>out\<close> holds; on success the result is the
  payload's buffer number and its size.
\<close>

definition lettuce_shared_buffer_access ::
  "capability_state \<Rightarrow> service_id \<Rightarrow> shared_buffers \<Rightarrow> u32 \<Rightarrow> u32 \<Rightarrow> bool \<Rightarrow> bool \<Rightarrow>
   LettuceStatus \<times> (nat \<times> u64) option" where
  "lettuce_shared_buffer_access cs current st handle capability write out =
     (if \<not> out then (LETTUCE_STATUS_INVALID_ARGUMENT, None)
      else case buffer_decode_handle handle of
        None \<Rightarrow> (LETTUCE_STATUS_INVALID_ARGUMENT, None)
      | Some (slot, generation) \<Rightarrow>
          let buffer = st ! slot in
          if \<not> sb_active buffer \<or> sb_generation buffer \<noteq> generation then (LETTUCE_STATUS_NOT_FOUND, None)
          else
            let operation = (if write then LETTUCE_SHARED_WRITE_OPERATION else LETTUCE_SHARED_READ_OPERATION);
                expected = (if write then sb_write_capability buffer else sb_read_capability buffer)
            in if capability \<noteq> expected \<or>
                  \<not> lettuce_capability_check cs current capability (sb_owner buffer) operation
                      (if write then LETTUCE_CAP_WRITE else LETTUCE_CAP_READ) (sb_resource buffer)
               then (LETTUCE_STATUS_CAPABILITY_DENIED, None)
               else (LETTUCE_STATUS_OK, Some (slot, sb_size buffer)))"

definition lettuce_shared_buffer_revoke ::
  "service_id \<Rightarrow> u32 \<Rightarrow> shared_buffers \<Rightarrow> LettuceStatus \<times> shared_buffers" where
  "lettuce_shared_buffer_revoke current handle st =
     (case buffer_decode_handle handle of
        None \<Rightarrow> (LETTUCE_STATUS_INVALID_ARGUMENT, st)
      | Some (slot, generation) \<Rightarrow>
          let buffer = st ! slot in
          if \<not> sb_active buffer \<or> sb_generation buffer \<noteq> generation then (LETTUCE_STATUS_NOT_FOUND, st)
          else if current \<noteq> sb_owner buffer then (LETTUCE_STATUS_DENIED, st)
          else (LETTUCE_STATUS_OK,
                st[slot := buffer\<lparr>sb_active := False, sb_generation := next_generation (sb_generation buffer),
                                  sb_data := zero_payload\<rparr>]))"

text \<open>A service that was handed a data pointer may store any bytes in the payload.\<close>

definition payload_store :: "nat \<Rightarrow> u8 list \<Rightarrow> shared_buffers \<Rightarrow> shared_buffers" where
  "payload_store slot bytes st =
     (if slot < LETTUCE_SHARED_BUFFER_COUNT \<and> length bytes = LETTUCE_SHARED_BUFFER_SIZE
      then st[slot := (st ! slot)\<lparr>sb_data := bytes\<rparr>] else st)"

section \<open>Invariant and view\<close>

record buffer_grant =
  bg_owner :: service_id
  bg_resource :: resource_id
  bg_size :: u64
  bg_read :: u32
  bg_write :: u32

definition grant_of :: "SharedBuffer \<Rightarrow> buffer_grant" where
  "grant_of b = \<lparr>bg_owner = sb_owner b, bg_resource = sb_resource b, bg_size = sb_size b,
     bg_read = sb_read_capability b, bg_write = sb_write_capability b\<rparr>"

definition buf_view :: "shared_buffers \<Rightarrow> u32 \<Rightarrow> buffer_grant option" where
  "buf_view st h =
     (case buffer_decode_handle h of
        None \<Rightarrow> None
      | Some (i, g) \<Rightarrow>
          if sb_active (st ! i) \<and> sb_generation (st ! i) = g then Some (grant_of (st ! i)) else None)"

definition buffer_ok :: "SharedBuffer \<Rightarrow> bool" where
  "buffer_ok b \<longleftrightarrow> sb_generation b \<noteq> 0 \<and> length (sb_data b) = LETTUCE_SHARED_BUFFER_SIZE \<and>
     (sb_active b \<longrightarrow> sb_owner b \<noteq> 0 \<and> sb_resource b \<noteq> 0 \<and> 0 < unat (sb_size b) \<and>
        unat (sb_size b) \<le> LETTUCE_SHARED_BUFFER_SIZE)"

definition buf_inv :: "shared_buffers \<Rightarrow> bool" where
  "buf_inv st \<longleftrightarrow> length st = LETTUCE_SHARED_BUFFER_COUNT \<and> (\<forall>b \<in> set st. buffer_ok b)"

declare first_free.simps [simp del]

lemma first_free_Some:
  "first_free st i = Some k \<Longrightarrow>
     i \<le> k \<and> k < LETTUCE_SHARED_BUFFER_COUNT \<and> \<not> sb_active (st ! k) \<and> (\<forall>j. i \<le> j \<and> j < k \<longrightarrow> sb_active (st ! j))"
proof (induction st i rule: first_free.induct)
  case (1 st i)
  show ?case
  proof (cases "sb_active (st ! i)")
    case True
    then have "i < LETTUCE_SHARED_BUFFER_COUNT" "first_free st (Suc i) = Some k"
      using "1.prems" by (auto simp: first_free.simps [of st i] split: if_splits)
    then show ?thesis using "1.IH" True by (metis Suc_leD Suc_leI le_neq_implies_less)
  next
    case False
    then show ?thesis using "1.prems" by (auto simp: first_free.simps [of st i] split: if_splits)
  qed
qed

lemma first_free_None:
  "first_free st i = None \<Longrightarrow> i \<le> k \<Longrightarrow> k < LETTUCE_SHARED_BUFFER_COUNT \<Longrightarrow> sb_active (st ! k)"
proof (induction st i rule: first_free.induct)
  case (1 st i)
  then have "sb_active (st ! i)" "first_free st (Suc i) = None" "i < LETTUCE_SHARED_BUFFER_COUNT"
    by (auto simp: first_free.simps [of st i] split: if_splits)
  then show ?case using 1 by (metis Suc_leI le_neq_implies_less)
qed

interpretation buf_codec: handle_codec slot_encode buffer_decode_handle LETTUCE_SHARED_BUFFER_COUNT
proof -
  have "buffer_decode_handle = slot_decode LETTUCE_SHARED_BUFFER_COUNT"
    by (auto simp: buffer_decode_handle_def slot_decode_def Let_def fun_eq_iff not_le)
  then show "handle_codec slot_encode buffer_decode_handle LETTUCE_SHARED_BUFFER_COUNT"
    using slot_codec [of LETTUCE_SHARED_BUFFER_COUNT] by (simp add: LETTUCE_SHARED_BUFFER_COUNT_def)
qed

lemma buf_inv_nth: "buf_inv st \<Longrightarrow> i < LETTUCE_SHARED_BUFFER_COUNT \<Longrightarrow> buffer_ok (st ! i)"
  by (simp add: buf_inv_def)

lemma buf_inv_update:
  "buf_inv st \<Longrightarrow> i < LETTUCE_SHARED_BUFFER_COUNT \<Longrightarrow> buffer_ok b \<Longrightarrow> buf_inv (st[i := b])"
  unfolding buf_inv_def using all_nth_update [of i st buffer_ok b] by simp

text \<open>Rewriting one slot changes the view of the handles of that slot only.\<close>

lemma buf_view_update_same:
  assumes "buf_inv st" "buffer_decode_handle h = Some (i, g)"
  shows "buf_view (st[i := b]) h = (if sb_active b \<and> sb_generation b = g then Some (grant_of b) else None)"
  using assms buf_codec.dec_slot_bound [OF assms(2)] by (simp add: buf_view_def buf_inv_def)

lemma buf_view_update_other:
  assumes "\<nexists>g. buffer_decode_handle h = Some (i, g)"
  shows "buf_view (st[i := b]) h = buf_view st h"
proof (cases "buffer_decode_handle h")
  case (Some p)
  then have "fst p \<noteq> i" using assms by (metis prod.collapse)
  then show ?thesis using Some by (cases p) (simp add: buf_view_def)
qed (simp add: buf_view_def)

lemma buf_view_live:
  assumes "buffer_decode_handle h = Some (i, g)"
  shows "buf_view st h = (if sb_active (st ! i) \<and> sb_generation (st ! i) = g then Some (grant_of (st ! i)) else None)"
  using assms by (simp add: buf_view_def)

section \<open>Effect of each operation\<close>

lemma create_cases:
  assumes "buf_inv st"
  shows "lettuce_shared_buffer_create cur ow r n rc wc out st =
    (if ow = 0 \<or> r = 0 \<or> n = 0 \<or> unat n > LETTUCE_SHARED_BUFFER_SIZE \<or> \<not> out
     then (LETTUCE_STATUS_INVALID_ARGUMENT, None, st)
     else if cur \<noteq> ow then (LETTUCE_STATUS_DENIED, None, st)
     else case first_free st 0 of
         None \<Rightarrow> (LETTUCE_STATUS_UNAVAILABLE, None, st)
       | Some i \<Rightarrow> (LETTUCE_STATUS_OK, Some (slot_encode i (sb_generation (st ! i))),
           st[i := (st ! i)\<lparr>sb_owner := ow, sb_resource := r, sb_size := n,
      sb_read_capability := rc, sb_write_capability := wc, sb_active := True, sb_data := zero_payload\<rparr>]))"
proof -
  have g: "sb_generation (st ! i) \<noteq> 0" if "first_free st 0 = Some i" for i
    using buf_inv_nth [OF assms, of i] first_free_Some [OF that] by (simp add: buffer_ok_def)
  show ?thesis
    by (auto simp: lettuce_shared_buffer_create_def slot_encode_def Let_def g split: option.split)
qed

lemma create_effect:
  fixes rc wc :: u32
  assumes inv: "buf_inv st" and free: "first_free st 0 = Some i"
    and ok: "ow \<noteq> 0" "r \<noteq> 0" "n \<noteq> 0" "unat n \<le> LETTUCE_SHARED_BUFFER_SIZE"
  defines "h \<equiv> slot_encode i (sb_generation (st ! i))"
    and "st' \<equiv> st[i := (st ! i)\<lparr>sb_owner := ow, sb_resource := r, sb_size := n,
      sb_read_capability := rc, sb_write_capability := wc, sb_active := True, sb_data := zero_payload\<rparr>]"
  shows "buf_inv st'" "buf_view st h = None"
    "buf_view st' = (buf_view st)(h \<mapsto> \<lparr>bg_owner = ow, bg_resource = r, bg_size = n, bg_read = rc, bg_write = wc\<rparr>)"
proof -
  have i: "i < LETTUCE_SHARED_BUFFER_COUNT" and off: "\<not> sb_active (st ! i)"
    using first_free_Some [OF free] by auto
  have dec: "buffer_decode_handle h = Some (i, sb_generation (st ! i))"
    unfolding h_def by (rule buf_codec.dec_enc [OF i])
  show "buf_inv st'"
    unfolding st'_def using ok buf_inv_nth [OF inv i]
    by (intro buf_inv_update [OF inv i]) (simp add: buffer_ok_def zero_payload_def unat_gt_0)
  show "buf_view st h = None" using off by (simp add: buf_view_live [OF dec])
  show "buf_view st' = (buf_view st)(h \<mapsto> \<lparr>bg_owner = ow, bg_resource = r, bg_size = n, bg_read = rc, bg_write = wc\<rparr>)"
  proof
    fix h'
    show "buf_view st' h' = ((buf_view st)(h \<mapsto>
        \<lparr>bg_owner = ow, bg_resource = r, bg_size = n, bg_read = rc, bg_write = wc\<rparr>)) h'"
    proof (cases "\<exists>g. buffer_decode_handle h' = Some (i, g)")
      case True
      then obtain g where g: "buffer_decode_handle h' = Some (i, g)" by blast
      have "h' = h \<longleftrightarrow> g = sb_generation (st ! i)"
        using g dec buf_codec.dec_inj [OF g, of h] by auto
      then show ?thesis
        using off buf_view_live [OF g, of st]
        by (simp add: st'_def buf_view_update_same [OF inv g] grant_of_def)
    next
      case False
      then have "h' \<noteq> h" using dec by auto
      then show ?thesis using False by (simp add: st'_def buf_view_update_other)
    qed
  qed
qed

lemma revoke_cases:
  "lettuce_shared_buffer_revoke cur h st =
    (case buffer_decode_handle h of
       None \<Rightarrow> (LETTUCE_STATUS_INVALID_ARGUMENT, st)
     | Some (i, g) \<Rightarrow>
         case buf_view st h of
           None \<Rightarrow> (LETTUCE_STATUS_NOT_FOUND, st)
         | Some v \<Rightarrow> if cur \<noteq> bg_owner v then (LETTUCE_STATUS_DENIED, st)
             else (LETTUCE_STATUS_OK, st[i := (st ! i)\<lparr>sb_active := False,
               sb_generation := next_generation (sb_generation (st ! i)), sb_data := zero_payload\<rparr>]))"
  by (auto simp: lettuce_shared_buffer_revoke_def buf_view_def grant_of_def Let_def split: option.split)

lemma revoke_effect:
  assumes inv: "buf_inv st" and dec: "buffer_decode_handle h = Some (i, g)" and v: "buf_view st h = Some v"
  defines "st' \<equiv> st[i := (st ! i)\<lparr>sb_active := False,
               sb_generation := next_generation (sb_generation (st ! i)), sb_data := zero_payload\<rparr>]"
  shows "buf_inv st'" "buf_view st' = (buf_view st)(h := None)"
proof -
  have i: "i < LETTUCE_SHARED_BUFFER_COUNT" by (rule buf_codec.dec_slot_bound [OF dec])
  have live: "sb_active (st ! i)" "sb_generation (st ! i) = g"
    using v by (auto simp: buf_view_live [OF dec] split: if_splits)
  show "buf_inv st'"
    unfolding st'_def by (intro buf_inv_update [OF inv i]) (simp add: buffer_ok_def zero_payload_def)
  show "buf_view st' = (buf_view st)(h := None)"
  proof
    fix h'
    show "buf_view st' h' = ((buf_view st)(h := None)) h'"
    proof (cases "\<exists>g. buffer_decode_handle h' = Some (i, g)")
      case True
      then obtain g' where g': "buffer_decode_handle h' = Some (i, g')" by blast
      have "h' = h \<longleftrightarrow> g' = g"
        using g' dec buf_codec.dec_inj [OF g', of h] by auto
      then show ?thesis
        using live buf_view_live [OF g', of st] by (simp add: st'_def buf_view_update_same [OF inv g'])
    next
      case False
      then have "h' \<noteq> h" using dec by auto
      then show ?thesis using False by (simp add: st'_def buf_view_update_other)
    qed
  qed
qed

lemma store_effect:
  assumes "buf_inv st"
  shows "buf_inv (payload_store i bs st)" "buf_view (payload_store i bs st) = buf_view st"
proof -
  show "buf_inv (payload_store i bs st)"
    using assms buf_inv_nth [OF assms, of i]
    by (auto simp: payload_store_def buffer_ok_def intro!: buf_inv_update)
  have "buf_view (st[i := (st ! i)\<lparr>sb_data := bs\<rparr>]) h = buf_view st h" for h
  proof (cases "\<exists>g. buffer_decode_handle h = Some (i, g)")
    case True
    then obtain g where g: "buffer_decode_handle h = Some (i, g)" by blast
    show ?thesis by (simp add: buf_view_update_same [OF assms g] buf_view_live [OF g, of st] grant_of_def)
  next
    case False
    then show ?thesis by (simp add: buf_view_update_other)
  qed
  then show "buf_view (payload_store i bs st) = buf_view st" by (auto simp: payload_store_def)
qed


section \<open>Sequences of requests\<close>

datatype buf_op =
    BufCreate service_id service_id resource_id u64 u32 u32 bool
  | BufRevoke service_id u32
  | BufStore nat "u8 list"

fun buf_step :: "buf_op \<Rightarrow> shared_buffers \<Rightarrow> shared_buffers" where
  "buf_step (BufCreate cur ow r n rc wc out) st = snd (snd (lettuce_shared_buffer_create cur ow r n rc wc out st))"
| "buf_step (BufRevoke cur h) st = snd (lettuce_shared_buffer_revoke cur h st)"
| "buf_step (BufStore i bs) st = payload_store i bs st"

fun buf_grants :: "buf_op \<Rightarrow> buffer_grant \<Rightarrow> bool" where
  "buf_grants (BufCreate cur ow r n rc wc out) v \<longleftrightarrow>
     cur = ow \<and> v = \<lparr>bg_owner = ow, bg_resource = r, bg_size = n, bg_read = rc, bg_write = wc\<rparr>"
| "buf_grants _ v \<longleftrightarrow> False"

fun buf_removes :: "buf_op \<Rightarrow> u32 \<Rightarrow> buffer_grant \<Rightarrow> bool" where
  "buf_removes (BufRevoke cur h') h v \<longleftrightarrow> h' = h \<and> cur = bg_owner v"
| "buf_removes _ h v \<longleftrightarrow> False"

lemma create_step_cases:
  assumes "buf_inv st"
  obtains (same) "buf_step (BufCreate cur ow r n rc wc out) st = st"
  | (new) i where "first_free st 0 = Some i" "ow \<noteq> 0" "r \<noteq> 0" "n \<noteq> 0" "unat n \<le> LETTUCE_SHARED_BUFFER_SIZE"
      "cur = ow" "buf_step (BufCreate cur ow r n rc wc out) st = st[i := (st ! i)\<lparr>sb_owner := ow, sb_resource := r,
        sb_size := n, sb_read_capability := rc, sb_write_capability := wc, sb_active := True, sb_data := zero_payload\<rparr>]"
proof (cases "ow = 0 \<or> r = 0 \<or> n = 0 \<or> unat n > LETTUCE_SHARED_BUFFER_SIZE \<or> \<not> out \<or> cur \<noteq> ow \<or> first_free st 0 = None")
  case True
  then have "buf_step (BufCreate cur ow r n rc wc out) st = st"
    by (auto simp: create_cases [OF assms] split: option.split)
  then show ?thesis by (rule same)
next
  case False
  then obtain i where "first_free st 0 = Some i" by auto
  with False show ?thesis by (intro new [of i]) (simp_all add: create_cases [OF assms])
qed

lemma revoke_step_cases:
  obtains (same) "buf_step (BufRevoke cur h) st = st"
  | (gone) i g v where "buffer_decode_handle h = Some (i, g)" "buf_view st h = Some v" "cur = bg_owner v"
      "buf_step (BufRevoke cur h) st = st[i := (st ! i)\<lparr>sb_active := False,
         sb_generation := next_generation (sb_generation (st ! i)), sb_data := zero_payload\<rparr>]"
proof (cases "\<exists>i g v. buffer_decode_handle h = Some (i, g) \<and> buf_view st h = Some v \<and> cur = bg_owner v")
  case True
  then show ?thesis using gone by (auto simp: revoke_cases)
next
  case False
  then have "buf_step (BufRevoke cur h) st = st" by (auto simp: revoke_cases split: option.split)
  then show ?thesis by (rule same)
qed

lemma buf_step_inv: "buf_inv st \<Longrightarrow> buf_inv (buf_step a st)"
proof (cases a)
  case (BufCreate cur ow r n rc wc out)
  assume inv: "buf_inv st"
  show ?thesis unfolding BufCreate
    by (rule create_step_cases [OF inv, of cur ow r n rc wc out])
      (use inv create_effect(1) [OF inv] in \<open>simp_all del: buf_step.simps\<close>)
next
  case (BufRevoke cur h)
  assume inv: "buf_inv st"
  show ?thesis unfolding BufRevoke
    by (rule revoke_step_cases [of cur h st])
      (use inv revoke_effect(1) [OF inv] in \<open>simp_all del: buf_step.simps\<close>)
next
  case (BufStore i bs)
  assume "buf_inv st"
  then show ?thesis by (simp add: BufStore store_effect)
qed

interpretation buf_store: handle_store buf_view buf_inv buf_step buf_grants buf_removes
proof
  fix st a h v
  assume inv: "buf_inv st"
  then show "buf_inv (buf_step a st)" by (rule buf_step_inv)
  show "buf_view st h = Some v \<or> buf_grants a v" if new: "buf_view (buf_step a st) h = Some v"
  proof (cases a)
    case (BufCreate cur ow r n rc wc out)
    show ?thesis
      by (rule create_step_cases [OF inv, of cur ow r n rc wc out])
        (use new create_effect(3) [OF inv] in \<open>auto simp del: buf_step.simps simp: BufCreate split: if_splits\<close>)
  next
    case (BufRevoke cur h')
    show ?thesis
      by (rule revoke_step_cases [of cur h' st])
        (use new revoke_effect(2) [OF inv] in \<open>auto simp del: buf_step.simps simp: BufRevoke split: if_splits\<close>)
  next
    case (BufStore i bs)
    then show ?thesis using new by (simp add: store_effect [OF inv])
  qed
  show "buf_view (buf_step a st) h = Some v" if old: "buf_view st h = Some v" and k: "\<not> buf_removes a h v"
  proof (cases a)
    case (BufCreate cur ow r n rc wc out)
    show ?thesis
      by (rule create_step_cases [OF inv, of cur ow r n rc wc out])
        (use old create_effect(2,3) [OF inv] in \<open>auto simp del: buf_step.simps simp: BufCreate\<close>)
  next
    case (BufRevoke cur h')
    show ?thesis
      by (rule revoke_step_cases [of cur h' st])
        (use old k revoke_effect(2) [OF inv] in \<open>auto simp del: buf_step.simps simp: BufRevoke\<close>)
  next
    case (BufStore i bs)
    then show ?thesis using old by (simp add: store_effect [OF inv])
  qed
qed

definition buf_generation :: "shared_buffers \<Rightarrow> nat \<Rightarrow> u16" where
  "buf_generation st i = sb_generation (st ! i)"

interpretation buf_generations: generation_discipline buf_generation buf_inv buf_step LETTUCE_SHARED_BUFFER_COUNT
proof
  fix st a and j :: nat
  assume inv: "buf_inv st"
  then show "buf_inv (buf_step a st)" by (rule buf_step_inv)
  assume j: "j < LETTUCE_SHARED_BUFFER_COUNT"
  have len: "length st = LETTUCE_SHARED_BUFFER_COUNT" using inv by (simp add: buf_inv_def)
  show "buf_generation (buf_step a st) j = buf_generation st j \<or>
      buf_generation (buf_step a st) j = next_generation (buf_generation st j)"
  proof (cases a)
    case (BufCreate cur ow r n rc wc out)
    show ?thesis unfolding BufCreate
      by (rule create_step_cases [OF inv, of cur ow r n rc wc out])
        (use j len in \<open>auto simp del: buf_step.simps simp: buf_generation_def nth_update_if\<close>)
  next
    case (BufRevoke cur h)
    show ?thesis unfolding BufRevoke
      by (rule revoke_step_cases [of cur h st])
        (use j len in \<open>auto simp del: buf_step.simps simp: buf_generation_def nth_update_if\<close>)
  next
    case (BufStore i bs)
    then show ?thesis using j len by (auto simp: buf_generation_def payload_store_def nth_update_if)
  qed
qed

definition buffers_start :: shared_buffers where
  "buffers_start = snd (lettuce_shared_buffer_init (replicate LETTUCE_SHARED_BUFFER_COUNT (empty_buffer 0)))"

lemma buffers_start_eq: "buffers_start = replicate LETTUCE_SHARED_BUFFER_COUNT (empty_buffer 1)"
  by (simp add: buffers_start_def lettuce_shared_buffer_init_def empty_buffer_def)

lemma buf_inv_start: "buf_inv buffers_start"
  by (simp add: buffers_start_eq buf_inv_def buffer_ok_def empty_buffer_def zero_payload_def)

lemma buf_view_start: "buf_view buffers_start h = None"
  using buf_codec.dec_slot_bound [of h]
  by (auto simp: buf_view_def buffers_start_eq empty_buffer_def split: option.splits)


lemma buf_grantsE:
  assumes "buf_grants a v"
  obtains rc wc out where "a = BufCreate (bg_owner v) (bg_owner v) (bg_resource v) (bg_size v) rc wc out"
    "bg_read v = rc" "bg_write v = wc"
  using assms by (cases a) auto

section \<open>Properties\<close>

text \<open>The capability an access of the given kind must present, and the right it must carry.\<close>

definition access_capability :: "buffer_grant \<Rightarrow> bool \<Rightarrow> u32" where
  "access_capability v w = (if w then bg_write v else bg_read v)"

definition access_operation :: "bool \<Rightarrow> operation_id" where
  "access_operation w = (if w then LETTUCE_SHARED_WRITE_OPERATION else LETTUCE_SHARED_READ_OPERATION)"

definition access_right :: "bool \<Rightarrow> u32" where
  "access_right w = (if w then LETTUCE_CAP_WRITE else LETTUCE_CAP_READ)"

lemma access_cases:
  "lettuce_shared_buffer_access cs cur st h cap w out =
    (if \<not> out then (LETTUCE_STATUS_INVALID_ARGUMENT, None)
     else case buffer_decode_handle h of
         None \<Rightarrow> (LETTUCE_STATUS_INVALID_ARGUMENT, None)
       | Some (i, g) \<Rightarrow>
           case buf_view st h of
             None \<Rightarrow> (LETTUCE_STATUS_NOT_FOUND, None)
           | Some v \<Rightarrow>
               if cap = access_capability v w \<and>
                 lettuce_capability_check cs cur cap (bg_owner v) (access_operation w) (access_right w) (bg_resource v)
               then (LETTUCE_STATUS_OK, Some (i, bg_size v)) else (LETTUCE_STATUS_CAPABILITY_DENIED, None))"
  by (auto simp: lettuce_shared_buffer_access_def buf_view_def grant_of_def access_capability_def
      access_operation_def access_right_def Let_def split: option.split)

text \<open>
  C23: Every grant of a payload pointer is mediated. In a system where capabilities were only made by
  create and revoke requests and buffers only by buffer requests, an access succeeds only if the
  buffer's owner itself asked for a buffer naming exactly the presented capability for this kind of
  access, and the trusted caller was once given a capability on that owner and resource with the
  shared-read (or shared-write) operation and the read (or write) right; the size returned is the
  one the owner asked for.
\<close>

theorem shared_buffer_access_mediated:
  assumes "lettuce_shared_buffer_access (fold cap_step cops lettuce_capability_init) cur
      (fold buf_step bops buffers_start) h cap w out = (LETTUCE_STATUS_OK, res)"
  shows "\<exists>slot ow r n rc wc out' perms. res = Some (slot, n) \<and> slot < LETTUCE_SHARED_BUFFER_COUNT \<and>
    BufCreate ow ow r n rc wc out' \<in> set bops \<and> cap = (if w then wc else rc) \<and>
    CapCreate cur ow (access_operation w) perms r \<in> set cops \<and> perms AND access_right w = access_right w \<and> cur \<noteq> 0"
proof -
  let ?cs = "fold cap_step cops lettuce_capability_init" and ?bs = "fold buf_step bops buffers_start"
  obtain i g v where dec: "buffer_decode_handle h = Some (i, g)" and v: "buf_view ?bs h = Some v"
    and cap: "cap = access_capability v w" and res: "res = Some (i, bg_size v)"
    and chk: "lettuce_capability_check ?cs cur cap (bg_owner v) (access_operation w) (access_right w) (bg_resource v)"
    using assms unfolding access_cases by (auto split: if_splits option.splits)
  obtain a where "a \<in> set bops" "buf_grants a v"
    using buf_store.run_provenance [OF buf_inv_start v] buf_view_start by auto
  then obtain rc wc out' where mk: "BufCreate (bg_owner v) (bg_owner v) (bg_resource v) (bg_size v) rc wc out' \<in> set bops"
      and v': "bg_read v = rc" "bg_write v = wc"
    using buf_grantsE by blast
  obtain c where c: "cap_view ?cs cap = Some c"
      "cap_allows c cur (bg_owner v) (access_operation w) (access_right w) (bg_resource v)"
    using chk check_eq_view by blast
  then have "CapCreate cur (bg_owner v) (access_operation w) (cap_permissions c) (bg_resource v) \<in> set cops"
    using cap_store.provenance [OF cap_inv_init cap_view_init, of cops cap c]
    by (auto simp: cap_step_def cap_allows_def)
  then show ?thesis
    using mk v' cap c(2) res buf_codec.dec_slot_bound [OF dec]
    by (intro exI [of _ i] exI [of _ "bg_owner v"] exI [of _ "bg_resource v"] exI [of _ "bg_size v"] exI [of _ rc]
        exI [of _ wc] exI [of _ out'] exI [of _ "cap_permissions c"]) (simp add: cap_allows_def access_capability_def)
qed

lemma first_buffer:
  "first_free buffers_start 0 = Some 0" "sb_generation (buffers_start ! 0) = 1"
  by (simp_all add: buffers_start_eq first_free.simps empty_buffer_def LETTUCE_SHARED_BUFFER_COUNT_def)

lemma demo_create:
  "lettuce_shared_buffer_create 20 20 5 64 0x10001 0 True buffers_start =
     (LETTUCE_STATUS_OK, Some 0x10001, buf_step (BufCreate 20 20 5 64 0x10001 0 True) buffers_start)"
proof -
  have "slot_encode 0 1 = 0x10001" by code_simp
  then show ?thesis by (simp add: create_cases [OF buf_inv_start] first_buffer LETTUCE_SHARED_BUFFER_SIZE_def)
qed

lemma demo_view:
  "buf_view (buf_step (BufCreate 20 20 5 64 0x10001 0 True) buffers_start) 0x10001 =
     Some \<lparr>bg_owner = 20, bg_resource = 5, bg_size = 64, bg_read = 0x10001, bg_write = 0\<rparr>"
proof -
  have "slot_encode 0 1 = 0x10001" by code_simp
  then show ?thesis
    using create_effect(3) [OF buf_inv_start first_buffer(1), where ow = 20 and r = 5 and n = 64 and rc = "0x10001" and wc = 0]
    by (simp add: create_cases [OF buf_inv_start] first_buffer LETTUCE_SHARED_BUFFER_SIZE_def)
qed

lemma demo_dec: "buffer_decode_handle 0x10001 = Some (0, 1)"
  by code_simp

lemma shared_buffer_access_mediated_witness:
  "lettuce_shared_buffer_access (fold cap_step [CapCreate 10 20 0x100 LETTUCE_CAP_READ 5] lettuce_capability_init) 10
     (fold buf_step [BufCreate 20 20 5 64 0x10001 0 True] buffers_start) 0x10001 0x10001 False True =
     (LETTUCE_STATUS_OK, Some (0, 64)) \<and>
   (\<exists>perms. CapCreate 10 20 (access_operation False) perms 5 \<in> set [CapCreate 10 20 0x100 LETTUCE_CAP_READ 5])"
proof -
  have c: "lettuce_capability_create 10 20 0x100 LETTUCE_CAP_READ 5 lettuce_capability_init =
      (0x10001, snd (lettuce_capability_create 10 20 0x100 LETTUCE_CAP_READ 5 lettuce_capability_init))"
    by (simp add: lettuce_capability_create_def lettuce_capability_init_def capability_entry_init_def
        LETTUCE_CAPABILITY_TABLE_SIZE_def LETTUCE_CAPABILITY_KNOWN_PERMISSIONS_def Let_def make_handle_def handle_pack_def)
  have "lettuce_capability_check (fold cap_step [CapCreate 10 20 0x100 LETTUCE_CAP_READ 5] lettuce_capability_init)
      10 0x10001 20 0x100 LETTUCE_CAP_READ 5"
    using cap_store.create_then_check [OF cap_inv_init c] by (simp add: cap_step_def)
  then have a: "lettuce_shared_buffer_access (fold cap_step [CapCreate 10 20 0x100 LETTUCE_CAP_READ 5] lettuce_capability_init) 10
     (fold buf_step [BufCreate 20 20 5 64 0x10001 0 True] buffers_start) 0x10001 0x10001 False True =
     (LETTUCE_STATUS_OK, Some (0, 64))"
    using demo_view by (simp add: access_cases demo_dec access_capability_def access_operation_def access_right_def
        del: buf_step.simps)
  then show ?thesis using shared_buffer_access_mediated [OF a] by auto
qed



text \<open>
  A revoked buffer handle is dead for the next 65533 requests: whatever buffers are created,
  revoked and written meanwhile, and whatever capability is presented, no access through it succeeds.
\<close>

theorem shared_buffer_revoked_stays_dead:
  assumes inv: "buf_inv st" and rev: "lettuce_shared_buffer_revoke cur h st = (LETTUCE_STATUS_OK, st')"
    and len: "length ops < 65534"
  shows "fst (lettuce_shared_buffer_access cs cur' (fold buf_step ops st') h cap w True) = LETTUCE_STATUS_NOT_FOUND"
proof -
  obtain i g v where dec: "buffer_decode_handle h = Some (i, g)" and v: "buf_view st h = Some v"
    and st': "st' = st[i := (st ! i)\<lparr>sb_active := False,
        sb_generation := next_generation (sb_generation (st ! i)), sb_data := zero_payload\<rparr>]"
    using rev unfolding revoke_cases by (auto split: if_splits option.splits)
  have i: "i < LETTUCE_SHARED_BUFFER_COUNT" by (rule buf_codec.dec_slot_bound [OF dec])
  have g: "sb_generation (st ! i) = g" "g \<noteq> 0"
    using v buf_inv_nth [OF inv i] by (auto simp: buf_view_live [OF dec] buffer_ok_def split: if_splits)
  have inv': "buf_inv st'" unfolding st' by (rule revoke_effect(1) [OF inv dec v])
  have "buf_generation st' i = next_generation g"
    using i inv g by (simp add: st' buf_generation_def buf_inv_def)
  then have "buf_generation (fold buf_step ops st') i \<noteq> g"
    by (rule buf_generations.run_stale [OF inv' i g(2) _ len])
  then show ?thesis by (simp add: access_cases dec buf_view_live [OF dec] buf_generation_def)
qed


lemma shared_buffer_revoked_stays_dead_witness:
  "\<exists>st st'. buf_inv st \<and> lettuce_shared_buffer_revoke 20 0x10001 st = (LETTUCE_STATUS_OK, st') \<and>
     fst (lettuce_shared_buffer_access lettuce_capability_init 20 (fold buf_step [BufRevoke 20 0x10001] st')
       0x10001 0x10001 False True) = LETTUCE_STATUS_NOT_FOUND"
proof -
  let ?st = "buf_step (BufCreate 20 20 5 64 0x10001 0 True) buffers_start"
  have inv: "buf_inv ?st" by (rule buf_step_inv [OF buf_inv_start])
  obtain st' where r: "lettuce_shared_buffer_revoke 20 0x10001 ?st = (LETTUCE_STATUS_OK, st')"
    using demo_view by (simp add: revoke_cases demo_dec del: buf_step.simps)
  show ?thesis
    using shared_buffer_revoked_stays_dead [OF inv r, of "[BufRevoke 20 0x10001]"] inv r by (auto simp del: buf_step.simps)
qed

end
