(* ===== verification/Task.thy ===== *)
theory Task
  imports Handles
begin

text \<open>
  The task table of \<^verbatim>\<open>kernel/main/task.c\<close> and \<^verbatim>\<open>kernel/include/task.h\<close>. A task pointer is the number of
  its slot in \<^verbatim>\<open>g_task_table\<close>, NULL is \<^const>\<open>None\<close>; a task identifier packs slot and generation.
  The theory also holds the probe the scheduler and its policies use to reach a task from a slot
  number: they try the identifiers of generations 1 to 10.
\<close>

section \<open>Data\<close>

definition LETTUCE_MAX_TASKS :: nat where "LETTUCE_MAX_TASKS = 16"
abbreviation LETTUCE_EEVDF_BASE_WEIGHT :: u32 where "LETTUCE_EEVDF_BASE_WEIGHT \<equiv> 1024"
abbreviation LETTUCE_EEVDF_DEFAULT_SLICE :: u32 where "LETTUCE_EEVDF_DEFAULT_SLICE \<equiv> 5"

datatype LettuceTaskState =
    LETTUCE_TASK_STATE_UNUSED
  | LETTUCE_TASK_STATE_READY
  | LETTUCE_TASK_STATE_RUNNING
  | LETTUCE_TASK_STATE_SLEEPING
  | LETTUCE_TASK_STATE_BLOCKED
  | LETTUCE_TASK_STATE_TERMINATED

record LettuceTaskContext =
  cx_x :: "u64 list"
  cx_sp_el0 :: u64
  cx_elr_el1 :: u64
  cx_spsr_el1 :: u64

record LettuceTask =
  t_id :: u32
  t_generation :: u16
  t_priority :: u8
  t_service_id :: service_id
  t_domain_id :: domain_id
  t_state :: LettuceTaskState
  t_weight :: u32
  t_requested_slice_ticks :: u32
  t_time_slice_ticks :: u64
  t_quantum_ticks :: u64
  t_vruntime :: u64
  t_vdeadline :: u64
  t_sleep_deadline_ticks :: u64
  t_total_ticks_run :: u64
  t_stack_base :: u64
  t_stack_size :: u64
  t_name :: u64
  t_context :: LettuceTaskContext

type_synonym task_ptr = "nat option"

record task_state =
  g_task_table :: "LettuceTask list"
  g_current_task :: task_ptr

abbreviation task_at :: "task_state \<Rightarrow> nat \<Rightarrow> LettuceTask" where
  "task_at st i \<equiv> g_task_table st ! i"

definition upd_task :: "nat \<Rightarrow> (LettuceTask \<Rightarrow> LettuceTask) \<Rightarrow> task_state \<Rightarrow> task_state" where
  "upd_task i f st = st\<lparr>g_task_table := (g_task_table st)[i := f (g_task_table st ! i)]\<rparr>"

definition zero_context :: "u64 \<Rightarrow> u64 \<Rightarrow> LettuceTaskContext" where
  "zero_context sp pc = \<lparr>cx_x = replicate 31 0, cx_sp_el0 = sp, cx_elr_el1 = pc, cx_spsr_el1 = 0\<rparr>"

section \<open>Operations\<close>

definition task_slot_init :: LettuceTask where
  "task_slot_init =
     \<lparr>t_id = 0, t_generation = 1, t_priority = 0, t_service_id = 0, t_domain_id = 0,
      t_state = LETTUCE_TASK_STATE_UNUSED, t_weight = LETTUCE_EEVDF_BASE_WEIGHT,
      t_requested_slice_ticks = LETTUCE_EEVDF_DEFAULT_SLICE, t_time_slice_ticks = 0,
      t_quantum_ticks = ucast LETTUCE_EEVDF_DEFAULT_SLICE, t_vruntime = 0, t_vdeadline = 0,
      t_sleep_deadline_ticks = 0, t_total_ticks_run = 0, t_stack_base = 0, t_stack_size = 0,
      t_name = 0, t_context = zero_context 0 0\<rparr>"

definition lettuce_task_init_subsystem :: task_state where
  "lettuce_task_init_subsystem =
     \<lparr>g_task_table = map (\<lambda>i. task_slot_init) [0..<LETTUCE_MAX_TASKS], g_current_task = None\<rparr>"

definition task_id_pack :: "nat \<Rightarrow> u16 \<Rightarrow> u32" where
  "task_id_pack slot gen = push_bit 16 (ucast gen) OR of_nat slot"

definition task_slot_reusable :: "LettuceTask \<Rightarrow> bool" where
  "task_slot_reusable t \<longleftrightarrow>
     t_state t = LETTUCE_TASK_STATE_UNUSED \<or> t_state t = LETTUCE_TASK_STATE_TERMINATED"

text \<open>The scan of the table for a reusable slot, in slot order.\<close>

fun find_task_slot :: "LettuceTask list \<Rightarrow> nat \<Rightarrow> nat option" where
  "find_task_slot [] i = None"
| "find_task_slot (t # ts) i = (if task_slot_reusable t then Some i else find_task_slot ts (Suc i))"

definition fresh_task :: "nat \<Rightarrow> service_id \<Rightarrow> domain_id \<Rightarrow> u64 \<Rightarrow> u64 \<Rightarrow> u64 \<Rightarrow> LettuceTask \<Rightarrow> LettuceTask" where
  "fresh_task i service_id domain_id entry_pc stack_top name t =
     (let gen = (if t_generation t = 0 then 1 else t_generation t) in
      t\<lparr>t_generation := gen, t_id := task_id_pack i gen, t_service_id := service_id,
        t_domain_id := domain_id, t_priority := 0, t_state := LETTUCE_TASK_STATE_READY,
        t_weight := LETTUCE_EEVDF_BASE_WEIGHT, t_requested_slice_ticks := LETTUCE_EEVDF_DEFAULT_SLICE,
        t_quantum_ticks := ucast LETTUCE_EEVDF_DEFAULT_SLICE,
        t_time_slice_ticks := ucast LETTUCE_EEVDF_DEFAULT_SLICE, t_vruntime := 0, t_vdeadline := 0,
        t_sleep_deadline_ticks := 0, t_total_ticks_run := 0, t_name := name,
        t_context := zero_context stack_top entry_pc\<rparr>)"

definition lettuce_task_create ::
  "service_id \<Rightarrow> domain_id \<Rightarrow> u64 \<Rightarrow> u64 \<Rightarrow> u64 \<Rightarrow> task_state \<Rightarrow> task_ptr \<times> task_state" where
  "lettuce_task_create service_id domain_id entry_pc stack_top name st =
     (case find_task_slot (g_task_table st) 0 of
        None \<Rightarrow> (None, st)
      | Some i \<Rightarrow> (Some i, upd_task i (fresh_task i service_id domain_id entry_pc stack_top name) st))"

definition lettuce_task_get :: "task_state \<Rightarrow> u32 \<Rightarrow> task_ptr" where
  "lettuce_task_get st tid =
     (let slot = unat (handle_slot tid); gen = handle_generation tid in
      if slot \<ge> LETTUCE_MAX_TASKS then None
      else if t_generation (task_at st slot) \<noteq> gen then None
      else if t_state (task_at st slot) = LETTUCE_TASK_STATE_UNUSED then None
      else Some slot)"

definition lettuce_task_current :: "task_state \<Rightarrow> task_ptr" where
  "lettuce_task_current st = g_current_task st"

definition lettuce_task_set_current :: "task_ptr \<Rightarrow> task_state \<Rightarrow> task_state" where
  "lettuce_task_set_current task st = st\<lparr>g_current_task := task\<rparr>"

definition lettuce_task_terminate :: "u32 \<Rightarrow> task_state \<Rightarrow> task_state" where
  "lettuce_task_terminate tid st =
     (case lettuce_task_get st tid of
        None \<Rightarrow> st
      | Some i \<Rightarrow>
          let st' = upd_task i (\<lambda>t. t\<lparr>t_state := LETTUCE_TASK_STATE_TERMINATED,
                                     t_generation := next_generation (t_generation t)\<rparr>) st
          in if g_current_task st' = Some i then st'\<lparr>g_current_task := None\<rparr> else st')"

definition lettuce_task_active_count :: "task_state \<Rightarrow> u32" where
  "lettuce_task_active_count st =
     fold (\<lambda>t count. if t_state t \<noteq> LETTUCE_TASK_STATE_UNUSED \<and> t_state t \<noteq> LETTUCE_TASK_STATE_TERMINATED
                     then count + 1 else count) (g_task_table st) 0"

definition lettuce_task_set_weight :: "task_ptr \<Rightarrow> u32 \<Rightarrow> task_state \<Rightarrow> task_state" where
  "lettuce_task_set_weight task weight st =
     (case task of None \<Rightarrow> st
      | Some i \<Rightarrow>
          let w = (if weight = 0 then 1 else if weight > 10240 then 10240 else weight)
          in upd_task i (\<lambda>t. t\<lparr>t_weight := w\<rparr>) st)"

definition lettuce_task_get_weight :: "task_state \<Rightarrow> task_ptr \<Rightarrow> u32" where
  "lettuce_task_get_weight st task =
     (case task of None \<Rightarrow> LETTUCE_EEVDF_BASE_WEIGHT | Some i \<Rightarrow> t_weight (task_at st i))"

definition lettuce_task_set_slice :: "task_ptr \<Rightarrow> u32 \<Rightarrow> task_state \<Rightarrow> task_state" where
  "lettuce_task_set_slice task slice_ticks st =
     (case task of None \<Rightarrow> st
      | Some i \<Rightarrow>
          let s = (if slice_ticks = 0 then 1 else slice_ticks)
          in upd_task i (\<lambda>t. t\<lparr>t_requested_slice_ticks := s, t_quantum_ticks := ucast s\<rparr>) st)"

definition lettuce_task_get_slice :: "task_state \<Rightarrow> task_ptr \<Rightarrow> u32" where
  "lettuce_task_get_slice st task =
     (case task of None \<Rightarrow> LETTUCE_EEVDF_DEFAULT_SLICE | Some i \<Rightarrow> t_requested_slice_ticks (task_at st i))"

text \<open>
  The loop \<^verbatim>\<open>for (gen = 1; gen <= 10; ++gen) { t = lettuce_task_get((gen << 16) | slot); if (t != 0) ...
  break; }\<close> by which the scheduler and both policies go from a slot to a task.
\<close>

function probe_slot_from :: "task_state \<Rightarrow> nat \<Rightarrow> nat \<Rightarrow> task_ptr" where
  "probe_slot_from st slot gen =
     (if gen \<le> 10
      then case lettuce_task_get st (task_id_pack slot (of_nat gen)) of
          None \<Rightarrow> probe_slot_from st slot (Suc gen)
        | Some t \<Rightarrow> Some t
      else None)"
  by auto
termination
  by (relation "measure (\<lambda>(st, slot, gen). 11 - gen)") auto

definition probe_slot :: "task_state \<Rightarrow> nat \<Rightarrow> task_ptr" where
  "probe_slot st slot = probe_slot_from st slot 1"


section \<open>Identifiers\<close>

lemma task_id_pack_handle: "0 < i \<Longrightarrow> task_id_pack i g = handle_pack (of_nat (i - 1)) g"
  by (simp add: task_id_pack_def handle_pack_def of_nat_diff)

lemma unat_task_id_pack:
  assumes "i < 65536"
  shows "unat (task_id_pack i g) = unat g * 65536 + i"
proof (cases "i = 0")
  case True
  have "unat g < 65536" using unsigned_less [of g, where ?'a = nat] by simp
  then show ?thesis
    using True by (simp add: task_id_pack_def push_bit_eq_mult unat_word_ariths(2) unsigned_ucast_eq take_bit_eq_mod)
next
  case False
  then have "unat (of_nat (i - 1) :: u32) = i - 1"
    using assms by (simp add: unat_of_nat del: of_nat_diff)
  then show ?thesis using False assms
    by (simp add: task_id_pack_handle unat_handle_pack del: of_nat_diff)
qed

lemma task_id_slot: "i < 65536 \<Longrightarrow> unat (handle_slot (task_id_pack i g)) = i"
  by (simp add: handle_slot_mod unat_task_id_pack)

lemma task_id_generation: "i < 65536 \<Longrightarrow> handle_generation (task_id_pack i g) = g"
  by (rule word_unat_eq_iff [THEN iffD2]) (simp add: handle_generation_div unat_task_id_pack)

lemma task_get_pack:
  assumes "i < LETTUCE_MAX_TASKS"
  shows "lettuce_task_get st (task_id_pack i g) =
    (if t_generation (task_at st i) = g \<and> t_state (task_at st i) \<noteq> LETTUCE_TASK_STATE_UNUSED then Some i else None)"
  using assms by (simp add: lettuce_task_get_def task_id_slot task_id_generation Let_def LETTUCE_MAX_TASKS_def)

lemma task_get_SomeD:
  "lettuce_task_get st tid = Some i \<Longrightarrow> i < LETTUCE_MAX_TASKS \<and> i = unat (handle_slot tid) \<and>
     t_generation (task_at st i) = handle_generation tid \<and> t_state (task_at st i) \<noteq> LETTUCE_TASK_STATE_UNUSED"
  by (auto simp: lettuce_task_get_def Let_def split: if_splits)

declare probe_slot_from.simps [simp del]

lemma probe_slot_from_eq:
  assumes "i < LETTUCE_MAX_TASKS" "g \<le> 11"
  shows "probe_slot_from st i g =
    (if g \<le> unat (t_generation (task_at st i)) \<and> unat (t_generation (task_at st i)) \<le> 10 \<and>
       t_state (task_at st i) \<noteq> LETTUCE_TASK_STATE_UNUSED then Some i else None)"
  using assms
proof (induction st i g rule: probe_slot_from.induct)
  case (1 st i g)
  have g: "of_nat g = t_generation (task_at st i) \<longleftrightarrow> g = unat (t_generation (task_at st i))" if "g \<le> 10"
    using that by (auto simp: word_unat_eq_iff unat_of_nat)
  show ?case
  proof (cases "g \<le> 10")
    case True
    then show ?thesis
      using "1.IH" "1.prems" g by (auto simp: probe_slot_from.simps [of st i g] task_get_pack)
  next
    case False
    then show ?thesis by (simp add: probe_slot_from.simps [of st i g])
  qed
qed

text \<open>A slot is probed successfully exactly when it is in use and its generation is at most 10.\<close>

definition probed :: "task_state \<Rightarrow> nat \<Rightarrow> bool" where
  "probed st i \<longleftrightarrow> i < LETTUCE_MAX_TASKS \<and> 1 \<le> unat (t_generation (task_at st i)) \<and>
     unat (t_generation (task_at st i)) \<le> 10 \<and> t_state (task_at st i) \<noteq> LETTUCE_TASK_STATE_UNUSED"

lemma probe_slot_eq: "i < LETTUCE_MAX_TASKS \<Longrightarrow> probe_slot st i = (if probed st i then Some i else None)"
  by (simp add: probe_slot_def probe_slot_from_eq probed_def)

section \<open>Invariant\<close>

definition task_ok :: "nat \<Rightarrow> LettuceTask \<Rightarrow> bool" where
  "task_ok i t \<longleftrightarrow> t_generation t \<noteq> 0 \<and> 1 \<le> unat (t_weight t) \<and> unat (t_weight t) \<le> 10240 \<and>
     1 \<le> unat (t_requested_slice_ticks t) \<and> t_quantum_ticks t = ucast (t_requested_slice_ticks t) \<and>
     length (cx_x (t_context t)) = 31 \<and>
     (\<not> task_slot_reusable t \<longrightarrow> t_id t = task_id_pack i (t_generation t))"

definition task_inv :: "task_state \<Rightarrow> bool" where
  "task_inv st \<longleftrightarrow> length (g_task_table st) = LETTUCE_MAX_TASKS \<and>
     (\<forall>i < LETTUCE_MAX_TASKS. task_ok i (task_at st i)) \<and>
     (\<forall>i. g_current_task st = Some i \<longrightarrow> i < LETTUCE_MAX_TASKS)"

lemma task_inv_length: "task_inv st \<Longrightarrow> length (g_task_table st) = LETTUCE_MAX_TASKS"
  by (simp add: task_inv_def)

lemma task_inv_ok: "task_inv st \<Longrightarrow> i < LETTUCE_MAX_TASKS \<Longrightarrow> task_ok i (task_at st i)"
  by (simp add: task_inv_def)

lemma upd_task_current [simp, frame_simps]: "g_current_task (upd_task i f st) = g_current_task st"
  by (simp add: upd_task_def)

lemma length_upd_task [simp, table_simps]: "length (g_task_table (upd_task i f st)) = length (g_task_table st)"
  by (simp add: upd_task_def)

lemma task_at_upd_same [simp]: "i < length (g_task_table st) \<Longrightarrow> task_at (upd_task i f st) i = f (task_at st i)"
  by (simp add: upd_task_def)

lemma task_at_upd_other [simp]: "j \<noteq> i \<Longrightarrow> task_at (upd_task i f st) j = task_at st j"
  by (simp add: upd_task_def)

lemma task_at_upd:
  "j < length (g_task_table st) \<Longrightarrow> task_at (upd_task i f st) j = (if j = i then f (task_at st j) else task_at st j)"
  by simp

lemma task_inv_upd:
  assumes "task_inv st" "i < LETTUCE_MAX_TASKS" "task_ok i (f (task_at st i))"
  shows "task_inv (upd_task i f st)"
  unfolding task_inv_def
proof (intro conjI allI impI)
  fix j
  assume "j < LETTUCE_MAX_TASKS"
  then show "task_ok j (task_at (upd_task i f st) j)"
    using assms task_inv_ok [OF assms(1)] by (cases "j = i") (simp_all add: task_inv_length)
qed (use assms in \<open>simp_all add: task_inv_def\<close>)

lemma find_task_slot_Some:
  "find_task_slot ts i = Some k \<Longrightarrow>
     i \<le> k \<and> k < i + length ts \<and> task_slot_reusable (ts ! (k - i)) \<and> (\<forall>j. i \<le> j \<and> j < k \<longrightarrow> \<not> task_slot_reusable (ts ! (j - i)))"
proof (induction ts i rule: find_task_slot.induct)
  case (2 t ts i)
  show ?case
  proof (cases "task_slot_reusable t")
    case True
    then show ?thesis using "2.prems" by simp
  next
    case False
    have IH: "Suc i \<le> k \<and> k < Suc i + length ts \<and> task_slot_reusable (ts ! (k - Suc i)) \<and>
        (\<forall>j. Suc i \<le> j \<and> j < k \<longrightarrow> \<not> task_slot_reusable (ts ! (j - Suc i)))"
      using "2.IH" "2.prems" False by simp
    have "\<not> task_slot_reusable ((t # ts) ! (j - i))" if "i \<le> j" "j < k" for j
      using IH False that by (cases "j = i") (auto simp: nth_Cons')
    then have A: "\<forall>j. i \<le> j \<and> j < k \<longrightarrow> \<not> task_slot_reusable ((t # ts) ! (j - i))" by blast
    have B: "task_slot_reusable ((t # ts) ! (k - i))" using IH by (simp add: nth_Cons')
    show ?thesis by (intro conjI A B) (use IH in simp_all)
  qed
qed simp

lemma find_task_slot_None: "find_task_slot ts i = None \<longleftrightarrow> (\<forall>t \<in> set ts. \<not> task_slot_reusable t)"
  by (induction ts i rule: find_task_slot.induct) auto

lemma find_task_slot_bound:
  "task_inv st \<Longrightarrow> find_task_slot (g_task_table st) 0 = Some i \<Longrightarrow>
     i < LETTUCE_MAX_TASKS \<and> task_slot_reusable (task_at st i)"
  using find_task_slot_Some [of "g_task_table st" 0 i] by (simp add: task_inv_length)

lemma task_inv_init: "task_inv lettuce_task_init_subsystem"
  by (simp add: task_inv_def task_ok_def lettuce_task_init_subsystem_def task_slot_init_def zero_context_def
      task_slot_reusable_def)

lemma fresh_task_ok: "task_ok i t \<Longrightarrow> task_ok i (fresh_task i s d pc sp nm t)"
  by (simp add: task_ok_def fresh_task_def zero_context_def Let_def)

lemma task_inv_create: "task_inv st \<Longrightarrow> task_inv (snd (lettuce_task_create s d pc sp nm st))"
  using find_task_slot_bound [of st] task_inv_ok [of st]
  by (auto simp: lettuce_task_create_def intro!: task_inv_upd fresh_task_ok split: option.split)

lemma task_inv_terminate: "task_inv st \<Longrightarrow> task_inv (lettuce_task_terminate tid st)"
proof (cases "lettuce_task_get st tid")
  case (Some i)
  assume inv: "task_inv st"
  have i: "i < LETTUCE_MAX_TASKS" using task_get_SomeD [OF Some] by simp
  let ?st = "upd_task i (\<lambda>t. t\<lparr>t_state := LETTUCE_TASK_STATE_TERMINATED,
      t_generation := next_generation (t_generation t)\<rparr>) st"
  have "task_inv ?st"
    using task_inv_ok [OF inv i] by (intro task_inv_upd [OF inv i]) (simp add: task_ok_def task_slot_reusable_def)
  then show ?thesis using Some by (auto simp: lettuce_task_terminate_def Let_def task_inv_def)
qed (simp add: lettuce_task_terminate_def)

lemma clamp_weight: "let w = (if weight = 0 then 1 else if weight > 10240 then 10240 else weight :: u32)
    in 1 \<le> unat w \<and> unat w \<le> 10240"
  by (auto simp: Let_def word_less_nat_alt unat_gt_0 Suc_le_eq)

lemma task_inv_set_weight:
  assumes "task_inv st" "\<forall>i. p = Some i \<longrightarrow> i < LETTUCE_MAX_TASKS"
  shows "task_inv (lettuce_task_set_weight p w st)"
proof (cases p)
  case (Some i)
  then have i: "i < LETTUCE_MAX_TASKS" using assms(2) by simp
  show ?thesis
    unfolding lettuce_task_set_weight_def Some option.case Let_def
    using task_inv_ok [OF assms(1) i] clamp_weight [of w]
    by (intro task_inv_upd [OF assms(1) i]) (simp add: task_ok_def task_slot_reusable_def Let_def)
qed (simp add: lettuce_task_set_weight_def assms)

lemma task_inv_set_slice:
  assumes "task_inv st" "\<forall>i. p = Some i \<longrightarrow> i < LETTUCE_MAX_TASKS"
  shows "task_inv (lettuce_task_set_slice p n st)"
proof (cases p)
  case (Some i)
  then have i: "i < LETTUCE_MAX_TASKS" using assms(2) by simp
  show ?thesis
    unfolding lettuce_task_set_slice_def Some option.case Let_def
    using task_inv_ok [OF assms(1) i]
    by (intro task_inv_upd [OF assms(1) i]) (simp add: task_ok_def task_slot_reusable_def unat_gt_0 Suc_le_eq)
qed (simp add: lettuce_task_set_slice_def assms)


section \<open>Sequences of requests\<close>

datatype task_op =
    TaskCreate service_id domain_id u64 u64 u64
  | TaskTerminate u32
  | TaskWeight u32 u32
  | TaskSlice u32 u32
  | TaskSwitch u32

fun task_step :: "task_op \<Rightarrow> task_state \<Rightarrow> task_state" where
  "task_step (TaskCreate s d pc sp nm) st = snd (lettuce_task_create s d pc sp nm st)"
| "task_step (TaskTerminate tid) st = lettuce_task_terminate tid st"
| "task_step (TaskWeight tid w) st = lettuce_task_set_weight (lettuce_task_get st tid) w st"
| "task_step (TaskSlice tid n) st = lettuce_task_set_slice (lettuce_task_get st tid) n st"
| "task_step (TaskSwitch tid) st = lettuce_task_set_current (lettuce_task_get st tid) st"

lemma task_step_inv: "task_inv st \<Longrightarrow> task_inv (task_step a st)"
proof (cases a)
  case (TaskSwitch tid)
  assume "task_inv st"
  then show ?thesis
    using task_get_SomeD [of st tid] by (simp add: TaskSwitch lettuce_task_set_current_def task_inv_def)
qed (simp_all add: task_inv_create task_inv_terminate task_inv_set_weight task_inv_set_slice task_get_SomeD)

definition task_generation :: "task_state \<Rightarrow> nat \<Rightarrow> u16" where
  "task_generation st i = t_generation (task_at st i)"

lemma task_generation_create:
  assumes "task_inv st" "i < LETTUCE_MAX_TASKS"
  shows "task_generation (snd (lettuce_task_create s d pc sp nm st)) i = task_generation st i"
  using assms find_task_slot_bound [OF assms(1)] task_inv_ok [OF assms]
  by (auto simp: lettuce_task_create_def task_generation_def task_at_upd fresh_task_def Let_def task_ok_def
      task_inv_length split: option.split)

lemma task_generation_terminate:
  assumes "task_inv st" "i < LETTUCE_MAX_TASKS"
  shows "task_generation (lettuce_task_terminate tid st) i =
    (if lettuce_task_get st tid = Some i then next_generation (task_generation st i) else task_generation st i)"
  using assms
  by (auto simp: lettuce_task_terminate_def task_generation_def task_at_upd Let_def task_inv_length split: option.split)

interpretation task_generations: generation_discipline task_generation task_inv task_step LETTUCE_MAX_TASKS
proof
  fix st a and i :: nat
  assume inv: "task_inv st"
  then show "task_inv (task_step a st)" by (rule task_step_inv)
  assume i: "i < LETTUCE_MAX_TASKS"
  show "task_generation (task_step a st) i = task_generation st i \<or>
      task_generation (task_step a st) i = next_generation (task_generation st i)"
  proof (cases a)
    case (TaskCreate s d pc sp nm)
    then show ?thesis using task_generation_create [OF inv i] by simp
  next
    case (TaskTerminate tid)
    then show ?thesis using task_generation_terminate [OF inv i] by simp
  qed (use inv i in \<open>auto simp: task_generation_def lettuce_task_set_weight_def lettuce_task_set_slice_def
      lettuce_task_set_current_def task_at_upd task_inv_length Let_def split: option.split\<close>)
qed

section \<open>Counting live tasks\<close>

definition live_tasks :: "task_state \<Rightarrow> nat" where
  "live_tasks st = length (filter (\<lambda>t. \<not> task_slot_reusable t) (g_task_table st))"

lemma active_count_fold:
  "fold (\<lambda>t count. if t_state t \<noteq> LETTUCE_TASK_STATE_UNUSED \<and> t_state t \<noteq> LETTUCE_TASK_STATE_TERMINATED
     then count + 1 else count) ts (n :: u32) = n + of_nat (length (filter (\<lambda>t. \<not> task_slot_reusable t) ts))"
  by (induction ts arbitrary: n) (simp_all add: task_slot_reusable_def)

lemma active_count_eq:
  assumes "task_inv st"
  shows "unat (lettuce_task_active_count st) = live_tasks st" "live_tasks st \<le> LETTUCE_MAX_TASKS"
proof -
  show le: "live_tasks st \<le> LETTUCE_MAX_TASKS"
    using assms length_filter_le by (metis live_tasks_def task_inv_length)
  then show "unat (lettuce_task_active_count st) = live_tasks st"
    unfolding lettuce_task_active_count_def active_count_fold
    by (simp add: live_tasks_def unat_of_nat LETTUCE_MAX_TASKS_def)
qed

lemma length_filter_update:
  "i < length xs \<Longrightarrow> length (filter P (xs[i := x])) + (if P (xs ! i) then 1 else 0) =
     length (filter P xs) + (if P x then 1 else 0)"
proof (induction xs arbitrary: i)
  case (Cons y ys)
  then show ?case by (cases i) auto
qed simp

lemma live_tasks_upd:
  assumes "task_inv st" "i < LETTUCE_MAX_TASKS"
  shows "live_tasks (upd_task i f st) + (if task_slot_reusable (task_at st i) then 0 else 1) =
    live_tasks st + (if task_slot_reusable (f (task_at st i)) then 0 else 1)"
  using length_filter_update [of i "g_task_table st" "\<lambda>t. \<not> task_slot_reusable t" "f (task_at st i)"] assms
  by (auto simp: live_tasks_def upd_task_def task_inv_length)

section \<open>Properties\<close>

text \<open>
  What creating a task does. It fails, changing nothing, exactly when the reported number of
  active tasks is 16. Otherwise it returns the first reusable slot; the new task is ready, has the
  requested identity and entry state (program counter, stack pointer, all registers and PSTATE zero),
  an identifier that lettuce_task_get resolves to it, default weight and slice and no accumulated
  run time; no other slot changes and the reported number of active tasks goes up by one.
\<close>

theorem task_create_spec:
  assumes inv: "task_inv st" and run: "lettuce_task_create s d pc sp nm st = (p, st')"
  shows "if unat (lettuce_task_active_count st) = LETTUCE_MAX_TASKS then p = None \<and> st' = st
    else \<exists>i t. p = Some i \<and> i < LETTUCE_MAX_TASKS \<and> task_slot_reusable (task_at st i) \<and>
      (\<forall>j < i. \<not> task_slot_reusable (task_at st j)) \<and> t = task_at st' i \<and>
      t_state t = LETTUCE_TASK_STATE_READY \<and> t_service_id t = s \<and> t_domain_id t = d \<and>
      t_context t = zero_context sp pc \<and> lettuce_task_get st' (t_id t) = Some i \<and>
      t_weight t = LETTUCE_EEVDF_BASE_WEIGHT \<and> t_requested_slice_ticks t = LETTUCE_EEVDF_DEFAULT_SLICE \<and>
      t_vruntime t = 0 \<and> t_total_ticks_run t = 0 \<and>
      (\<forall>j < LETTUCE_MAX_TASKS. j \<noteq> i \<longrightarrow> task_at st' j = task_at st j) \<and>
      g_current_task st' = g_current_task st \<and>
      unat (lettuce_task_active_count st') = unat (lettuce_task_active_count st) + 1"
proof (cases "find_task_slot (g_task_table st) 0")
  case None
  then have "filter (\<lambda>t. \<not> task_slot_reusable t) (g_task_table st) = g_task_table st"
    by (simp add: find_task_slot_None)
  then show ?thesis
    using None run inv by (simp add: lettuce_task_create_def active_count_eq live_tasks_def task_inv_length)
next
  case (Some i)
  have st': "p = Some i" "st' = upd_task i (fresh_task i s d pc sp nm) st"
    using run Some by (simp_all add: lettuce_task_create_def)
  have i: "i < LETTUCE_MAX_TASKS" "task_slot_reusable (task_at st i)"
    using find_task_slot_bound [OF inv Some] by simp_all
  have first: "\<forall>j < i. \<not> task_slot_reusable (task_at st j)"
    using find_task_slot_Some [OF Some] by simp
  have inv': "task_inv st'" using task_inv_create [OF inv, of s d pc sp nm] run by simp
  have g: "t_generation (task_at st i) \<noteq> 0" using task_inv_ok [OF inv i(1)] by (simp add: task_ok_def)
  have t: "task_at st' i = fresh_task i s d pc sp nm (task_at st i)"
    using i(1) inv by (simp add: st' task_inv_length)
  have live: "live_tasks st' = live_tasks st + 1"
    using live_tasks_upd [OF inv i(1), of "fresh_task i s d pc sp nm"] i(2)
    by (simp add: st' fresh_task_def Let_def task_slot_reusable_def)
  then have ne: "unat (lettuce_task_active_count st) \<noteq> LETTUCE_MAX_TASKS"
    using active_count_eq(2) [OF inv'] active_count_eq(1) [OF inv] by simp
  have get: "lettuce_task_get st' (t_id (task_at st' i)) = Some i"
    using task_get_pack [OF i(1)] g by (simp add: t fresh_task_def Let_def)
  have frame: "\<forall>j < LETTUCE_MAX_TASKS. j \<noteq> i \<longrightarrow> task_at st' j = task_at st j"
      "g_current_task st' = g_current_task st"
    by (simp_all add: st'(2))
  have cnt: "unat (lettuce_task_active_count st') = unat (lettuce_task_active_count st) + 1"
    using live active_count_eq(1) [OF inv] active_count_eq(1) [OF inv'] by simp
  have fields: "t_state (task_at st' i) = LETTUCE_TASK_STATE_READY" "t_service_id (task_at st' i) = s"
      "t_domain_id (task_at st' i) = d" "t_context (task_at st' i) = zero_context sp pc"
      "t_weight (task_at st' i) = LETTUCE_EEVDF_BASE_WEIGHT" "t_vruntime (task_at st' i) = 0"
      "t_requested_slice_ticks (task_at st' i) = LETTUCE_EEVDF_DEFAULT_SLICE" "t_total_ticks_run (task_at st' i) = 0"
    by (simp_all add: t fresh_task_def Let_def)
  show ?thesis
    unfolding if_not_P [OF ne] using st'(1) i first get frame cnt fields by blast
qed

definition demo_task_state :: task_state where
  "demo_task_state = snd (lettuce_task_create 10 1 0x400000 0x500000 0 lettuce_task_init_subsystem)"

lemma task_create_spec_witness:
  "task_inv lettuce_task_init_subsystem \<and> unat (lettuce_task_active_count lettuce_task_init_subsystem) = 0 \<and>
   unat (lettuce_task_active_count demo_task_state) = 1"
proof -
  obtain p st' where r: "lettuce_task_create 10 1 0x400000 0x500000 0 lettuce_task_init_subsystem = (p, st')"
    by fastforce
  have z: "unat (lettuce_task_active_count lettuce_task_init_subsystem) = 0" by code_simp
  show ?thesis
    using task_create_spec [OF task_inv_init r] task_inv_init z
    by (auto simp: demo_task_state_def r LETTUCE_MAX_TASKS_def)
qed

text \<open>
  A terminated task's identifier is dead: after lettuce_task_terminate of an identifier that
  resolved, it does not resolve during the next 65533 task operations, whatever tasks are created in
  its slot meanwhile.
\<close>

theorem task_terminated_stays_dead:
  assumes "task_inv st" "lettuce_task_get st tid = Some i" "length ops < 65534"
  shows "lettuce_task_get (fold task_step ops (lettuce_task_terminate tid st)) tid = None"
proof -
  have g: "i < LETTUCE_MAX_TASKS" "i = unat (handle_slot tid)" "t_generation (task_at st i) = handle_generation tid"
    using task_get_SomeD [OF assms(2)] by blast+
  have nz: "handle_generation tid \<noteq> 0"
    using task_inv_ok [OF assms(1) g(1)] g(3) by (simp add: task_ok_def)
  have "task_generation (fold task_step ops (lettuce_task_terminate tid st)) i \<noteq> handle_generation tid"
    by (rule task_generations.run_stale [OF task_inv_terminate [OF assms(1)] g(1) nz _ assms(3)])
      (simp add: task_generation_terminate [OF assms(1) g(1)] assms(2), simp add: task_generation_def g(3))
  then show ?thesis using g(2) by (simp add: lettuce_task_get_def task_generation_def Let_def)
qed

lemma task_terminated_stays_dead_witness:
  "task_inv demo_task_state \<and> lettuce_task_get demo_task_state 0x10000 = Some 0 \<and>
   lettuce_task_get (fold task_step [TaskCreate 11 1 0 0 0] (lettuce_task_terminate 0x10000 demo_task_state)) 0x10000 = None"
proof -
  have inv: "task_inv demo_task_state" unfolding demo_task_state_def by (rule task_inv_create [OF task_inv_init])
  have g: "lettuce_task_get demo_task_state 0x10000 = Some 0" by code_simp
  show ?thesis using task_terminated_stays_dead [OF inv g, of "[TaskCreate 11 1 0 0 0]"] inv g by simp
qed

end
