(* ===== verification/Sched_Policy.thy ===== *)
theory Sched_Policy
  imports Task
begin

text \<open>
  The scheduling-policy interface of \<^verbatim>\<open>kernel/scheduler/policy.h\<close> and the round-robin policy of
  \<^verbatim>\<open>kernel/scheduler/rr.c\<close>. A policy is a record of functions on the task table and the static
  variables of the policies, as the C interface is a struct of function pointers. The locale
  \<^verbatim>\<open>sched_policy\<close> states what the scheduler mechanism relies on.
\<close>

section \<open>The interface\<close>

record policy_state =
  ps_tasks :: task_state
  g_rr_last_idx :: u32
  g_eevdf_vsys :: u64

record LettuceSchedPolicyOps =
  po_name :: string
  po_init :: "policy_state \<Rightarrow> policy_state"
  po_on_tick :: "task_ptr \<Rightarrow> u64 \<Rightarrow> policy_state \<Rightarrow> policy_state"
  po_pick_next :: "task_ptr \<Rightarrow> policy_state \<Rightarrow> task_ptr \<times> policy_state"
  po_on_task_ready :: "task_ptr \<Rightarrow> policy_state \<Rightarrow> policy_state"
  po_on_task_sleep :: "task_ptr \<Rightarrow> policy_state \<Rightarrow> policy_state"
  po_on_task_wake :: "task_ptr \<Rightarrow> policy_state \<Rightarrow> policy_state"
  po_on_task_block :: "task_ptr \<Rightarrow> policy_state \<Rightarrow> policy_state"
  po_on_task_exit :: "task_ptr \<Rightarrow> policy_state \<Rightarrow> policy_state"

definition upd_ptask :: "nat \<Rightarrow> (LettuceTask \<Rightarrow> LettuceTask) \<Rightarrow> policy_state \<Rightarrow> policy_state" where
  "upd_ptask i f s = s\<lparr>ps_tasks := upd_task i f (ps_tasks s)\<rparr>"

abbreviation ptask :: "policy_state \<Rightarrow> nat \<Rightarrow> LettuceTask" where
  "ptask s i \<equiv> task_at (ps_tasks s) i"

section \<open>Round robin\<close>

definition rr_init :: "policy_state \<Rightarrow> policy_state" where
  "rr_init s = s\<lparr>g_rr_last_idx := 0\<rparr>"

definition rr_on_tick :: "task_ptr \<Rightarrow> u64 \<Rightarrow> policy_state \<Rightarrow> policy_state" where
  "rr_on_tick cur tick_delta s =
     (case cur of None \<Rightarrow> s
      | Some c \<Rightarrow>
          if t_state (ptask s c) = LETTUCE_TASK_STATE_RUNNING
          then upd_ptask c (\<lambda>t. t\<lparr>t_total_ticks_run := t_total_ticks_run t + tick_delta,
                 t_time_slice_ticks := (if t_time_slice_ticks t \<ge> tick_delta
                   then t_time_slice_ticks t - tick_delta else 0)\<rparr>) s
          else s)"

text \<open>The circular scan; the fuel argument counts the remaining iterations.\<close>

fun rr_scan :: "task_state \<Rightarrow> u32 \<Rightarrow> nat \<Rightarrow> nat \<Rightarrow> (u32 \<times> nat) option" where
  "rr_scan ts last_idx i 0 = None"
| "rr_scan ts last_idx i (Suc n) =
     (let candidate = (last_idx + of_nat i) mod of_nat LETTUCE_MAX_TASKS in
      case probe_slot ts (unat candidate) of
        None \<Rightarrow> rr_scan ts last_idx (Suc i) n
      | Some t \<Rightarrow>
          if t_state (task_at ts t) = LETTUCE_TASK_STATE_READY then Some (candidate, t)
          else rr_scan ts last_idx (Suc i) n)"

definition rr_pick_next :: "task_ptr \<Rightarrow> policy_state \<Rightarrow> task_ptr \<times> policy_state" where
  "rr_pick_next cur s =
     (let start_offset = (if cur = None then 0 else 1) in
      case rr_scan (ps_tasks s) (g_rr_last_idx s) start_offset LETTUCE_MAX_TASKS of
        Some (candidate, t) \<Rightarrow>
          (Some t, upd_ptask t (\<lambda>x. x\<lparr>t_time_slice_ticks := t_quantum_ticks x\<rparr>) (s\<lparr>g_rr_last_idx := candidate\<rparr>))
      | None \<Rightarrow>
          (case cur of
             Some c \<Rightarrow>
               if t_state (ptask s c) = LETTUCE_TASK_STATE_RUNNING
               then (Some c, upd_ptask c (\<lambda>x. x\<lparr>t_time_slice_ticks := t_quantum_ticks x\<rparr>) s)
               else (None, s)
           | None \<Rightarrow> (None, s)))"

definition rr_on_task_ready :: "task_ptr \<Rightarrow> policy_state \<Rightarrow> policy_state" where
  "rr_on_task_ready task s = s"
definition rr_on_task_sleep :: "task_ptr \<Rightarrow> policy_state \<Rightarrow> policy_state" where
  "rr_on_task_sleep task s = s"
definition rr_on_task_wake :: "task_ptr \<Rightarrow> policy_state \<Rightarrow> policy_state" where
  "rr_on_task_wake task s = s"
definition rr_on_task_block :: "task_ptr \<Rightarrow> policy_state \<Rightarrow> policy_state" where
  "rr_on_task_block task s = s"
definition rr_on_task_exit :: "task_ptr \<Rightarrow> policy_state \<Rightarrow> policy_state" where
  "rr_on_task_exit task s = s"

definition g_lettuce_sched_rr_ops :: LettuceSchedPolicyOps where
  "g_lettuce_sched_rr_ops =
     \<lparr>po_name = ''Round-Robin (Baseline)'', po_init = rr_init, po_on_tick = rr_on_tick,
      po_pick_next = rr_pick_next, po_on_task_ready = rr_on_task_ready,
      po_on_task_sleep = rr_on_task_sleep, po_on_task_wake = rr_on_task_wake,
      po_on_task_block = rr_on_task_block, po_on_task_exit = rr_on_task_exit\<rparr>"

section \<open>The contract\<close>

text \<open>
  The accounting fields are the policies' own; two task tables agree for the mechanism when all
  other fields of all tasks agree.
\<close>

definition erase_accounting :: "LettuceTask \<Rightarrow> LettuceTask" where
  "erase_accounting t = t\<lparr>t_time_slice_ticks := 0, t_vruntime := 0, t_vdeadline := 0, t_total_ticks_run := 0\<rparr>"

definition mech_eq :: "task_state \<Rightarrow> task_state \<Rightarrow> bool" where
  "mech_eq a b \<longleftrightarrow> length (g_task_table a) = length (g_task_table b) \<and> g_current_task a = g_current_task b \<and>
     (\<forall>i < length (g_task_table a). erase_accounting (task_at a i) = erase_accounting (task_at b i))"

lemma mech_eq_refl [simp]: "mech_eq a a"
  by (simp add: mech_eq_def)

lemma mech_eq_trans: "mech_eq a b \<Longrightarrow> mech_eq b c \<Longrightarrow> mech_eq a c"
  by (simp add: mech_eq_def)

lemma mech_eq_upd:
  assumes "\<And>t. erase_accounting (f t) = erase_accounting t"
  shows "mech_eq a (upd_task i f a)"
  unfolding mech_eq_def using assms by (auto simp: task_at_upd)

lemma erase_accounting_fields:
  assumes "erase_accounting a = erase_accounting b"
  shows "t_id a = t_id b" "t_generation a = t_generation b" "t_state a = t_state b"
    "t_service_id a = t_service_id b" "t_domain_id a = t_domain_id b" "t_context a = t_context b"
    "t_weight a = t_weight b" "t_requested_slice_ticks a = t_requested_slice_ticks b"
    "t_quantum_ticks a = t_quantum_ticks b" "t_sleep_deadline_ticks a = t_sleep_deadline_ticks b"
  using assms by (cases a; cases b; simp add: erase_accounting_def)+

lemma mech_eq_task:
  "mech_eq a b \<Longrightarrow> i < length (g_task_table a) \<Longrightarrow> erase_accounting (task_at a i) = erase_accounting (task_at b i)"
  by (simp add: mech_eq_def)

lemma task_ok_erase: "erase_accounting a = erase_accounting b \<Longrightarrow> task_ok i a = task_ok i b"
  by (simp add: task_ok_def task_slot_reusable_def erase_accounting_fields [of a b])

lemma mech_eq_inv: "mech_eq a b \<Longrightarrow> task_inv a \<Longrightarrow> task_inv b"
  unfolding task_inv_def mech_eq_def using task_ok_erase by metis

text \<open>
  What a policy promises: it touches accounting fields only, and the task it picks is in the table
  and ready to run, or is the running task it was called for.
\<close>

locale sched_policy =
  fixes ops :: LettuceSchedPolicyOps
  assumes init_mech: "ps_tasks (po_init ops s) = ps_tasks s"
    and tick_mech: "mech_eq (ps_tasks s) (ps_tasks (po_on_tick ops p d s))"
    and ready_mech: "mech_eq (ps_tasks s) (ps_tasks (po_on_task_ready ops p s))"
    and sleep_mech: "mech_eq (ps_tasks s) (ps_tasks (po_on_task_sleep ops p s))"
    and wake_mech: "mech_eq (ps_tasks s) (ps_tasks (po_on_task_wake ops p s))"
    and pick_mech: "mech_eq (ps_tasks s) (ps_tasks (snd (po_pick_next ops p s)))"
    and pick_sound: "length (g_task_table (ps_tasks s)) = LETTUCE_MAX_TASKS \<Longrightarrow>
      (\<And>c. p = Some c \<Longrightarrow> c < LETTUCE_MAX_TASKS) \<Longrightarrow> po_pick_next ops p s = (Some t, s') \<Longrightarrow> probed (ps_tasks s) t \<and>
      t_state (ptask s t) = LETTUCE_TASK_STATE_READY \<or> p = Some t \<and> t_state (ptask s t) = LETTUCE_TASK_STATE_RUNNING"
    and pick_some: "length (g_task_table (ps_tasks s)) = LETTUCE_MAX_TASKS \<Longrightarrow> probed (ps_tasks s) i \<Longrightarrow> t_state (ptask s i) = LETTUCE_TASK_STATE_READY \<Longrightarrow>
      t_vruntime (ptask s i) \<noteq> -1 \<Longrightarrow> fst (po_pick_next ops p s) \<noteq> None"

section \<open>Round robin meets the contract\<close>

definition rr_ready :: "task_state \<Rightarrow> nat \<Rightarrow> bool" where
  "rr_ready ts i \<longleftrightarrow> probed ts i \<and> t_state (task_at ts i) = LETTUCE_TASK_STATE_READY"

lemma unat_candidate: "unat ((l + of_nat i) mod of_nat LETTUCE_MAX_TASKS :: u32) = (unat l + i) mod LETTUCE_MAX_TASKS"
proof -
  have "unat (l + of_nat i) = (unat l + i) mod 2 ^ 32"
    by (simp add: unat_word_ariths unat_of_nat mod_simps)
  then show ?thesis
    by (simp add: LETTUCE_MAX_TASKS_def unat_mod_distrib mod_mod_cancel)
qed

lemma max_tasks_pos: "0 < LETTUCE_MAX_TASKS"
  by (simp add: LETTUCE_MAX_TASKS_def)

lemma rr_scan_step:
  "rr_scan ts l i (Suc n) =
     (if rr_ready ts ((unat l + i) mod LETTUCE_MAX_TASKS)
      then Some ((l + of_nat i) mod of_nat LETTUCE_MAX_TASKS, (unat l + i) mod LETTUCE_MAX_TASKS)
      else rr_scan ts l (Suc i) n)"
  using max_tasks_pos by (simp add: Let_def unat_candidate probe_slot_eq rr_ready_def)

declare rr_scan.simps(2) [simp del]

lemma rr_scan_Some:
  "rr_scan ts l i n = Some (c, t) \<Longrightarrow>
     \<exists>k. i \<le> k \<and> k < i + n \<and> unat c = (unat l + k) mod LETTUCE_MAX_TASKS \<and> t = unat c \<and> rr_ready ts t \<and>
       (\<forall>j. i \<le> j \<and> j < k \<longrightarrow> \<not> rr_ready ts ((unat l + j) mod LETTUCE_MAX_TASKS))"
proof (induction n arbitrary: i)
  case (Suc n)
  show ?case
  proof (cases "rr_ready ts ((unat l + i) mod LETTUCE_MAX_TASKS)")
    case True
    then show ?thesis
      using Suc.prems by (intro exI [of _ i]) (auto simp: rr_scan_step unat_candidate)
  next
    case False
    then have "rr_scan ts l (Suc i) n = Some (c, t)" using Suc.prems by (simp add: rr_scan_step)
    from Suc.IH [OF this] obtain k where "Suc i \<le> k" "k < Suc i + n" "unat c = (unat l + k) mod LETTUCE_MAX_TASKS" "t = unat c"
        "rr_ready ts t" "\<forall>j. Suc i \<le> j \<and> j < k \<longrightarrow> \<not> rr_ready ts ((unat l + j) mod LETTUCE_MAX_TASKS)"
      by blast
    moreover have "\<not> rr_ready ts ((unat l + j) mod LETTUCE_MAX_TASKS)" if "i \<le> j" "j < k" for j
      using that False calculation(6) by (cases "j = i") simp_all
    ultimately show ?thesis by (intro exI [of _ k]) auto
  qed
qed simp

lemma rr_scan_None:
  "rr_scan ts l i n = None \<Longrightarrow> i \<le> k \<Longrightarrow> k < i + n \<Longrightarrow> \<not> rr_ready ts ((unat l + k) mod LETTUCE_MAX_TASKS)"
proof (induction n arbitrary: i)
  case (Suc n)
  then show ?case by (cases "k = i") (auto simp: rr_scan_step split: if_splits)
qed simp

text \<open>Every slot is reached by a full turn from any starting point.\<close>

lemma full_turn:
  assumes "t < LETTUCE_MAX_TASKS"
  obtains k where "s \<le> k" "k < s + LETTUCE_MAX_TASKS" "(l + k) mod LETTUCE_MAX_TASKS = t"
proof -
  let ?m = "LETTUCE_MAX_TASKS" and ?k = "s + (t + LETTUCE_MAX_TASKS * (l + s) - (l + s)) mod LETTUCE_MAX_TASKS"
  have le: "l + s \<le> ?m * (l + s)" using max_tasks_pos by simp
  have "(l + ?k) mod ?m = ((l + s) + (t + ?m * (l + s) - (l + s))) mod ?m"
    by (metis add.assoc mod_add_right_eq)
  also have "(l + s) + (t + ?m * (l + s) - (l + s)) = t + ?m * (l + s)" using le by linarith
  finally have "(l + ?k) mod ?m = t" using assms by simp
  then show ?thesis using that [of ?k] max_tasks_pos by simp
qed

lemma rr_pick_ready:
  assumes "rr_ready (ps_tasks s) t"
  shows "rr_scan (ps_tasks s) l i LETTUCE_MAX_TASKS \<noteq> None"
proof
  assume none: "rr_scan (ps_tasks s) l i LETTUCE_MAX_TASKS = None"
  have "t < LETTUCE_MAX_TASKS" using assms by (simp add: rr_ready_def probed_def)
  then obtain k where "i \<le> k" "k < i + LETTUCE_MAX_TASKS" "(unat l + k) mod LETTUCE_MAX_TASKS = t"
    by (rule full_turn)
  then show False using rr_scan_None [OF none] assms by blast
qed

lemma upd_ptask_tasks [simp]: "ps_tasks (upd_ptask i f s) = upd_task i f (ps_tasks s)"
  by (simp add: upd_ptask_def)

lemma rr_pick_mech: "mech_eq (ps_tasks s) (ps_tasks (snd (rr_pick_next p s)))"
  by (auto simp: rr_pick_next_def Let_def erase_accounting_def intro!: mech_eq_upd split: option.split)

lemma rr_pick_sound:
  assumes "rr_pick_next p s = (Some t, s')"
  shows "probed (ps_tasks s) t \<and> t_state (ptask s t) = LETTUCE_TASK_STATE_READY \<or>
    p = Some t \<and> t_state (ptask s t) = LETTUCE_TASK_STATE_RUNNING"
proof (cases "rr_scan (ps_tasks s) (g_rr_last_idx s) (if p = None then 0 else 1) LETTUCE_MAX_TASKS")
  case None
  then show ?thesis using assms by (auto simp: rr_pick_next_def Let_def split: option.splits if_splits)
next
  case (Some ct)
  then obtain c where c: "rr_scan (ps_tasks s) (g_rr_last_idx s) (if p = None then 0 else 1) LETTUCE_MAX_TASKS = Some (c, t)"
    using assms by (cases ct) (auto simp: rr_pick_next_def Let_def)
  then show ?thesis using rr_scan_Some [OF c] by (auto simp: rr_ready_def probed_def)
qed

interpretation round_robin: sched_policy g_lettuce_sched_rr_ops
proof
  fix s p d i t s'
  show "ps_tasks (po_init g_lettuce_sched_rr_ops s) = ps_tasks s"
    by (simp add: g_lettuce_sched_rr_ops_def rr_init_def)
  show "mech_eq (ps_tasks s) (ps_tasks (po_on_tick g_lettuce_sched_rr_ops p d s))"
    by (auto simp: g_lettuce_sched_rr_ops_def rr_on_tick_def erase_accounting_def intro!: mech_eq_upd split: option.split)
  show "mech_eq (ps_tasks s) (ps_tasks (snd (po_pick_next g_lettuce_sched_rr_ops p s)))"
    by (simp add: g_lettuce_sched_rr_ops_def rr_pick_mech)
  show "po_pick_next g_lettuce_sched_rr_ops p s = (Some t, s') \<Longrightarrow> probed (ps_tasks s) t \<and>
      t_state (ptask s t) = LETTUCE_TASK_STATE_READY \<or> p = Some t \<and> t_state (ptask s t) = LETTUCE_TASK_STATE_RUNNING"
    by (rule rr_pick_sound) (simp add: g_lettuce_sched_rr_ops_def)
  show "fst (po_pick_next g_lettuce_sched_rr_ops p s) \<noteq> None"
    if "probed (ps_tasks s) i" "t_state (ptask s i) = LETTUCE_TASK_STATE_READY"
    using rr_pick_ready [of s i "g_rr_last_idx s" "if p = None then 0 else 1"] that
    by (auto simp: g_lettuce_sched_rr_ops_def rr_pick_next_def rr_ready_def Let_def split: option.split)
qed (simp_all add: g_lettuce_sched_rr_ops_def rr_on_task_ready_def rr_on_task_sleep_def rr_on_task_wake_def)


section \<open>Properties of round robin\<close>

lemma rr_pick_next_behaviour:
  assumes run: "rr_pick_next (Some c) s = (p, s')"
  shows "if \<exists>i < LETTUCE_MAX_TASKS. rr_ready (ps_tasks s) i
    then \<exists>t k. p = Some t \<and> 1 \<le> k \<and> k \<le> LETTUCE_MAX_TASKS \<and> t = (unat (g_rr_last_idx s) + k) mod LETTUCE_MAX_TASKS \<and>
      rr_ready (ps_tasks s) t \<and>
      (\<forall>j. 1 \<le> j \<and> j < k \<longrightarrow> \<not> rr_ready (ps_tasks s) ((unat (g_rr_last_idx s) + j) mod LETTUCE_MAX_TASKS)) \<and>
      unat (g_rr_last_idx s') = t \<and>
      ps_tasks s' = upd_task t (\<lambda>x. x\<lparr>t_time_slice_ticks := t_quantum_ticks x\<rparr>) (ps_tasks s)
    else if t_state (ptask s c) = LETTUCE_TASK_STATE_RUNNING
    then p = Some c \<and> s' = upd_ptask c (\<lambda>x. x\<lparr>t_time_slice_ticks := t_quantum_ticks x\<rparr>) s
    else p = None \<and> s' = s"
proof (cases "rr_scan (ps_tasks s) (g_rr_last_idx s) 1 LETTUCE_MAX_TASKS")
  case None
  have "\<not> rr_ready (ps_tasks s) i" for i
    using rr_pick_ready [of s i "g_rr_last_idx s" 1] None by blast
  then show ?thesis using run None by (auto simp: rr_pick_next_def Let_def split: if_splits)
next
  case (Some ct)
  then obtain cd t where ct: "rr_scan (ps_tasks s) (g_rr_last_idx s) 1 LETTUCE_MAX_TASKS = Some (cd, t)"
    by (cases ct) simp
  obtain k where k: "1 \<le> k" "k < 1 + LETTUCE_MAX_TASKS" "unat cd = (unat (g_rr_last_idx s) + k) mod LETTUCE_MAX_TASKS"
      "t = unat cd" "rr_ready (ps_tasks s) t"
      "\<forall>j. 1 \<le> j \<and> j < k \<longrightarrow> \<not> rr_ready (ps_tasks s) ((unat (g_rr_last_idx s) + j) mod LETTUCE_MAX_TASKS)"
    using rr_scan_Some [OF ct] by blast
  have res: "p = Some t" "s' = upd_ptask t (\<lambda>x. x\<lparr>t_time_slice_ticks := t_quantum_ticks x\<rparr>) (s\<lparr>g_rr_last_idx := cd\<rparr>)"
    using run ct by (simp_all add: rr_pick_next_def Let_def)
  have ex: "\<exists>i < LETTUCE_MAX_TASKS. rr_ready (ps_tasks s) i"
    using k(5) by (auto simp: rr_ready_def probed_def)
  show ?thesis
    unfolding if_P [OF ex] using res k
    by (intro exI [of _ t] exI [of _ k]) (simp add: upd_ptask_def)
qed

text \<open>
  What round robin picks. With a task running or just descheduled, it takes the first ready task
  after the slot it took last, going round the table once and ending with that slot itself; the
  picked task gets a full quantum and its slot is remembered. When no task is ready it keeps the
  current task if that is running, and otherwise picks nothing and changes nothing.
\<close>

theorem rr_pick_next_spec:
  assumes run: "rr_pick_next (Some c) s = (p, s')"
  shows "if \<exists>i < LETTUCE_MAX_TASKS. rr_ready (ps_tasks s) i
    then \<exists>t k. p = Some t \<and> 1 \<le> k \<and> k \<le> LETTUCE_MAX_TASKS \<and> t = (unat (g_rr_last_idx s) + k) mod LETTUCE_MAX_TASKS \<and>
      rr_ready (ps_tasks s) t \<and>
      (\<forall>j. 1 \<le> j \<and> j < k \<longrightarrow> \<not> rr_ready (ps_tasks s) ((unat (g_rr_last_idx s) + j) mod LETTUCE_MAX_TASKS)) \<and>
      unat (g_rr_last_idx s') = t \<and>
      ps_tasks s' = upd_task t (\<lambda>x. x\<lparr>t_time_slice_ticks := t_quantum_ticks x\<rparr>) (ps_tasks s)
    else if t_state (ptask s c) = LETTUCE_TASK_STATE_RUNNING
    then p = Some c \<and> s' = upd_ptask c (\<lambda>x. x\<lparr>t_time_slice_ticks := t_quantum_ticks x\<rparr>) s
    else p = None \<and> s' = s"
  using run by (rule rr_pick_next_behaviour)

text \<open>A sequence of decisions, with whatever task table the kernel has at each of them.\<close>

fun rr_serve :: "(task_ptr \<times> task_state) list \<Rightarrow> policy_state \<Rightarrow> task_ptr list" where
  "rr_serve [] s = []"
| "rr_serve ((cur, ts) # env) s =
     (let (p, s') = rr_pick_next cur (s\<lparr>ps_tasks := ts\<rparr>) in p # rr_serve env s')"

lemma rr_serve_turn:
  assumes "1 \<le> k" "k \<le> LETTUCE_MAX_TASKS" "(unat (g_rr_last_idx s) + k) mod LETTUCE_MAX_TASKS = t"
    "\<forall>(cur, ts) \<in> set env. cur \<noteq> None \<and> rr_ready ts t" "k \<le> length env"
  shows "Some t \<in> set (rr_serve env s)"
  using assms
proof (induction k arbitrary: s env rule: less_induct)
  case (less k)
  obtain c ts env' where env: "env = (Some c, ts) # env'"
    using less.prems by (cases env) auto
  let ?s = "s\<lparr>ps_tasks := ts\<rparr>"
  obtain p s' where r: "rr_pick_next (Some c) ?s = (p, s')" by fastforce
  have ready: "rr_ready ts t" using less.prems(4) env by simp
  have "t < LETTUCE_MAX_TASKS" using ready by (simp add: rr_ready_def probed_def)
  then have ex: "\<exists>i < LETTUCE_MAX_TASKS. rr_ready (ps_tasks ?s) i" using ready by auto
  obtain u j where u: "p = Some u" "1 \<le> j" "u = (unat (g_rr_last_idx s) + j) mod LETTUCE_MAX_TASKS"
      "\<forall>i. 1 \<le> i \<and> i < j \<longrightarrow> \<not> rr_ready ts ((unat (g_rr_last_idx s) + i) mod LETTUCE_MAX_TASKS)"
      "unat (g_rr_last_idx s') = u"
    using rr_pick_next_behaviour [OF r] unfolding if_P [OF ex] by auto
  have jk: "j \<le> k"
    using u(4) less.prems(1,3) ready by (metis linorder_not_le)
  show ?case
  proof (cases "j = k")
    case True
    then show ?thesis using env r u less.prems(3) by simp
  next
    case False
    then have lt: "k - j < k" "1 \<le> k - j" "k - j \<le> LETTUCE_MAX_TASKS" using jk u(2) less.prems(2) by simp_all
    have "(unat (g_rr_last_idx s') + (k - j)) mod LETTUCE_MAX_TASKS = (unat (g_rr_last_idx s) + j + (k - j)) mod LETTUCE_MAX_TASKS"
      unfolding u(5) u(3) by (rule mod_add_left_eq)
    then have "Some t \<in> set (rr_serve env' s')"
      using less.IH [OF lt, of s' env'] less.prems(3-5) env jk u(2) by simp
    then show ?thesis using env r by simp
  qed
qed

text \<open>
  C21: Round robin starves nobody. In any 16 consecutive decisions, each taken with a current task,
  every task that is ready (and within the generations the scan reaches) at all of them is picked at
  least once, whatever happens to the other tasks between the decisions.
\<close>

theorem rr_bounded_waiting:
  assumes "\<forall>(cur, ts) \<in> set env. cur \<noteq> None \<and> rr_ready ts t" "LETTUCE_MAX_TASKS \<le> length env"
  shows "Some t \<in> set (rr_serve env s)"
proof -
  have "env \<noteq> []" using assms(2) max_tasks_pos by auto
  then obtain cur ts where "(cur, ts) \<in> set env" by (cases env) auto
  then have "t < LETTUCE_MAX_TASKS" using assms(1) by (auto simp: rr_ready_def probed_def)
  then obtain k where "1 \<le> k" "k < 1 + LETTUCE_MAX_TASKS" "(unat (g_rr_last_idx s) + k) mod LETTUCE_MAX_TASKS = t"
    by (rule full_turn)
  then show ?thesis using rr_serve_turn assms by simp
qed

definition demo_policy :: policy_state where
  "demo_policy = \<lparr>ps_tasks = demo_task_state, g_rr_last_idx = 3, g_eevdf_vsys = 0\<rparr>"

lemma demo_rr_ready: "rr_ready demo_task_state 0"
  unfolding rr_ready_def probed_def by (intro conjI; code_simp)

lemma rr_pick_next_spec_witness:
  "rr_ready (ps_tasks demo_policy) 0 \<and> fst (rr_pick_next (Some 1) demo_policy) = Some 0"
proof -
  obtain p s' where r: "rr_pick_next (Some 1) demo_policy = (p, s')" by fastforce
  have ready: "rr_ready (ps_tasks demo_policy) 0" using demo_rr_ready by (simp add: demo_policy_def)
  then have ex: "\<exists>i < LETTUCE_MAX_TASKS. rr_ready (ps_tasks demo_policy) i" using max_tasks_pos by blast
  have "fst (rr_pick_next (Some 1) demo_policy) = Some 0" by code_simp
  then have p: "p = Some 0" using r by simp
  show ?thesis using rr_pick_next_spec [OF r, unfolded if_P [OF ex]] r p ready by simp
qed

lemma rr_bounded_waiting_witness:
  "Some 0 \<in> set (rr_serve (replicate LETTUCE_MAX_TASKS (Some 1, demo_task_state)) demo_policy)"
  using rr_bounded_waiting [of "replicate LETTUCE_MAX_TASKS (Some 1, demo_task_state)" 0 demo_policy] demo_rr_ready
  by simp

end
