(* ===== verification/Eevdf.thy ===== *)
theory Eevdf
  imports Sched_Policy
begin

text \<open>
  The earliest-eligible-virtual-deadline-first policy of \<^verbatim>\<open>kernel/scheduler/eevdf.c\<close>, on 64-bit virtual
  times. A \<^verbatim>\<open>const LettuceTask *\<close> argument that is only read is the task's contents or \<^const>\<open>None\<close>.
\<close>

section \<open>Operations\<close>

abbreviation LETTUCE_EEVDF_SCALE :: u64 where "LETTUCE_EEVDF_SCALE \<equiv> 65536"
abbreviation UINT64_MAX :: u64 where "UINT64_MAX \<equiv> -1"

definition calc_vslice :: "LettuceTask option \<Rightarrow> u64" where
  "calc_vslice task =
     (let weight = (case task of
                      Some t \<Rightarrow> if t_weight t > 0 then t_weight t else LETTUCE_EEVDF_BASE_WEIGHT
                    | None \<Rightarrow> LETTUCE_EEVDF_BASE_WEIGHT);
          slice = ucast (case task of
                      Some t \<Rightarrow> if t_requested_slice_ticks t > 0 then t_requested_slice_ticks t
                               else LETTUCE_EEVDF_DEFAULT_SLICE
                    | None \<Rightarrow> LETTUCE_EEVDF_DEFAULT_SLICE) :: u64
      in (slice * LETTUCE_EEVDF_SCALE) div ucast weight)"

definition lettuce_eevdf_calc_deadline :: "LettuceTask option \<Rightarrow> u64" where
  "lettuce_eevdf_calc_deadline task =
     (case task of None \<Rightarrow> 0 | Some t \<Rightarrow> t_vruntime t + calc_vslice (Some t))"

definition lettuce_eevdf_get_vsys :: "policy_state \<Rightarrow> u64" where
  "lettuce_eevdf_get_vsys s = g_eevdf_vsys s"

definition lettuce_eevdf_is_eligible :: "policy_state \<Rightarrow> LettuceTask option \<Rightarrow> bool" where
  "lettuce_eevdf_is_eligible s task =
     (case task of None \<Rightarrow> False
      | Some t \<Rightarrow> if t_state t \<noteq> LETTUCE_TASK_STATE_READY then False else t_vruntime t \<le> g_eevdf_vsys s)"

definition lettuce_eevdf_get_lag :: "policy_state \<Rightarrow> LettuceTask option \<Rightarrow> s64" where
  "lettuce_eevdf_get_lag s task = (case task of None \<Rightarrow> 0 | Some t \<Rightarrow> g_eevdf_vsys s - t_vruntime t)"

definition effective_weight :: "LettuceTask \<Rightarrow> u32" where
  "effective_weight t = (if t_weight t > 0 then t_weight t else LETTUCE_EEVDF_BASE_WEIGHT)"

definition get_active_weight_sum :: "task_state \<Rightarrow> u32" where
  "get_active_weight_sum ts =
     (let total_weight = fold (\<lambda>slot total.
            case probe_slot ts slot of
              None \<Rightarrow> total
            | Some t \<Rightarrow>
                if t_state (task_at ts t) = LETTUCE_TASK_STATE_READY \<or> t_state (task_at ts t) = LETTUCE_TASK_STATE_RUNNING
                then total + effective_weight (task_at ts t) else total) [0..<LETTUCE_MAX_TASKS] 0
      in if total_weight > 0 then total_weight else LETTUCE_EEVDF_BASE_WEIGHT)"

definition eevdf_init :: "policy_state \<Rightarrow> policy_state" where
  "eevdf_init s = s\<lparr>g_eevdf_vsys := 0\<rparr>"

definition eevdf_on_tick :: "task_ptr \<Rightarrow> u64 \<Rightarrow> policy_state \<Rightarrow> policy_state" where
  "eevdf_on_tick cur tick_delta s =
     (case cur of None \<Rightarrow> s
      | Some c \<Rightarrow>
          if t_state (ptask s c) = LETTUCE_TASK_STATE_RUNNING
          then
            let delta_v = (tick_delta * LETTUCE_EEVDF_SCALE) div ucast (effective_weight (ptask s c));
                s1 = upd_ptask c (\<lambda>t. t\<lparr>t_total_ticks_run := t_total_ticks_run t + tick_delta,
                                       t_vruntime := t_vruntime t + delta_v\<rparr>) s;
                delta_vsys = (tick_delta * LETTUCE_EEVDF_SCALE) div ucast (get_active_weight_sum (ps_tasks s1));
                s2 = s1\<lparr>g_eevdf_vsys := g_eevdf_vsys s1 + delta_vsys\<rparr>
            in upd_ptask c (\<lambda>t. t\<lparr>t_time_slice_ticks := (if t_time_slice_ticks t \<ge> tick_delta
                 then t_time_slice_ticks t - tick_delta else 0)\<rparr>) s2
          else s)"

record eevdf_scan =
  es_best_eligible :: task_ptr
  es_earliest_deadline :: u64
  es_min_vruntime_task :: task_ptr
  es_min_vruntime :: u64
  es_ready_count :: u32
  es_tasks :: task_state

text \<open>One iteration of the scan over the slots.\<close>

definition eevdf_scan_step :: "u64 \<Rightarrow> nat \<Rightarrow> eevdf_scan \<Rightarrow> eevdf_scan" where
  "eevdf_scan_step vsys slot acc =
     (case probe_slot (es_tasks acc) slot of
        None \<Rightarrow> acc
      | Some i \<Rightarrow>
          let t = task_at (es_tasks acc) i in
          if t_state t = LETTUCE_TASK_STATE_READY
          then
            let acc1 = acc\<lparr>es_ready_count := es_ready_count acc + 1\<rparr>;
                acc2 = (if t_vruntime t < es_min_vruntime acc1
                        then acc1\<lparr>es_min_vruntime := t_vruntime t, es_min_vruntime_task := Some i\<rparr> else acc1)
            in if t_vruntime t \<le> vsys
               then
                 let acc3 = (if t_vdeadline t < t_vruntime t
                             then acc2\<lparr>es_tasks := upd_task i (\<lambda>t. t\<lparr>t_vdeadline :=
                                    lettuce_eevdf_calc_deadline (Some t)\<rparr>) (es_tasks acc2)\<rparr>
                             else acc2);
                     deadline = t_vdeadline (task_at (es_tasks acc3) i)
                 in if deadline < es_earliest_deadline acc3
                    then acc3\<lparr>es_earliest_deadline := deadline, es_best_eligible := Some i\<rparr> else acc3
               else acc2
          else acc)"

definition eevdf_scan_start :: "task_state \<Rightarrow> eevdf_scan" where
  "eevdf_scan_start ts =
     \<lparr>es_best_eligible = None, es_earliest_deadline = UINT64_MAX, es_min_vruntime_task = None,
      es_min_vruntime = UINT64_MAX, es_ready_count = 0, es_tasks = ts\<rparr>"

definition eevdf_grant :: "nat \<Rightarrow> policy_state \<Rightarrow> policy_state" where
  "eevdf_grant i s =
     upd_ptask i (\<lambda>t. t\<lparr>t_time_slice_ticks := ucast (t_requested_slice_ticks t),
                       t_vdeadline := lettuce_eevdf_calc_deadline (Some t)\<rparr>) s"

text \<open>Step 4 of the pick: keep the current task if it is still running.\<close>

definition eevdf_keep :: "task_ptr \<Rightarrow> policy_state \<Rightarrow> task_ptr \<times> policy_state" where
  "eevdf_keep cur s =
     (case cur of
        Some c \<Rightarrow>
          if t_state (ptask s c) = LETTUCE_TASK_STATE_RUNNING then (Some c, eevdf_grant c s) else (None, s)
      | None \<Rightarrow> (None, s))"

definition eevdf_pick_next :: "task_ptr \<Rightarrow> policy_state \<Rightarrow> task_ptr \<times> policy_state" where
  "eevdf_pick_next cur s =
     (let acc = fold (eevdf_scan_step (g_eevdf_vsys s)) [0..<LETTUCE_MAX_TASKS] (eevdf_scan_start (ps_tasks s));
          s1 = s\<lparr>ps_tasks := es_tasks acc\<rparr>
      in case es_best_eligible acc of
           Some b \<Rightarrow> (Some b, eevdf_grant b s1)
         | None \<Rightarrow>
             (case es_min_vruntime_task acc of
                Some m \<Rightarrow>
                  if es_ready_count acc > 0
                  then (Some m, eevdf_grant m (s1\<lparr>g_eevdf_vsys := es_min_vruntime acc\<rparr>))
                  else eevdf_keep cur s1
              | None \<Rightarrow> eevdf_keep cur s1))"

definition eevdf_on_task_ready :: "task_ptr \<Rightarrow> policy_state \<Rightarrow> policy_state" where
  "eevdf_on_task_ready task s =
     (case task of None \<Rightarrow> s
      | Some i \<Rightarrow> upd_ptask i (\<lambda>t.
          let t' = (if t_vruntime t < g_eevdf_vsys s then t\<lparr>t_vruntime := g_eevdf_vsys s\<rparr> else t)
          in t'\<lparr>t_vdeadline := lettuce_eevdf_calc_deadline (Some t')\<rparr>) s)"

definition eevdf_on_task_sleep :: "task_ptr \<Rightarrow> policy_state \<Rightarrow> policy_state" where
  "eevdf_on_task_sleep task s = s"

definition eevdf_on_task_wake :: "task_ptr \<Rightarrow> policy_state \<Rightarrow> policy_state" where
  "eevdf_on_task_wake task s =
     (case task of None \<Rightarrow> s
      | Some i \<Rightarrow> upd_ptask i (\<lambda>t.
          let t' = (if t_vruntime t < g_eevdf_vsys s then t\<lparr>t_vruntime := g_eevdf_vsys s\<rparr> else t)
          in t'\<lparr>t_vdeadline := lettuce_eevdf_calc_deadline (Some t')\<rparr>) s)"

definition eevdf_on_task_block :: "task_ptr \<Rightarrow> policy_state \<Rightarrow> policy_state" where
  "eevdf_on_task_block task s = s"
definition eevdf_on_task_exit :: "task_ptr \<Rightarrow> policy_state \<Rightarrow> policy_state" where
  "eevdf_on_task_exit task s = s"

definition g_lettuce_sched_eevdf_ops :: LettuceSchedPolicyOps where
  "g_lettuce_sched_eevdf_ops =
     \<lparr>po_name = ''EEVDF (Earliest Eligible Virtual Deadline First)'', po_init = eevdf_init,
      po_on_tick = eevdf_on_tick, po_pick_next = eevdf_pick_next,
      po_on_task_ready = eevdf_on_task_ready, po_on_task_sleep = eevdf_on_task_sleep,
      po_on_task_wake = eevdf_on_task_wake, po_on_task_block = eevdf_on_task_block,
      po_on_task_exit = eevdf_on_task_exit\<rparr>"


section \<open>The scan finds first minima\<close>

definition eevdf_eligible :: "u64 \<Rightarrow> task_state \<Rightarrow> nat \<Rightarrow> bool" where
  "eevdf_eligible vsys ts i \<longleftrightarrow> rr_ready ts i \<and> t_vruntime (task_at ts i) \<le> vsys"

text \<open>The deadline the scan compares: the recorded one, or a new one if that is in the past.\<close>

definition scan_deadline :: "LettuceTask \<Rightarrow> u64" where
  "scan_deadline t = (if t_vdeadline t < t_vruntime t then lettuce_eevdf_calc_deadline (Some t) else t_vdeadline t)"

definition first_min :: "(nat \<Rightarrow> bool) \<Rightarrow> (nat \<Rightarrow> u64) \<Rightarrow> nat \<Rightarrow> task_ptr \<Rightarrow> u64 \<Rightarrow> bool" where
  "first_min P key n p m \<longleftrightarrow>
     (case p of
        None \<Rightarrow> m = -1 \<and> (\<forall>i < n. P i \<longrightarrow> key i = -1)
      | Some b \<Rightarrow> b < n \<and> P b \<and> key b = m \<and> m \<noteq> -1 \<and> (\<forall>i < n. P i \<longrightarrow> m \<le> key i) \<and>
          (\<forall>i < b. P i \<longrightarrow> m < key i))"

lemma word_less_max: "k < m \<Longrightarrow> k \<noteq> -1" for k m :: u64
  by (metis not_less word_n1_ge)

lemma word_max_le: "-1 \<le> k \<longleftrightarrow> k = -1" for k :: u64
  using word_n1_ge [of k] by (metis order.antisym order.refl)

lemma first_min_take:
  assumes "first_min P key n p m" "P n" "key n < m"
  shows "first_min P key (Suc n) (Some n) (key n)"
proof -
  have le: "m \<le> key i" if "i < n" "P i" for i
    using assms(1) that by (auto simp: first_min_def split: option.splits)
  have "key n < key i" if "i < n" "P i" for i
    using le [OF that] assms(3) by simp
  then show ?thesis using assms(2) word_less_max [OF assms(3)] by (auto simp: first_min_def less_Suc_eq intro: less_imp_le)
qed

lemma first_min_skip:
  assumes "first_min P key n p m" "P n \<Longrightarrow> m \<le> key n"
  shows "first_min P key (Suc n) p m"
proof (cases p)
  case None
  then show ?thesis using assms by (auto simp: first_min_def less_Suc_eq word_max_le)
next
  case (Some b)
  then show ?thesis using assms by (auto simp: first_min_def less_Suc_eq)
qed

lemma first_min_cong:
  "(\<And>i. i < n \<Longrightarrow> P i = Q i) \<Longrightarrow> (\<And>i. i < n \<Longrightarrow> key i = key' i) \<Longrightarrow> first_min P key n p m = first_min Q key' n p m"
  by (cases p) (auto simp: first_min_def)

definition scan_inv :: "u64 \<Rightarrow> task_state \<Rightarrow> nat \<Rightarrow> eevdf_scan \<Rightarrow> bool" where
  "scan_inv vsys ts n acc \<longleftrightarrow>
     length (g_task_table (es_tasks acc)) = LETTUCE_MAX_TASKS \<and> g_current_task (es_tasks acc) = g_current_task ts \<and>
     (\<forall>i < LETTUCE_MAX_TASKS. task_at (es_tasks acc) i =
        (if i < n \<and> eevdf_eligible vsys ts i then (task_at ts i)\<lparr>t_vdeadline := scan_deadline (task_at ts i)\<rparr>
         else task_at ts i)) \<and>
     first_min (eevdf_eligible vsys ts) (\<lambda>i. scan_deadline (task_at ts i)) n (es_best_eligible acc) (es_earliest_deadline acc) \<and>
     first_min (rr_ready ts) (\<lambda>i. t_vruntime (task_at ts i)) n (es_min_vruntime_task acc) (es_min_vruntime acc) \<and>
     unat (es_ready_count acc) = card {i. i < n \<and> rr_ready ts i}"

lemma ready_card_Suc:
  "card {i. i < Suc n \<and> rr_ready ts i} = card {i. i < n \<and> rr_ready ts i} + (if rr_ready ts n then 1 else 0)"
proof -
  have "{i. i < Suc n \<and> rr_ready ts i} = (if rr_ready ts n then insert n {i. i < n \<and> rr_ready ts i} else {i. i < n \<and> rr_ready ts i})"
    by (auto simp: less_Suc_eq)
  then show ?thesis by simp
qed

lemma ready_card_le: "card {i. i < n \<and> rr_ready ts i} \<le> n"
  using card_mono [of "{..<n}" "{i. i < n \<and> rr_ready ts i}"] by auto

lemma scan_deadline_vd: "t_vdeadline t \<ge> t_vruntime t \<Longrightarrow> t\<lparr>t_vdeadline := scan_deadline t\<rparr> = t"
  by (simp add: scan_deadline_def not_less)

lemma rr_ready_lt: "rr_ready ts i \<Longrightarrow> i < LETTUCE_MAX_TASKS"
  by (simp add: rr_ready_def probed_def)

lemma eevdf_scan_step_eq:
  assumes "n < LETTUCE_MAX_TASKS" "length (g_task_table (es_tasks acc)) = LETTUCE_MAX_TASKS"
    "task_at (es_tasks acc) n = task_at ts n"
  shows "eevdf_scan_step vsys n acc =
    (if rr_ready ts n
     then acc\<lparr>es_ready_count := es_ready_count acc + 1,
       es_min_vruntime := (if t_vruntime (task_at ts n) < es_min_vruntime acc then t_vruntime (task_at ts n) else es_min_vruntime acc),
       es_min_vruntime_task := (if t_vruntime (task_at ts n) < es_min_vruntime acc then Some n else es_min_vruntime_task acc),
       es_tasks := (if eevdf_eligible vsys ts n
         then upd_task n (\<lambda>t. t\<lparr>t_vdeadline := scan_deadline t\<rparr>) (es_tasks acc) else es_tasks acc),
       es_earliest_deadline := (if eevdf_eligible vsys ts n \<and> scan_deadline (task_at ts n) < es_earliest_deadline acc
         then scan_deadline (task_at ts n) else es_earliest_deadline acc),
       es_best_eligible := (if eevdf_eligible vsys ts n \<and> scan_deadline (task_at ts n) < es_earliest_deadline acc
         then Some n else es_best_eligible acc)\<rparr>
     else acc)"
proof -
  have probe: "probe_slot (es_tasks acc) n = (if probed ts n then Some n else None)"
    using assms by (simp add: probe_slot_eq probed_def)
  have upd: "upd_task n (\<lambda>t. t\<lparr>t_vdeadline := scan_deadline t\<rparr>) (es_tasks acc) =
      (if t_vdeadline (task_at ts n) < t_vruntime (task_at ts n)
       then upd_task n (\<lambda>t. t\<lparr>t_vdeadline := lettuce_eevdf_calc_deadline (Some t)\<rparr>) (es_tasks acc) else es_tasks acc)"
    using assms list_update_id [of "g_task_table (es_tasks acc)" n] by (auto simp: upd_task_def scan_deadline_def)
  show ?thesis
    using assms(1,2,3)
    by (simp add: eevdf_scan_step_def probe rr_ready_def eevdf_eligible_def upd Let_def
        scan_deadline_def [of "task_at ts n"])
qed


lemma scan_inv_step:
  assumes inv: "scan_inv vsys ts n acc" and n: "n < LETTUCE_MAX_TASKS"
  shows "scan_inv vsys ts (Suc n) (eevdf_scan_step vsys n acc)"
proof -
  let ?acc = "eevdf_scan_step vsys n acc"
  have len: "length (g_task_table (es_tasks acc)) = LETTUCE_MAX_TASKS"
    and tasks: "\<And>i. i < LETTUCE_MAX_TASKS \<Longrightarrow> task_at (es_tasks acc) i =
        (if i < n \<and> eevdf_eligible vsys ts i then (task_at ts i)\<lparr>t_vdeadline := scan_deadline (task_at ts i)\<rparr>
         else task_at ts i)"
    and best: "first_min (eevdf_eligible vsys ts) (\<lambda>i. scan_deadline (task_at ts i)) n (es_best_eligible acc) (es_earliest_deadline acc)"
    and mn: "first_min (rr_ready ts) (\<lambda>i. t_vruntime (task_at ts i)) n (es_min_vruntime_task acc) (es_min_vruntime acc)"
    and cnt: "unat (es_ready_count acc) = card {i. i < n \<and> rr_ready ts i}"
    and cur: "g_current_task (es_tasks acc) = g_current_task ts"
    using inv by (auto simp: scan_inv_def)
  have at: "task_at (es_tasks acc) n = task_at ts n" using tasks [OF n] by simp
  note eq = eevdf_scan_step_eq [OF n len at, of vsys]
  have el: "eevdf_eligible vsys ts n \<Longrightarrow> rr_ready ts n" by (simp add: eevdf_eligible_def)
  have "length (g_task_table (es_tasks ?acc)) = LETTUCE_MAX_TASKS" "g_current_task (es_tasks ?acc) = g_current_task ts"
    using len cur by (simp_all add: eq)
  moreover have "task_at (es_tasks ?acc) i = (if i < Suc n \<and> eevdf_eligible vsys ts i
      then (task_at ts i)\<lparr>t_vdeadline := scan_deadline (task_at ts i)\<rparr> else task_at ts i)"
    if "i < LETTUCE_MAX_TASKS" for i
    using tasks [OF that] at el len n that by (cases "i = n") (auto simp: eq)
  moreover have "first_min (eevdf_eligible vsys ts) (\<lambda>i. scan_deadline (task_at ts i)) (Suc n)
      (es_best_eligible ?acc) (es_earliest_deadline ?acc)"
    using first_min_take [OF best] first_min_skip [OF best] el by (auto simp: eq not_less)
  moreover have "first_min (rr_ready ts) (\<lambda>i. t_vruntime (task_at ts i)) (Suc n)
      (es_min_vruntime_task ?acc) (es_min_vruntime ?acc)"
    using first_min_take [OF mn] first_min_skip [OF mn] by (auto simp: eq not_less)
  moreover have "unat (es_ready_count ?acc) = card {i. i < Suc n \<and> rr_ready ts i}"
  proof -
    have "unat (es_ready_count acc) \<le> 15" using cnt ready_card_le [of n ts] n by (simp add: LETTUCE_MAX_TASKS_def)
    then have "unat (es_ready_count acc + 1) = unat (es_ready_count acc) + 1"
      by (simp add: unat_word_ariths)
    then show ?thesis using cnt by (simp add: eq ready_card_Suc)
  qed
  ultimately show ?thesis unfolding scan_inv_def by blast
qed

lemma scan_inv_fold:
  assumes "length (g_task_table ts) = LETTUCE_MAX_TASKS" "n \<le> LETTUCE_MAX_TASKS"
  shows "scan_inv vsys ts n (fold (eevdf_scan_step vsys) [0..<n] (eevdf_scan_start ts))"
  using assms(2)
proof (induction n)
  case 0
  then show ?case using assms(1) by (simp add: scan_inv_def eevdf_scan_start_def first_min_def)
next
  case (Suc n)
  then show ?case using scan_inv_step [of vsys ts n] by simp
qed

lemma scan_inv_mech:
  assumes "scan_inv vsys ts n acc" "length (g_task_table ts) = LETTUCE_MAX_TASKS"
  shows "mech_eq ts (es_tasks acc)"
  unfolding mech_eq_def using assms by (auto simp: scan_inv_def erase_accounting_def)


section \<open>EEVDF meets the contract\<close>

lemma eevdf_grant_mech: "mech_eq (ps_tasks s) (ps_tasks (eevdf_grant i s))"
  by (simp add: eevdf_grant_def mech_eq_upd erase_accounting_def)

lemma eevdf_keep_mech: "mech_eq (ps_tasks s) (ps_tasks (snd (eevdf_keep p s)))"
  by (auto simp: eevdf_keep_def eevdf_grant_mech split: option.split)

definition pick_scan :: "policy_state \<Rightarrow> eevdf_scan" where
  "pick_scan s = fold (eevdf_scan_step (g_eevdf_vsys s)) [0..<LETTUCE_MAX_TASKS] (eevdf_scan_start (ps_tasks s))"

lemma pick_scan_inv:
  "length (g_task_table (ps_tasks s)) = LETTUCE_MAX_TASKS \<Longrightarrow> scan_inv (g_eevdf_vsys s) (ps_tasks s) LETTUCE_MAX_TASKS (pick_scan s)"
  unfolding pick_scan_def by (rule scan_inv_fold) simp_all

lemma eevdf_scan_step_mech: "mech_eq (es_tasks acc) (es_tasks (eevdf_scan_step v i acc))"
  by (auto simp: eevdf_scan_step_def Let_def intro!: mech_eq_upd simp: erase_accounting_def split: option.split)

lemma pick_scan_mech: "mech_eq (ps_tasks s) (es_tasks (pick_scan s))"
proof -
  have "mech_eq (es_tasks acc) (es_tasks (fold (eevdf_scan_step v) is acc))" for v "is" acc
    by (induction "is" arbitrary: acc) (auto intro: mech_eq_trans [OF eevdf_scan_step_mech])
  from this [of "eevdf_scan_start (ps_tasks s)" "g_eevdf_vsys s" "[0..<LETTUCE_MAX_TASKS]"]
  show ?thesis by (simp add: pick_scan_def eevdf_scan_start_def)
qed

lemma eevdf_pick_eq:
  assumes "length (g_task_table (ps_tasks s)) = LETTUCE_MAX_TASKS"
  shows "eevdf_pick_next p s =
    (let s1 = s\<lparr>ps_tasks := es_tasks (pick_scan s)\<rparr> in
     case es_best_eligible (pick_scan s) of
       Some b \<Rightarrow> (Some b, eevdf_grant b s1)
     | None \<Rightarrow> (case es_min_vruntime_task (pick_scan s) of
         Some m \<Rightarrow> (Some m, eevdf_grant m (s1\<lparr>g_eevdf_vsys := t_vruntime (ptask s m)\<rparr>))
       | None \<Rightarrow> eevdf_keep p s1))"
proof -
  note inv = pick_scan_inv [OF assms]
  have "es_ready_count (pick_scan s) > 0 \<and> es_min_vruntime (pick_scan s) = t_vruntime (ptask s m)"
    if m: "es_min_vruntime_task (pick_scan s) = Some m" for m
  proof -
    have r: "rr_ready (ps_tasks s) m" "m < LETTUCE_MAX_TASKS" "es_min_vruntime (pick_scan s) = t_vruntime (ptask s m)"
      using inv m by (auto simp: scan_inv_def first_min_def)
    then have "{i. i < LETTUCE_MAX_TASKS \<and> rr_ready (ps_tasks s) i} \<noteq> {}" by auto
    moreover have "finite {i. i < LETTUCE_MAX_TASKS \<and> rr_ready (ps_tasks s) i}" by simp
    ultimately have "0 < card {i. i < LETTUCE_MAX_TASKS \<and> rr_ready (ps_tasks s) i}" by (simp only: card_gt_0_iff not_False_eq_True simp_thms)
    then have "0 < unat (es_ready_count (pick_scan s))"
      using inv by (simp add: scan_inv_def)
    then show ?thesis using r by (simp add: word_less_nat_alt)
  qed
  then show ?thesis
    unfolding eevdf_pick_next_def pick_scan_def [symmetric] Let_def by (simp split: option.split)
qed


lemma eevdf_pick_mech: "mech_eq (ps_tasks s) (ps_tasks (snd (eevdf_pick_next p s)))"
proof -
  let ?s = "s\<lparr>ps_tasks := es_tasks (pick_scan s)\<rparr>"
  have *: "mech_eq (es_tasks (pick_scan s)) (ps_tasks (snd (eevdf_pick_next p s)))"
    using eevdf_grant_mech [of ?s] eevdf_keep_mech [of ?s p]
      eevdf_grant_mech [of "?s\<lparr>g_eevdf_vsys := es_min_vruntime (pick_scan s)\<rparr>"]
    unfolding eevdf_pick_next_def pick_scan_def [symmetric] Let_def by (simp split: option.split)
  show ?thesis by (rule mech_eq_trans [OF pick_scan_mech *])
qed

lemma eevdf_pick_sound:
  assumes len: "length (g_task_table (ps_tasks s)) = LETTUCE_MAX_TASKS" and p: "\<And>c. p = Some c \<Longrightarrow> c < LETTUCE_MAX_TASKS"
    and run: "eevdf_pick_next p s = (Some t, s')"
  shows "probed (ps_tasks s) t \<and> t_state (ptask s t) = LETTUCE_TASK_STATE_READY \<or>
    p = Some t \<and> t_state (ptask s t) = LETTUCE_TASK_STATE_RUNNING"
proof -
  note inv = pick_scan_inv [OF len]
  have st: "t_state (task_at (es_tasks (pick_scan s)) i) = t_state (ptask s i)" if "i < LETTUCE_MAX_TASKS" for i
    using erase_accounting_fields(3) [OF mech_eq_task [OF pick_scan_mech, of i s]] that len by simp
  consider (best) "es_best_eligible (pick_scan s) = Some t" | (min) "es_min_vruntime_task (pick_scan s) = Some t"
    | (keep) "eevdf_keep p (s\<lparr>ps_tasks := es_tasks (pick_scan s)\<rparr>) = (Some t, s')"
    using run unfolding eevdf_pick_eq [OF len] Let_def by (auto split: option.splits)
  then show ?thesis
  proof cases
    case best
    then show ?thesis using inv by (auto simp: scan_inv_def first_min_def eevdf_eligible_def rr_ready_def)
  next
    case min
    then show ?thesis using inv by (auto simp: scan_inv_def first_min_def rr_ready_def)
  next
    case keep
    then have k: "p = Some t" "t_state (task_at (es_tasks (pick_scan s)) t) = LETTUCE_TASK_STATE_RUNNING"
      by (auto simp: eevdf_keep_def split: option.splits if_splits)
    then show ?thesis using st [OF p] by simp
  qed
qed


lemma eevdf_pick_some:
  assumes len: "length (g_task_table (ps_tasks s)) = LETTUCE_MAX_TASKS" and r: "rr_ready (ps_tasks s) i"
    and v: "t_vruntime (ptask s i) \<noteq> -1"
  shows "fst (eevdf_pick_next p s) \<noteq> None"
proof -
  have "first_min (rr_ready (ps_tasks s)) (\<lambda>i. t_vruntime (ptask s i)) LETTUCE_MAX_TASKS
      (es_min_vruntime_task (pick_scan s)) (es_min_vruntime (pick_scan s))"
    using pick_scan_inv [OF len] by (simp add: scan_inv_def)
  then have "es_min_vruntime_task (pick_scan s) \<noteq> None"
    using r v rr_ready_lt [OF r] by (auto simp: first_min_def split: option.splits)
  then show ?thesis by (auto simp: eevdf_pick_eq [OF len] Let_def split: option.split)
qed

interpretation eevdf: sched_policy g_lettuce_sched_eevdf_ops
proof
  fix s p d i t s'
  show "ps_tasks (po_init g_lettuce_sched_eevdf_ops s) = ps_tasks s"
    by (simp add: g_lettuce_sched_eevdf_ops_def eevdf_init_def)
  show "mech_eq (ps_tasks s) (ps_tasks (po_on_tick g_lettuce_sched_eevdf_ops p d s))"
    by (auto simp: g_lettuce_sched_eevdf_ops_def eevdf_on_tick_def Let_def erase_accounting_def
        intro!: mech_eq_upd mech_eq_trans [OF mech_eq_upd mech_eq_upd] split: option.split)
  show "mech_eq (ps_tasks s) (ps_tasks (po_on_task_ready g_lettuce_sched_eevdf_ops p s))"
    by (auto simp: g_lettuce_sched_eevdf_ops_def eevdf_on_task_ready_def Let_def erase_accounting_def
        intro!: mech_eq_upd split: option.split)
  show "mech_eq (ps_tasks s) (ps_tasks (po_on_task_wake g_lettuce_sched_eevdf_ops p s))"
    by (auto simp: g_lettuce_sched_eevdf_ops_def eevdf_on_task_wake_def Let_def erase_accounting_def
        intro!: mech_eq_upd split: option.split)
  show "mech_eq (ps_tasks s) (ps_tasks (snd (po_pick_next g_lettuce_sched_eevdf_ops p s)))"
    by (simp add: g_lettuce_sched_eevdf_ops_def eevdf_pick_mech)
  show "probed (ps_tasks s) t \<and> t_state (ptask s t) = LETTUCE_TASK_STATE_READY \<or>
      p = Some t \<and> t_state (ptask s t) = LETTUCE_TASK_STATE_RUNNING"
    if "length (g_task_table (ps_tasks s)) = LETTUCE_MAX_TASKS" "\<And>c. p = Some c \<Longrightarrow> c < LETTUCE_MAX_TASKS"
      "po_pick_next g_lettuce_sched_eevdf_ops p s = (Some t, s')"
    by (rule eevdf_pick_sound [of s p t s']) (use that in \<open>simp_all add: g_lettuce_sched_eevdf_ops_def\<close>)
  show "fst (po_pick_next g_lettuce_sched_eevdf_ops p s) \<noteq> None"
    if "length (g_task_table (ps_tasks s)) = LETTUCE_MAX_TASKS" "probed (ps_tasks s) i"
      "t_state (ptask s i) = LETTUCE_TASK_STATE_READY" "t_vruntime (ptask s i) \<noteq> -1"
    using eevdf_pick_some [OF that(1), of i p] that(2-4) by (simp add: rr_ready_def g_lettuce_sched_eevdf_ops_def)
qed (simp add: g_lettuce_sched_eevdf_ops_def eevdf_on_task_sleep_def)


section \<open>Properties\<close>

lemma scan_tasks_at:
  assumes "length (g_task_table (ps_tasks s)) = LETTUCE_MAX_TASKS" "i < LETTUCE_MAX_TASKS"
  shows "t_vruntime (task_at (es_tasks (pick_scan s)) i) = t_vruntime (ptask s i)"
    "t_weight (task_at (es_tasks (pick_scan s)) i) = t_weight (ptask s i)"
    "t_requested_slice_ticks (task_at (es_tasks (pick_scan s)) i) = t_requested_slice_ticks (ptask s i)"
  using pick_scan_inv [OF assms(1)] assms(2) by (simp_all add: scan_inv_def)

lemma calc_deadline_cong:
  "t_vruntime a = t_vruntime b \<Longrightarrow> t_weight a = t_weight b \<Longrightarrow> t_requested_slice_ticks a = t_requested_slice_ticks b \<Longrightarrow>
     lettuce_eevdf_calc_deadline (Some a) = lettuce_eevdf_calc_deadline (Some b)"
  by (simp add: lettuce_eevdf_calc_deadline_def calc_vslice_def)

lemma eevdf_grant_scan:
  assumes "length (g_task_table (ps_tasks s)) = LETTUCE_MAX_TASKS" "t < LETTUCE_MAX_TASKS"
  shows "t_vdeadline (ptask (eevdf_grant t (s\<lparr>ps_tasks := es_tasks (pick_scan s), g_eevdf_vsys := v\<rparr>)) t)
      = lettuce_eevdf_calc_deadline (Some (ptask s t))"
    "t_time_slice_ticks (ptask (eevdf_grant t (s\<lparr>ps_tasks := es_tasks (pick_scan s), g_eevdf_vsys := v\<rparr>)) t)
      = ucast (t_requested_slice_ticks (ptask s t))"
    "g_eevdf_vsys (eevdf_grant t (s\<lparr>ps_tasks := es_tasks (pick_scan s), g_eevdf_vsys := v\<rparr>)) = v"
proof -
  have len: "length (g_task_table (es_tasks (pick_scan s))) = LETTUCE_MAX_TASKS"
    using pick_scan_inv [OF assms(1)] by (simp add: scan_inv_def)
  show "t_vdeadline (ptask (eevdf_grant t (s\<lparr>ps_tasks := es_tasks (pick_scan s), g_eevdf_vsys := v\<rparr>)) t)
      = lettuce_eevdf_calc_deadline (Some (ptask s t))"
    using len assms(2) calc_deadline_cong [OF scan_tasks_at [OF assms]] by (simp add: eevdf_grant_def)
  show "t_time_slice_ticks (ptask (eevdf_grant t (s\<lparr>ps_tasks := es_tasks (pick_scan s), g_eevdf_vsys := v\<rparr>)) t)
      = ucast (t_requested_slice_ticks (ptask s t))"
    using len assms(2) scan_tasks_at(3) [OF assms] by (simp add: eevdf_grant_def)
  show "g_eevdf_vsys (eevdf_grant t (s\<lparr>ps_tasks := es_tasks (pick_scan s), g_eevdf_vsys := v\<rparr>)) = v"
    by (simp add: eevdf_grant_def upd_ptask_def)
qed

text \<open>
  C27: EEVDF picks the earliest eligible virtual deadline. Among the ready tasks the scan reaches, if
  one is eligible (its virtual runtime is not ahead of system virtual time) and has a deadline below
  the largest word, the picked task is eligible, no eligible task has an earlier deadline, ties go to
  the lowest slot, and system virtual time stays. Otherwise, if some ready task has a virtual runtime
  below the largest word, the picked task has the least virtual runtime and system virtual time moves
  to it. In both cases the picked task starts a full slice and its new deadline is its virtual
  runtime plus its weighted slice.
\<close>

theorem eevdf_pick_spec:
  assumes len: "length (g_task_table (ps_tasks s)) = LETTUCE_MAX_TASKS"
    and run: "eevdf_pick_next p s = (r, s')"
  defines "el \<equiv> eevdf_eligible (g_eevdf_vsys s) (ps_tasks s)"
    and "dl \<equiv> \<lambda>i. scan_deadline (ptask s i)"
    and "vr \<equiv> \<lambda>i. t_vruntime (ptask s i)"
  shows "if \<exists>i. el i \<and> dl i \<noteq> UINT64_MAX
    then \<exists>t. r = Some t \<and> el t \<and> (\<forall>i. el i \<longrightarrow> dl t \<le> dl i) \<and> (\<forall>i < t. el i \<longrightarrow> dl t < dl i) \<and>
      g_eevdf_vsys s' = g_eevdf_vsys s \<and>
      t_vdeadline (ptask s' t) = lettuce_eevdf_calc_deadline (Some (ptask s t)) \<and>
      t_time_slice_ticks (ptask s' t) = ucast (t_requested_slice_ticks (ptask s t))
    else (\<exists>i. rr_ready (ps_tasks s) i \<and> vr i \<noteq> UINT64_MAX) \<longrightarrow>
      (\<exists>t. r = Some t \<and> rr_ready (ps_tasks s) t \<and> (\<forall>i. rr_ready (ps_tasks s) i \<longrightarrow> vr t \<le> vr i) \<and>
        g_eevdf_vsys s' = vr t \<and>
        t_vdeadline (ptask s' t) = lettuce_eevdf_calc_deadline (Some (ptask s t)) \<and>
        t_time_slice_ticks (ptask s' t) = ucast (t_requested_slice_ticks (ptask s t)))"
proof -
  note inv = pick_scan_inv [OF len]
  have best: "first_min el dl LETTUCE_MAX_TASKS (es_best_eligible (pick_scan s)) (es_earliest_deadline (pick_scan s))"
    and mn: "first_min (rr_ready (ps_tasks s)) vr LETTUCE_MAX_TASKS (es_min_vruntime_task (pick_scan s)) (es_min_vruntime (pick_scan s))"
    using inv by (simp_all add: scan_inv_def el_def dl_def vr_def)
  have el_lt: "i < LETTUCE_MAX_TASKS" if "el i" for i
    using that rr_ready_lt by (auto simp: el_def eevdf_eligible_def)
  show ?thesis
  proof (cases "es_best_eligible (pick_scan s)")
    case (Some t)
    have t: "t < LETTUCE_MAX_TASKS" "el t" "dl t \<noteq> UINT64_MAX" "\<forall>i. el i \<longrightarrow> dl t \<le> dl i" "\<forall>i < t. el i \<longrightarrow> dl t < dl i"
      using best Some el_lt by (auto simp: first_min_def)
    have res: "r = Some t" "s' = eevdf_grant t (s\<lparr>ps_tasks := es_tasks (pick_scan s), g_eevdf_vsys := g_eevdf_vsys s\<rparr>)"
      using run Some unfolding eevdf_pick_eq [OF len] Let_def by simp_all
    have ex: "\<exists>i. el i \<and> dl i \<noteq> UINT64_MAX" using t(2,3) by blast
    show ?thesis unfolding if_P [OF ex]
      using t(2,4,5) res eevdf_grant_scan [OF len t(1), of "g_eevdf_vsys s"] by blast
  next
    case None
    then have ne: "\<not> (\<exists>i. el i \<and> dl i \<noteq> UINT64_MAX)" using best el_lt by (auto simp: first_min_def)
    show ?thesis unfolding if_not_P [OF ne]
    proof
      assume "\<exists>i. rr_ready (ps_tasks s) i \<and> vr i \<noteq> UINT64_MAX"
      then obtain t where m: "es_min_vruntime_task (pick_scan s) = Some t"
        using mn rr_ready_lt by (cases "es_min_vruntime_task (pick_scan s)") (auto simp: first_min_def)
      have t: "t < LETTUCE_MAX_TASKS" "rr_ready (ps_tasks s) t" "\<forall>i. rr_ready (ps_tasks s) i \<longrightarrow> vr t \<le> vr i"
        using mn m rr_ready_lt by (auto simp: first_min_def)
      have res: "r = Some t" "s' = eevdf_grant t (s\<lparr>ps_tasks := es_tasks (pick_scan s), g_eevdf_vsys := vr t\<rparr>)"
        using run m None unfolding eevdf_pick_eq [OF len] Let_def by (simp_all add: vr_def)
      show "\<exists>t. r = Some t \<and> rr_ready (ps_tasks s) t \<and> (\<forall>i. rr_ready (ps_tasks s) i \<longrightarrow> vr t \<le> vr i) \<and>
        g_eevdf_vsys s' = vr t \<and> t_vdeadline (ptask s' t) = lettuce_eevdf_calc_deadline (Some (ptask s t)) \<and>
        t_time_slice_ticks (ptask s' t) = ucast (t_requested_slice_ticks (ptask s t))"
        using t res eevdf_grant_scan [OF len t(1), of "vr t"] by blast
    qed
  qed
qed

lemma demo_policy_length: "length (g_task_table (ps_tasks demo_policy)) = LETTUCE_MAX_TASKS"
  by code_simp

lemma eevdf_pick_spec_witness:
  "eevdf_eligible (g_eevdf_vsys demo_policy) (ps_tasks demo_policy) 0 \<and>
   (\<exists>t. fst (eevdf_pick_next None demo_policy) = Some t \<and> eevdf_eligible (g_eevdf_vsys demo_policy) (ps_tasks demo_policy) t)"
proof -
  obtain r s' where run: "eevdf_pick_next None demo_policy = (r, s')" by fastforce
  have el: "eevdf_eligible (g_eevdf_vsys demo_policy) (ps_tasks demo_policy) 0"
    using demo_rr_ready unfolding eevdf_eligible_def demo_policy_def by simp code_simp
  have dl: "scan_deadline (ptask demo_policy 0) \<noteq> UINT64_MAX" by code_simp
  from el dl have ex: "\<exists>i. eevdf_eligible (g_eevdf_vsys demo_policy) (ps_tasks demo_policy) i \<and>
      scan_deadline (ptask demo_policy i) \<noteq> UINT64_MAX" by blast
  show ?thesis using eevdf_pick_spec [OF demo_policy_length run] el unfolding if_P [OF ex] run by auto
qed


definition runnable :: "task_state \<Rightarrow> nat \<Rightarrow> bool" where
  "runnable ts i \<longleftrightarrow> probed ts i \<and>
     (t_state (task_at ts i) = LETTUCE_TASK_STATE_READY \<or> t_state (task_at ts i) = LETTUCE_TASK_STATE_RUNNING)"

definition weight_below :: "task_state \<Rightarrow> nat \<Rightarrow> nat" where
  "weight_below ts n = (\<Sum>i < n. if runnable ts i then unat (t_weight (task_at ts i)) else 0)"

lemma effective_weight_ok: "task_ok i t \<Longrightarrow> effective_weight t = t_weight t"
  by (simp add: task_ok_def effective_weight_def word_less_nat_alt)

lemma weight_below_bound:
  assumes "task_inv ts" "n \<le> LETTUCE_MAX_TASKS"
  shows "weight_below ts n \<le> n * 10240"
  using assms(2)
proof (induction n)
  case (Suc n)
  then show ?case using task_inv_ok [OF assms(1), of n] by (simp add: weight_below_def task_ok_def)
qed (simp add: weight_below_def)

lemma weight_fold:
  assumes "task_inv ts" "n \<le> LETTUCE_MAX_TASKS"
  shows "unat (fold (\<lambda>slot total. case probe_slot ts slot of None \<Rightarrow> total
      | Some t \<Rightarrow> if t_state (task_at ts t) = LETTUCE_TASK_STATE_READY \<or> t_state (task_at ts t) = LETTUCE_TASK_STATE_RUNNING
          then total + effective_weight (task_at ts t) else total) [0..<n] (0 :: u32)) = weight_below ts n"
  using assms(2)
proof (induction n)
  case 0
  then show ?case by (simp add: weight_below_def)
next
  case (Suc n)
  have ok: "task_ok n (task_at ts n)" using task_inv_ok [OF assms(1), of n] Suc.prems by simp
  have "weight_below ts n \<le> 163840"
    using weight_below_bound [OF assms(1), of n] Suc.prems by (simp add: LETTUCE_MAX_TASKS_def)
  moreover have "unat (t_weight (task_at ts n)) \<le> 10240" using ok by (simp add: task_ok_def)
  ultimately show ?case
    using Suc effective_weight_ok [OF ok]
    by (simp add: probe_slot_eq runnable_def weight_below_def unat_word_ariths)
qed

lemma active_weight_sum:
  assumes inv: "task_inv ts" and c: "runnable ts c"
  shows "unat (get_active_weight_sum ts) = weight_below ts LETTUCE_MAX_TASKS"
    "unat (t_weight (task_at ts c)) \<le> weight_below ts LETTUCE_MAX_TASKS" "0 < unat (t_weight (task_at ts c))"
proof -
  have lt: "c < LETTUCE_MAX_TASKS" using c by (simp add: runnable_def probed_def)
  show pos: "0 < unat (t_weight (task_at ts c))"
    using task_inv_ok [OF inv lt] by (simp add: task_ok_def)
  show le: "unat (t_weight (task_at ts c)) \<le> weight_below ts LETTUCE_MAX_TASKS"
    unfolding weight_below_def
    using member_le_sum [of c "{..<LETTUCE_MAX_TASKS}" "\<lambda>i. if runnable ts i then unat (t_weight (task_at ts i)) else 0"] lt c
    by simp
  show "unat (get_active_weight_sum ts) = weight_below ts LETTUCE_MAX_TASKS"
    unfolding get_active_weight_sum_def Let_def
    using weight_fold [OF inv order.refl] pos le by (simp add: word_less_nat_alt)
qed

lemma weight_below_cong:
  "length (g_task_table a) = LETTUCE_MAX_TASKS \<Longrightarrow> mech_eq a b \<Longrightarrow> weight_below b LETTUCE_MAX_TASKS = weight_below a LETTUCE_MAX_TASKS"
proof -
  assume len: "length (g_task_table a) = LETTUCE_MAX_TASKS" and eq: "mech_eq a b"
  have "t_state (task_at b i) = t_state (task_at a i) \<and> t_generation (task_at b i) = t_generation (task_at a i) \<and>
      t_weight (task_at b i) = t_weight (task_at a i)" if "i < LETTUCE_MAX_TASKS" for i
    using erase_accounting_fields(2,3,7) [OF mech_eq_task [OF eq, of i]] len that by simp
  then show ?thesis
    unfolding weight_below_def by (intro sum.cong refl) (auto simp: runnable_def probed_def)
qed

text \<open>
  C28: Virtual time advances in proportion. On a tick of d timer ticks charged to the running task, its
  virtual runtime advances by 65536 d divided by its weight and system virtual time by 65536 d divided
  by the sum of the weights of all runnable tasks (rounded down; no division by zero and no overflow
  for fewer than 2^48 ticks). So system virtual time never advances faster than the running task, and
  no other task's virtual runtime moves.
\<close>

theorem eevdf_tick_proportional:
  assumes inv: "task_inv (ps_tasks s)" and c: "probed (ps_tasks s) c" "t_state (ptask s c) = LETTUCE_TASK_STATE_RUNNING"
    and d: "unat d < 2 ^ 48"
  defines "s' \<equiv> eevdf_on_tick (Some c) d s" and "W \<equiv> weight_below (ps_tasks s) LETTUCE_MAX_TASKS"
  shows "\<exists>dv dvs. t_vruntime (ptask s' c) = t_vruntime (ptask s c) + dv \<and> g_eevdf_vsys s' = g_eevdf_vsys s + dvs \<and>
    unat dv = unat d * 65536 div unat (t_weight (ptask s c)) \<and> unat dvs = unat d * 65536 div W \<and> dvs \<le> dv \<and>
    0 < unat (t_weight (ptask s c)) \<and> unat (t_weight (ptask s c)) \<le> W \<and>
    (\<forall>i < LETTUCE_MAX_TASKS. i \<noteq> c \<longrightarrow> ptask s' i = ptask s i)"
proof -
  let ?dv = "(d * LETTUCE_EEVDF_SCALE) div ucast (effective_weight (ptask s c))"
  let ?s1 = "upd_ptask c (\<lambda>t. t\<lparr>t_total_ticks_run := t_total_ticks_run t + d, t_vruntime := t_vruntime t + ?dv\<rparr>) s"
  let ?dvs = "(d * LETTUCE_EEVDF_SCALE) div ucast (get_active_weight_sum (ps_tasks ?s1)) :: u64"
  have lt: "c < LETTUCE_MAX_TASKS" using c(1) by (simp add: probed_def)
  have len: "length (g_task_table (ps_tasks s)) = LETTUCE_MAX_TASKS" by (rule task_inv_length [OF inv])
  have mech: "mech_eq (ps_tasks s) (ps_tasks ?s1)" by (simp add: mech_eq_upd erase_accounting_def)
  have inv1: "task_inv (ps_tasks ?s1)" by (rule mech_eq_inv [OF mech inv])
  have "runnable (ps_tasks s) c" using c by (simp add: runnable_def)
  moreover have "runnable (ps_tasks ?s1) c" using c lt len by (simp add: runnable_def probed_def)
  note w1 = active_weight_sum [OF inv1 this]
  have sum: "unat (get_active_weight_sum (ps_tasks ?s1)) = W"
    using w1(1) weight_below_cong [OF len mech] by (simp add: W_def)
  note w = active_weight_sum [OF inv \<open>runnable (ps_tasks s) c\<close>]
  have mul: "unat (d * LETTUCE_EEVDF_SCALE) = unat d * 65536" using d by (simp add: unat_word_ariths)
  have dv: "unat ?dv = unat d * 65536 div unat (t_weight (ptask s c))"
    unfolding effective_weight_ok [OF task_inv_ok [OF inv lt]]
    using mul by (simp add: unat_div_distrib)
  have dvs: "unat ?dvs = unat d * 65536 div W"
    unfolding unat_div_distrib mul sum [symmetric] by simp
  have "?dvs \<le> ?dv"
    unfolding word_le_nat_alt dv dvs using div_le_mono2 [OF w(3) w(2)] by (simp add: W_def)
  moreover have "t_vruntime (ptask s' c) = t_vruntime (ptask s c) + ?dv" "g_eevdf_vsys s' = g_eevdf_vsys s + ?dvs"
    "\<forall>i < LETTUCE_MAX_TASKS. i \<noteq> c \<longrightarrow> ptask s' i = ptask s i"
    using c(2) lt len by (simp_all add: s'_def eevdf_on_tick_def Let_def upd_ptask_def)
  ultimately show ?thesis using dv dvs w by (intro exI [of _ ?dv] exI [of _ ?dvs]) (simp add: W_def)
qed


definition running_policy :: policy_state where
  "running_policy = upd_ptask 0 (\<lambda>t. t\<lparr>t_state := LETTUCE_TASK_STATE_RUNNING\<rparr>) demo_policy"

lemma running_policy_inv: "task_inv (ps_tasks running_policy)"
proof -
  have inv: "task_inv demo_task_state" unfolding demo_task_state_def by (rule task_inv_create [OF task_inv_init])
  have nr: "\<not> task_slot_reusable (task_at demo_task_state 0)" by code_simp
  show ?thesis
    using task_inv_ok [OF inv, of 0] nr max_tasks_pos
    by (simp add: running_policy_def demo_policy_def, intro task_inv_upd [OF inv])
      (simp_all add: task_ok_def task_slot_reusable_def)
qed

lemma eevdf_tick_proportional_witness:
  "task_inv (ps_tasks running_policy) \<and> probed (ps_tasks running_policy) 0 \<and>
   t_state (ptask running_policy 0) = LETTUCE_TASK_STATE_RUNNING \<and>
   (\<exists>dv. t_vruntime (ptask (eevdf_on_tick (Some 0) 1 running_policy) 0) = t_vruntime (ptask running_policy 0) + dv \<and>
     unat dv = 1 * 65536 div unat (t_weight (ptask running_policy 0)))"
proof -
  have p: "probed (ps_tasks running_policy) 0" unfolding probed_def by (intro conjI; code_simp)
  have r: "t_state (ptask running_policy 0) = LETTUCE_TASK_STATE_RUNNING" by code_simp
  show ?thesis
    using eevdf_tick_proportional [OF running_policy_inv p r, of 1] running_policy_inv p r by auto
qed

text \<open>
  A task that becomes ready or wakes up brings no credit: its virtual runtime is raised to system
  virtual time if it was behind, and otherwise kept, so its lag is not positive; its deadline is one
  weighted slice after its virtual runtime, and no other task changes.
\<close>

theorem eevdf_wake_no_credit:
  assumes "length (g_task_table (ps_tasks s)) = LETTUCE_MAX_TASKS" "i < LETTUCE_MAX_TASKS"
    and "s' = eevdf_on_task_wake (Some i) s \<or> s' = eevdf_on_task_ready (Some i) s"
  shows "t_vruntime (ptask s' i) = max (t_vruntime (ptask s i)) (g_eevdf_vsys s) \<and>
    g_eevdf_vsys s' = g_eevdf_vsys s \<and> g_eevdf_vsys s' \<le> t_vruntime (ptask s' i) \<and>
    t_vdeadline (ptask s' i) = t_vruntime (ptask s' i) + calc_vslice (Some (ptask s i)) \<and>
    (\<forall>j < LETTUCE_MAX_TASKS. j \<noteq> i \<longrightarrow> ptask s' j = ptask s j)"
proof -
  have same: "eevdf_on_task_ready (Some i) s = eevdf_on_task_wake (Some i) s"
    by (simp add: eevdf_on_task_ready_def eevdf_on_task_wake_def)
  then have s': "s' = eevdf_on_task_wake (Some i) s" using assms(3) by auto
  show ?thesis
    using assms(1,2)
    by (auto simp: s' eevdf_on_task_wake_def lettuce_eevdf_calc_deadline_def calc_vslice_def Let_def max_def
        upd_ptask_def not_less)
qed

lemma eevdf_wake_no_credit_witness:
  "t_vruntime (ptask (eevdf_on_task_wake (Some 0) (demo_policy\<lparr>g_eevdf_vsys := 9\<rparr>)) 0) =
     max (t_vruntime (ptask demo_policy 0)) 9"
  using eevdf_wake_no_credit [of "demo_policy\<lparr>g_eevdf_vsys := 9\<rparr>" 0] demo_policy_length max_tasks_pos by simp

end
