(* ===== verification/Mmu.thy ===== *)
theory Mmu
  imports Prelude
begin

text \<open>
  Page tables and protection domains: \<^verbatim>\<open>kernel/arch/arm64/mmu.c\<close>. The addresses the linker gives to the
  static tables and pages are a parameter (\<^verbatim>\<open>mmu_layout\<close>); the state holds the tables, the domain
  objects, the system registers the code writes, a log of TLB invalidations and the expected-fault
  variables. The index 0, 1, 2 of a table stands for \<^verbatim>\<open>domain_a\<close>, \<^verbatim>\<open>domain_b\<close>, \<^verbatim>\<open>domain_c\<close>. What the
  hardware makes of the tables is stated by \<^verbatim>\<open>walk\<close>, the three-level lookup that the file's header
  comment describes.
\<close>

section \<open>Constants\<close>

definition TABLE_ENTRIES :: nat where "TABLE_ENTRIES = 512"

abbreviation DOMAIN_A :: domain_id where "DOMAIN_A \<equiv> 100"
abbreviation DOMAIN_B :: domain_id where "DOMAIN_B \<equiv> 200"
abbreviation DOMAIN_C :: domain_id where "DOMAIN_C \<equiv> 300"
abbreviation GIC_PA :: u64 where "GIC_PA \<equiv> 0x08000000"
abbreviation UART_PA :: u64 where "UART_PA \<equiv> 0x09000000"
abbreviation KERNEL_RAM_PA :: u64 where "KERNEL_RAM_PA \<equiv> 0x40000000"
abbreviation PRIVATE_A_VA :: u64 where "PRIVATE_A_VA \<equiv> 0x41000000"
abbreviation PRIVATE_A_PA :: u64 where "PRIVATE_A_PA \<equiv> 0x41000000"
abbreviation PRIVATE_B_VA :: u64 where "PRIVATE_B_VA \<equiv> 0x41100000"
abbreviation PRIVATE_C_VA :: u64 where "PRIVATE_C_VA \<equiv> 0x41180000"
abbreviation SHARED_PAGE_VA :: u64 where "SHARED_PAGE_VA \<equiv> 0x411c0000"
abbreviation RO_TEST_PAGE_VA :: u64 where "RO_TEST_PAGE_VA \<equiv> 0x411e0000"
abbreviation SERVICE_CODE_VA :: u64 where "SERVICE_CODE_VA \<equiv> 0x41050000"
abbreviation DOMAIN_A_STACK_VA :: u64 where "DOMAIN_A_STACK_VA \<equiv> 0x41001000"
abbreviation DOMAIN_A_STACK_TOP :: u64 where "DOMAIN_A_STACK_TOP \<equiv> 0x41002000"
abbreviation DOMAIN_B_STACK_VA :: u64 where "DOMAIN_B_STACK_VA \<equiv> 0x41101000"
abbreviation DOMAIN_B_STACK_TOP :: u64 where "DOMAIN_B_STACK_TOP \<equiv> 0x41102000"
abbreviation DOMAIN_C_STACK_VA :: u64 where "DOMAIN_C_STACK_VA \<equiv> 0x41181000"
abbreviation DOMAIN_C_STACK_TOP :: u64 where "DOMAIN_C_STACK_TOP \<equiv> 0x41182000"

definition DESC_VALID :: u64 where "DESC_VALID = 1"
definition DESC_TABLE :: u64 where "DESC_TABLE = 2"
definition DESC_BLOCK :: u64 where "DESC_BLOCK = 0"
definition DESC_PAGE :: u64 where "DESC_PAGE = 2"
definition DESC_ATTR_NORMAL :: u64 where "DESC_ATTR_NORMAL = push_bit 2 0"
definition DESC_ATTR_DEVICE :: u64 where "DESC_ATTR_DEVICE = push_bit 2 1"
definition DESC_AP_EL1_RW :: u64 where "DESC_AP_EL1_RW = push_bit 6 0"
definition DESC_AP_EL1_RO :: u64 where "DESC_AP_EL1_RO = push_bit 6 2"
definition DESC_AP_EL0_RW :: u64 where "DESC_AP_EL0_RW = push_bit 6 1"
definition DESC_AP_EL0_RO :: u64 where "DESC_AP_EL0_RO = push_bit 6 3"
definition DESC_SH_NON :: u64 where "DESC_SH_NON = push_bit 8 0"
definition DESC_SH_INNER :: u64 where "DESC_SH_INNER = push_bit 8 3"
definition DESC_AF :: u64 where "DESC_AF = push_bit 10 1"
definition DESC_NG :: u64 where "DESC_NG = push_bit 11 1"
definition DESC_PXN :: u64 where "DESC_PXN = push_bit 53 1"
definition DESC_UXN :: u64 where "DESC_UXN = push_bit 54 1"

lemmas desc_defs = DESC_VALID_def DESC_TABLE_def DESC_BLOCK_def DESC_PAGE_def DESC_ATTR_NORMAL_def
  DESC_ATTR_DEVICE_def DESC_AP_EL1_RW_def DESC_AP_EL1_RO_def DESC_AP_EL0_RW_def DESC_AP_EL0_RO_def
  DESC_SH_NON_def DESC_SH_INNER_def DESC_AF_def DESC_NG_def DESC_PXN_def DESC_UXN_def

section \<open>State\<close>

record mmu_layout =
  lay_dev :: u64
  lay_l1 :: "nat \<Rightarrow> u64"
  lay_l2 :: "nat \<Rightarrow> u64"
  lay_l3 :: "nat \<Rightarrow> u64"
  lay_private :: "nat \<Rightarrow> u64"
  lay_stack :: "nat \<Rightarrow> u64"
  lay_shared :: u64
  lay_ro :: u64
  lay_code :: u64

record LettuceArchDomain =
  ad_ttbr0_val :: u64
  ad_l1_root :: u64
  ad_private_va :: u64
  ad_private_pa :: u64
  ad_stack_va :: u64
  ad_stack_pa :: u64
  ad_stack_top :: u64
  ad_id :: domain_id
  ad_asid :: u16

datatype tlb_op = TlbiAsid u16 | TlbiAll

record mmu_state =
  current_el :: u64
  kernel_l2_device :: "u64 list"
  domain_l1 :: "u64 list list"
  domain_l2 :: "u64 list list"
  domain_l3 :: "u64 list list"
  arch_domains :: "LettuceArchDomain list"
  current_domain :: domain_id
  ttbr0 :: u64
  mair :: u64
  tcr :: u64
  sctlr :: u64
  tlb_log :: "tlb_op list"
  zeroed_pages :: "u64 list"
  g_expecting_fault :: bool
  g_fault_observed :: bool
  g_expected_far :: u64
  g_last_fault_far :: u64
  g_last_fault_esr :: u64
  g_last_fault_elr :: u64
  g_expecting_sysreg_trap :: bool
  g_sysreg_trap_observed :: bool

text \<open>The initialiser of the static array \<^verbatim>\<open>arch_domains\<close>.\<close>

definition arch_domains_init :: "mmu_layout \<Rightarrow> LettuceArchDomain list" where
  "arch_domains_init lay =
     [\<lparr>ad_ttbr0_val = 0, ad_l1_root = lay_l1 lay 0, ad_private_va = PRIVATE_A_VA,
       ad_private_pa = lay_private lay 0, ad_stack_va = DOMAIN_A_STACK_VA, ad_stack_pa = lay_stack lay 0,
       ad_stack_top = DOMAIN_A_STACK_TOP, ad_id = DOMAIN_A, ad_asid = 1\<rparr>,
      \<lparr>ad_ttbr0_val = 0, ad_l1_root = lay_l1 lay 1, ad_private_va = PRIVATE_B_VA,
       ad_private_pa = lay_private lay 1, ad_stack_va = DOMAIN_B_STACK_VA, ad_stack_pa = lay_stack lay 1,
       ad_stack_top = DOMAIN_B_STACK_TOP, ad_id = DOMAIN_B, ad_asid = 2\<rparr>,
      \<lparr>ad_ttbr0_val = 0, ad_l1_root = lay_l1 lay 2, ad_private_va = PRIVATE_C_VA,
       ad_private_pa = lay_private lay 2, ad_stack_va = DOMAIN_C_STACK_VA, ad_stack_pa = lay_stack lay 2,
       ad_stack_top = DOMAIN_C_STACK_TOP, ad_id = DOMAIN_C, ad_asid = 3\<rparr>]"

section \<open>Descriptors and tables\<close>

definition lettuce_arch_domain_stack_top :: "domain_id \<Rightarrow> u64" where
  "lettuce_arch_domain_stack_top domain =
     (if domain = DOMAIN_A then DOMAIN_A_STACK_TOP
      else if domain = DOMAIN_B then DOMAIN_B_STACK_TOP
      else if domain = DOMAIN_C then DOMAIN_C_STACK_TOP
      else 0)"

definition arch_domain_lookup :: "mmu_state \<Rightarrow> domain_id \<Rightarrow> LettuceArchDomain option" where
  "arch_domain_lookup st did =
     (if did = DOMAIN_A then Some (arch_domains st ! 0)
      else if did = DOMAIN_B then Some (arch_domains st ! 1)
      else if did = DOMAIN_C then Some (arch_domains st ! 2)
      else None)"

definition lettuce_arch_domain_ttbr0_val :: "mmu_state \<Rightarrow> domain_id \<Rightarrow> u64" where
  "lettuce_arch_domain_ttbr0_val st domain =
     (case arch_domain_lookup st domain of Some d \<Rightarrow> ad_ttbr0_val d | None \<Rightarrow> 0)"

definition table_descriptor :: "u64 \<Rightarrow> u64" where
  "table_descriptor table = (table AND NOT 0xfff) OR DESC_VALID OR DESC_TABLE"

definition device_block_descriptor :: "u64 \<Rightarrow> u64" where
  "device_block_descriptor physical =
     (physical AND NOT 0x1fffff) OR DESC_VALID OR DESC_BLOCK OR DESC_AF OR
     DESC_SH_NON OR DESC_ATTR_DEVICE OR DESC_UXN OR DESC_PXN OR DESC_AP_EL1_RW"

definition kernel_ram_block_descriptor :: "u64 \<Rightarrow> u64" where
  "kernel_ram_block_descriptor physical =
     (physical AND NOT 0x1fffff) OR DESC_VALID OR DESC_BLOCK OR DESC_AF OR
     DESC_SH_INNER OR DESC_ATTR_NORMAL OR DESC_AP_EL1_RW OR DESC_UXN"

definition page_descriptor :: "u64 \<Rightarrow> u64 \<Rightarrow> u64" where
  "page_descriptor physical attributes =
     (physical AND NOT 0xfff) OR DESC_VALID OR DESC_PAGE OR DESC_AF OR DESC_SH_INNER OR attributes"

text \<open>The index expression \<^verbatim>\<open>(va >> shift) & 0x1ff\<close>.\<close>

definition table_index :: "nat \<Rightarrow> u64 \<Rightarrow> nat" where
  "table_index shift va = unat (drop_bit shift va AND 0x1ff)"

text \<open>The three tables \<^verbatim>\<open>init_domain_tables\<close> fills, after its clearing loop.\<close>

definition empty_table :: "u64 list" where
  "empty_table = replicate TABLE_ENTRIES 0"

definition l1_table :: "mmu_layout \<Rightarrow> nat \<Rightarrow> u64 list" where
  "l1_table lay k = empty_table[0 := table_descriptor (lay_dev lay), 1 := table_descriptor (lay_l2 lay k)]"

definition l2_table :: "mmu_layout \<Rightarrow> nat \<Rightarrow> u64 list" where
  "l2_table lay k = empty_table[0 := kernel_ram_block_descriptor KERNEL_RAM_PA,
     table_index 21 PRIVATE_A_VA := table_descriptor (lay_l3 lay k)]"

definition l3_table :: "mmu_layout \<Rightarrow> u64 \<Rightarrow> u64 \<Rightarrow> u64 \<Rightarrow> u64 \<Rightarrow> bool \<Rightarrow> u64 list" where
  "l3_table lay private_va private_pa stack_va stack_pa include_ro_test_page =
     (let l3a = empty_table[table_index 12 private_va :=
                  page_descriptor private_pa (DESC_ATTR_NORMAL OR DESC_AP_EL0_RW OR DESC_UXN OR DESC_NG)];
          l3b = l3a[table_index 12 stack_va :=
                  page_descriptor stack_pa (DESC_ATTR_NORMAL OR DESC_AP_EL0_RW OR DESC_UXN OR DESC_NG)];
          l3c = l3b[table_index 12 SERVICE_CODE_VA :=
                  page_descriptor (lay_code lay) (DESC_ATTR_NORMAL OR DESC_AP_EL0_RO OR DESC_PXN OR DESC_NG)];
          l3d = l3c[table_index 12 SHARED_PAGE_VA :=
                  page_descriptor (lay_shared lay) (DESC_ATTR_NORMAL OR DESC_AP_EL0_RW OR DESC_UXN OR DESC_NG)]
      in if include_ro_test_page
         then l3d[table_index 12 RO_TEST_PAGE_VA :=
           page_descriptor (lay_ro lay) (DESC_ATTR_NORMAL OR DESC_AP_EL0_RO OR DESC_UXN OR DESC_NG)]
         else l3d)"

definition init_domain_tables ::
  "mmu_layout \<Rightarrow> nat \<Rightarrow> u64 \<Rightarrow> u64 \<Rightarrow> u64 \<Rightarrow> u64 \<Rightarrow> bool \<Rightarrow> mmu_state \<Rightarrow> mmu_state" where
  "init_domain_tables lay k private_va private_pa stack_va stack_pa include_ro_test_page st =
     st\<lparr>domain_l1 := (domain_l1 st)[k := l1_table lay k], domain_l2 := (domain_l2 st)[k := l2_table lay k],
        domain_l3 := (domain_l3 st)[k := l3_table lay private_va private_pa stack_va stack_pa include_ro_test_page]\<rparr>"

section \<open>Registers and TLB\<close>

definition write_ttbr :: "u64 \<Rightarrow> mmu_state \<Rightarrow> mmu_state" where
  "write_ttbr ttbr_val st = st\<lparr>ttbr0 := ttbr_val\<rparr>"

definition lettuce_mmu_invalidate_asid :: "u16 \<Rightarrow> mmu_state \<Rightarrow> mmu_state" where
  "lettuce_mmu_invalidate_asid asid st =
     st\<lparr>tlb_log := (if current_el st = 2 then TlbiAll else TlbiAsid asid) # tlb_log st\<rparr>"

definition lettuce_mmu_invalidate_domain :: "domain_id \<Rightarrow> mmu_state \<Rightarrow> mmu_state" where
  "lettuce_mmu_invalidate_domain domain st =
     (case arch_domain_lookup st domain of
        Some d \<Rightarrow> lettuce_mmu_invalidate_asid (ad_asid d) st
      | None \<Rightarrow> st)"

definition lettuce_mmu_invalidate_all :: "mmu_state \<Rightarrow> mmu_state" where
  "lettuce_mmu_invalidate_all st = st\<lparr>tlb_log := TlbiAll # tlb_log st\<rparr>"

definition lettuce_mmu_active_asid :: "mmu_state \<Rightarrow> u16" where
  "lettuce_mmu_active_asid st = ucast (drop_bit 48 (ttbr0 st))"

definition lettuce_mmu_active_ttbr0 :: "mmu_state \<Rightarrow> u64" where
  "lettuce_mmu_active_ttbr0 st = ttbr0 st"

definition tcr_el1_value :: u64 where
  "tcr_el1_value = push_bit 0 25 OR push_bit 8 1 OR push_bit 10 1 OR push_bit 12 3 OR push_bit 14 0 OR
     push_bit 23 1 OR push_bit 32 2 OR push_bit 36 1"

definition tcr_el2_value :: u64 where
  "tcr_el2_value = push_bit 0 25 OR push_bit 8 1 OR push_bit 10 1 OR push_bit 12 3 OR push_bit 14 0 OR
     push_bit 16 2 OR push_bit 23 1 OR push_bit 31 1"

definition domain_ttbr0 :: "LettuceArchDomain \<Rightarrow> u64" where
  "domain_ttbr0 d = push_bit 48 (ucast (ad_asid d)) OR (ad_l1_root d AND 0x0000FFFFFFFFF000)"

definition lettuce_mmu_init :: "mmu_layout \<Rightarrow> mmu_state \<Rightarrow> mmu_state" where
  "lettuce_mmu_init lay st =
     (let st1 = st\<lparr>kernel_l2_device := empty_table
              [table_index 21 GIC_PA := device_block_descriptor GIC_PA,
               table_index 21 UART_PA := device_block_descriptor UART_PA]\<rparr>;
          st2 = init_domain_tables lay 0 PRIVATE_A_VA PRIVATE_A_PA DOMAIN_A_STACK_VA (lay_stack lay 0) True st1;
          st3 = init_domain_tables lay 1 PRIVATE_B_VA (lay_private lay 1) DOMAIN_B_STACK_VA (lay_stack lay 1) False st2;
          st4 = init_domain_tables lay 2 PRIVATE_C_VA (lay_private lay 2) DOMAIN_C_STACK_VA (lay_stack lay 2) False st3;
          st5 = st4\<lparr>zeroed_pages := [lay_private lay 0, lay_stack lay 0, lay_private lay 1, lay_stack lay 1,
                   lay_private lay 2, lay_stack lay 2, lay_shared lay, lay_ro lay]\<rparr>;
          st6 = st5\<lparr>mair := 0xff OR push_bit 8 0,
                   tcr := (if current_el st5 = 2 then tcr_el2_value else tcr_el1_value)\<rparr>;
          st7 = st6\<lparr>arch_domains := map (\<lambda>d. d\<lparr>ad_ttbr0_val := domain_ttbr0 d\<rparr>) (arch_domains st6)\<rparr>;
          st8 = lettuce_mmu_invalidate_all st7;
          st9 = write_ttbr (ad_ttbr0_val (arch_domains st8 ! 0)) st8
      in st9\<lparr>sctlr := sctlr st9 OR 1, current_domain := DOMAIN_A\<rparr>)"

section \<open>Domain switching\<close>

definition lettuce_mmu_enter :: "domain_id \<Rightarrow> mmu_state \<Rightarrow> domain_id \<times> mmu_state" where
  "lettuce_mmu_enter domain st =
     (let previous = current_domain st in
      if domain = previous \<or> domain = LETTUCE_DOMAIN_ID_INVALID then (previous, st)
      else case arch_domain_lookup st domain of
        None \<Rightarrow> (previous, st)
      | Some target \<Rightarrow> (previous, (write_ttbr (ad_ttbr0_val target) st)\<lparr>current_domain := domain\<rparr>))"

definition lettuce_mmu_leave :: "domain_id \<Rightarrow> mmu_state \<Rightarrow> mmu_state" where
  "lettuce_mmu_leave previous_domain st = snd (lettuce_mmu_enter previous_domain st)"

definition lettuce_mmu_current_domain :: "mmu_state \<Rightarrow> domain_id" where
  "lettuce_mmu_current_domain st = current_domain st"

definition lettuce_mmu_set_current_domain :: "domain_id \<Rightarrow> mmu_state \<Rightarrow> mmu_state" where
  "lettuce_mmu_set_current_domain domain st = st\<lparr>current_domain := domain\<rparr>"

section \<open>Expected faults\<close>

definition lettuce_mmu_expect_data_abort :: "mmu_state \<Rightarrow> mmu_state" where
  "lettuce_mmu_expect_data_abort st =
     st\<lparr>g_expecting_fault := True, g_fault_observed := False, g_expected_far := 0,
        g_last_fault_far := 0, g_last_fault_esr := 0, g_last_fault_elr := 0\<rparr>"

definition lettuce_mmu_expect_fault :: "u64 \<Rightarrow> mmu_state \<Rightarrow> mmu_state" where
  "lettuce_mmu_expect_fault expected_far st =
     st\<lparr>g_expecting_fault := True, g_fault_observed := False, g_expected_far := expected_far,
        g_last_fault_far := 0, g_last_fault_esr := 0, g_last_fault_elr := 0\<rparr>"

definition lettuce_mmu_expected_fault_observed :: "mmu_state \<Rightarrow> bool" where
  "lettuce_mmu_expected_fault_observed st = g_fault_observed st"
definition lettuce_mmu_last_fault_far :: "mmu_state \<Rightarrow> u64" where
  "lettuce_mmu_last_fault_far st = g_last_fault_far st"
definition lettuce_mmu_last_fault_esr :: "mmu_state \<Rightarrow> u64" where
  "lettuce_mmu_last_fault_esr st = g_last_fault_esr st"
definition lettuce_mmu_last_fault_elr :: "mmu_state \<Rightarrow> u64" where
  "lettuce_mmu_last_fault_elr st = g_last_fault_elr st"

definition lettuce_mmu_handle_expected_data_abort :: "mmu_state \<Rightarrow> bool \<times> mmu_state" where
  "lettuce_mmu_handle_expected_data_abort st =
     (if \<not> g_expecting_fault st then (False, st)
      else (True, st\<lparr>g_expecting_fault := False, g_fault_observed := True\<rparr>))"

definition lettuce_mmu_handle_fault :: "u64 \<Rightarrow> u64 \<Rightarrow> u64 \<Rightarrow> mmu_state \<Rightarrow> bool \<times> mmu_state" where
  "lettuce_mmu_handle_fault esr far elr st =
     (let st1 = st\<lparr>g_last_fault_esr := esr, g_last_fault_far := far, g_last_fault_elr := elr\<rparr> in
      if \<not> g_expecting_fault st1 then (False, st1)
      else (True, st1\<lparr>g_expecting_fault := False, g_fault_observed := True\<rparr>))"

definition lettuce_arch_expect_sysreg_trap :: "mmu_state \<Rightarrow> mmu_state" where
  "lettuce_arch_expect_sysreg_trap st = st\<lparr>g_expecting_sysreg_trap := True, g_sysreg_trap_observed := False\<rparr>"

definition lettuce_arch_sysreg_trap_observed :: "mmu_state \<Rightarrow> bool" where
  "lettuce_arch_sysreg_trap_observed st = g_sysreg_trap_observed st"

definition lettuce_arch_handle_sysreg_trap :: "u64 \<Rightarrow> u64 \<Rightarrow> mmu_state \<Rightarrow> bool \<times> mmu_state" where
  "lettuce_arch_handle_sysreg_trap esr elr st =
     (let st1 = st\<lparr>g_last_fault_esr := esr, g_last_fault_elr := elr\<rparr> in
      if \<not> g_expecting_sysreg_trap st1 then (False, st1)
      else (True, st1\<lparr>g_expecting_sysreg_trap := False, g_sysreg_trap_observed := True\<rparr>))"

section \<open>What the hardware does with the tables\<close>

definition ADDR_MASK :: u64 where "ADDR_MASK = 0x0000FFFFFFFFF000"

definition table_at :: "mmu_layout \<Rightarrow> mmu_state \<Rightarrow> u64 \<Rightarrow> u64 list option" where
  "table_at lay st = map_of
     ((lay_dev lay, kernel_l2_device st) #
      map (\<lambda>k. (lay_l1 lay k, domain_l1 st ! k)) [0..<3] @
      map (\<lambda>k. (lay_l2 lay k, domain_l2 st ! k)) [0..<3] @
      map (\<lambda>k. (lay_l3 lay k, domain_l3 st ! k)) [0..<3])"

definition desc_valid :: "u64 \<Rightarrow> bool" where "desc_valid e \<longleftrightarrow> bit e 0"
definition desc_next :: "u64 \<Rightarrow> bool" where "desc_next e \<longleftrightarrow> bit e 1"

text \<open>
  The walk from a translation root for a 39-bit virtual address: the leaf descriptor and the physical
  address, or \<^const>\<open>None\<close> for a translation fault.
\<close>

definition walk :: "mmu_layout \<Rightarrow> mmu_state \<Rightarrow> u64 \<Rightarrow> u64 \<Rightarrow> (u64 \<times> u64) option" where
  "walk lay st root va =
     (if 2 ^ 39 \<le> unat va then None
      else case table_at lay st (root AND ADDR_MASK) of None \<Rightarrow> None | Some t1 \<Rightarrow>
        let e1 = t1 ! table_index 30 va in
        if \<not> desc_valid e1 then None
        else if \<not> desc_next e1 then Some (e1, (e1 AND ADDR_MASK AND NOT 0x3fffffff) OR (va AND 0x3fffffff))
        else case table_at lay st (e1 AND ADDR_MASK) of None \<Rightarrow> None | Some t2 \<Rightarrow>
          let e2 = t2 ! table_index 21 va in
          if \<not> desc_valid e2 then None
          else if \<not> desc_next e2 then Some (e2, (e2 AND ADDR_MASK AND NOT 0x1fffff) OR (va AND 0x1fffff))
          else case table_at lay st (e2 AND ADDR_MASK) of None \<Rightarrow> None | Some t3 \<Rightarrow>
            let e3 = t3 ! table_index 12 va in
            if desc_valid e3 \<and> desc_next e3 then Some (e3, (e3 AND ADDR_MASK) OR (va AND 0xfff)) else None)"

definition el0_access :: "u64 \<Rightarrow> bool" where "el0_access e \<longleftrightarrow> bit e 6"
definition el0_write :: "u64 \<Rightarrow> bool" where "el0_write e \<longleftrightarrow> bit e 6 \<and> \<not> bit e 7"
definition el0_exec :: "u64 \<Rightarrow> bool" where "el0_exec e \<longleftrightarrow> bit e 6 \<and> \<not> bit e 54"
definition non_global :: "u64 \<Rightarrow> bool" where "non_global e \<longleftrightarrow> bit e 11"


section \<open>Layout\<close>

text \<open>
  What the code relies on of the linker: the static tables and pages are page-aligned (their
  \<^verbatim>\<open>aligned(4096)\<close> attribute and the alignment of \<^verbatim>\<open>.service_text\<close>), are distinct objects, and lie in the
  2 MB kernel image at 0x40000000.
\<close>

definition lay_pages :: "mmu_layout \<Rightarrow> u64 list" where
  "lay_pages lay = lay_dev lay # map (lay_l1 lay) [0..<3] @ map (lay_l2 lay) [0..<3] @ map (lay_l3 lay) [0..<3] @
     map (lay_private lay) [0..<3] @ map (lay_stack lay) [0..<3] @ [lay_shared lay, lay_ro lay, lay_code lay]"

definition page_frame :: "u64 \<Rightarrow> bool" where
  "page_frame pa \<longleftrightarrow> pa AND ADDR_MASK = pa"

definition lay_ok :: "mmu_layout \<Rightarrow> bool" where
  "lay_ok lay \<longleftrightarrow> distinct (lay_pages lay) \<and>
     list_all (\<lambda>p. page_frame p \<and> 0x40000000 \<le> p \<and> p < 0x40200000) (lay_pages lay)"

definition mmu_boot :: "mmu_layout \<Rightarrow> u64 \<Rightarrow> mmu_state" where
  "mmu_boot lay el =
     \<lparr>current_el = el, kernel_l2_device = empty_table, domain_l1 = replicate 3 empty_table,
      domain_l2 = replicate 3 empty_table, domain_l3 = replicate 3 empty_table,
      arch_domains = arch_domains_init lay, current_domain = LETTUCE_DOMAIN_ID_INVALID, ttbr0 = 0, mair = 0,
      tcr = 0, sctlr = 0, tlb_log = [], zeroed_pages = [], g_expecting_fault = False, g_fault_observed = False,
      g_expected_far = 0, g_last_fault_far = 0, g_last_fault_esr = 0, g_last_fault_elr = 0,
      g_expecting_sysreg_trap = False, g_sysreg_trap_observed = False\<rparr>"

definition private_frame :: "mmu_layout \<Rightarrow> nat \<Rightarrow> u64" where
  "private_frame lay k = (if k = 0 then PRIVATE_A_PA else lay_private lay k)"

definition domain_vas :: "nat \<Rightarrow> u64 \<times> u64" where
  "domain_vas k = [(PRIVATE_A_VA, DOMAIN_A_STACK_VA), (PRIVATE_B_VA, DOMAIN_B_STACK_VA), (PRIVATE_C_VA, DOMAIN_C_STACK_VA)] ! k"

definition domain_l3_table :: "mmu_layout \<Rightarrow> nat \<Rightarrow> u64 list" where
  "domain_l3_table lay k = l3_table lay (fst (domain_vas k)) (private_frame lay k) (snd (domain_vas k)) (lay_stack lay k) (k = 0)"

definition device_table :: "u64 list" where
  "device_table = empty_table[table_index 21 GIC_PA := device_block_descriptor GIC_PA,
     table_index 21 UART_PA := device_block_descriptor UART_PA]"

lemma upt_3: "[0..<3] = [0, 1, 2 :: nat]"
  by (simp add: upt_rec numeral_3_eq_3)

lemma mmu_init_tables:
  fixes lay el
  defines "st \<equiv> lettuce_mmu_init lay (mmu_boot lay el)"
  shows "kernel_l2_device st = device_table" "domain_l1 st = map (l1_table lay) [0..<3]"
    "domain_l2 st = map (l2_table lay) [0..<3]" "domain_l3 st = map (domain_l3_table lay) [0..<3]"
    "arch_domains st = map (\<lambda>d. d\<lparr>ad_ttbr0_val := domain_ttbr0 d\<rparr>) (arch_domains_init lay)"
    "current_domain st = DOMAIN_A" "ttbr0 st = domain_ttbr0 (arch_domains_init lay ! 0)"
  unfolding st_def lettuce_mmu_init_def Let_def
  by (simp_all add: mmu_boot_def device_table_def init_domain_tables_def lettuce_mmu_invalidate_all_def
      write_ttbr_def upt_3 domain_l3_table_def domain_vas_def private_frame_def numeral_3_eq_3 numeral_2_eq_2
      arch_domains_init_def)

section \<open>Descriptors\<close>

lemma frame_bit: "page_frame pa \<Longrightarrow> \<not> bit ADDR_MASK n \<Longrightarrow> \<not> bit pa n"
  unfolding page_frame_def by (metis bit_and_iff)

lemma frame_mask: "page_frame pa \<Longrightarrow> pa AND NOT 0xfff = pa"
proof -
  assume "page_frame pa"
  then have "pa AND NOT 0xfff = pa AND (ADDR_MASK AND NOT 0xfff)" by (simp add: page_frame_def and.assoc [symmetric])
  also have "ADDR_MASK AND NOT 0xfff = ADDR_MASK" by (simp add: ADDR_MASK_def)
  finally show ?thesis using \<open>page_frame pa\<close> by (simp add: page_frame_def)
qed

lemma desc_addr:
  "page_frame pa \<Longrightarrow> flags AND ADDR_MASK = 0 \<Longrightarrow> (pa OR flags) AND ADDR_MASK = pa"
  unfolding page_frame_def by (simp add: bit.conj_disj_distrib2)

lemma desc_bit: "page_frame pa \<Longrightarrow> \<not> bit ADDR_MASK n \<Longrightarrow> bit (pa OR flags) n = bit flags n"
  using frame_bit by (simp add: bit_or_iff)

lemma table_descriptor_addr:
  assumes "page_frame t"
  shows "table_descriptor t AND ADDR_MASK = t" "desc_valid (table_descriptor t)" "desc_next (table_descriptor t)"
proof -
  have eq: "table_descriptor t = t OR (DESC_VALID OR DESC_TABLE)"
    unfolding table_descriptor_def by (simp only: frame_mask [OF assms])
  show "table_descriptor t AND ADDR_MASK = t"
    unfolding eq by (rule desc_addr [OF assms]) (simp add: desc_defs ADDR_MASK_def)
  have "\<not> bit ADDR_MASK 0" "\<not> bit ADDR_MASK 1" "bit (DESC_VALID OR DESC_TABLE) 0" "bit (DESC_VALID OR DESC_TABLE) 1"
    by code_simp+
  then show "desc_valid (table_descriptor t)" "desc_next (table_descriptor t)"
    unfolding desc_valid_def desc_next_def eq using desc_bit [OF assms] by blast+
qed

lemma page_descriptor_fields:
  assumes "page_frame pa" "attrs AND ADDR_MASK = 0"
  shows "page_descriptor pa attrs AND ADDR_MASK = pa"
    "\<not> bit ADDR_MASK n \<Longrightarrow> bit (page_descriptor pa attrs) n = bit (DESC_VALID OR DESC_PAGE OR DESC_AF OR DESC_SH_INNER OR attrs) n"
proof -
  have eq: "page_descriptor pa attrs = pa OR (DESC_VALID OR DESC_PAGE OR DESC_AF OR DESC_SH_INNER OR attrs)"
    unfolding page_descriptor_def by (simp only: frame_mask [OF assms(1)])
  have "(DESC_VALID OR DESC_PAGE OR DESC_AF OR DESC_SH_INNER) AND ADDR_MASK = 0"
    by (simp add: desc_defs ADDR_MASK_def)
  then have "(DESC_VALID OR DESC_PAGE OR DESC_AF OR DESC_SH_INNER OR attrs) AND ADDR_MASK = 0"
    using assms(2) by (simp add: bit.conj_disj_distrib2)
  then show "page_descriptor pa attrs AND ADDR_MASK = pa" unfolding eq by (rule desc_addr [OF assms(1)])
  show "\<not> bit ADDR_MASK n \<Longrightarrow> bit (page_descriptor pa attrs) n = bit (DESC_VALID OR DESC_PAGE OR DESC_AF OR DESC_SH_INNER OR attrs) n"
    unfolding eq by (rule desc_bit [OF assms(1)])
qed


definition ATTR_RW :: u64 where "ATTR_RW = DESC_ATTR_NORMAL OR DESC_AP_EL0_RW OR DESC_UXN OR DESC_NG"
definition ATTR_RX :: u64 where "ATTR_RX = DESC_ATTR_NORMAL OR DESC_AP_EL0_RO OR DESC_PXN OR DESC_NG"
definition ATTR_RO :: u64 where "ATTR_RO = DESC_ATTR_NORMAL OR DESC_AP_EL0_RO OR DESC_UXN OR DESC_NG"

text \<open>The leaf of a page with the given EL0 write and execute rights.\<close>

definition user_page :: "u64 \<Rightarrow> u64 \<Rightarrow> bool \<Rightarrow> bool \<Rightarrow> bool" where
  "user_page e pa w x \<longleftrightarrow> desc_valid e \<and> desc_next e \<and> el0_access e \<and> non_global e \<and> e AND ADDR_MASK = pa \<and>
     el0_write e = w \<and> el0_exec e = x"

lemma flag_positions: "\<not> bit ADDR_MASK 0" "\<not> bit ADDR_MASK 1" "\<not> bit ADDR_MASK 6" "\<not> bit ADDR_MASK 7"
  "\<not> bit ADDR_MASK 11" "\<not> bit ADDR_MASK 54"
  by code_simp+

lemma user_page_descriptor:
  assumes "page_frame pa" "attrs AND ADDR_MASK = 0"
    "let f = DESC_VALID OR DESC_PAGE OR DESC_AF OR DESC_SH_INNER OR attrs in
       bit f 0 \<and> bit f 1 \<and> bit f 6 \<and> bit f 11 \<and> (\<not> bit f 7) = w \<and> (\<not> bit f 54) = x"
  shows "user_page (page_descriptor pa attrs) pa w x"
  unfolding user_page_def desc_valid_def desc_next_def el0_access_def el0_write_def el0_exec_def non_global_def
  using assms(3) page_descriptor_fields [OF assms(1,2)] flag_positions by (auto simp: Let_def)

lemma user_pages:
  assumes "page_frame pa"
  shows "user_page (page_descriptor pa ATTR_RW) pa True False" "user_page (page_descriptor pa ATTR_RX) pa False True"
    "user_page (page_descriptor pa ATTR_RO) pa False False"
proof -
  have z: "ATTR_RW AND ADDR_MASK = 0" "ATTR_RX AND ADDR_MASK = 0" "ATTR_RO AND ADDR_MASK = 0" by code_simp+
  show "user_page (page_descriptor pa ATTR_RW) pa True False"
    by (rule user_page_descriptor [OF assms z(1)]) code_simp
  show "user_page (page_descriptor pa ATTR_RX) pa False True"
    by (rule user_page_descriptor [OF assms z(2)]) code_simp
  show "user_page (page_descriptor pa ATTR_RO) pa False False"
    by (rule user_page_descriptor [OF assms z(3)]) code_simp
qed

lemma table_index_consts:
  "table_index 12 SERVICE_CODE_VA = 80" "table_index 12 SHARED_PAGE_VA = 448" "table_index 12 RO_TEST_PAGE_VA = 480"
  "table_index 21 PRIVATE_A_VA = 8" "table_index 21 GIC_PA = 64" "table_index 21 UART_PA = 72"
  by code_simp+

lemma table_index_less: "table_index n va < TABLE_ENTRIES"
proof -
  have "drop_bit n va AND 0x1ff = take_bit 9 (drop_bit n va)"
    by (simp add: take_bit_eq_mask mask_eq_exp_minus_1)
  then have "unat (drop_bit n va AND 0x1ff) = take_bit 9 (unat (drop_bit n va))"
    by (simp only: unsigned_take_bit_eq)
  then show ?thesis by (simp add: table_index_def TABLE_ENTRIES_def take_bit_eq_mod)
qed

lemma length_empty_table [simp]: "length empty_table = TABLE_ENTRIES"
  by (simp add: empty_table_def)

lemma nth_empty_table: "i < TABLE_ENTRIES \<Longrightarrow> empty_table ! i = 0"
  by (simp add: empty_table_def)

lemma nth_l3_table:
  assumes "i < TABLE_ENTRIES"
  shows "l3_table lay pv pp sv sp ro ! i =
    (if ro \<and> i = 480 then page_descriptor (lay_ro lay) ATTR_RO
     else if i = 448 then page_descriptor (lay_shared lay) ATTR_RW
     else if i = 80 then page_descriptor (lay_code lay) ATTR_RX
     else if i = table_index 12 sv then page_descriptor sp ATTR_RW
     else if i = table_index 12 pv then page_descriptor pp ATTR_RW
     else 0)"
  using assms
  by (simp add: l3_table_def Let_def table_index_consts nth_update_if nth_empty_table ATTR_RW_def ATTR_RX_def ATTR_RO_def)

text \<open>The pages a domain may reach at EL0, with its write and execute rights on them.\<close>

definition el0_rights :: "mmu_layout \<Rightarrow> nat \<Rightarrow> (u64 \<times> bool \<times> bool) list" where
  "el0_rights lay k =
     [(private_frame lay k, True, False), (lay_stack lay k, True, False), (lay_code lay, False, True),
      (lay_shared lay, True, False)] @ (if k = 0 then [(lay_ro lay, False, False)] else [])"

lemma lay_frames:
  assumes "lay_ok lay" "k < 3"
  shows "page_frame (lay_dev lay)" "page_frame (lay_l1 lay k)" "page_frame (lay_l2 lay k)" "page_frame (lay_l3 lay k)"
    "page_frame (private_frame lay k)" "page_frame (lay_stack lay k)" "page_frame (lay_shared lay)"
    "page_frame (lay_ro lay)" "page_frame (lay_code lay)"
proof -
  have "page_frame p" if "p \<in> set (lay_pages lay)" for p
    using assms(1) that by (auto simp: lay_ok_def list_all_iff)
  moreover have "{lay_dev lay, lay_l1 lay k, lay_l2 lay k, lay_l3 lay k, lay_private lay k, lay_stack lay k, lay_shared lay,
      lay_ro lay, lay_code lay} \<subseteq> set (lay_pages lay)"
    using assms(2) by (auto simp: lay_pages_def)
  ultimately show "page_frame (lay_dev lay)" "page_frame (lay_l1 lay k)" "page_frame (lay_l2 lay k)" "page_frame (lay_l3 lay k)"
      "page_frame (lay_stack lay k)" "page_frame (lay_shared lay)" "page_frame (lay_ro lay)" "page_frame (lay_code lay)"
      "page_frame (private_frame lay k)"
    by (auto simp: private_frame_def page_frame_def ADDR_MASK_def)
qed

lemma l3_entry:
  assumes "lay_ok lay" "k < 3" "i < TABLE_ENTRIES"
  shows "domain_l3_table lay k ! i = 0 \<or>
    (\<exists>(pa, w, x) \<in> set (el0_rights lay k). user_page (domain_l3_table lay k ! i) pa w x)"
proof -
  note fr = lay_frames [OF assms(1,2)]
  note up = user_pages [OF fr(5)] user_pages [OF fr(6)] user_pages [OF fr(7)] user_pages [OF fr(8)] user_pages [OF fr(9)]
  show ?thesis
    unfolding domain_l3_table_def nth_l3_table [OF assms(3)] using up by (auto simp: el0_rights_def)
qed

lemma table_at_layout:
  fixes el
  assumes "lay_ok lay" "k < 3"
  defines "st \<equiv> lettuce_mmu_init lay (mmu_boot lay el)"
  shows "table_at lay st (lay_dev lay) = Some device_table" "table_at lay st (lay_l1 lay k) = Some (l1_table lay k)"
    "table_at lay st (lay_l2 lay k) = Some (l2_table lay k)" "table_at lay st (lay_l3 lay k) = Some (domain_l3_table lay k)"
proof -
  let ?m = "(lay_dev lay, kernel_l2_device st) # map (\<lambda>k. (lay_l1 lay k, domain_l1 st ! k)) [0..<3] @
      map (\<lambda>k. (lay_l2 lay k, domain_l2 st ! k)) [0..<3] @ map (\<lambda>k. (lay_l3 lay k, domain_l3 st ! k)) [0..<3]"
  have keys: "map fst ?m = lay_dev lay # map (lay_l1 lay) [0..<3] @ map (lay_l2 lay) [0..<3] @ map (lay_l3 lay) [0..<3]"
    by (simp add: upt_3)
  have "lay_pages lay = map fst ?m @ map (lay_private lay) [0..<3] @ map (lay_stack lay) [0..<3] @
      [lay_shared lay, lay_ro lay, lay_code lay]"
    unfolding keys lay_pages_def by simp
  moreover have "distinct (lay_pages lay)" using assms(1) by (simp only: lay_ok_def)
  ultimately have "distinct (map fst ?m)" by (simp only: distinct_append)
  then have look: "table_at lay st a = Some t" if "(a, t) \<in> set ?m" for a t
    unfolding table_at_def using that by (rule map_of_is_SomeI)
  have tabs: "kernel_l2_device st = device_table" "domain_l1 st ! k = l1_table lay k" "domain_l2 st ! k = l2_table lay k"
      "domain_l3 st ! k = domain_l3_table lay k"
    using assms(2) mmu_init_tables(1-4) [of lay el] by (simp_all add: st_def)
  show "table_at lay st (lay_dev lay) = Some device_table"
    unfolding tabs(1) [symmetric] by (rule look) simp
  show "table_at lay st (lay_l1 lay k) = Some (l1_table lay k)"
    unfolding tabs(2) [symmetric]
    by (rule look) (use in_map_upt [OF assms(2), of "\<lambda>k. (lay_l1 lay k, domain_l1 st ! k)"] in \<open>simp only: set_append list.set Un_iff insert_iff simp_thms\<close>)
  show "table_at lay st (lay_l2 lay k) = Some (l2_table lay k)"
    unfolding tabs(3) [symmetric]
    by (rule look) (use in_map_upt [OF assms(2), of "\<lambda>k. (lay_l2 lay k, domain_l2 st ! k)"] in \<open>simp only: set_append list.set Un_iff insert_iff simp_thms\<close>)
  show "table_at lay st (lay_l3 lay k) = Some (domain_l3_table lay k)"
    unfolding tabs(4) [symmetric]
    by (rule look) (use in_map_upt [OF assms(2), of "\<lambda>k. (lay_l3 lay k, domain_l3 st ! k)"] in \<open>simp only: set_append list.set Un_iff insert_iff simp_thms\<close>)
qed


lemma nth_l1_table:
  "i < TABLE_ENTRIES \<Longrightarrow> l1_table lay k ! i =
     (if i = 0 then table_descriptor (lay_dev lay) else if i = 1 then table_descriptor (lay_l2 lay k) else 0)"
  by (simp add: l1_table_def nth_update_if nth_empty_table)

lemma nth_l2_table:
  "i < TABLE_ENTRIES \<Longrightarrow> l2_table lay k ! i =
     (if i = 8 then table_descriptor (lay_l3 lay k)
      else if i = 0 then kernel_ram_block_descriptor KERNEL_RAM_PA else 0)"
  by (simp add: l2_table_def nth_update_if nth_empty_table table_index_consts)

lemma nth_device_table:
  "i < TABLE_ENTRIES \<Longrightarrow> device_table ! i =
     (if i = 72 then device_block_descriptor UART_PA else if i = 64 then device_block_descriptor GIC_PA else 0)"
  by (simp add: device_table_def nth_update_if nth_empty_table table_index_consts)

lemma supervisor_blocks:
  "\<not> desc_next (kernel_ram_block_descriptor KERNEL_RAM_PA)" "\<not> el0_access (kernel_ram_block_descriptor KERNEL_RAM_PA)"
  "\<not> desc_next (device_block_descriptor UART_PA)" "\<not> el0_access (device_block_descriptor UART_PA)"
  "\<not> desc_next (device_block_descriptor GIC_PA)" "\<not> el0_access (device_block_descriptor GIC_PA)"
  by code_simp+

lemma zero_desc: "\<not> desc_valid 0"
  by (simp add: desc_valid_def)

definition domain_root :: "mmu_layout \<Rightarrow> u64 \<Rightarrow> nat \<Rightarrow> u64" where
  "domain_root lay el k = ad_ttbr0_val (arch_domains (lettuce_mmu_init lay (mmu_boot lay el)) ! k)"

lemma domain_root_eq:
  assumes "k < 3"
  shows "domain_root lay el k = push_bit 48 (of_nat (Suc k)) OR (lay_l1 lay k AND ADDR_MASK)"
proof -
  consider "k = 0" | "k = 1" | "k = 2" using assms by linarith
  then show ?thesis
    by cases (simp_all add: domain_root_def mmu_init_tables(5) arch_domains_init_def domain_ttbr0_def ADDR_MASK_def)
qed

lemma domain_root_addr:
  assumes "lay_ok lay" "k < 3"
  shows "domain_root lay el k AND ADDR_MASK = lay_l1 lay k"
proof -
  have "push_bit 48 (of_nat (Suc j) :: u64) AND ADDR_MASK = 0" if "j \<in> {0, 1, 2}" for j :: nat
    using that by (auto simp: ADDR_MASK_def)
  moreover have "k \<in> {0, 1, 2}" using assms(2) by auto
  ultimately have "(lay_l1 lay k OR push_bit 48 (of_nat (Suc k))) AND ADDR_MASK = lay_l1 lay k"
    by (intro desc_addr lay_frames(2) [OF assms]) blast
  then show ?thesis
    using lay_frames(2) [OF assms] by (simp only: domain_root_eq [OF assms(2)] page_frame_def or.commute)
qed

lemma walk_el0:
  assumes ok: "lay_ok lay" and k: "k < 3"
    and w: "walk lay (lettuce_mmu_init lay (mmu_boot lay el)) (domain_root lay el k) va = Some (e, pa)" and el0: "el0_access e"
  shows "\<exists>i < TABLE_ENTRIES. e = domain_l3_table lay k ! i \<and> desc_valid e \<and> pa = (e AND ADDR_MASK) OR (va AND 0xfff)"
proof -
  note fr = lay_frames [OF ok k] and tab = table_at_layout [OF ok k, of el]
  note td = table_descriptor_addr [OF fr(1)] table_descriptor_addr [OF fr(3)] table_descriptor_addr [OF fr(4)]
  note lt = table_index_less [of 30 va] table_index_less [of 21 va] table_index_less [of 12 va]
  consider (dev) "l1_table lay k ! table_index 30 va = table_descriptor (lay_dev lay)"
    | (ram) "l1_table lay k ! table_index 30 va = table_descriptor (lay_l2 lay k)"
    | (none) "l1_table lay k ! table_index 30 va = 0"
    using nth_l1_table [OF lt(1), of lay k] by (auto split: if_splits)
  then show ?thesis
  proof cases
    case dev
    have "\<not> desc_next (device_table ! table_index 21 va) \<and> \<not> el0_access (device_table ! table_index 21 va)
        \<or> device_table ! table_index 21 va = 0"
      using nth_device_table [OF lt(2)] supervisor_blocks by simp
    then show ?thesis
      using w el0 dev
      by (auto simp: walk_def domain_root_addr [OF ok k] tab td zero_desc Let_def split: if_splits)
  next
    case none
    then show ?thesis
      using w by (simp add: walk_def domain_root_addr [OF ok k] tab zero_desc Let_def split: if_splits)
  next
    case ram
    consider (l3) "l2_table lay k ! table_index 21 va = table_descriptor (lay_l3 lay k)"
      | (kernel) "l2_table lay k ! table_index 21 va = kernel_ram_block_descriptor KERNEL_RAM_PA"
      | (empty) "l2_table lay k ! table_index 21 va = 0"
      using nth_l2_table [OF lt(2), of lay k] by (auto split: if_splits)
    then show ?thesis
      by cases (use w el0 ram supervisor_blocks lt(3) in
        \<open>auto simp: walk_def domain_root_addr [OF ok k] tab td zero_desc Let_def split: if_splits\<close>)
  qed
qed

lemma walk_region:
  assumes ok: "lay_ok lay" and k: "k < 3" and ix: "table_index 30 va = 1" "table_index 21 va = 8" and va: "unat va < 2 ^ 39"
  shows "walk lay (lettuce_mmu_init lay (mmu_boot lay el)) (domain_root lay el k) va =
    (let e = domain_l3_table lay k ! table_index 12 va in
     if desc_valid e \<and> desc_next e then Some (e, (e AND ADDR_MASK) OR (va AND 0xfff)) else None)"
proof -
  note fr = lay_frames [OF ok k] and tab = table_at_layout [OF ok k, of el]
  note td = table_descriptor_addr [OF fr(1)] table_descriptor_addr [OF fr(3)] table_descriptor_addr [OF fr(4)]
  have "l1_table lay k ! 1 = table_descriptor (lay_l2 lay k)" "l2_table lay k ! 8 = table_descriptor (lay_l3 lay k)"
    by (simp_all add: nth_l1_table nth_l2_table TABLE_ENTRIES_def)
  then show ?thesis
    using va by (simp add: walk_def domain_root_addr [OF ok k] tab td ix Let_def)
qed

lemma frame_offset: "page_frame f \<Longrightarrow> (f OR (va AND 0xfff)) AND ADDR_MASK = f"
  by (rule desc_addr) (simp_all add: and.assoc ADDR_MASK_def)

lemma length_lay_pages: "length (lay_pages lay) = 19"
  by (simp add: lay_pages_def)

lemma lay_index:
  "lay_dev lay = lay_pages lay ! 0" "lay_shared lay = lay_pages lay ! 16" "lay_ro lay = lay_pages lay ! 17"
  "lay_code lay = lay_pages lay ! 18"
  "k < 3 \<Longrightarrow> lay_l1 lay k = lay_pages lay ! (1 + k)" "k < 3 \<Longrightarrow> lay_l2 lay k = lay_pages lay ! (4 + k)"
  "k < 3 \<Longrightarrow> lay_l3 lay k = lay_pages lay ! (7 + k)" "k < 3 \<Longrightarrow> lay_private lay k = lay_pages lay ! (10 + k)"
  "k < 3 \<Longrightarrow> lay_stack lay k = lay_pages lay ! (13 + k)"
  by (simp_all add: lay_pages_def nth_append nth_Cons')

lemma page_eq_iff:
  assumes "lay_ok lay" "i < 19" "j < 19"
  shows "lay_pages lay ! i = lay_pages lay ! j \<longleftrightarrow> i = j"
  using assms by (simp add: lay_ok_def nth_eq_iff_index_eq length_lay_pages)

lemma page_not_literal:
  assumes "lay_ok lay" "i < 19"
  shows "lay_pages lay ! i \<noteq> PRIVATE_A_PA" "PRIVATE_A_PA \<noteq> lay_pages lay ! i"
proof -
  have "lay_pages lay ! i < 0x40200000" using assms by (simp add: lay_ok_def list_all_length length_lay_pages)
  then show "lay_pages lay ! i \<noteq> PRIVATE_A_PA" "PRIVATE_A_PA \<noteq> lay_pages lay ! i" by (auto simp: word_less_nat_alt)
qed

lemma rights_apart:
  assumes ok: "lay_ok lay" and k: "k < 3" and r: "(f, w, x) \<in> set (el0_rights lay k)" and j: "j < 3"
  shows "j \<noteq> k \<Longrightarrow> f \<noteq> private_frame lay j \<and> f \<noteq> lay_stack lay j"
    and "f \<notin> {lay_dev lay, lay_l1 lay j, lay_l2 lay j, lay_l3 lay j}"
proof -
  have "f = private_frame lay k \<or> f = lay_pages lay ! (13 + k) \<or> (\<exists>i \<in> {16, 17, 18}. f = lay_pages lay ! i)"
    using r k by (auto simp: el0_rights_def lay_index split: if_splits)
  then consider (lit) "k = 0" "f = PRIVATE_A_PA" | (page) i where "f = lay_pages lay ! i" "i < 19" "9 < i" "i = 10 + k \<and> k \<noteq> 0 \<or> i = 13 + k \<or> 15 < i"
    using k by (auto simp: private_frame_def lay_index split: if_splits)
  then have "(j \<noteq> k \<longrightarrow> f \<noteq> private_frame lay j \<and> f \<noteq> lay_stack lay j) \<and>
      f \<notin> {lay_dev lay, lay_l1 lay j, lay_l2 lay j, lay_l3 lay j}"
  proof cases
    case lit
    then show ?thesis
      using page_not_literal [OF ok] j unfolding private_frame_def lay_index(1) lay_index(5-9) [OF j] by auto
  next
    case page
    then show ?thesis
      using page_not_literal [OF ok, of i] page_eq_iff [OF ok, of i] j k unfolding private_frame_def lay_index(1) lay_index(5-9) [OF j]
      by auto
  qed
  then show "j \<noteq> k \<Longrightarrow> f \<noteq> private_frame lay j \<and> f \<noteq> lay_stack lay j"
    and "f \<notin> {lay_dev lay, lay_l1 lay j, lay_l2 lay j, lay_l3 lay j}" by blast+
qed

text \<open>
  C4: Memory isolation of the protection domains. With the tables lettuce_mmu_init builds and domain
  k's root installed, every address that code at EL0 can reach lies in one of the pages that domain is
  meant to have: its own private page and stack (writable, never executable), the service code
  (executable, never writable), the shared page (writable, never executable), and for domain A the
  read-only page. So no page is both writable and executable, nothing of the kernel image, of the
  devices or of the page tables is reachable, and no page of another domain is. Every such mapping is
  non-global, so that cached translations are tagged with the domain's ASID.
\<close>

theorem domain_memory_isolation:
  assumes "lay_ok lay" "k < 3"
    and "walk lay (lettuce_mmu_init lay (mmu_boot lay el)) (domain_root lay el k) va = Some (e, pa)" and "el0_access e"
  shows "(pa AND ADDR_MASK, el0_write e, el0_exec e) \<in> set (el0_rights lay k) \<and> \<not> (el0_write e \<and> el0_exec e) \<and> non_global e \<and>
    (\<forall>j < 3. j \<noteq> k \<longrightarrow> pa AND ADDR_MASK \<noteq> private_frame lay j \<and> pa AND ADDR_MASK \<noteq> lay_stack lay j) \<and>
    (\<forall>j < 3. pa AND ADDR_MASK \<notin> {lay_dev lay, lay_l1 lay j, lay_l2 lay j, lay_l3 lay j})"
proof -
  obtain i where i: "i < TABLE_ENTRIES" "e = domain_l3_table lay k ! i" "desc_valid e" "pa = (e AND ADDR_MASK) OR (va AND 0xfff)"
    using walk_el0 [OF assms] by blast
  have "e \<noteq> 0" using i(3) zero_desc by auto
  then obtain f w x where r: "(f, w, x) \<in> set (el0_rights lay k)" and up: "user_page e f w x"
    using l3_entry [OF assms(1,2) i(1)] i(2) by auto
  have e: "el0_write e = w" "el0_exec e = x" "non_global e" "e AND ADDR_MASK = f" using up by (simp_all add: user_page_def)
  have fr: "page_frame f" using r lay_frames [OF assms(1,2)] by (auto simp: el0_rights_def split: if_splits)
  have pa: "pa AND ADDR_MASK = f" unfolding i(4) e(4) by (rule frame_offset [OF fr])
  have "f \<noteq> private_frame lay j \<and> f \<noteq> lay_stack lay j" if "j < 3" "j \<noteq> k" for j
    using rights_apart(1) [OF assms(1,2) r that] by simp
  moreover have "f \<notin> {lay_dev lay, lay_l1 lay j, lay_l2 lay j, lay_l3 lay j}" if "j < 3" for j
    using rights_apart(2) [OF assms(1,2) r that] by simp
  moreover have "\<not> (w \<and> x)" using r by (auto simp: el0_rights_def split: if_splits)
  ultimately show ?thesis using r e unfolding pa by blast
qed


text \<open>A layout the linker could choose: consecutive pages from 0x40100000.\<close>

definition demo_layout :: mmu_layout where
  "demo_layout = \<lparr>lay_dev = 0x40100000, lay_l1 = (\<lambda>k. 0x40101000 + of_nat k * 0x1000),
     lay_l2 = (\<lambda>k. 0x40104000 + of_nat k * 0x1000), lay_l3 = (\<lambda>k. 0x40107000 + of_nat k * 0x1000),
     lay_private = (\<lambda>k. 0x4010A000 + of_nat k * 0x1000), lay_stack = (\<lambda>k. 0x4010D000 + of_nat k * 0x1000),
     lay_shared = 0x40110000, lay_ro = 0x40111000, lay_code = 0x40112000\<rparr>"

lemma demo_layout_ok: "lay_ok demo_layout"
  by code_simp

lemma domain_memory_isolation_witness:
  "\<exists>e. walk demo_layout (lettuce_mmu_init demo_layout (mmu_boot demo_layout 1)) (domain_root demo_layout 1 1) 0x41100010 =
      Some (e, 0x4010B010) \<and> el0_access e \<and> \<not> (el0_write e \<and> el0_exec e) \<and> non_global e"
proof -
  have lt: "(1 :: nat) < 3" by simp
  have ix: "table_index 30 0x41100010 = 1" "table_index 21 0x41100010 = 8" "table_index 12 0x41100010 = 256"
      "table_index 12 PRIVATE_B_VA = 256" "table_index 12 DOMAIN_B_STACK_VA = 257" by code_simp+
  have fr: "page_frame (lay_private demo_layout 1)" "lay_private demo_layout 1 = 0x4010B000" by code_simp+
  have "domain_l3_table demo_layout 1 ! 256 = page_descriptor (lay_private demo_layout 1) ATTR_RW"
    by (simp add: domain_l3_table_def domain_vas_def private_frame_def nth_l3_table TABLE_ENTRIES_def ix)
  then have up: "user_page (domain_l3_table demo_layout 1 ! 256) 0x4010B000 True False"
    using user_pages(1) [OF fr(1)] fr(2) by simp
  have e: "walk demo_layout (lettuce_mmu_init demo_layout (mmu_boot demo_layout 1)) (domain_root demo_layout 1 1) 0x41100010 =
      Some (domain_l3_table demo_layout 1 ! 256, 0x4010B010)"
    using walk_region [OF demo_layout_ok lt ix(1,2), of 1] up by (simp add: ix(3) user_page_def)
  then show ?thesis
    using domain_memory_isolation [OF demo_layout_ok lt e] up by (auto simp: user_page_def)
qed

section \<open>Switching\<close>

definition domain_number :: "domain_id \<Rightarrow> nat option" where
  "domain_number d = (if d = DOMAIN_A then Some 0 else if d = DOMAIN_B then Some 1 else if d = DOMAIN_C then Some 2 else None)"

text \<open>The translation root in force is that of the current domain, with the domain's own ASID.\<close>

definition mmu_ok :: "mmu_layout \<Rightarrow> u64 \<Rightarrow> mmu_state \<Rightarrow> bool" where
  "mmu_ok lay el st \<longleftrightarrow>
     arch_domains st = arch_domains (lettuce_mmu_init lay (mmu_boot lay el)) \<and>
     (\<exists>k. domain_number (current_domain st) = Some k \<and> ttbr0 st = domain_root lay el k)"

lemma arch_domain_lookup_number:
  "arch_domain_lookup st d = map_option (\<lambda>k. arch_domains st ! k) (domain_number d)"
  by (simp add: arch_domain_lookup_def domain_number_def)

lemma domain_number_lt: "domain_number d = Some k \<Longrightarrow> k < 3"
  by (auto simp: domain_number_def split: if_splits)

lemma domain_number_inj: "domain_number d = Some k \<Longrightarrow> domain_number d' = Some k \<Longrightarrow> d = d'"
  by (auto simp: domain_number_def split: if_splits)

lemma mmu_ok_init: "mmu_ok lay el (lettuce_mmu_init lay (mmu_boot lay el))"
  by (simp add: mmu_ok_def mmu_init_tables domain_number_def domain_root_def arch_domains_init_def)

lemma domain_root_asid:
  assumes "k < 3"
  shows "ucast (drop_bit 48 (domain_root lay el k)) = (of_nat (Suc k) :: u16)"
proof -
  have "drop_bit 48 (lay_l1 lay k AND ADDR_MASK) = 0"
  proof -
    have "drop_bit 48 (lay_l1 lay k AND ADDR_MASK) = drop_bit 48 (lay_l1 lay k) AND drop_bit 48 ADDR_MASK"
      by (rule drop_bit_and)
    also have "drop_bit 48 ADDR_MASK = 0" by code_simp
    finally show ?thesis by simp
  qed
  then have "drop_bit 48 (domain_root lay el k) = drop_bit 48 (push_bit 48 (of_nat (Suc k)))"
    by (simp only: domain_root_eq [OF assms] drop_bit_or or.right_neutral)
  moreover consider "k = 0" | "k = 1" | "k = 2" using assms by linarith
  then have "ucast (drop_bit 48 (push_bit 48 (of_nat (Suc k)) :: u64)) = (of_nat (Suc k) :: u16)"
    by cases (hypsubst, code_simp)+
  ultimately show ?thesis by (simp only:)
qed

lemma mmu_enter_facts:
  assumes ok: "mmu_ok lay el st" and run: "lettuce_mmu_enter d st = (prev, st')"
  shows "mmu_ok lay el st' \<and> prev = current_domain st \<and>
    current_domain st' = (if domain_number d = None then current_domain st else d) \<and>
    (domain_number d = None \<longrightarrow> st' = st) \<and>
    (\<forall>k. domain_number (current_domain st') = Some k \<longrightarrow> lettuce_mmu_active_asid st' = of_nat (Suc k)) \<and>
    lettuce_mmu_leave prev st' = st"
proof -
  obtain c where c: "domain_number (current_domain st) = Some c" "ttbr0 st = domain_root lay el c"
      "arch_domains st = arch_domains (lettuce_mmu_init lay (mmu_boot lay el))"
    using ok by (auto simp: mmu_ok_def)
  have nz: "domain_number 0 = None" by (simp add: domain_number_def)
  have asid: "lettuce_mmu_active_asid s = of_nat (Suc k)" if "domain_number (current_domain s) = Some k" "mmu_ok lay el s" for s k
    using that domain_root_asid [OF domain_number_lt [OF that(1)]] by (auto simp: mmu_ok_def lettuce_mmu_active_asid_def)
  show ?thesis
  proof (cases "domain_number d = None \<or> d = current_domain st")
    case True
    then have "st' = st" "prev = current_domain st"
      using run by (auto simp: lettuce_mmu_enter_def arch_domain_lookup_number Let_def split: if_splits)
    then show ?thesis using True ok asid c(1) by (auto simp: lettuce_mmu_leave_def lettuce_mmu_enter_def)
  next
    case False
    then obtain k where k: "domain_number d = Some k" "d \<noteq> current_domain st" by auto
    moreover have "d \<noteq> 0" using k(1) nz by force
    ultimately have r: "prev = current_domain st" "st' = st\<lparr>ttbr0 := domain_root lay el k, current_domain := d\<rparr>"
      using run c(3) by (auto simp: lettuce_mmu_enter_def arch_domain_lookup_number Let_def write_ttbr_def domain_root_def)
    have ok': "mmu_ok lay el st'" using k c by (simp add: r mmu_ok_def)
    have "current_domain st \<noteq> 0" using c(1) nz by auto
    then have "lettuce_mmu_leave prev st' = st"
      using c k by (simp add: r lettuce_mmu_leave_def lettuce_mmu_enter_def arch_domain_lookup_number write_ttbr_def
          domain_root_def)
    then show ?thesis using ok' k r asid [OF _ ok'] by simp
  qed
qed

text \<open>
  Entering and leaving domains. From any state where the translation root is that of the current
  domain, entering a domain keeps that true, makes the requested domain current exactly when it is one
  of the three known ones (and otherwise changes nothing), and returns the previous domain; the ASID
  in the register is then the current domain's own. Leaving with the returned domain restores both the
  current domain and the translation root.
\<close>

theorem mmu_enter_leave:
  assumes ok: "mmu_ok lay el st" and run: "lettuce_mmu_enter d st = (prev, st')"
  shows "mmu_ok lay el st' \<and> prev = current_domain st \<and>
    current_domain st' = (if domain_number d = None then current_domain st else d) \<and>
    (domain_number d = None \<longrightarrow> st' = st) \<and>
    (\<forall>k. domain_number (current_domain st') = Some k \<longrightarrow> lettuce_mmu_active_asid st' = of_nat (Suc k)) \<and>
    lettuce_mmu_leave prev st' = st"
  by (rule mmu_enter_facts [OF assms])

lemma mmu_enter_leave_witness:
  "mmu_ok demo_layout 1 (lettuce_mmu_init demo_layout (mmu_boot demo_layout 1)) \<and>
   current_domain (snd (lettuce_mmu_enter DOMAIN_B (lettuce_mmu_init demo_layout (mmu_boot demo_layout 1)))) = DOMAIN_B"
proof -
  have "domain_number DOMAIN_B = Some 1" by code_simp
  then show ?thesis
    using mmu_enter_leave [OF mmu_ok_init prod.collapse [symmetric], of demo_layout 1 DOMAIN_B] mmu_ok_init [of demo_layout 1]
    by simp
qed

text \<open>
  The address given to lettuce_mmu_expect_fault is not checked: after announcing any expected
  address, a fault at any other address is accepted as the expected one.
\<close>

theorem expected_fault_any_address:
  "fst (lettuce_mmu_handle_fault esr far elr (lettuce_mmu_expect_fault expected st)) \<and>
   lettuce_mmu_expected_fault_observed (snd (lettuce_mmu_handle_fault esr far elr (lettuce_mmu_expect_fault expected st))) \<and>
   lettuce_mmu_last_fault_far (snd (lettuce_mmu_handle_fault esr far elr (lettuce_mmu_expect_fault expected st))) = far"
  by (simp add: lettuce_mmu_handle_fault_def lettuce_mmu_expect_fault_def lettuce_mmu_expected_fault_observed_def
      lettuce_mmu_last_fault_far_def Let_def)

text \<open>
  The page mapped as domain A's private page is not among the pages cleared at initialisation,
  and is not the page recorded in domain A's object.
\<close>

theorem domain_a_private_page_not_cleared:
  fixes el
  assumes "lay_ok lay"
  defines "st \<equiv> lettuce_mmu_init lay (mmu_boot lay el)"
  shows "domain_l3 st ! 0 ! 0 AND ADDR_MASK = PRIVATE_A_PA \<and> PRIVATE_A_PA \<notin> set (zeroed_pages st) \<and>
    ad_private_pa (arch_domains st ! 0) \<noteq> PRIVATE_A_PA"
proof -
  have z: "zeroed_pages st = [lay_private lay 0, lay_stack lay 0, lay_private lay 1, lay_stack lay 1,
      lay_private lay 2, lay_stack lay 2, lay_shared lay, lay_ro lay]"
    by (simp add: st_def lettuce_mmu_init_def Let_def lettuce_mmu_invalidate_all_def write_ttbr_def)
  have i: "table_index 12 PRIVATE_A_VA = 0" "table_index 12 DOMAIN_A_STACK_VA = 1" by code_simp+
  have "domain_l3 st ! 0 ! 0 = page_descriptor PRIVATE_A_PA ATTR_RW"
    unfolding st_def mmu_init_tables(4)
    by (simp add: domain_l3_table_def domain_vas_def private_frame_def nth_l3_table TABLE_ENTRIES_def i)
  moreover have "page_descriptor PRIVATE_A_PA ATTR_RW AND ADDR_MASK = PRIVATE_A_PA" by code_simp
  moreover have "PRIVATE_A_PA \<notin> set (zeroed_pages st)"
    unfolding z using page_not_literal [OF assms(1)] by (simp add: lay_index)
  moreover have "ad_private_pa (arch_domains st ! 0) \<noteq> PRIVATE_A_PA"
    using page_not_literal [OF assms(1)] by (simp add: lay_index st_def mmu_init_tables(5) arch_domains_init_def)
  ultimately show ?thesis by simp
qed

lemma domain_a_private_page_not_cleared_witness:
  "lay_ok demo_layout \<and> PRIVATE_A_PA \<notin> set (zeroed_pages (lettuce_mmu_init demo_layout (mmu_boot demo_layout 1)))"
  using domain_a_private_page_not_cleared [OF demo_layout_ok, of 1] demo_layout_ok by blast

end
