(* ===== verification/Registry.thy ===== *)
theory Registry
  imports Prelude
begin

text \<open>
  The service registry of \<^verbatim>\<open>kernel/main/kernel.c\<close> and the dispatch table of
  \<^verbatim>\<open>kernel/main/dispatch.c\<close>, over the descriptor type of \<^verbatim>\<open>include/lettuce/service.h\<close> and the
  registry entry of \<^verbatim>\<open>kernel/include/kernel.h\<close>. A function pointer is its address, NULL being 0.
  Explicit padding bytes are left out of the records. The registry and the dispatch table are
  shown to refine two partial maps.
\<close>

section \<open>Data\<close>

abbreviation LETTUCE_LAYER_L4 :: u8 where "LETTUCE_LAYER_L4 \<equiv> 4"
abbreviation LETTUCE_SERVICE_FLAG_ACTIVE :: u32 where "LETTUCE_SERVICE_FLAG_ACTIVE \<equiv> 1"

definition LETTUCE_SERVICE_TABLE_SIZE :: nat where "LETTUCE_SERVICE_TABLE_SIZE = 256"
definition LETTUCE_DISPATCH_OPERATION_LIMIT :: nat where "LETTUCE_DISPATCH_OPERATION_LIMIT = 64"

record LettuceServiceDescriptor =
  sd_id :: service_id
  sd_layer :: u8
  sd_domain :: domain_id
  sd_flags :: u32

record LettuceDispatchEntry =
  de_entry :: u64
  de_active :: bool

record LettuceServiceRegistryEntry =
  re_descriptor :: LettuceServiceDescriptor
  re_operations :: "LettuceDispatchEntry list"

type_synonym service_table = "LettuceServiceRegistryEntry list"

definition zero_descriptor :: LettuceServiceDescriptor where
  "zero_descriptor = \<lparr>sd_id = 0, sd_layer = 0, sd_domain = 0, sd_flags = 0\<rparr>"

definition zero_operations :: "LettuceDispatchEntry list" where
  "zero_operations = replicate LETTUCE_DISPATCH_OPERATION_LIMIT \<lparr>de_entry = 0, de_active = False\<rparr>"

definition service_active :: "LettuceServiceDescriptor \<Rightarrow> bool" where
  "service_active d \<longleftrightarrow> sd_flags d AND LETTUCE_SERVICE_FLAG_ACTIVE \<noteq> 0"

section \<open>Registry operations\<close>

definition lettuce_service_registry_init :: service_table where
  "lettuce_service_registry_init =
     replicate LETTUCE_SERVICE_TABLE_SIZE
       \<lparr>re_descriptor = zero_descriptor, re_operations = zero_operations\<rparr>"

definition lettuce_service_registry_register ::
  "LettuceServiceDescriptor \<Rightarrow> service_table \<Rightarrow> bool \<times> service_table" where
  "lettuce_service_registry_register d st =
     (if sd_id d = LETTUCE_SERVICE_ID_INVALID \<or> unat (sd_id d) \<ge> LETTUCE_SERVICE_TABLE_SIZE
      then (False, st)
      else if sd_layer d > LETTUCE_LAYER_L4 then (False, st)
      else
        let entry = st ! unat (sd_id d) in
        if sd_id (re_descriptor entry) \<noteq> LETTUCE_SERVICE_ID_INVALID then (False, st)
        else (True, st[unat (sd_id d) := entry\<lparr>re_descriptor := d\<rparr>]))"

definition lettuce_service_registry_unregister ::
  "service_id \<Rightarrow> service_table \<Rightarrow> bool \<times> service_table" where
  "lettuce_service_registry_unregister sid st =
     (if sid = LETTUCE_SERVICE_ID_INVALID \<or> unat sid \<ge> LETTUCE_SERVICE_TABLE_SIZE then (False, st)
      else
        let entry = st ! unat sid in
        if sd_id (re_descriptor entry) = LETTUCE_SERVICE_ID_INVALID then (False, st)
        else (True, st[unat sid := entry\<lparr>re_descriptor := zero_descriptor,
                                         re_operations := zero_operations\<rparr>]))"

definition lettuce_service_registry_lookup ::
  "service_table \<Rightarrow> service_id \<Rightarrow> LettuceServiceDescriptor option" where
  "lettuce_service_registry_lookup st sid =
     (if sid = LETTUCE_SERVICE_ID_INVALID \<or> unat sid \<ge> LETTUCE_SERVICE_TABLE_SIZE then None
      else
        let descriptor = re_descriptor (st ! unat sid) in
        if sd_id descriptor = sid then Some descriptor else None)"

definition lettuce_service_registry_entry ::
  "service_table \<Rightarrow> service_id \<Rightarrow> LettuceServiceRegistryEntry option" where
  "lettuce_service_registry_entry st sid =
     (if sid = LETTUCE_SERVICE_ID_INVALID \<or> unat sid \<ge> LETTUCE_SERVICE_TABLE_SIZE then None
      else
        let entry = st ! unat sid in
        if sd_id (re_descriptor entry) = sid then Some entry else None)"

text \<open>The mutable variant returns the index of the entry in the table instead of its contents.\<close>

definition lettuce_service_registry_entry_mutable :: "service_table \<Rightarrow> service_id \<Rightarrow> nat option" where
  "lettuce_service_registry_entry_mutable st sid =
     (if sid = LETTUCE_SERVICE_ID_INVALID \<or> unat sid \<ge> LETTUCE_SERVICE_TABLE_SIZE then None
      else if sd_id (re_descriptor (st ! unat sid)) = sid then Some (unat sid) else None)"

definition lettuce_service_registry_is_active :: "service_table \<Rightarrow> service_id \<Rightarrow> bool" where
  "lettuce_service_registry_is_active st sid =
     (case lettuce_service_registry_lookup st sid of
        None \<Rightarrow> False
      | Some descriptor \<Rightarrow> sd_flags descriptor AND LETTUCE_SERVICE_FLAG_ACTIVE \<noteq> 0)"

definition lettuce_service_registry_validate :: "service_table \<Rightarrow> service_id \<Rightarrow> bool" where
  "lettuce_service_registry_validate st sid = lettuce_service_registry_is_active st sid"

section \<open>Dispatch operations\<close>

definition lettuce_dispatch_register ::
  "service_id \<Rightarrow> operation_id \<Rightarrow> u64 \<Rightarrow> service_table \<Rightarrow> bool \<times> service_table" where
  "lettuce_dispatch_register sid op entry st =
     (if sid = LETTUCE_SERVICE_ID_INVALID \<or> op = LETTUCE_OPERATION_ID_INVALID \<or>
         unat op \<ge> LETTUCE_DISPATCH_OPERATION_LIMIT \<or> entry = 0
      then (False, st)
      else case lettuce_service_registry_entry_mutable st sid of
        None \<Rightarrow> (False, st)
      | Some i \<Rightarrow>
          let service = st ! i in
          if sd_flags (re_descriptor service) AND LETTUCE_SERVICE_FLAG_ACTIVE = 0 then (False, st)
          else
            let dispatch = re_operations service ! unat op in
            if de_active dispatch then (False, st)
            else (True, st[i := service\<lparr>re_operations := (re_operations service)
                   [unat op := dispatch\<lparr>de_entry := entry, de_active := True\<rparr>]\<rparr>]))"

definition lettuce_dispatch_unregister ::
  "service_id \<Rightarrow> operation_id \<Rightarrow> service_table \<Rightarrow> bool \<times> service_table" where
  "lettuce_dispatch_unregister sid op st =
     (if op = LETTUCE_OPERATION_ID_INVALID \<or> unat op \<ge> LETTUCE_DISPATCH_OPERATION_LIMIT
      then (False, st)
      else case lettuce_service_registry_entry_mutable st sid of
        None \<Rightarrow> (False, st)
      | Some i \<Rightarrow>
          let service = st ! i in
          if \<not> de_active (re_operations service ! unat op) then (False, st)
          else (True, st[i := service\<lparr>re_operations := (re_operations service)
                 [unat op := (re_operations service ! unat op)\<lparr>de_entry := 0, de_active := False\<rparr>]\<rparr>]))"

definition lettuce_dispatch_lookup ::
  "service_table \<Rightarrow> service_id \<Rightarrow> operation_id \<Rightarrow> LettuceDispatchEntry option" where
  "lettuce_dispatch_lookup st sid op =
     (if op = LETTUCE_OPERATION_ID_INVALID \<or> unat op \<ge> LETTUCE_DISPATCH_OPERATION_LIMIT then None
      else case lettuce_service_registry_entry st sid of
        None \<Rightarrow> None
      | Some service \<Rightarrow>
          if \<not> de_active (re_operations service ! unat op) then None
          else Some (re_operations service ! unat op))"

section \<open>Abstract view and invariant\<close>

definition reg_entry_ok :: "nat \<Rightarrow> LettuceServiceRegistryEntry \<Rightarrow> bool" where
  "reg_entry_ok i e \<longleftrightarrow>
     length (re_operations e) = LETTUCE_DISPATCH_OPERATION_LIMIT \<and>
     (sd_id (re_descriptor e) = 0 \<or>
        unat (sd_id (re_descriptor e)) = i \<and> sd_layer (re_descriptor e) \<le> LETTUCE_LAYER_L4) \<and>
     (\<forall>d \<in> set (re_operations e). de_active d \<longrightarrow>
        de_entry d \<noteq> 0 \<and> sd_id (re_descriptor e) \<noteq> 0 \<and> service_active (re_descriptor e))"

definition reg_inv :: "service_table \<Rightarrow> bool" where
  "reg_inv st \<longleftrightarrow> length st = LETTUCE_SERVICE_TABLE_SIZE \<and>
     (\<forall>i < LETTUCE_SERVICE_TABLE_SIZE. reg_entry_ok i (st ! i))"

definition dispatch_view :: "service_table \<Rightarrow> service_id \<times> operation_id \<Rightarrow> u64 option" where
  "dispatch_view st = (\<lambda>(sid, op). map_option de_entry (lettuce_dispatch_lookup st sid op))"

datatype reg_op =
    RegRegister LettuceServiceDescriptor
  | RegUnregister service_id
  | RegDispatch service_id operation_id u64
  | RegUndispatch service_id operation_id

fun reg_step :: "reg_op \<Rightarrow> service_table \<Rightarrow> service_table" where
  "reg_step (RegRegister d) st = snd (lettuce_service_registry_register d st)"
| "reg_step (RegUnregister sid) st = snd (lettuce_service_registry_unregister sid st)"
| "reg_step (RegDispatch sid op e) st = snd (lettuce_dispatch_register sid op e st)"
| "reg_step (RegUndispatch sid op) st = snd (lettuce_dispatch_unregister sid op st)"

section \<open>Invariant lemmas\<close>

lemma reg_inv_update:
  "reg_inv st \<Longrightarrow> i < LETTUCE_SERVICE_TABLE_SIZE \<Longrightarrow> reg_entry_ok i e \<Longrightarrow> reg_inv (st[i := e])"
  by (simp add: reg_inv_def nth_list_update)

lemma reg_inv_entry: "reg_inv st \<Longrightarrow> i < LETTUCE_SERVICE_TABLE_SIZE \<Longrightarrow> reg_entry_ok i (st ! i)"
  by (simp add: reg_inv_def)

lemma length_zero_operations [table_simps]:
  "length zero_operations = LETTUCE_DISPATCH_OPERATION_LIMIT"
  by (simp add: zero_operations_def)

lemma zero_operations_inactive [table_simps]:
  "i < LETTUCE_DISPATCH_OPERATION_LIMIT \<Longrightarrow> \<not> de_active (zero_operations ! i)"
  by (simp add: zero_operations_def)

lemma zero_operations_ok: "d \<in> set zero_operations \<Longrightarrow> \<not> de_active d"
  by (auto simp: zero_operations_def)

lemma zero_descriptor_id [simp]: "sd_id zero_descriptor = 0"
  by (simp add: zero_descriptor_def)

lemma reg_inv_init: "reg_inv lettuce_service_registry_init"
  by (auto simp: reg_inv_def lettuce_service_registry_init_def reg_entry_ok_def table_simps
      dest: zero_operations_ok)

lemma reg_inv_register: "reg_inv st \<Longrightarrow> reg_inv (snd (lettuce_service_registry_register d st))"
  by (auto simp: lettuce_service_registry_register_def Let_def reg_entry_ok_def
      intro!: reg_inv_update dest: reg_inv_entry [of st "unat (sd_id d)"])

lemma reg_inv_unregister: "reg_inv st \<Longrightarrow> reg_inv (snd (lettuce_service_registry_unregister sid st))"
  by (auto simp: lettuce_service_registry_unregister_def Let_def reg_entry_ok_def table_simps
      intro!: reg_inv_update dest: zero_operations_ok)

lemma reg_inv_dispatch_register: "reg_inv st \<Longrightarrow> reg_inv (snd (lettuce_dispatch_register sid op e st))"
  using reg_inv_entry [of st "unat sid"] set_update_subset_insert
  by (fastforce simp: lettuce_dispatch_register_def lettuce_service_registry_entry_mutable_def
      Let_def reg_entry_ok_def service_active_def split: option.splits intro!: reg_inv_update)

lemma reg_inv_dispatch_unregister: "reg_inv st \<Longrightarrow> reg_inv (snd (lettuce_dispatch_unregister sid op st))"
  using reg_inv_entry [of st "unat sid"] set_update_subset_insert
  by (fastforce simp: lettuce_dispatch_unregister_def lettuce_service_registry_entry_mutable_def
      Let_def reg_entry_ok_def split: option.splits if_splits intro!: reg_inv_update)

lemma reg_inv_step: "reg_inv st \<Longrightarrow> reg_inv (reg_step a st)"
  by (cases a) (simp_all add: reg_inv_register reg_inv_unregister reg_inv_dispatch_register
      reg_inv_dispatch_unregister)

lemma reg_inv_run: "reg_inv st \<Longrightarrow> reg_inv (fold reg_step ops st)"
  by (induction ops arbitrary: st) (simp_all add: reg_inv_step)

section \<open>Refinement of the two maps\<close>

lemma dispatch_view_eq:
  "dispatch_view st (sid, op) =
     (if op \<noteq> 0 \<and> unat op < LETTUCE_DISPATCH_OPERATION_LIMIT \<and>
         lettuce_service_registry_lookup st sid \<noteq> None \<and>
         de_active (re_operations (st ! unat sid) ! unat op)
      then Some (de_entry (re_operations (st ! unat sid) ! unat op)) else None)"
  by (auto simp: dispatch_view_def lettuce_dispatch_lookup_def lettuce_service_registry_entry_def
      lettuce_service_registry_lookup_def Let_def split: option.splits)

lemma lookup_update:
  assumes "length st = LETTUCE_SERVICE_TABLE_SIZE"
  shows "lettuce_service_registry_lookup (st[unat sid := e]) sid' =
    (if sid' = sid then
       (if sid = 0 \<or> unat sid \<ge> LETTUCE_SERVICE_TABLE_SIZE then None
        else if sd_id (re_descriptor e) = sid then Some (re_descriptor e) else None)
     else lettuce_service_registry_lookup st sid')"
  using assms by (auto simp: lettuce_service_registry_lookup_def Let_def nth_list_update
      word_unat_eq_iff [symmetric])

lemma dispatch_view_update:
  assumes "length st = LETTUCE_SERVICE_TABLE_SIZE" "sid \<noteq> 0" "unat sid < LETTUCE_SERVICE_TABLE_SIZE"
  shows "dispatch_view (st[unat sid := e]) (s, op) =
    (if s = sid then
       (if op \<noteq> 0 \<and> unat op < LETTUCE_DISPATCH_OPERATION_LIMIT \<and> sd_id (re_descriptor e) = sid \<and>
           de_active (re_operations e ! unat op)
        then Some (de_entry (re_operations e ! unat op)) else None)
     else dispatch_view st (s, op))"
  using assms by (auto simp: dispatch_view_eq lookup_update nth_list_update word_unat_eq_iff [symmetric])

lemma lookup_id: "lettuce_service_registry_lookup st sid = Some d \<Longrightarrow> sd_id d = sid \<and> sid \<noteq> 0"
  by (auto simp: lettuce_service_registry_lookup_def Let_def split: if_splits)

lemma register_spec:
  assumes inv: "reg_inv st" and r: "lettuce_service_registry_register d st = (b, st')"
  shows "b \<longleftrightarrow> sd_id d \<noteq> 0 \<and> unat (sd_id d) < LETTUCE_SERVICE_TABLE_SIZE \<and>
           sd_layer d \<le> LETTUCE_LAYER_L4 \<and> lettuce_service_registry_lookup st (sd_id d) = None"
    and "b \<Longrightarrow> lettuce_service_registry_lookup st' =
           (lettuce_service_registry_lookup st)(sd_id d \<mapsto> d)"
    and "b \<Longrightarrow> dispatch_view st' = dispatch_view st"
    and "\<not> b \<Longrightarrow> st' = st"
proof -
  have len: "length st = LETTUCE_SERVICE_TABLE_SIZE" using inv by (simp add: reg_inv_def)
  show "b \<longleftrightarrow> sd_id d \<noteq> 0 \<and> unat (sd_id d) < LETTUCE_SERVICE_TABLE_SIZE \<and>
           sd_layer d \<le> LETTUCE_LAYER_L4 \<and> lettuce_service_registry_lookup st (sd_id d) = None"
    using r reg_inv_entry [OF inv, of "unat (sd_id d)"]
    by (auto simp: lettuce_service_registry_register_def lettuce_service_registry_lookup_def Let_def
        reg_entry_ok_def word_unat_eq_iff not_le split: if_splits)
  show "st' = st" if "\<not> b"
    using r that by (auto simp: lettuce_service_registry_register_def Let_def split: if_splits)
  assume b
  then have lt: "unat (sd_id d) < LETTUCE_SERVICE_TABLE_SIZE" "sd_id d \<noteq> 0"
    and st': "st' = st[unat (sd_id d) := (st ! unat (sd_id d))\<lparr>re_descriptor := d\<rparr>]"
    and free: "sd_id (re_descriptor (st ! unat (sd_id d))) = 0"
    using r by (auto simp: lettuce_service_registry_register_def Let_def split: if_splits)
  show lk: "lettuce_service_registry_lookup st' = (lettuce_service_registry_lookup st)(sd_id d \<mapsto> d)"
    using lt by (auto simp: st' lookup_update [OF len])
  have idle: "\<not> de_active (re_operations (st ! unat (sd_id d)) ! unat op)"
    if "unat op < LETTUCE_DISPATCH_OPERATION_LIMIT" for op :: operation_id
    using reg_inv_entry [OF inv lt(1)] free that by (auto simp: reg_entry_ok_def)
  have "dispatch_view st (sd_id d, op) = None" for op
    using idle [of op] by (simp add: dispatch_view_eq)
  then show "dispatch_view st' = dispatch_view st"
    using idle by (auto simp: fun_eq_iff st' dispatch_view_update [OF len lt(2,1)])
qed

lemma unregister_spec:
  assumes inv: "reg_inv st" and r: "lettuce_service_registry_unregister sid st = (b, st')"
  shows "b \<longleftrightarrow> lettuce_service_registry_lookup st sid \<noteq> None"
    and "b \<Longrightarrow> lettuce_service_registry_lookup st' = (lettuce_service_registry_lookup st)(sid := None)"
    and "b \<Longrightarrow> dispatch_view st' = (\<lambda>(s, op). if s = sid then None else dispatch_view st (s, op))"
    and "\<not> b \<Longrightarrow> st' = st"
proof -
  have len: "length st = LETTUCE_SERVICE_TABLE_SIZE" using inv by (simp add: reg_inv_def)
  show "b \<longleftrightarrow> lettuce_service_registry_lookup st sid \<noteq> None"
    using r reg_inv_entry [OF inv, of "unat sid"]
    by (auto simp: lettuce_service_registry_unregister_def lettuce_service_registry_lookup_def Let_def
        reg_entry_ok_def word_unat_eq_iff not_le split: if_splits)
  show "st' = st" if "\<not> b"
    using r that by (auto simp: lettuce_service_registry_unregister_def Let_def split: if_splits)
  assume b
  then have lt: "unat sid < LETTUCE_SERVICE_TABLE_SIZE" "sid \<noteq> 0"
    and st': "st' = st[unat sid := (st ! unat sid)\<lparr>re_descriptor := zero_descriptor,
                re_operations := zero_operations\<rparr>]"
    using r by (auto simp: lettuce_service_registry_unregister_def Let_def split: if_splits)
  show lk: "lettuce_service_registry_lookup st' = (lettuce_service_registry_lookup st)(sid := None)"
    using lt by (auto simp: st' lookup_update [OF len])
  show "dispatch_view st' = (\<lambda>(s, op). if s = sid then None else dispatch_view st (s, op))"
    using lt by (auto simp: fun_eq_iff st' dispatch_view_update [OF len lt(2,1)])
qed

lemma dispatch_register_spec:
  assumes inv: "reg_inv st" and r: "lettuce_dispatch_register sid op e st = (b, st')"
  shows "b \<longleftrightarrow> op \<noteq> 0 \<and> unat op < LETTUCE_DISPATCH_OPERATION_LIMIT \<and> e \<noteq> 0 \<and>
           lettuce_service_registry_is_active st sid \<and> dispatch_view st (sid, op) = None"
    and "b \<Longrightarrow> dispatch_view st' = (dispatch_view st)((sid, op) \<mapsto> e)"
    and "b \<Longrightarrow> lettuce_service_registry_lookup st' = lettuce_service_registry_lookup st"
    and "\<not> b \<Longrightarrow> st' = st"
proof -
  have len: "length st = LETTUCE_SERVICE_TABLE_SIZE" using inv by (simp add: reg_inv_def)
  show "b \<longleftrightarrow> op \<noteq> 0 \<and> unat op < LETTUCE_DISPATCH_OPERATION_LIMIT \<and> e \<noteq> 0 \<and>
           lettuce_service_registry_is_active st sid \<and> dispatch_view st (sid, op) = None"
    using r
    by (auto simp: lettuce_dispatch_register_def lettuce_service_registry_entry_mutable_def
        lettuce_service_registry_is_active_def lettuce_service_registry_lookup_def dispatch_view_eq
        Let_def split: if_splits)
  show "st' = st" if "\<not> b"
    using r that by (auto simp: lettuce_dispatch_register_def Let_def split: if_splits option.splits)
  assume b
  let ?s = "st ! unat sid"
  from \<open>b\<close> r have lt: "unat sid < LETTUCE_SERVICE_TABLE_SIZE" "sid \<noteq> 0" "op \<noteq> 0"
      "unat op < LETTUCE_DISPATCH_OPERATION_LIMIT"
    and id: "sd_id (re_descriptor ?s) = sid"
    and st': "st' = st[unat sid := ?s\<lparr>re_operations := (re_operations ?s)
        [unat op := (re_operations ?s ! unat op)\<lparr>de_entry := e, de_active := True\<rparr>]\<rparr>]"
    by (auto simp: lettuce_dispatch_register_def lettuce_service_registry_entry_mutable_def Let_def
        split: if_splits)
  have ops: "length (re_operations ?s) = LETTUCE_DISPATCH_OPERATION_LIMIT"
    using reg_inv_entry [OF inv lt(1)] by (simp add: reg_entry_ok_def)
  have lks: "lettuce_service_registry_lookup st sid = Some (re_descriptor ?s)"
    using lt id by (simp add: lettuce_service_registry_lookup_def)
  have dv: "dispatch_view st (sid, op) =
      (if op \<noteq> 0 \<and> unat op < LETTUCE_DISPATCH_OPERATION_LIMIT \<and> de_active (re_operations ?s ! unat op)
       then Some (de_entry (re_operations ?s ! unat op)) else None)" for op
    by (simp add: dispatch_view_eq lks)
  from lks show lk: "lettuce_service_registry_lookup st' = lettuce_service_registry_lookup st"
    using lt id by (auto simp: fun_eq_iff st' lookup_update [OF len])
  show "dispatch_view st' = (dispatch_view st)((sid, op) \<mapsto> e)"
    using lt(3,4) id ops
    by (auto simp: fun_eq_iff st' dispatch_view_update [OF len lt(2,1)] dv nth_list_update
        word_unat_eq_iff [symmetric])
qed

lemma dispatch_unregister_spec:
  assumes inv: "reg_inv st" and r: "lettuce_dispatch_unregister sid op st = (b, st')"
  shows "b \<longleftrightarrow> dispatch_view st (sid, op) \<noteq> None"
    and "b \<Longrightarrow> dispatch_view st' = (dispatch_view st)((sid, op) := None)"
    and "b \<Longrightarrow> lettuce_service_registry_lookup st' = lettuce_service_registry_lookup st"
    and "\<not> b \<Longrightarrow> st' = st"
proof -
  have len: "length st = LETTUCE_SERVICE_TABLE_SIZE" using inv by (simp add: reg_inv_def)
  show "b \<longleftrightarrow> dispatch_view st (sid, op) \<noteq> None"
    using r
    by (auto simp: lettuce_dispatch_unregister_def lettuce_service_registry_entry_mutable_def
        lettuce_service_registry_lookup_def dispatch_view_eq Let_def split: if_splits)
  show "st' = st" if "\<not> b"
    using r that by (auto simp: lettuce_dispatch_unregister_def Let_def split: if_splits option.splits)
  assume b
  let ?s = "st ! unat sid"
  from \<open>b\<close> r have lt: "unat sid < LETTUCE_SERVICE_TABLE_SIZE" "sid \<noteq> 0" "op \<noteq> 0"
      "unat op < LETTUCE_DISPATCH_OPERATION_LIMIT"
    and id: "sd_id (re_descriptor ?s) = sid"
    and st': "st' = st[unat sid := ?s\<lparr>re_operations := (re_operations ?s)
        [unat op := (re_operations ?s ! unat op)\<lparr>de_entry := 0, de_active := False\<rparr>]\<rparr>]"
    by (auto simp: lettuce_dispatch_unregister_def lettuce_service_registry_entry_mutable_def Let_def
        split: if_splits)
  have ops: "length (re_operations ?s) = LETTUCE_DISPATCH_OPERATION_LIMIT"
    using reg_inv_entry [OF inv lt(1)] by (simp add: reg_entry_ok_def)
  have lks: "lettuce_service_registry_lookup st sid = Some (re_descriptor ?s)"
    using lt id by (simp add: lettuce_service_registry_lookup_def)
  have dv: "dispatch_view st (sid, op) =
      (if op \<noteq> 0 \<and> unat op < LETTUCE_DISPATCH_OPERATION_LIMIT \<and> de_active (re_operations ?s ! unat op)
       then Some (de_entry (re_operations ?s ! unat op)) else None)" for op
    by (simp add: dispatch_view_eq lks)
  from lks show lk: "lettuce_service_registry_lookup st' = lettuce_service_registry_lookup st"
    using lt id by (auto simp: fun_eq_iff st' lookup_update [OF len])
  show "dispatch_view st' = (dispatch_view st)((sid, op) := None)"
    using lt(3,4) id ops
    by (auto simp: fun_eq_iff st' dispatch_view_update [OF len lt(2,1)] dv nth_list_update
        word_unat_eq_iff [symmetric])
qed

lemma dispatch_lookup_entry_nonnull:
  assumes "reg_inv st" "lettuce_dispatch_lookup st sid op = Some e"
  shows "de_entry e \<noteq> 0" "de_active e"
    "\<exists>d. lettuce_service_registry_lookup st sid = Some d \<and> service_active d"
proof -
  from assms(2) have lt: "sid \<noteq> 0" "unat sid < LETTUCE_SERVICE_TABLE_SIZE"
      "unat op < LETTUCE_DISPATCH_OPERATION_LIMIT"
    and e: "e = re_operations (st ! unat sid) ! unat op" "de_active e"
    and id: "sd_id (re_descriptor (st ! unat sid)) = sid"
    by (auto simp: lettuce_dispatch_lookup_def lettuce_service_registry_entry_def Let_def
        split: if_splits)
  from reg_inv_entry [OF assms(1) lt(2)] lt(3) e(1) have "reg_entry_ok (unat sid) (st ! unat sid)"
    and "e \<in> set (re_operations (st ! unat sid))"
    by (auto simp: reg_entry_ok_def)
  with e(2) have *: "de_entry e \<noteq> 0" "service_active (re_descriptor (st ! unat sid))"
    by (auto simp: reg_entry_ok_def)
  from * e(2) show "de_entry e \<noteq> 0" "de_active e" by simp_all
  show "\<exists>d. lettuce_service_registry_lookup st sid = Some d \<and> service_active d"
    using *(2) lt id by (simp add: lettuce_service_registry_lookup_def)
qed

section \<open>The contract the call paths rely on\<close>

text \<open>
  What a mediated call needs from a service directory: a lookup returns the descriptor of the
  service it was asked for, and an operation can only be found on a registered, active service
  and always with a callable entry.
\<close>

locale service_directory =
  fixes look :: "'r \<Rightarrow> service_id \<Rightarrow> LettuceServiceDescriptor option"
    and dispatch :: "'r \<Rightarrow> service_id \<Rightarrow> operation_id \<Rightarrow> LettuceDispatchEntry option"
    and inv :: "'r \<Rightarrow> bool"
  assumes look_id: "look r sid = Some d \<Longrightarrow> sd_id d = sid \<and> sid \<noteq> 0"
    and dispatch_entry: "inv r \<Longrightarrow> dispatch r sid op = Some e \<Longrightarrow> de_entry e \<noteq> 0"
    and dispatch_service: "inv r \<Longrightarrow> dispatch r sid op = Some e \<Longrightarrow>
      \<exists>d. look r sid = Some d \<and> service_active d"
begin

lemma look_zero: "look r 0 = None"
  using look_id [of r 0] by (cases "look r 0") auto

end

interpretation registry: service_directory lettuce_service_registry_lookup lettuce_dispatch_lookup reg_inv
  by unfold_locales (use lookup_id dispatch_lookup_entry_nonnull in blast)+

section \<open>Properties\<close>

text \<open>
  The registry refines a map from service identifiers to descriptors. In every state reached
  from initialisation by registrations and removals of services and operations, registering a
  service succeeds exactly when its identifier is in 1..255, its layer is at most L4 and the
  identifier is not taken, and then binds the identifier to the descriptor and nothing else;
  unregistering removes the service together with all its operations and nothing else.
\<close>

theorem registry_refines_map:
  fixes ops :: "reg_op list" and d :: LettuceServiceDescriptor and sid :: service_id
  defines "st \<equiv> fold reg_step ops lettuce_service_registry_init"
  defines "reg \<equiv> lettuce_service_registry_register d st"
  defines "unreg \<equiv> lettuce_service_registry_unregister sid st"
  shows "(if sd_id d \<noteq> 0 \<and> unat (sd_id d) < LETTUCE_SERVICE_TABLE_SIZE \<and>
             sd_layer d \<le> LETTUCE_LAYER_L4 \<and> lettuce_service_registry_lookup st (sd_id d) = None
          then fst reg \<and>
            lettuce_service_registry_lookup (snd reg) = (lettuce_service_registry_lookup st)(sd_id d \<mapsto> d) \<and>
            dispatch_view (snd reg) = dispatch_view st
          else \<not> fst reg \<and> snd reg = st) \<and>
    (if lettuce_service_registry_lookup st sid \<noteq> None
     then fst unreg \<and>
       lettuce_service_registry_lookup (snd unreg) = (lettuce_service_registry_lookup st)(sid := None) \<and>
       dispatch_view (snd unreg) = (\<lambda>(s, op). if s = sid then None else dispatch_view st (s, op))
     else \<not> fst unreg \<and> snd unreg = st)"
proof -
  have inv: "reg_inv st" unfolding st_def by (rule reg_inv_run [OF reg_inv_init])
  have r: "lettuce_service_registry_register d st = (fst reg, snd reg)"
    and u: "lettuce_service_registry_unregister sid st = (fst unreg, snd unreg)"
    by (simp_all add: reg_def unreg_def)
  show ?thesis
    using register_spec [OF inv r] unregister_spec [OF inv u] by auto
qed



end
