(* ===== verification/Ipc.thy ===== *)
theory Ipc
  imports Capability Registry
begin

text \<open>
  Mediated calls between services: the authoritative service identity and the logical protection
  domain (\<^verbatim>\<open>kernel/main/context.c\<close>, the portable half of \<^verbatim>\<open>kernel/main/protection.c\<close>), and the
  Same-Layer, Cross-Layer and Elevator validation and gates (\<^verbatim>\<open>ipc/\<close>) with their runtime
  wrappers (\<^verbatim>\<open>runtime/c/\<close>). The code a gate calls is a parameter: it receives the kernel state
  and may change all of it, nested mediated calls included.
\<close>

section \<open>Kernel state, current service and protection domain\<close>

record kernel_state =
  ks_capabilities :: capability_state
  ks_services :: service_table
  g_current_service_id :: service_id
  g_current_domain :: domain_id

definition current_service_id :: "kernel_state \<Rightarrow> service_id" where
  "current_service_id ks = g_current_service_id ks"

definition set_current_service_id :: "service_id \<Rightarrow> kernel_state \<Rightarrow> kernel_state" where
  "set_current_service_id sid ks = ks\<lparr>g_current_service_id := sid\<rparr>"

definition kernel_set_current_service_id :: "service_id \<Rightarrow> kernel_state \<Rightarrow> kernel_state" where
  "kernel_set_current_service_id sid ks = set_current_service_id sid ks"

definition lettuce_protection_enter :: "domain_id \<Rightarrow> kernel_state \<Rightarrow> domain_id \<times> kernel_state" where
  "lettuce_protection_enter target_domain ks =
     (let previous_domain = g_current_domain ks in
      (previous_domain,
       if target_domain \<noteq> LETTUCE_DOMAIN_ID_INVALID then ks\<lparr>g_current_domain := target_domain\<rparr> else ks))"

definition lettuce_protection_leave :: "domain_id \<Rightarrow> kernel_state \<Rightarrow> kernel_state" where
  "lettuce_protection_leave previous_domain ks = ks\<lparr>g_current_domain := previous_domain\<rparr>"

definition lettuce_protection_current_domain :: "kernel_state \<Rightarrow> domain_id" where
  "lettuce_protection_current_domain ks = g_current_domain ks"

record LettuceExecutionContext =
  ec_service_id :: service_id
  ec_domain_id :: domain_id

definition lettuce_context_enter ::
  "service_id \<Rightarrow> domain_id \<Rightarrow> kernel_state \<Rightarrow> LettuceExecutionContext \<times> kernel_state" where
  "lettuce_context_enter target_service target_domain ks =
     (let previous_context = \<lparr>ec_service_id = current_service_id ks,
                              ec_domain_id = lettuce_protection_current_domain ks\<rparr>;
          ks' = kernel_set_current_service_id target_service ks
      in (previous_context, snd (lettuce_protection_enter target_domain ks')))"

definition lettuce_context_leave :: "LettuceExecutionContext \<Rightarrow> kernel_state \<Rightarrow> kernel_state" where
  "lettuce_context_leave previous ks =
     kernel_set_current_service_id (ec_service_id previous)
       (lettuce_protection_leave (ec_domain_id previous) ks)"

section \<open>Messages and validation\<close>

record LettuceCallMessage =
  msg_target_service_id :: service_id
  msg_operation_id :: operation_id
  msg_resource_id :: resource_id
  msg_capability_handle :: u32

record LettuceCallResolution =
  cr_caller :: LettuceServiceDescriptor
  cr_target :: LettuceServiceDescriptor
  cr_entry :: LettuceDispatchEntry

text \<open>
  A validation writes the resolution through an out-pointer and returns a status. It is modelled
  as a sum: \<^const>\<open>Inl\<close> of a status other than OK, or \<^const>\<open>Inr\<close> of the resolution for OK. The
  flag says whether the out-pointer is not NULL.
\<close>

definition lettuce_same_layer_validate ::
  "service_id \<Rightarrow> operation_id \<Rightarrow> resource_id \<Rightarrow> u32 \<Rightarrow> bool \<Rightarrow> kernel_state \<Rightarrow>
   LettuceStatus + LettuceCallResolution" where
  "lettuce_same_layer_validate target_service_id operation_id resource_id capability_handle
     resolution_given ks =
   (if \<not> resolution_given then Inl LETTUCE_STATUS_INVALID_ARGUMENT
    else let trusted_caller = current_service_id ks in
    if trusted_caller = LETTUCE_SERVICE_ID_INVALID then Inl LETTUCE_STATUS_INVALID_SERVICE
    else case lettuce_service_registry_lookup (ks_services ks) trusted_caller of
      None \<Rightarrow> Inl LETTUCE_STATUS_INVALID_SERVICE
    | Some caller \<Rightarrow>
    if sd_flags caller AND LETTUCE_SERVICE_FLAG_ACTIVE = 0 then Inl LETTUCE_STATUS_INACTIVE_SERVICE
    else if target_service_id = LETTUCE_SERVICE_ID_INVALID then Inl LETTUCE_STATUS_INVALID_SERVICE
    else case lettuce_service_registry_lookup (ks_services ks) target_service_id of
      None \<Rightarrow> Inl LETTUCE_STATUS_INVALID_SERVICE
    | Some target \<Rightarrow>
    if sd_flags target AND LETTUCE_SERVICE_FLAG_ACTIVE = 0 then Inl LETTUCE_STATUS_INACTIVE_SERVICE
    else if sd_layer caller \<noteq> sd_layer target then Inl LETTUCE_STATUS_DIFFERENT_LAYER
    else if operation_id = LETTUCE_OPERATION_ID_INVALID then Inl LETTUCE_STATUS_INVALID_OPERATION
    else if resource_id = LETTUCE_RESOURCE_ID_INVALID then Inl LETTUCE_STATUS_INVALID_RESOURCE
    else if capability_handle = LETTUCE_CAPABILITY_INVALID then Inl LETTUCE_STATUS_CAPABILITY_DENIED
    else if \<not> lettuce_capability_check (ks_capabilities ks) (current_service_id ks)
                 capability_handle target_service_id operation_id LETTUCE_CAP_CALL resource_id
    then Inl LETTUCE_STATUS_CAPABILITY_DENIED
    else case lettuce_dispatch_lookup (ks_services ks) target_service_id operation_id of
      None \<Rightarrow> Inl LETTUCE_STATUS_INVALID_OPERATION
    | Some entry \<Rightarrow> Inr \<lparr>cr_caller = caller, cr_target = target, cr_entry = entry\<rparr>)"

definition lettuce_cross_layer_validate ::
  "LettuceCallMessage option \<Rightarrow> bool \<Rightarrow> kernel_state \<Rightarrow> LettuceStatus + LettuceCallResolution" where
  "lettuce_cross_layer_validate message resolution_given ks =
   (case message of
      None \<Rightarrow> Inl LETTUCE_STATUS_INVALID_ARGUMENT
    | Some m \<Rightarrow>
    if \<not> resolution_given then Inl LETTUCE_STATUS_INVALID_ARGUMENT
    else let caller_id = current_service_id ks in
    case lettuce_service_registry_lookup (ks_services ks) caller_id of
      None \<Rightarrow> Inl LETTUCE_STATUS_INVALID_SERVICE
    | Some caller \<Rightarrow>
    if sd_flags caller AND LETTUCE_SERVICE_FLAG_ACTIVE = 0 then Inl LETTUCE_STATUS_INACTIVE_SERVICE
    else case lettuce_service_registry_lookup (ks_services ks) (msg_target_service_id m) of
      None \<Rightarrow> Inl LETTUCE_STATUS_INVALID_SERVICE
    | Some target \<Rightarrow>
    if sd_flags target AND LETTUCE_SERVICE_FLAG_ACTIVE = 0 then Inl LETTUCE_STATUS_INACTIVE_SERVICE
    else if sd_layer caller = sd_layer target then Inl LETTUCE_STATUS_INVALID_STATE
    else if msg_operation_id m = LETTUCE_OPERATION_ID_INVALID then Inl LETTUCE_STATUS_INVALID_OPERATION
    else if msg_resource_id m = LETTUCE_RESOURCE_ID_INVALID then Inl LETTUCE_STATUS_INVALID_RESOURCE
    else if \<not> lettuce_capability_check (ks_capabilities ks) (current_service_id ks)
                 (msg_capability_handle m) (msg_target_service_id m) (msg_operation_id m)
                 LETTUCE_CAP_CALL (msg_resource_id m)
    then Inl LETTUCE_STATUS_CAPABILITY_DENIED
    else case lettuce_dispatch_lookup (ks_services ks) (msg_target_service_id m) (msg_operation_id m) of
      None \<Rightarrow> Inl LETTUCE_STATUS_INVALID_TARGET_ENTRY
    | Some entry \<Rightarrow>
    if de_entry entry = 0 then Inl LETTUCE_STATUS_INVALID_TARGET_ENTRY
    else Inr \<lparr>cr_caller = caller, cr_target = target, cr_entry = entry\<rparr>)"

definition lettuce_elevator_policy ::
  "LettuceCallMessage option \<Rightarrow> bool \<Rightarrow> kernel_state \<Rightarrow> LettuceStatus + LettuceCallResolution" where
  "lettuce_elevator_policy message resolution_given ks =
   (case message of
      None \<Rightarrow> Inl LETTUCE_STATUS_INVALID_ARGUMENT
    | Some m \<Rightarrow>
    if \<not> resolution_given then Inl LETTUCE_STATUS_INVALID_ARGUMENT
    else case (lettuce_service_registry_lookup (ks_services ks) (current_service_id ks),
               lettuce_service_registry_lookup (ks_services ks) (msg_target_service_id m)) of
      (Some caller, Some target) \<Rightarrow>
    (if sd_flags caller AND LETTUCE_SERVICE_FLAG_ACTIVE = 0 \<or>
        sd_flags target AND LETTUCE_SERVICE_FLAG_ACTIVE = 0
    then Inl LETTUCE_STATUS_INACTIVE_SERVICE
    else if msg_operation_id m = LETTUCE_OPERATION_ID_INVALID then Inl LETTUCE_STATUS_INVALID_OPERATION
    else if msg_resource_id m = LETTUCE_RESOURCE_ID_INVALID then Inl LETTUCE_STATUS_INVALID_RESOURCE
    else if \<not> lettuce_capability_check (ks_capabilities ks) (current_service_id ks)
                 (msg_capability_handle m) (msg_target_service_id m) (msg_operation_id m)
                 (LETTUCE_CAP_CALL OR LETTUCE_CAP_CRITICAL) (msg_resource_id m)
    then Inl LETTUCE_STATUS_CAPABILITY_DENIED
    else case lettuce_dispatch_lookup (ks_services ks) (msg_target_service_id m) (msg_operation_id m) of
      None \<Rightarrow> Inl LETTUCE_STATUS_INVALID_TARGET_ENTRY
    | Some entry \<Rightarrow>
    if de_entry entry = 0 then Inl LETTUCE_STATUS_INVALID_TARGET_ENTRY
    else Inr \<lparr>cr_caller = caller, cr_target = target, cr_entry = entry\<rparr>)
    | _ \<Rightarrow> Inl LETTUCE_STATUS_INVALID_SERVICE)"

section \<open>Gates\<close>

type_synonym target_code = "u64 \<Rightarrow> kernel_state \<Rightarrow> LettuceStatus \<times> kernel_state"

definition lettuce_same_layer_gate ::
  "target_code \<Rightarrow> service_id \<Rightarrow> operation_id \<Rightarrow> resource_id \<Rightarrow> u32 \<Rightarrow> kernel_state \<Rightarrow>
   LettuceStatus \<times> kernel_state" where
  "lettuce_same_layer_gate exec target_service_id operation_id resource_id capability_handle ks =
     (case lettuce_same_layer_validate target_service_id operation_id resource_id
             capability_handle True ks of
        Inl validation_status \<Rightarrow> (validation_status, ks)
      | Inr resolution \<Rightarrow>
          if de_entry (cr_entry resolution) = 0 then (LETTUCE_STATUS_INVALID_TARGET_ENTRY, ks)
          else
            let (previous_context, ks1) =
                  lettuce_context_enter (sd_id (cr_target resolution)) (sd_domain (cr_target resolution)) ks;
                (result, ks2) = exec (de_entry (cr_entry resolution)) ks1
            in (result, lettuce_context_leave previous_context ks2))"

definition lettuce_cross_layer_gate ::
  "target_code \<Rightarrow> LettuceCallMessage option \<Rightarrow> kernel_state \<Rightarrow> LettuceStatus \<times> kernel_state" where
  "lettuce_cross_layer_gate exec message ks =
     (case lettuce_cross_layer_validate message True ks of
        Inl status \<Rightarrow> (status, ks)
      | Inr resolution \<Rightarrow>
          let (previous_context, ks1) =
                lettuce_context_enter (sd_id (cr_target resolution)) (sd_domain (cr_target resolution)) ks;
              (result, ks2) = exec (de_entry (cr_entry resolution)) ks1
          in (result, lettuce_context_leave previous_context ks2))"

definition lettuce_elevator_gate ::
  "target_code \<Rightarrow> LettuceCallMessage option \<Rightarrow> kernel_state \<Rightarrow> LettuceStatus \<times> kernel_state" where
  "lettuce_elevator_gate exec message ks =
     (case lettuce_elevator_policy message True ks of
        Inl status \<Rightarrow> (status, ks)
      | Inr resolution \<Rightarrow>
          let (previous_context, ks1) =
                lettuce_context_enter (sd_id (cr_target resolution)) (sd_domain (cr_target resolution)) ks;
              (result, ks2) = exec (de_entry (cr_entry resolution)) ks1
          in (result, lettuce_context_leave previous_context ks2))"

definition lettuce_same_layer_call ::
  "target_code \<Rightarrow> service_id \<Rightarrow> operation_id \<Rightarrow> resource_id \<Rightarrow> u32 \<Rightarrow> kernel_state \<Rightarrow>
   LettuceStatus \<times> kernel_state" where
  "lettuce_same_layer_call exec target op res cap ks = lettuce_same_layer_gate exec target op res cap ks"

definition lettuce_cross_layer_call ::
  "target_code \<Rightarrow> LettuceCallMessage option \<Rightarrow> kernel_state \<Rightarrow> LettuceStatus \<times> kernel_state" where
  "lettuce_cross_layer_call exec message ks = lettuce_cross_layer_gate exec message ks"

definition lettuce_elevator_call ::
  "target_code \<Rightarrow> LettuceCallMessage option \<Rightarrow> kernel_state \<Rightarrow> LettuceStatus \<times> kernel_state" where
  "lettuce_elevator_call exec message ks = lettuce_elevator_gate exec message ks"

section \<open>Authority\<close>

text \<open>
  What a call needs, stated on the abstract views: both services registered and active, a live
  capability of the current service for exactly this target, operation and resource with all bits
  of \<^term>\<open>perm\<close>, and a registered operation.
\<close>

definition call_authorised ::
  "u32 \<Rightarrow> kernel_state \<Rightarrow> LettuceCallMessage \<Rightarrow> LettuceCallResolution \<Rightarrow> bool" where
  "call_authorised perm ks m r \<longleftrightarrow>
     lettuce_service_registry_lookup (ks_services ks) (current_service_id ks) = Some (cr_caller r) \<and>
     service_active (cr_caller r) \<and>
     lettuce_service_registry_lookup (ks_services ks) (msg_target_service_id m) = Some (cr_target r) \<and>
     service_active (cr_target r) \<and>
     msg_operation_id m \<noteq> 0 \<and> msg_resource_id m \<noteq> 0 \<and>
     (\<exists>c. cap_view (ks_capabilities ks) (msg_capability_handle m) = Some c \<and>
          cap_allows c (current_service_id ks) (msg_target_service_id m) (msg_operation_id m) perm
            (msg_resource_id m)) \<and>
     lettuce_dispatch_lookup (ks_services ks) (msg_target_service_id m) (msg_operation_id m)
       = Some (cr_entry r)"

definition run_in_context ::
  "target_code \<Rightarrow> LettuceCallResolution \<Rightarrow> kernel_state \<Rightarrow> LettuceStatus \<times> kernel_state" where
  "run_in_context exec r ks =
     (let (previous_context, ks1) =
            lettuce_context_enter (sd_id (cr_target r)) (sd_domain (cr_target r)) ks;
          (result, ks2) = exec (de_entry (cr_entry r)) ks1
      in (result, lettuce_context_leave previous_context ks2))"

lemmas context_defs = lettuce_context_enter_def lettuce_context_leave_def lettuce_protection_enter_def
  lettuce_protection_leave_def lettuce_protection_current_domain_def current_service_id_def
  kernel_set_current_service_id_def set_current_service_id_def

lemma run_in_context_restores:
  "current_service_id (snd (run_in_context exec r ks)) = current_service_id ks"
  "lettuce_protection_current_domain (snd (run_in_context exec r ks)) = lettuce_protection_current_domain ks"
  by (simp_all add: run_in_context_def context_defs Let_def split: prod.splits)

lemma run_in_context_target:
  "fst (run_in_context exec r ks) =
     fst (exec (de_entry (cr_entry r))
       (ks\<lparr>g_current_service_id := sd_id (cr_target r),
          g_current_domain := (if sd_domain (cr_target r) = 0 then g_current_domain ks
                               else sd_domain (cr_target r))\<rparr>))"
  by (simp add: run_in_context_def context_defs Let_def split: prod.splits)

lemma cap_view_zero: "cap_view st 0 = None"
  by (simp add: cap_view_def decode_handle_def)

definition same_layer_message_validate ::
  "LettuceCallMessage \<Rightarrow> kernel_state \<Rightarrow> LettuceStatus + LettuceCallResolution" where
  "same_layer_message_validate m ks =
     lettuce_same_layer_validate (msg_target_service_id m) (msg_operation_id m) (msg_resource_id m)
       (msg_capability_handle m) True ks"

lemma same_layer_validate_iff:
  "same_layer_message_validate m ks = Inr r \<longleftrightarrow>
     call_authorised LETTUCE_CAP_CALL ks m r \<and> sd_layer (cr_caller r) = sd_layer (cr_target r)"
  using registry.look_zero
  by (auto simp: same_layer_message_validate_def lettuce_same_layer_validate_def call_authorised_def
      check_eq_view cap_view_zero service_active_def Let_def split: option.splits if_splits)

lemma cross_layer_validate_iff:
  assumes "reg_inv (ks_services ks)"
  shows "lettuce_cross_layer_validate (Some m) True ks = Inr r \<longleftrightarrow>
     call_authorised LETTUCE_CAP_CALL ks m r \<and> sd_layer (cr_caller r) \<noteq> sd_layer (cr_target r)"
  using registry.dispatch_entry [OF assms]
  by (auto simp: lettuce_cross_layer_validate_def call_authorised_def check_eq_view
      service_active_def Let_def split: option.splits if_splits)

lemma elevator_policy_iff:
  assumes "reg_inv (ks_services ks)"
  shows "lettuce_elevator_policy (Some m) True ks = Inr r \<longleftrightarrow>
     call_authorised (LETTUCE_CAP_CALL OR LETTUCE_CAP_CRITICAL) ks m r"
  using registry.dispatch_entry [OF assms]
  by (auto simp: lettuce_elevator_policy_def call_authorised_def check_eq_view
      service_active_def split: option.splits if_splits)

section \<open>The contract of a call gate\<close>

locale call_gate =
  fixes decide :: "LettuceCallMessage \<Rightarrow> kernel_state \<Rightarrow> LettuceStatus + LettuceCallResolution"
    and gate :: "target_code \<Rightarrow> LettuceCallMessage \<Rightarrow> kernel_state \<Rightarrow> LettuceStatus \<times> kernel_state"
    and perm :: u32
    and layers :: "u8 \<Rightarrow> u8 \<Rightarrow> bool"
  assumes refuse: "decide m ks = Inl s \<Longrightarrow> s \<noteq> LETTUCE_STATUS_OK \<and> gate exec m ks = (s, ks)"
    and accept: "reg_inv (ks_services ks) \<Longrightarrow> decide m ks = Inr r \<Longrightarrow>
      gate exec m ks = run_in_context exec r ks"
    and authority: "reg_inv (ks_services ks) \<Longrightarrow> decide m ks = Inr r \<longleftrightarrow>
      call_authorised perm ks m r \<and> layers (sd_layer (cr_caller r)) (sd_layer (cr_target r))"
begin

lemma restores_context:
  assumes "reg_inv (ks_services ks)"
  shows "current_service_id (snd (gate exec m ks)) = current_service_id ks"
    "lettuce_protection_current_domain (snd (gate exec m ks)) = lettuce_protection_current_domain ks"
  using refuse [of m ks _ exec] accept [OF assms, of m _ exec] run_in_context_restores [of exec _ ks]
  by (cases "decide m ks"; auto)+

lemma unauthorised_no_effect:
  assumes "reg_inv (ks_services ks)"
    and "\<nexists>r. call_authorised perm ks m r \<and> layers (sd_layer (cr_caller r)) (sd_layer (cr_target r))"
  shows "\<exists>s. s \<noteq> LETTUCE_STATUS_OK \<and> (\<forall>exec. gate exec m ks = (s, ks))"
proof (cases "decide m ks")
  case (Inl s)
  then show ?thesis using refuse by blast
next
  case (Inr r)
  then show ?thesis using authority [OF assms(1)] assms(2) by blast
qed

lemma authorised_runs_target:
  assumes "reg_inv (ks_services ks)"
    and "call_authorised perm ks m r" "layers (sd_layer (cr_caller r)) (sd_layer (cr_target r))"
  shows "gate exec m ks = run_in_context exec r ks"
  using accept [OF assms(1)] authority [OF assms(1)] assms(2,3) by blast

text \<open>Without a live capability for the request there is no call, whatever else holds.\<close>

lemma no_capability_no_call:
  assumes "reg_inv (ks_services ks)" "cap_view (ks_capabilities ks) (msg_capability_handle m) = None"
  shows "\<exists>s. s \<noteq> LETTUCE_STATUS_OK \<and> (\<forall>exec. gate exec m ks = (s, ks))"
  by (rule unauthorised_no_effect [OF assms(1)]) (simp add: call_authorised_def assms(2))

end

definition same_layer_message_gate ::
  "target_code \<Rightarrow> LettuceCallMessage \<Rightarrow> kernel_state \<Rightarrow> LettuceStatus \<times> kernel_state" where
  "same_layer_message_gate exec m ks =
     lettuce_same_layer_call exec (msg_target_service_id m) (msg_operation_id m) (msg_resource_id m)
       (msg_capability_handle m) ks"

interpretation same_layer: call_gate same_layer_message_validate same_layer_message_gate
  LETTUCE_CAP_CALL "(=)"
proof
  show "s \<noteq> LETTUCE_STATUS_OK \<and> same_layer_message_gate exec m ks = (s, ks)"
    if "same_layer_message_validate m ks = Inl s" for m ks s exec
    using that
    by (auto simp: same_layer_message_gate_def lettuce_same_layer_call_def lettuce_same_layer_gate_def
        same_layer_message_validate_def)
      (auto simp: lettuce_same_layer_validate_def Let_def split: option.splits if_splits)
  show "same_layer_message_gate exec m ks = run_in_context exec r ks"
    if "reg_inv (ks_services ks)" "same_layer_message_validate m ks = Inr r" for m ks r exec
    using that registry.dispatch_entry [OF that(1)] same_layer_validate_iff [of m ks r]
    by (auto simp: same_layer_message_gate_def lettuce_same_layer_call_def lettuce_same_layer_gate_def
        same_layer_message_validate_def run_in_context_def call_authorised_def)
qed (simp add: same_layer_validate_iff)

interpretation cross_layer: call_gate "\<lambda>m. lettuce_cross_layer_validate (Some m) True"
  "\<lambda>exec m. lettuce_cross_layer_call exec (Some m)" LETTUCE_CAP_CALL "(\<noteq>)"
proof
  show "s \<noteq> LETTUCE_STATUS_OK \<and> lettuce_cross_layer_call exec (Some m) ks = (s, ks)"
    if "lettuce_cross_layer_validate (Some m) True ks = Inl s" for m ks s exec
    using that
    by (auto simp: lettuce_cross_layer_call_def lettuce_cross_layer_gate_def)
      (auto simp: lettuce_cross_layer_validate_def Let_def split: option.splits if_splits)
  show "lettuce_cross_layer_call exec (Some m) ks = run_in_context exec r ks"
    if "reg_inv (ks_services ks)" "lettuce_cross_layer_validate (Some m) True ks = Inr r" for m ks r exec
    using that by (simp add: lettuce_cross_layer_call_def lettuce_cross_layer_gate_def run_in_context_def)
qed (simp add: cross_layer_validate_iff)

interpretation elevator: call_gate "\<lambda>m. lettuce_elevator_policy (Some m) True"
  "\<lambda>exec m. lettuce_elevator_call exec (Some m)" "LETTUCE_CAP_CALL OR LETTUCE_CAP_CRITICAL"
  "\<lambda>_ _. True"
proof
  show "s \<noteq> LETTUCE_STATUS_OK \<and> lettuce_elevator_call exec (Some m) ks = (s, ks)"
    if "lettuce_elevator_policy (Some m) True ks = Inl s" for m ks s exec
    using that
    by (auto simp: lettuce_elevator_call_def lettuce_elevator_gate_def)
      (auto simp: lettuce_elevator_policy_def split: option.splits if_splits)
  show "lettuce_elevator_call exec (Some m) ks = run_in_context exec r ks"
    if "reg_inv (ks_services ks)" "lettuce_elevator_policy (Some m) True ks = Inr r" for m ks r exec
    using that by (simp add: lettuce_elevator_call_def lettuce_elevator_gate_def run_in_context_def)
qed (simp add: elevator_policy_iff)

section \<open>A concrete configuration\<close>

text \<open>
  The camera (layer 3, domain 100), display (layer 3, domain 200) and sensor (layer 2, domain 300)
  services of \<^verbatim>\<open>kernel/arch/arm64/main.c\<close>, one operation on display and on sensor, and the camera's
  capability to call the display.
\<close>

definition camera_descriptor :: LettuceServiceDescriptor where
  "camera_descriptor = \<lparr>sd_id = 10, sd_layer = 3, sd_domain = 100, sd_flags = 1\<rparr>"
definition display_descriptor :: LettuceServiceDescriptor where
  "display_descriptor = \<lparr>sd_id = 20, sd_layer = 3, sd_domain = 200, sd_flags = 1\<rparr>"
definition sensor_descriptor :: LettuceServiceDescriptor where
  "sensor_descriptor = \<lparr>sd_id = 40, sd_layer = 2, sd_domain = 300, sd_flags = 1\<rparr>"

definition demo_services :: service_table where
  "demo_services = fold reg_step
     [RegRegister camera_descriptor, RegRegister display_descriptor, RegRegister sensor_descriptor,
      RegDispatch 20 1 0x41050000, RegDispatch 40 1 0x41050100] lettuce_service_registry_init"

definition demo_kernel :: kernel_state where
  "demo_kernel = \<lparr>ks_capabilities = first_cap_state, ks_services = demo_services,
     g_current_service_id = 10, g_current_domain = 100\<rparr>"

definition demo_message :: LettuceCallMessage where
  "demo_message = \<lparr>msg_target_service_id = 20, msg_operation_id = 1, msg_resource_id = 1,
     msg_capability_handle = 0x10001\<rparr>"

definition demo_resolution :: LettuceCallResolution where
  "demo_resolution = \<lparr>cr_caller = camera_descriptor, cr_target = display_descriptor,
     cr_entry = \<lparr>de_entry = 0x41050000, de_active = True\<rparr>\<rparr>"

lemma demo_reg_inv: "reg_inv (ks_services demo_kernel)"
  unfolding demo_kernel_def demo_services_def by (simp only: kernel_state.simps reg_inv_run reg_inv_init)

lemma demo_lookups:
  "lettuce_service_registry_lookup demo_services 10 = Some camera_descriptor"
  "lettuce_service_registry_lookup demo_services 20 = Some display_descriptor"
  "lettuce_service_registry_lookup demo_services 40 = Some sensor_descriptor"
  "lettuce_dispatch_lookup demo_services 20 1 = Some \<lparr>de_entry = 0x41050000, de_active = True\<rparr>"
  "lettuce_dispatch_lookup demo_services 40 1 = Some \<lparr>de_entry = 0x41050100, de_active = True\<rparr>"
  by (simp_all add: demo_services_def lettuce_service_registry_init_def
      lettuce_service_registry_register_def lettuce_dispatch_register_def
      lettuce_service_registry_entry_mutable_def zero_descriptor_def Let_def
      lettuce_service_registry_lookup_def lettuce_dispatch_lookup_def lettuce_service_registry_entry_def
      LETTUCE_SERVICE_TABLE_SIZE_def LETTUCE_DISPATCH_OPERATION_LIMIT_def camera_descriptor_def
      display_descriptor_def sensor_descriptor_def zero_operations_def)

lemma first_cap_view:
  "cap_view first_cap_state = [0x10001 \<mapsto> \<lparr>cap_owner = 10, cap_target = 20, cap_operation = 1,
     cap_resource = 1, cap_permissions = LETTUCE_CAP_CALL\<rparr>]"
  using cap_view_create(2) [OF create_first _ cap_inv_init]
  by (simp add: first_cap_state_def cap_view_init)

lemma demo_authorised: "call_authorised LETTUCE_CAP_CALL demo_kernel demo_message demo_resolution"
  by (simp add: call_authorised_def demo_kernel_def demo_message_def demo_resolution_def demo_lookups
      first_cap_view cap_allows_def current_service_id_def service_active_def camera_descriptor_def
      display_descriptor_def)

text \<open>The camera holds a second capability, for a critical call to the sensor.\<close>

definition elevator_caps :: capability_state where
  "elevator_caps = snd (lettuce_capability_create 10 40 1 (LETTUCE_CAP_CALL OR LETTUCE_CAP_CRITICAL) 2
     lettuce_capability_init)"

definition elevator_kernel :: kernel_state where
  "elevator_kernel = demo_kernel\<lparr>ks_capabilities := elevator_caps\<rparr>"

definition elevator_message :: LettuceCallMessage where
  "elevator_message = \<lparr>msg_target_service_id = 40, msg_operation_id = 1, msg_resource_id = 2,
     msg_capability_handle = 0x10001\<rparr>"

definition elevator_resolution :: LettuceCallResolution where
  "elevator_resolution = \<lparr>cr_caller = camera_descriptor, cr_target = sensor_descriptor,
     cr_entry = \<lparr>de_entry = 0x41050100, de_active = True\<rparr>\<rparr>"

lemma elevator_create:
  "lettuce_capability_create 10 40 1 33 2 lettuce_capability_init = (0x10001, elevator_caps)"
  by (simp add: elevator_caps_def lettuce_capability_create_def lettuce_capability_init_def
      capability_entry_init_def LETTUCE_CAPABILITY_TABLE_SIZE_def
      LETTUCE_CAPABILITY_KNOWN_PERMISSIONS_def Let_def make_handle_def handle_pack_def)

lemma elevator_cap_view:
  "cap_view elevator_caps = [0x10001 \<mapsto> \<lparr>cap_owner = 10, cap_target = 40, cap_operation = 1,
     cap_resource = 2, cap_permissions = 33\<rparr>]"
  using cap_view_create(2) [OF elevator_create _ cap_inv_init] by (simp add: cap_view_init)

lemma elevator_demo:
  "reg_inv (ks_services elevator_kernel)"
  "lettuce_elevator_policy (Some elevator_message) True elevator_kernel = Inr elevator_resolution"
proof -
  show inv: "reg_inv (ks_services elevator_kernel)"
    using demo_reg_inv by (simp add: elevator_kernel_def)
  show "lettuce_elevator_policy (Some elevator_message) True elevator_kernel = Inr elevator_resolution"
    unfolding elevator_policy_iff [OF inv]
    by (simp add: call_authorised_def elevator_kernel_def elevator_message_def elevator_resolution_def
        demo_kernel_def demo_lookups elevator_cap_view cap_allows_def current_service_id_def
        service_active_def camera_descriptor_def sensor_descriptor_def)
qed

section \<open>Properties\<close>

text \<open>
  C15: Context restoration. Whatever the target code does, including changing the service identity
  or the domain and making nested calls, each of the three gates returns with the caller's service
  identity and protection domain in force.
\<close>

theorem gates_restore_context:
  assumes "reg_inv (ks_services ks)"
  shows "current_service_id (snd (lettuce_same_layer_call exec t op res cap ks)) = current_service_id ks \<and>
    current_service_id (snd (lettuce_cross_layer_call exec (Some m) ks)) = current_service_id ks \<and>
    current_service_id (snd (lettuce_elevator_call exec (Some m) ks)) = current_service_id ks \<and>
    lettuce_protection_current_domain (snd (lettuce_same_layer_call exec t op res cap ks))
      = lettuce_protection_current_domain ks \<and>
    lettuce_protection_current_domain (snd (lettuce_cross_layer_call exec (Some m) ks))
      = lettuce_protection_current_domain ks \<and>
    lettuce_protection_current_domain (snd (lettuce_elevator_call exec (Some m) ks))
      = lettuce_protection_current_domain ks"
  using same_layer.restores_context [OF assms, of exec "\<lparr>msg_target_service_id = t,
      msg_operation_id = op, msg_resource_id = res, msg_capability_handle = cap\<rparr>"]
    cross_layer.restores_context [OF assms, of exec m] elevator.restores_context [OF assms, of exec m]
  by (simp add: same_layer_message_gate_def)

theorem gates_restore_context_witness:
  "reg_inv (ks_services demo_kernel) \<and>
   current_service_id (snd (lettuce_same_layer_call
      (\<lambda>pc k. (LETTUCE_STATUS_OK, k\<lparr>g_current_service_id := 99, g_current_domain := 300\<rparr>))
      20 1 1 0x10001 demo_kernel)) = 10"
  using demo_reg_inv gates_restore_context [OF demo_reg_inv,
      of "\<lambda>pc k. (LETTUCE_STATUS_OK, k\<lparr>g_current_service_id := 99, g_current_domain := 300\<rparr>)"
         20 1 1 "0x10001" demo_message]
  by (simp add: current_service_id_def demo_kernel_def)

text \<open>
  C13: Complete mediation of Same-Layer calls. Exactly when the current service and the target are
  registered, active and of one layer, the current service holds a live CALL capability for this
  target, operation and resource, and the operation is registered, the gate runs the registered
  entry, with the service identity of the target and in the target's domain, and returns its
  status; otherwise it returns an error and neither runs target code nor changes any state.
\<close>

theorem same_layer_complete_mediation:
  assumes "reg_inv (ks_services ks)"
    and "m = \<lparr>msg_target_service_id = t, msg_operation_id = op, msg_resource_id = res,
              msg_capability_handle = cap\<rparr>"
  shows "if \<exists>r. call_authorised LETTUCE_CAP_CALL ks m r \<and> sd_layer (cr_caller r) = sd_layer (cr_target r)
     then \<exists>r. call_authorised LETTUCE_CAP_CALL ks m r \<and>
       (\<forall>exec. fst (lettuce_same_layer_call exec t op res cap ks) =
          fst (exec (de_entry (cr_entry r))
            (ks\<lparr>g_current_service_id := t,
               g_current_domain := (if sd_domain (cr_target r) = 0 then g_current_domain ks
                                    else sd_domain (cr_target r))\<rparr>)))
     else \<exists>s. s \<noteq> LETTUCE_STATUS_OK \<and> (\<forall>exec. lettuce_same_layer_call exec t op res cap ks = (s, ks))"
proof (cases "\<exists>r. call_authorised LETTUCE_CAP_CALL ks m r \<and> sd_layer (cr_caller r) = sd_layer (cr_target r)")
  case True
  then obtain r where r: "call_authorised LETTUCE_CAP_CALL ks m r"
      "sd_layer (cr_caller r) = sd_layer (cr_target r)" by blast
  have "sd_id (cr_target r) = t"
    using r(1) assms(2) lookup_id by (auto simp: call_authorised_def)
  with same_layer.authorised_runs_target [OF assms(1) r] r True show ?thesis
    using assms(2) run_in_context_target
    by (auto simp: same_layer_message_gate_def intro!: exI [of _ r])
next
  case False
  then have "\<exists>s. s \<noteq> LETTUCE_STATUS_OK \<and> (\<forall>exec. same_layer_message_gate exec m ks = (s, ks))"
    by (rule same_layer.unauthorised_no_effect [OF assms(1)])
  with assms(2) show ?thesis
    unfolding if_not_P [OF False] by (simp add: same_layer_message_gate_def)
qed

theorem same_layer_complete_mediation_witness:
  "reg_inv (ks_services demo_kernel) \<and>
   (\<exists>r. call_authorised LETTUCE_CAP_CALL demo_kernel demo_message r \<and>
      fst (lettuce_same_layer_call (\<lambda>pc k. (if pc = 0x41050000 \<and> g_current_service_id k = 20
             then LETTUCE_STATUS_OK else LETTUCE_STATUS_ERROR, k)) 20 1 1 0x10001 demo_kernel) =
      fst ((\<lambda>pc k. (if pc = 0x41050000 \<and> g_current_service_id k = 20
             then LETTUCE_STATUS_OK else LETTUCE_STATUS_ERROR, k)) (de_entry (cr_entry r))
         (demo_kernel\<lparr>g_current_service_id := 20,
            g_current_domain := (if sd_domain (cr_target r) = 0 then g_current_domain demo_kernel
                                 else sd_domain (cr_target r))\<rparr>)))"
proof -
  have "\<exists>r. call_authorised LETTUCE_CAP_CALL demo_kernel demo_message r \<and>
      sd_layer (cr_caller r) = sd_layer (cr_target r)"
    using demo_authorised by (intro exI [of _ demo_resolution])
      (simp add: demo_resolution_def camera_descriptor_def display_descriptor_def)
  with demo_reg_inv same_layer_complete_mediation [OF demo_reg_inv demo_message_def] show ?thesis
    by (auto simp: demo_message_def)
qed



text \<open>
  The ordinary paths are disjoint and both depend on a live capability. No request is
  accepted by both Same-Layer and Cross-Layer validation, and after the handle has been revoked
  all three gates refuse the request, leave the kernel state alone and never run target code.
\<close>

theorem revoked_capability_blocks_calls:
  assumes inv: "reg_inv (ks_services ks)" and "cap_inv (ks_capabilities ks)"
    and rev: "lettuce_capability_revoke h (ks_capabilities ks) = (True, caps')"
    and "ks' = ks\<lparr>ks_capabilities := caps'\<rparr>"
    and "m = \<lparr>msg_target_service_id = t, msg_operation_id = op, msg_resource_id = res,
              msg_capability_handle = h\<rparr>"
  shows "(\<nexists>r r'. lettuce_same_layer_validate t op res h True ks = Inr r \<and>
            lettuce_cross_layer_validate (Some m) True ks = Inr r') \<and>
    (\<exists>s. s \<noteq> LETTUCE_STATUS_OK \<and> (\<forall>exec. lettuce_same_layer_call exec t op res h ks' = (s, ks'))) \<and>
    (\<exists>s. s \<noteq> LETTUCE_STATUS_OK \<and> (\<forall>exec. lettuce_cross_layer_call exec (Some m) ks' = (s, ks'))) \<and>
    (\<exists>s. s \<noteq> LETTUCE_STATUS_OK \<and> (\<forall>exec. lettuce_elevator_call exec (Some m) ks' = (s, ks')))"
proof (intro conjI)
  have inv': "reg_inv (ks_services ks')" using inv assms(4) by simp
  have none: "cap_view (ks_capabilities ks') (msg_capability_handle m) = None"
    using cap_store.revoke_view [OF assms(2) rev] assms(4,5) by simp
  show "\<exists>s. s \<noteq> LETTUCE_STATUS_OK \<and> (\<forall>exec. lettuce_same_layer_call exec t op res h ks' = (s, ks'))"
    using same_layer.no_capability_no_call [OF inv' none] assms(5)
    by (simp add: same_layer_message_gate_def)
  show "\<exists>s. s \<noteq> LETTUCE_STATUS_OK \<and> (\<forall>exec. lettuce_cross_layer_call exec (Some m) ks' = (s, ks'))"
    by (rule cross_layer.no_capability_no_call [OF inv' none])
  show "\<exists>s. s \<noteq> LETTUCE_STATUS_OK \<and> (\<forall>exec. lettuce_elevator_call exec (Some m) ks' = (s, ks'))"
    by (rule elevator.no_capability_no_call [OF inv' none])
  show "\<nexists>r r'. lettuce_same_layer_validate t op res h True ks = Inr r \<and>
            lettuce_cross_layer_validate (Some m) True ks = Inr r'"
    using same_layer_validate_iff [of m ks] cross_layer_validate_iff [OF inv, of m] assms(5)
    by (auto simp: same_layer_message_validate_def call_authorised_def)
qed

theorem revoked_capability_blocks_calls_witness:
  "\<exists>s. s \<noteq> LETTUCE_STATUS_OK \<and> (\<forall>exec. lettuce_same_layer_call exec 20 1 1 0x10001
     (demo_kernel\<lparr>ks_capabilities := snd (lettuce_capability_revoke 0x10001 first_cap_state)\<rparr>)
     = (s, demo_kernel\<lparr>ks_capabilities := snd (lettuce_capability_revoke 0x10001 first_cap_state)\<rparr>))"
proof -
  have "cap_inv (ks_capabilities demo_kernel)" using cap_inv_first by (simp add: demo_kernel_def)
  moreover have "lettuce_capability_revoke 0x10001 (ks_capabilities demo_kernel) =
      (True, snd (lettuce_capability_revoke 0x10001 first_cap_state))"
    using revoke_first by (simp add: demo_kernel_def)
  ultimately show ?thesis
    using revoked_capability_blocks_calls [OF demo_reg_inv _ _ refl demo_message_def] by blast
qed

end
