(* ===== verification/Devices.thy ===== *)
theory Devices
  imports Prelude
begin

text \<open>
  The platform devices: the console printing routines of \<^verbatim>\<open>kernel/arch/arm64/cpu.c\<close>, the interrupt
  controller of \<^verbatim>\<open>gic.c\<close>, the timer of \<^verbatim>\<open>timer.c\<close> and the feature probes of \<^verbatim>\<open>poe.c\<close> and \<^verbatim>\<open>mte.c\<close>. The
  console is the text sent so far (the wait for the UART's transmit queue is left out); the interrupt
  controller is the sequence of writes to its registers, newest first, with the meaning of the
  set-enable and clear-enable registers as the architecture gives it; identification registers and
  the counter frequency are arguments.
\<close>

section \<open>Console\<close>

definition lettuce_arch_console_putc :: "char \<Rightarrow> string \<Rightarrow> string" where
  "lettuce_arch_console_putc character out = out @ [character]"

fun puts_loop :: "string \<Rightarrow> string \<Rightarrow> string" where
  "puts_loop [] out = out"
| "puts_loop (c # text) out =
     puts_loop text (lettuce_arch_console_putc c
       (if c = CHR 0x0A then lettuce_arch_console_putc (CHR 0x0D) out else out))"

definition lettuce_arch_console_puts :: "string option \<Rightarrow> string \<Rightarrow> string" where
  "lettuce_arch_console_puts text out = (case text of None \<Rightarrow> out | Some s \<Rightarrow> puts_loop s out)"

definition lettuce_arch_console_print_hex :: "u64 \<Rightarrow> string \<Rightarrow> string" where
  "lettuce_arch_console_print_hex v out =
     fold (\<lambda>shift o1. lettuce_arch_console_putc (''0123456789abcdef'' ! unat (drop_bit shift v AND 0xf)) o1)
       [60, 56, 52, 48, 44, 40, 36, 32, 28, 24, 20, 16, 12, 8, 4, 0]
       (lettuce_arch_console_puts (Some ''0x'') out)"

text \<open>The digit buffer of \<^verbatim>\<open>print_dec\<close>, in the order the first loop fills it.\<close>

function dec_buffer :: "u64 \<Rightarrow> string" where
  "dec_buffer v = (if v > 0 then char_of (48 + unat (v mod 10)) # dec_buffer (v div 10) else [])"
  by auto
termination
proof (relation "measure unat", simp)
  fix v :: u64
  assume "v > 0"
  then have "0 < unat v" by (simp add: word_less_nat_alt)
  then show "(v div 10, v) \<in> measure unat" by (simp add: unat_div_distrib)
qed

definition lettuce_arch_console_print_dec :: "u64 \<Rightarrow> string \<Rightarrow> string" where
  "lettuce_arch_console_print_dec v out =
     (if v = 0 then lettuce_arch_console_putc (CHR 0x30) out
      else fold lettuce_arch_console_putc (rev (dec_buffer v)) out)"

section \<open>Interrupt controller\<close>

abbreviation GICD_BASE :: u64 where "GICD_BASE \<equiv> 0x08000000"
abbreviation GICC_BASE :: u64 where "GICC_BASE \<equiv> 0x08010000"
abbreviation GICD_CTLR :: u32 where "GICD_CTLR \<equiv> 0"
abbreviation GICD_ISENABLER :: u32 where "GICD_ISENABLER \<equiv> 0x100"
abbreviation GICD_ICENABLER :: u32 where "GICD_ICENABLER \<equiv> 0x180"
abbreviation GICD_IPRIORITYR :: u32 where "GICD_IPRIORITYR \<equiv> 0x400"
abbreviation GICC_CTLR :: u32 where "GICC_CTLR \<equiv> 0"
abbreviation GICC_PMR :: u32 where "GICC_PMR \<equiv> 4"
abbreviation GIC_INTID_VTIMER :: u32 where "GIC_INTID_VTIMER \<equiv> 27"
abbreviation GIC_SPURIOUS_INTID :: u32 where "GIC_SPURIOUS_INTID \<equiv> 1023"

datatype gic_write = GicD u32 u32 | GicC u32 u32 | GicPrio u32 u8 | GicEoi u32

type_synonym gic_log = "gic_write list"

definition lettuce_gic_init :: "gic_log \<Rightarrow> gic_log" where
  "lettuce_gic_init log =
     GicD GICD_CTLR 1 # GicC GICC_CTLR 1 # GicC GICC_PMR 0xff # GicD (GICD_ICENABLER + 4) 0xffffffff #
     GicD (GICD_ICENABLER + 0) 0xffffffff # GicD GICD_CTLR 0 # log"

definition lettuce_gic_enable_interrupt :: "u32 \<Rightarrow> gic_log \<Rightarrow> gic_log" where
  "lettuce_gic_enable_interrupt intid log =
     (let reg_idx = intid div 32; bit_idx = intid mod 32
      in GicD (GICD_ISENABLER + reg_idx * 4) (push_bit (unat bit_idx) 1) # log)"

definition lettuce_gic_disable_interrupt :: "u32 \<Rightarrow> gic_log \<Rightarrow> gic_log" where
  "lettuce_gic_disable_interrupt intid log =
     (let reg_idx = intid div 32; bit_idx = intid mod 32
      in GicD (GICD_ICENABLER + reg_idx * 4) (push_bit (unat bit_idx) 1) # log)"

definition lettuce_gic_set_priority :: "u32 \<Rightarrow> u8 \<Rightarrow> gic_log \<Rightarrow> gic_log" where
  "lettuce_gic_set_priority intid priority log = GicPrio (GICD_IPRIORITYR + intid) priority # log"

text \<open>The value read from the acknowledge register is an argument.\<close>

definition lettuce_gic_acknowledge :: "u32 \<Rightarrow> u32" where
  "lettuce_gic_acknowledge iar = iar AND 0x3ff"

definition lettuce_gic_end_of_interrupt :: "u32 \<Rightarrow> gic_log \<Rightarrow> gic_log" where
  "lettuce_gic_end_of_interrupt intid log = GicEoi (intid AND 0x3ff) # log"

text \<open>
  The architecture's reading of the log: interrupt \<^verbatim>\<open>n\<close> is enabled by a one written to its bit of a
  set-enable register and disabled by a one in a clear-enable register.
\<close>

fun gic_enabled :: "gic_log \<Rightarrow> nat \<Rightarrow> bool" where
  "gic_enabled [] n = False"
| "gic_enabled (GicD off v # log) n =
     (if off = GICD_ISENABLER + of_nat (n div 32) * 4 \<and> bit v (n mod 32) then True
      else if off = GICD_ICENABLER + of_nat (n div 32) * 4 \<and> bit v (n mod 32) then False
      else gic_enabled log n)"
| "gic_enabled (w # log) n = gic_enabled log n"

section \<open>Timer\<close>

record timer_state =
  g_timer_ticks :: u64
  g_timer_interval :: u64
  g_timer_enabled :: bool
  cntv_tval :: u64
  cntv_ctl :: u64

definition lettuce_timer_init :: "u64 \<Rightarrow> u32 \<Rightarrow> timer_state \<Rightarrow> timer_state" where
  "lettuce_timer_init freq hz st =
     (let hz' = (if hz = 0 then 100 else hz);
          interval = freq div ucast hz'
      in st\<lparr>g_timer_interval := interval, g_timer_ticks := 0, g_timer_enabled := True,
            cntv_tval := interval, cntv_ctl := 1\<rparr>)"

definition lettuce_timer_rearm :: "timer_state \<Rightarrow> timer_state" where
  "lettuce_timer_rearm st =
     (if g_timer_enabled st \<and> g_timer_interval st > 0
      then st\<lparr>cntv_tval := g_timer_interval st, cntv_ctl := 1\<rparr> else st)"

definition lettuce_timer_disable :: "timer_state \<Rightarrow> timer_state" where
  "lettuce_timer_disable st = st\<lparr>g_timer_enabled := False, cntv_ctl := 0\<rparr>"

definition lettuce_timer_get_ticks :: "timer_state \<Rightarrow> u64" where
  "lettuce_timer_get_ticks st = g_timer_ticks st"

definition lettuce_timer_irq_handler :: "timer_state \<Rightarrow> timer_state" where
  "lettuce_timer_irq_handler st = lettuce_timer_rearm (st\<lparr>g_timer_ticks := g_timer_ticks st + 1\<rparr>)"

section \<open>Feature probes\<close>

definition lettuce_arch_has_poe :: "u64 \<Rightarrow> bool" where
  "lettuce_arch_has_poe id_aa64mmfr3 \<longleftrightarrow> (ucast (drop_bit 36 id_aa64mmfr3 AND 0xf) :: u32) \<ge> 1"

definition lettuce_arch_has_pac :: "u64 \<Rightarrow> bool" where
  "lettuce_arch_has_pac id_aa64isar1 \<longleftrightarrow>
     (ucast (drop_bit 4 id_aa64isar1 AND 0xf) :: u32) \<ge> 1 \<or> (ucast (drop_bit 8 id_aa64isar1 AND 0xf) :: u32) \<ge> 1"

definition lettuce_arch_has_mte :: "u64 \<Rightarrow> bool" where
  "lettuce_arch_has_mte id_aa64pfr1 \<longleftrightarrow> (ucast (drop_bit 8 id_aa64pfr1 AND 0xf) :: u32) \<ge> 1"

definition lettuce_arch_features_probe_and_print :: "u64 \<Rightarrow> u64 \<Rightarrow> u64 \<Rightarrow> string \<Rightarrow> string" where
  "lettuce_arch_features_probe_and_print id_aa64isar1 id_aa64pfr1 id_aa64mmfr3 out =
     (let put = (\<lambda>text. lettuce_arch_console_puts (Some text));
          o1 = put ''  PAC: '' (put ''Architecture Feature Status:\<newline>'' out);
          o2 = (if lettuce_arch_has_pac id_aa64isar1 then put ''YES (active continuation signing)\<newline>'' o1 else put ''NO\<newline>'' o1);
          o3 = put ''  MTE: '' o2;
          o4 = (if lettuce_arch_has_mte id_aa64pfr1
                then put ''YES (instructions present; unbacked tag RAM in default virt; optional)\<newline>'' o3
                else put ''NO (operating normally without MTE)\<newline>'' o3);
          o5 = put ''  POE: '' o4
      in if lettuce_arch_has_poe id_aa64mmfr3 then put ''YES\<newline>'' o5
         else put ''NO (fallback to optimized MMU/ASID backend)\<newline>'' o5)"

text \<open>\<^verbatim>\<open>CurrentEL\<close> holds the exception level in bits 2 and 3.\<close>

definition lettuce_arch_current_el :: "u64 \<Rightarrow> u64" where
  "lettuce_arch_current_el current_el_reg = drop_bit 2 current_el_reg AND 3"

section \<open>Numbers on the console\<close>

definition digit_value :: "char \<Rightarrow> nat" where
  "digit_value c = (if 97 \<le> (of_char c :: nat) then of_char c - 87 else of_char c - 48)"

fun number_value :: "nat \<Rightarrow> string \<Rightarrow> nat" where
  "number_value base [] = 0"
| "number_value base (c # cs) = digit_value c * base ^ length cs + number_value base cs"

lemma number_value_snoc: "number_value b (cs @ [c]) = number_value b cs * b + digit_value c"
  by (induction cs) (simp_all add: algebra_simps)

declare dec_buffer.simps [simp del]

lemma dec_buffer_eq:
  "dec_buffer v = (if unat v = 0 then [] else char_of (48 + unat v mod 10) # dec_buffer (v div 10))"
  by (subst dec_buffer.simps) (simp add: word_less_nat_alt unat_mod_distrib)

lemma digit_value_dec: "n < 10 \<Longrightarrow> digit_value (char_of (48 + n)) = n"
  by (simp add: digit_value_def of_char_of)

lemma dec_buffer_value: "number_value 10 (rev (dec_buffer v)) = unat v"
proof (induction v rule: dec_buffer.induct)
  case (1 v)
  show ?case
  proof (cases "unat v = 0")
    case True
    then show ?thesis by (simp add: dec_buffer_eq)
  next
    case False
    then have "number_value 10 (rev (dec_buffer (v div 10))) = unat (v div 10)"
      using 1 by (simp add: word_less_nat_alt)
    then show ?thesis
      using False dec_buffer_eq [of v] by (simp add: number_value_snoc digit_value_dec unat_div_distrib)
  qed
qed

lemma dec_buffer_length: "unat v < 10 ^ n \<Longrightarrow> length (dec_buffer v) \<le> n"
proof (induction n arbitrary: v)
  case 0
  then show ?case by (simp add: dec_buffer_eq)
next
  case (Suc n)
  have "unat (v div 10) < 10 ^ n" using Suc.prems by (simp add: unat_div_distrib less_mult_imp_div_less)
  then show ?case using Suc.IH [of "v div 10"] dec_buffer_eq [of v] by simp
qed

lemma dec_buffer_digits: "c \<in> set (dec_buffer v) \<Longrightarrow> 48 \<le> (of_char c :: nat) \<and> (of_char c :: nat) \<le> 57"
proof (induction v rule: dec_buffer.induct)
  case (1 v)
  then show ?case using dec_buffer_eq [of v]
    by (cases "unat v = 0") (auto simp: word_less_nat_alt of_char_of)
qed

lemma dec_buffer_nonempty: "v \<noteq> 0 \<Longrightarrow> dec_buffer v \<noteq> [] \<and> last (dec_buffer v) \<noteq> CHR 0x30"
proof (induction v rule: dec_buffer.induct)
  case (1 v)
  then have nz: "unat v \<noteq> 0" by (simp add: unat_eq_zero)
  show ?case
  proof (cases "v div 10 = 0")
    case True
    then have "unat v div 10 = 0" using unat_div_distrib [of v 10] by simp
    then have "dec_buffer v = [char_of (48 + unat v)]"
      using nz True dec_buffer_eq [of v] dec_buffer_eq [of 0] by simp
    moreover have "char_of (48 + unat v) \<noteq> CHR 0x30"
    proof
      assume zero: "char_of (48 + unat v) = CHR 0x30"
      have "digit_value (char_of (48 + unat v)) = unat v"
        using \<open>unat v div 10 = 0\<close> by (intro digit_value_dec) simp
      then show False using nz by (simp only: zero) (simp add: digit_value_def)
    qed
    ultimately show ?thesis by simp
  next
    case False
    then show ?thesis using "1.IH" nz dec_buffer_eq [of v] by (simp add: word_less_nat_alt)
  qed
qed

lemma fold_putc: "fold lettuce_arch_console_putc cs out = out @ cs"
  by (induction cs arbitrary: out) (simp_all add: lettuce_arch_console_putc_def)

text \<open>
  \<^verbatim>\<open>lettuce_arch_console_print_dec\<close> prints the value: what it sends is its decimal numeral, between
  one and twenty digits (so the 24-byte buffer is never overrun), with no leading zero unless it is
  the single digit zero.
\<close>

theorem console_print_dec_correct:
  "\<exists>digits. lettuce_arch_console_print_dec v out = out @ digits \<and> number_value 10 digits = unat v \<and>
     1 \<le> length digits \<and> length digits \<le> 20 \<and>
     (\<forall>c. \<not> (c \<in> set digits \<and> (of_char c < (48 :: nat) \<or> (57 :: nat) < of_char c))) \<and>
     (hd digits = CHR 0x30 \<longleftrightarrow> v = 0)"
proof (cases "v = 0")
  case True
  then show ?thesis
    by (intro exI [of _ "[CHR 0x30]"])
      (simp add: lettuce_arch_console_print_dec_def lettuce_arch_console_putc_def digit_value_def)
next
  case False
  have "unat v < 10 ^ 20" using unsigned_less [of v, where ?'a = nat] by simp
  then show ?thesis using False dec_buffer_value [of v] dec_buffer_length [of v 20] dec_buffer_digits [of _ v]
      dec_buffer_nonempty [of v]
    by (intro exI [of _ "rev (dec_buffer v)"])
      (fastforce simp: lettuce_arch_console_print_dec_def fold_putc hd_rev Suc_le_eq)
qed

text \<open>The hexadecimal printer emits one digit per four bits, most significant first.\<close>

lemma hex_digit_value: "n < 16 \<Longrightarrow> digit_value (''0123456789abcdef'' ! n) = n"
proof -
  assume "n < 16"
  then have "n \<in> {0, 1, 2, 3, 4, 5, 6, 7, 8, 9, 10, 11, 12, 13, 14, 15}"
    by (simp add: numeral_eq_Suc less_Suc_eq)
  then show ?thesis by (elim insertE) (simp_all add: digit_value_def)
qed

lemma hex_digits_value:
  fixes v :: u64
  shows "number_value 16 (map (\<lambda>i. ''0123456789abcdef'' ! unat (drop_bit (4 * i) v AND 0xf)) (rev [0..<n])) =
    unat v mod 16 ^ n"
proof (induction n)
  case 0
  then show ?case by simp
next
  case (Suc n)
  let ?d = "unat (drop_bit (4 * n) v AND 0xf)"
  have "drop_bit (4 * n) v AND 0xf = take_bit 4 (drop_bit (4 * n) v)"
    by (simp add: take_bit_eq_mask mask_eq_exp_minus_1)
  then have "?d = take_bit 4 (drop_bit (4 * n) (unat v))"
    by (simp add: unsigned_take_bit_eq unsigned_drop_bit_eq take_bit_nat_eq_self unsigned_less [of v, where ?'a = nat, simplified])
  then have d: "?d = unat v div 16 ^ n mod 16"
    by (simp add: take_bit_eq_mod drop_bit_eq_div power_mult)
  then have "number_value 16 (map (\<lambda>i. ''0123456789abcdef'' ! unat (drop_bit (4 * i) v AND 0xf)) (rev [0..<Suc n])) =
      (unat v div 16 ^ n mod 16) * 16 ^ n + unat v mod 16 ^ n"
    using Suc hex_digit_value [of ?d] by simp
  also have "\<dots> = unat v mod 16 ^ Suc n" using mod_mult2_eq [of "unat v" "16 ^ n" 16] by (simp add: mult.commute)
  finally show ?case .
qed

lemma fold_putc_map: "fold (\<lambda>i. lettuce_arch_console_putc (f i)) is out = out @ map f is"
  by (induction "is" arbitrary: out) (simp_all add: lettuce_arch_console_putc_def)

text \<open>
  \<^verbatim>\<open>lettuce_arch_console_print_hex\<close> prints \<^verbatim>\<open>0x\<close> followed by exactly sixteen digits whose hexadecimal
  value is the argument.
\<close>

lemma console_print_hex_correct:
  "\<exists>digits. lettuce_arch_console_print_hex v out = out @ ''0x'' @ digits \<and> length digits = 16 \<and>
     number_value 16 digits = unat v"
proof -
  let ?digit = "\<lambda>i. ''0123456789abcdef'' ! unat (drop_bit i v AND 0xf)"
  let ?digits = "map (\<lambda>i. ?digit (4 * i)) (rev [0..<16])"
  have shifts: "[60, 56, 52, 48, 44, 40, 36, 32, 28, 24, 20, 16, 12, 8, 4, 0 :: nat] = map ((*) 4) (rev [0..<16])"
    by (simp add: upt_rec)
  have "lettuce_arch_console_print_hex v out = (out @ ''0x'') @ map ?digit (map ((*) 4) (rev [0..<16]))"
    unfolding lettuce_arch_console_print_hex_def shifts fold_putc_map
    by (simp add: lettuce_arch_console_puts_def lettuce_arch_console_putc_def)
  moreover have "map ?digit (map ((*) 4) (rev [0..<16])) = ?digits" by (simp add: comp_def)
  moreover have "number_value 16 ?digits = unat v"
    using hex_digits_value [of v 16] unsigned_less [of v, where ?'a = nat] by simp
  ultimately show ?thesis by (intro exI [of _ ?digits]) simp
qed

section \<open>Interrupt enables\<close>

lemma gic_offset_eq:
  assumes "unat intid < 1024" "n < 1024"
  shows "(base + intid div 32 * 4 = base + of_nat (n div 32) * 4) \<longleftrightarrow> unat intid div 32 = n div 32"
    and "(GICD_ISENABLER + intid div 32 * 4 = GICD_ICENABLER + of_nat (n div 32) * 4) = False"
    and "(GICD_ICENABLER + intid div 32 * 4 = GICD_ISENABLER + of_nat (n div 32) * 4) = False"
proof -
  have i: "unat (intid div 32) = unat intid div 32" by (simp add: unat_div_distrib)
  have lt: "unat intid div 32 < 32" "n div 32 < 32" using assms by (simp_all add: less_mult_imp_div_less)
  have u4: "unat (intid div 32 * 4) = unat intid div 32 * 4" using lt i by (simp add: unat_word_ariths)
  have n4: "unat (of_nat (n div 32) * 4 :: u32) = n div 32 * 4" using lt by (simp add: unat_word_ariths unat_of_nat)
  show "(base + intid div 32 * 4 = base + of_nat (n div 32) * 4) \<longleftrightarrow> unat intid div 32 = n div 32"
    using u4 n4 by (metis add_left_cancel mult_right_cancel of_nat_unat zero_neq_numeral i word_unat_eq_iff)
  show "(GICD_ISENABLER + intid div 32 * 4 = GICD_ICENABLER + of_nat (n div 32) * 4) = False"
    using u4 n4 lt by (simp add: word_unat_eq_iff unat_word_ariths)
  show "(GICD_ICENABLER + intid div 32 * 4 = GICD_ISENABLER + of_nat (n div 32) * 4) = False"
    using u4 n4 lt by (simp add: word_unat_eq_iff unat_word_ariths)
qed

lemma gic_bit_eq: "bit (push_bit (unat (intid mod 32)) 1 :: u32) (n mod 32) \<longleftrightarrow> unat (intid :: u32) mod 32 = n mod 32"
proof -
  have "unat (intid mod 32) = unat intid mod 32" by (simp add: unat_mod_distrib)
  then show ?thesis by (auto simp: bit_simps)
qed

lemma gic_same_interrupt: "(unat intid div 32 = n div 32 \<and> unat intid mod 32 = n mod 32) \<longleftrightarrow> n = unat intid"
  by (metis div_mult_mod_eq)

text \<open>
  Interrupt control is exact. For architectural interrupt numbers (below 1024), enabling turns on that
  interrupt and no other, disabling turns off that one and no other, and \<^verbatim>\<open>lettuce_gic_init\<close> leaves
  the first 64 disabled and every other as it was.
\<close>

theorem gic_interrupt_control:
  assumes "unat intid < 1024" and "n < 1024"
  shows "(gic_enabled (lettuce_gic_enable_interrupt intid log) n \<longleftrightarrow> n = unat intid \<or> gic_enabled log n) \<and>
    (gic_enabled (lettuce_gic_disable_interrupt intid log) n \<longleftrightarrow> n \<noteq> unat intid \<and> gic_enabled log n) \<and>
    (gic_enabled (lettuce_gic_init log) n \<longleftrightarrow> 64 \<le> n \<and> gic_enabled log n)"
proof (intro conjI)
  show "gic_enabled (lettuce_gic_enable_interrupt intid log) n \<longleftrightarrow> n = unat intid \<or> gic_enabled log n"
    using gic_same_interrupt [of intid n]
    unfolding lettuce_gic_enable_interrupt_def Let_def gic_enabled.simps gic_offset_eq [OF assms] gic_bit_eq by auto
  show "gic_enabled (lettuce_gic_disable_interrupt intid log) n \<longleftrightarrow> n \<noteq> unat intid \<and> gic_enabled log n"
    using gic_same_interrupt [of intid n]
    unfolding lettuce_gic_disable_interrupt_def Let_def gic_enabled.simps gic_offset_eq [OF assms] gic_bit_eq by auto
  have lt: "n div 32 < 32" using assms by (simp add: less_mult_imp_div_less)
  have n4: "unat (of_nat (n div 32) * 4 :: u32) = n div 32 * 4" using lt by (simp add: unat_word_ariths unat_of_nat)
  have "(0xffffffff :: u32) = mask 32" by (simp add: mask_eq_exp_minus_1)
  then have ones: "bit (0xffffffff :: u32) (n mod 32)" by (simp only: bit_mask_iff) simp
  show "gic_enabled (lettuce_gic_init log) n \<longleftrightarrow> 64 \<le> n \<and> gic_enabled log n"
    using n4 lt ones by (auto simp: lettuce_gic_init_def word_unat_eq_iff unat_word_ariths)
qed

theorem gic_interrupt_control_witness:
  "gic_enabled (lettuce_gic_enable_interrupt GIC_INTID_VTIMER []) 27 \<and>
   \<not> gic_enabled (lettuce_gic_enable_interrupt GIC_INTID_VTIMER []) 28"
  using gic_interrupt_control [of GIC_INTID_VTIMER 27 "[]"] gic_interrupt_control [of GIC_INTID_VTIMER 28 "[]"] by simp

section \<open>Timer ticks\<close>

text \<open>
  After initialisation every timer interrupt advances the tick count by one and leaves the countdown
  programmed with the same interval and unmasked.
\<close>

lemma timer_irq_iterate:
  "let st' = (lettuce_timer_irq_handler ^^ n) (lettuce_timer_init freq hz st);
       interval = freq div ucast (if hz = 0 then 100 else hz)
   in lettuce_timer_get_ticks st' = of_nat n \<and> g_timer_enabled st' \<and> g_timer_interval st' = interval \<and>
      cntv_tval st' = interval \<and> cntv_ctl st' = 1"
  by (induction n)
    (auto simp: lettuce_timer_init_def lettuce_timer_irq_handler_def lettuce_timer_rearm_def
      lettuce_timer_get_ticks_def Let_def)

lemma timer_disable_stops:
  "lettuce_timer_rearm (lettuce_timer_disable st) = lettuce_timer_disable st"
  by (simp add: lettuce_timer_rearm_def lettuce_timer_disable_def)

end
