(* ===== verification/Scheduler.thy ===== *)
theory Scheduler
  imports Eevdf Mmu Ipc Devices
begin

text \<open>
  The scheduler mechanism of \<^verbatim>\<open>kernel/scheduler/scheduler.c\<close> as compiled for ARM64: waking sleeping
  tasks, accounting, saving and loading the interrupted context, and handing over the protection
  domain and the service identity. The policy is called through the interface of \<^verbatim>\<open>policy.h\<close>; what
  is proved here about the mechanism is proved once for every policy that meets the contract
  \<^verbatim>\<open>sched_policy\<close> and holds for round robin and for EEVDF by their interpretations.
\<close>

section \<open>State\<close>

record LettuceTrapFrame =
  tf_x :: "u64 list"
  tf_lr :: u64
  tf_elr :: u64
  tf_spsr :: u64
  tf_sp_el0 :: u64

datatype LettuceSchedPolicyType = LETTUCE_SCHED_POLICY_RR | LETTUCE_SCHED_POLICY_EEVDF

text \<open>
  The kernel's static variables that the scheduler reads or writes, its own and those of the other
  components. The operation pointers of a policy are never NULL in the two policies there are.
\<close>

record machine =
  mc_kernel :: kernel_state
  mc_mmu :: mmu_state
  mc_timer :: timer_state
  mc_gic :: gic_log
  mc_policy :: policy_state
  g_scheduler_active :: bool
  g_switch_count :: u64
  g_preempt_count :: u64
  g_same_domain_switches :: u64
  g_cross_domain_switches :: u64
  g_preempt_limit :: u64
  g_current_policy_type :: LettuceSchedPolicyType
  g_policy_ops :: LettuceSchedPolicyOps

text \<open>
  A trap either continues with the (changed) frame or abandons it: \<^verbatim>\<open>lettuce_el0_resume_kernel\<close> does
  not return, it resumes the kernel code that entered EL0 with a status.
\<close>

datatype trap_flow = Continue "LettuceTrapFrame option" | ResumeKernel u64

section \<open>Control\<close>

definition lettuce_scheduler_init :: "machine \<Rightarrow> machine" where
  "lettuce_scheduler_init m =
     (let m1 = m\<lparr>mc_policy := (mc_policy m)\<lparr>ps_tasks := lettuce_task_init_subsystem\<rparr>,
                 g_scheduler_active := False, g_switch_count := 0, g_preempt_count := 0,
                 g_same_domain_switches := 0, g_cross_domain_switches := 0, g_preempt_limit := 0\<rparr>
      in m1\<lparr>mc_policy := po_init (g_policy_ops m1) (mc_policy m1)\<rparr>)"

definition lettuce_scheduler_start :: "machine \<Rightarrow> machine" where
  "lettuce_scheduler_start m = m\<lparr>g_scheduler_active := True\<rparr>"

definition lettuce_scheduler_stop :: "machine \<Rightarrow> machine" where
  "lettuce_scheduler_stop m = m\<lparr>g_scheduler_active := False\<rparr>"

definition lettuce_scheduler_set_policy :: "LettuceSchedPolicyType \<Rightarrow> machine \<Rightarrow> machine" where
  "lettuce_scheduler_set_policy policy m =
     (let m1 = m\<lparr>g_current_policy_type := policy,
                 g_policy_ops := (if policy = LETTUCE_SCHED_POLICY_EEVDF then g_lettuce_sched_eevdf_ops
                                  else g_lettuce_sched_rr_ops)\<rparr>
      in m1\<lparr>mc_policy := po_init (g_policy_ops m1) (mc_policy m1)\<rparr>)"

definition lettuce_scheduler_get_policy :: "machine \<Rightarrow> LettuceSchedPolicyType" where
  "lettuce_scheduler_get_policy m = g_current_policy_type m"

definition lettuce_scheduler_get_policy_name :: "machine \<Rightarrow> string" where
  "lettuce_scheduler_get_policy_name m = po_name (g_policy_ops m)"

definition lettuce_scheduler_set_preempt_limit :: "u64 \<Rightarrow> machine \<Rightarrow> machine" where
  "lettuce_scheduler_set_preempt_limit max_preempts m = m\<lparr>g_preempt_limit := max_preempts\<rparr>"

definition lettuce_scheduler_is_active :: "machine \<Rightarrow> bool" where
  "lettuce_scheduler_is_active m = g_scheduler_active m"

section \<open>One scheduling decision\<close>

text \<open>Step 1, for one slot: wake a sleeping task whose deadline has passed.\<close>

definition wake_slot :: "LettuceSchedPolicyOps \<Rightarrow> u64 \<Rightarrow> nat \<Rightarrow> policy_state \<Rightarrow> policy_state" where
  "wake_slot ops now slot s =
     (case probe_slot (ps_tasks s) slot of
        None \<Rightarrow> s
      | Some t \<Rightarrow>
          if t_state (ptask s t) = LETTUCE_TASK_STATE_SLEEPING \<and> now \<ge> t_sleep_deadline_ticks (ptask s t)
          then po_on_task_wake ops (Some t) (upd_ptask t (\<lambda>x. x\<lparr>t_state := LETTUCE_TASK_STATE_READY\<rparr>) s)
          else s)"

definition wake_sleepers :: "LettuceSchedPolicyOps \<Rightarrow> u64 \<Rightarrow> policy_state \<Rightarrow> policy_state" where
  "wake_sleepers ops now s = fold (wake_slot ops now) [0..<LETTUCE_MAX_TASKS] s"

text \<open>Saving the interrupted context into a task, and loading a task's context into the frame.\<close>

definition frame_context :: "LettuceTrapFrame \<Rightarrow> LettuceTaskContext" where
  "frame_context tf = \<lparr>cx_x = take 30 (tf_x tf) @ [tf_lr tf], cx_sp_el0 = tf_sp_el0 tf,
     cx_elr_el1 = tf_elr tf, cx_spsr_el1 = tf_spsr tf\<rparr>"

definition context_frame :: "LettuceTaskContext \<Rightarrow> LettuceTrapFrame" where
  "context_frame cx = \<lparr>tf_x = take 30 (cx_x cx), tf_lr = cx_x cx ! 30, tf_elr = cx_elr_el1 cx,
     tf_spsr = cx_spsr_el1 cx, tf_sp_el0 = cx_sp_el0 cx\<rparr>"

text \<open>
  Step 2: account the tick to the running task. The result says whether the task goes on (its slice
  is not used up and this is a timer tick); otherwise its context has been saved and it is ready.
\<close>

definition account_current ::
  "LettuceSchedPolicyOps \<Rightarrow> task_ptr \<Rightarrow> LettuceTrapFrame \<Rightarrow> bool \<Rightarrow> policy_state \<Rightarrow> bool \<times> policy_state" where
  "account_current ops cur tf is_preemption s =
     (case cur of None \<Rightarrow> (False, s)
      | Some c \<Rightarrow>
          if t_state (ptask s c) = LETTUCE_TASK_STATE_RUNNING
          then let s1 = po_on_tick ops cur 1 s in
               if t_time_slice_ticks (ptask s1 c) > 0 \<and> is_preemption then (True, s1)
               else (False, po_on_task_ready ops cur
                      (upd_ptask c (\<lambda>t. t\<lparr>t_context := frame_context tf, t_state := LETTUCE_TASK_STATE_READY\<rparr>) s1))
          else (False, s))"

text \<open>The two ways of staying on the current task after asking the policy.\<close>

definition renew_quantum :: "nat \<Rightarrow> policy_state \<Rightarrow> policy_state" where
  "renew_quantum c s =
     upd_ptask c (\<lambda>t. t\<lparr>t_state := LETTUCE_TASK_STATE_RUNNING, t_time_slice_ticks := t_quantum_ticks t\<rparr>) s"

text \<open>Steps 4 and 5: hand over to another task.\<close>

definition switch_to ::
  "task_ptr \<Rightarrow> nat \<Rightarrow> bool \<Rightarrow> machine \<Rightarrow> trap_flow \<times> machine" where
  "switch_to cur next_task is_preemption m =
     (let nt = ptask (mc_policy m) next_task;
          same = (case cur of Some c \<Rightarrow> t_domain_id nt = t_domain_id (ptask (mc_policy m) c) | None \<Rightarrow> False);
          m1 = (if same then m\<lparr>g_same_domain_switches := g_same_domain_switches m + 1\<rparr>
                else m\<lparr>g_cross_domain_switches := g_cross_domain_switches m + 1,
                       mc_mmu := snd (lettuce_mmu_enter (t_domain_id nt) (mc_mmu m))\<rparr>);
          m2 = m1\<lparr>mc_kernel := kernel_set_current_service_id (t_service_id nt) (mc_kernel m1)\<rparr>;
          m3 = m2\<lparr>mc_policy := upd_ptask next_task (\<lambda>t. t\<lparr>t_state := LETTUCE_TASK_STATE_RUNNING\<rparr>) (mc_policy m2)\<rparr>;
          m4 = m3\<lparr>mc_policy := (mc_policy m3)\<lparr>ps_tasks := lettuce_task_set_current (Some next_task) (ps_tasks (mc_policy m3))\<rparr>\<rparr>;
          tf' = context_frame (t_context nt);
          m5 = m4\<lparr>g_switch_count := g_switch_count m4 + 1\<rparr>
      in if is_preemption
         then let m6 = m5\<lparr>g_preempt_count := g_preempt_count m5 + 1\<rparr> in
              if g_preempt_limit m6 > 0 \<and> g_preempt_count m6 \<ge> g_preempt_limit m6
              then (ResumeKernel (ucast (status_code LETTUCE_STATUS_OK)), m6\<lparr>g_scheduler_active := False,
                      mc_gic := lettuce_gic_end_of_interrupt GIC_INTID_VTIMER (mc_gic m6)\<rparr>)
              else (Continue (Some tf'), m6)
         else (Continue (Some tf'), m5))"

definition do_schedule :: "LettuceTrapFrame option \<Rightarrow> bool \<Rightarrow> machine \<Rightarrow> trap_flow \<times> machine" where
  "do_schedule trap_frame is_preemption m =
     (if \<not> g_scheduler_active m then (Continue trap_frame, m)
      else case trap_frame of None \<Rightarrow> (Continue None, m)
      | Some tf \<Rightarrow>
          let ops = g_policy_ops m;
              cur = lettuce_task_current (ps_tasks (mc_policy m));
              now = lettuce_timer_get_ticks (mc_timer m);
              s1 = wake_sleepers ops now (mc_policy m);
              (go_on, s2) = account_current ops cur tf is_preemption s1
          in if go_on then (Continue trap_frame, m\<lparr>mc_policy := s2\<rparr>)
             else let (next_task, s3) = po_pick_next ops cur s2 in
             case next_task of
               None \<Rightarrow>
                 (Continue trap_frame,
                  m\<lparr>mc_policy := (case cur of
                      Some c \<Rightarrow> if t_state (ptask s3 c) = LETTUCE_TASK_STATE_READY then renew_quantum c s3 else s3
                    | None \<Rightarrow> s3)\<rparr>)
             | Some n \<Rightarrow>
                 if cur = Some n then (Continue trap_frame, m\<lparr>mc_policy := renew_quantum n s3\<rparr>)
                 else switch_to cur n is_preemption (m\<lparr>mc_policy := s3\<rparr>))"

definition lettuce_scheduler_tick :: "LettuceTrapFrame option \<Rightarrow> machine \<Rightarrow> trap_flow \<times> machine" where
  "lettuce_scheduler_tick trap_frame m = do_schedule trap_frame True m"

definition lettuce_scheduler_sleep_current ::
  "u64 \<Rightarrow> LettuceTrapFrame option \<Rightarrow> machine \<Rightarrow> trap_flow \<times> machine" where
  "lettuce_scheduler_sleep_current ticks trap_frame m =
     (case lettuce_task_current (ps_tasks (mc_policy m)) of
        None \<Rightarrow> (Continue trap_frame, m)
      | Some c \<Rightarrow>
          let deadline = lettuce_timer_get_ticks (mc_timer m) + ticks;
              s1 = upd_ptask c (\<lambda>t. t\<lparr>t_sleep_deadline_ticks := deadline, t_state := LETTUCE_TASK_STATE_SLEEPING\<rparr>) (mc_policy m);
              s2 = po_on_task_sleep (g_policy_ops m) (Some c) s1
          in do_schedule trap_frame False (m\<lparr>mc_policy := s2\<rparr>))"

definition lettuce_scheduler_yield :: "LettuceTrapFrame option \<Rightarrow> machine \<Rightarrow> trap_flow \<times> machine" where
  "lettuce_scheduler_yield trap_frame m =
     (case lettuce_task_current (ps_tasks (mc_policy m)) of
        None \<Rightarrow> (Continue trap_frame, m)
      | Some c \<Rightarrow>
          do_schedule trap_frame False
            (m\<lparr>mc_policy := upd_ptask c (\<lambda>t. t\<lparr>t_time_slice_ticks := 0\<rparr>) (mc_policy m)\<rparr>))"

definition lettuce_scheduler_switch_count :: "machine \<Rightarrow> u64" where
  "lettuce_scheduler_switch_count m = g_switch_count m"
definition lettuce_scheduler_preempt_count :: "machine \<Rightarrow> u64" where
  "lettuce_scheduler_preempt_count m = g_preempt_count m"
definition lettuce_scheduler_same_domain_switches :: "machine \<Rightarrow> u64" where
  "lettuce_scheduler_same_domain_switches m = g_same_domain_switches m"
definition lettuce_scheduler_cross_domain_switches :: "machine \<Rightarrow> u64" where
  "lettuce_scheduler_cross_domain_switches m = g_cross_domain_switches m"

section \<open>The mechanism's view of the tasks\<close>

text \<open>
  What the mechanism sees of the task table: every task without the accounting fields, which belong
  to the policies, and the current task.
\<close>

type_synonym sched_view = "LettuceTask list \<times> task_ptr"

definition erased :: "policy_state \<Rightarrow> LettuceTask list" where
  "erased s = map erase_accounting (g_task_table (ps_tasks s))"

definition pcur :: "policy_state \<Rightarrow> task_ptr" where
  "pcur s = g_current_task (ps_tasks s)"

definition sched_view_of :: "machine \<Rightarrow> sched_view" where
  "sched_view_of m = (erased (mc_policy m), pcur (mc_policy m))"

lemma erase_accounting_simps [simp]:
  "t_id (erase_accounting t) = t_id t" "t_generation (erase_accounting t) = t_generation t"
  "t_state (erase_accounting t) = t_state t" "t_service_id (erase_accounting t) = t_service_id t"
  "t_domain_id (erase_accounting t) = t_domain_id t" "t_context (erase_accounting t) = t_context t"
  "t_sleep_deadline_ticks (erase_accounting t) = t_sleep_deadline_ticks t"
  "task_ok i (erase_accounting t) = task_ok i t"
  by (simp_all add: erase_accounting_def task_ok_def task_slot_reusable_def)

lemma mech_eq_erased:
  "mech_eq (ps_tasks s) (ps_tasks s') \<longleftrightarrow> erased s' = erased s \<and> pcur s' = pcur s"
  unfolding mech_eq_def erased_def pcur_def list_eq_iff_nth_eq by auto

lemma length_erased [simp]: "length (erased s) = length (g_task_table (ps_tasks s))"
  by (simp add: erased_def)

lemma erased_nth: "i < length (g_task_table (ps_tasks s)) \<Longrightarrow> erased s ! i = erase_accounting (ptask s i)"
  by (simp add: erased_def)

lemma erased_upd:
  assumes "\<And>t. erase_accounting (f t) = g (erase_accounting t)"
  shows "erased (upd_ptask i f s) = (erased s)[i := g (erased s ! i)]"
proof (cases "i < length (g_task_table (ps_tasks s))")
  case True
  then show ?thesis using assms by (simp add: erased_def upd_ptask_def upd_task_def map_update)
next
  case False
  then show ?thesis by (simp add: erased_def upd_ptask_def upd_task_def list_update_beyond)
qed

lemma pcur_upd [simp]: "pcur (upd_ptask i f s) = pcur s"
  by (simp add: pcur_def)

lemma length_upd_ptask [simp]: "length (g_task_table (ps_tasks (upd_ptask i f s))) = length (g_task_table (ps_tasks s))"
  by simp

text \<open>Waking, on the view.\<close>

definition wake_task :: "u64 \<Rightarrow> LettuceTask \<Rightarrow> LettuceTask" where
  "wake_task now t =
     (if t_state t = LETTUCE_TASK_STATE_SLEEPING \<and> t_sleep_deadline_ticks t \<le> now \<and>
         1 \<le> unat (t_generation t) \<and> unat (t_generation t) \<le> 10
      then t\<lparr>t_state := LETTUCE_TASK_STATE_READY\<rparr> else t)"

text \<open>The running task put back in the ready queue with its context, and resumed.\<close>

definition saved :: "LettuceTrapFrame \<Rightarrow> sched_view \<Rightarrow> LettuceTask list" where
  "saved tf v =
     (case snd v of None \<Rightarrow> fst v
      | Some c \<Rightarrow>
          if t_state (fst v ! c) = LETTUCE_TASK_STATE_RUNNING
          then (fst v)[c := (fst v ! c)\<lparr>t_context := frame_context tf, t_state := LETTUCE_TASK_STATE_READY\<rparr>]
          else fst v)"

definition renewed :: "task_ptr \<Rightarrow> LettuceTask list \<Rightarrow> LettuceTask list" where
  "renewed cur ts =
     (case cur of None \<Rightarrow> ts
      | Some c \<Rightarrow> if t_state (ts ! c) = LETTUCE_TASK_STATE_READY
                  then ts[c := (ts ! c)\<lparr>t_state := LETTUCE_TASK_STATE_RUNNING\<rparr>] else ts)"

definition reachable_by_scan :: "LettuceTask \<Rightarrow> bool" where
  "reachable_by_scan t \<longleftrightarrow> 1 \<le> unat (t_generation t) \<and> unat (t_generation t) \<le> 10"

text \<open>
  The abstract dispatcher: from the view after waking and the interrupted frame to the frame that
  continues and the view afterwards. It keeps the task going, puts it back and resumes it, or hands
  over to a ready task.
\<close>

inductive dispatch :: "LettuceTrapFrame \<Rightarrow> sched_view \<Rightarrow> LettuceTrapFrame \<Rightarrow> sched_view \<Rightarrow> bool" where
  go_on: "t_state (ts ! c) = LETTUCE_TASK_STATE_RUNNING \<Longrightarrow> dispatch tf (ts, Some c) tf (ts, Some c)"
| stay: "dispatch tf (ts, cur) tf (renewed cur (saved tf (ts, cur)), cur)"
| hand_over: "cur \<noteq> Some n \<Longrightarrow> n < LETTUCE_MAX_TASKS \<Longrightarrow> sv = saved tf (ts, cur) \<Longrightarrow> reachable_by_scan (sv ! n) \<Longrightarrow>
    t_state (sv ! n) = LETTUCE_TASK_STATE_READY \<Longrightarrow>
    dispatch tf (ts, cur) (context_frame (t_context (sv ! n)))
      (sv[n := (sv ! n)\<lparr>t_state := LETTUCE_TASK_STATE_RUNNING\<rparr>], Some n)"

inductive_cases dispatchE: "dispatch tf v tf' v'"

context sched_policy
begin

lemma hook_views:
  "erased (po_on_tick ops p d s) = erased s" "pcur (po_on_tick ops p d s) = pcur s"
  "erased (po_on_task_ready ops p s) = erased s" "pcur (po_on_task_ready ops p s) = pcur s"
  "erased (po_on_task_sleep ops p s) = erased s" "pcur (po_on_task_sleep ops p s) = pcur s"
  "erased (po_on_task_wake ops p s) = erased s" "pcur (po_on_task_wake ops p s) = pcur s"
  "erased (snd (po_pick_next ops p s)) = erased s" "pcur (snd (po_pick_next ops p s)) = pcur s"
  using tick_mech ready_mech sleep_mech wake_mech pick_mech by (simp_all add: mech_eq_erased)

lemma erased_wake_slot:
  assumes "length (erased s) = LETTUCE_MAX_TASKS" "i < LETTUCE_MAX_TASKS"
  shows "erased (wake_slot ops now i s) = (erased s)[i := wake_task now (erased s ! i)] \<and>
    pcur (wake_slot ops now i s) = pcur s"
proof -
  have i: "i < length (g_task_table (ps_tasks s))" using assms by simp
  let ?ready = "\<lambda>x. x\<lparr>t_state := LETTUCE_TASK_STATE_READY\<rparr>"
  have r: "erase_accounting (?ready t) = ?ready (erase_accounting t)" for t by (simp add: erase_accounting_def)
  have u: "erased (upd_ptask i ?ready s) = (erased s)[i := ?ready (erased s ! i)]"
    using erased_upd [of ?ready ?ready i s, OF r] by simp
  have f: "t_state (erased s ! i) = t_state (ptask s i)" "t_generation (erased s ! i) = t_generation (ptask s i)"
      "t_sleep_deadline_ticks (erased s ! i) = t_sleep_deadline_ticks (ptask s i)"
    by (simp_all add: erased_nth [OF i])
  show ?thesis
  proof (cases "wake_task now (erased s ! i) = erased s ! i")
    case True
    then have "wake_slot ops now i s = s"
      using assms(2) f by (auto simp: wake_slot_def probe_slot_eq probed_def wake_task_def dest: arg_cong [of _ _ t_state])
    then show ?thesis using True by simp
  next
    case False
    then have w: "t_state (ptask s i) = LETTUCE_TASK_STATE_SLEEPING" "t_sleep_deadline_ticks (ptask s i) \<le> now" "probed (ps_tasks s) i"
        "wake_task now (erased s ! i) = ?ready (erased s ! i)"
      using assms(2) f by (auto simp: wake_task_def probed_def split: if_splits)
    then show ?thesis using assms(2) u by (simp add: wake_slot_def probe_slot_eq hook_views)
  qed
qed

lemma erased_wake_upto:
  assumes "length (erased s) = LETTUCE_MAX_TASKS" "n \<le> LETTUCE_MAX_TASKS"
  shows "erased (fold (wake_slot ops now) [0..<n] s) = map (wake_task now) (take n (erased s)) @ drop n (erased s) \<and>
    pcur (fold (wake_slot ops now) [0..<n] s) = pcur s"
  using assms(2)
proof (induction n)
  case 0
  then show ?case by simp
next
  case (Suc n)
  let ?s = "fold (wake_slot ops now) [0..<n] s"
  have e: "erased ?s = map (wake_task now) (take n (erased s)) @ drop n (erased s)" and c: "pcur ?s = pcur s"
    using Suc by simp_all
  have len: "length (erased ?s) = LETTUCE_MAX_TASKS" unfolding e using assms(1) Suc.prems by (simp del: length_erased)
  have n: "n < length (erased s)" using assms(1) Suc.prems by simp
  have nth: "erased ?s ! n = erased s ! n" unfolding e using n by (simp add: nth_append)
  have "erased (wake_slot ops now n ?s) = (erased ?s)[n := wake_task now (erased s ! n)]"
    using erased_wake_slot [OF len, of n now] Suc.prems nth by simp
  also have "\<dots> = map (wake_task now) (take (Suc n) (erased s)) @ drop (Suc n) (erased s)"
    unfolding e using n Cons_nth_drop_Suc [OF n] by (simp add: take_Suc_conv_app_nth list_update_append flip: Cons_nth_drop_Suc)
  finally show ?case using erased_wake_slot [OF len, of n now] c Suc.prems by simp
qed

lemma erased_wake_sleepers:
  assumes "length (erased s) = LETTUCE_MAX_TASKS"
  shows "erased (wake_sleepers ops now s) = map (wake_task now) (erased s)"
    "pcur (wake_sleepers ops now s) = pcur s"
  using erased_wake_upto [OF assms, of LETTUCE_MAX_TASKS now] assms by (simp_all add: wake_sleepers_def del: length_erased)

end

text \<open>What a hand-over does, on the view and on the rest of the machine.\<close>

lemma running_view:
  "erased (upd_ptask n (\<lambda>t. t\<lparr>t_state := x\<rparr>) s) = (erased s)[n := (erased s ! n)\<lparr>t_state := x\<rparr>]"
  by (rule erased_upd) (simp add: erase_accounting_def)

lemma renew_quantum_view:
  "erased (renew_quantum n s) = (erased s)[n := (erased s ! n)\<lparr>t_state := LETTUCE_TASK_STATE_RUNNING\<rparr>]"
  "pcur (renew_quantum n s) = pcur s"
  by (simp_all add: renew_quantum_def erased_upd [of _ "\<lambda>t. t\<lparr>t_state := LETTUCE_TASK_STATE_RUNNING\<rparr>"] erase_accounting_def)

lemma set_current_view [simp]:
  "erased (s\<lparr>ps_tasks := lettuce_task_set_current p ts\<rparr>) = map erase_accounting (g_task_table ts)"
  "pcur (s\<lparr>ps_tasks := lettuce_task_set_current p ts\<rparr>) = p"
  by (simp_all add: erased_def pcur_def lettuce_task_set_current_def)

definition same_domain :: "sched_view \<Rightarrow> nat \<Rightarrow> bool" where
  "same_domain v n \<longleftrightarrow> (case snd v of Some c \<Rightarrow> t_domain_id (fst v ! n) = t_domain_id (fst v ! c) | None \<Rightarrow> False)"

lemma switch_to_effect:
  assumes "switch_to cur n pre m = (flow, m')" "length (erased (mc_policy m)) = LETTUCE_MAX_TASKS"
    "n < LETTUCE_MAX_TASKS" "\<And>c. cur = Some c \<Longrightarrow> c < LETTUCE_MAX_TASKS"
  defines "ts \<equiv> erased (mc_policy m)"
  shows "sched_view_of m' = (ts[n := (ts ! n)\<lparr>t_state := LETTUCE_TASK_STATE_RUNNING\<rparr>], Some n)"
    and "current_service_id (mc_kernel m') = t_service_id (ts ! n)"
    and "mc_mmu m' = (if same_domain (ts, cur) n then mc_mmu m else snd (lettuce_mmu_enter (t_domain_id (ts ! n)) (mc_mmu m)))"
    and "g_switch_count m' = g_switch_count m + 1"
    and "g_same_domain_switches m' = g_same_domain_switches m + (if same_domain (ts, cur) n then 1 else 0)"
    and "g_cross_domain_switches m' = g_cross_domain_switches m + (if same_domain (ts, cur) n then 0 else 1)"
    and "g_preempt_count m' = g_preempt_count m + (if pre then 1 else 0)"
    and "flow = (if pre \<and> 0 < g_preempt_limit m \<and> g_preempt_limit m \<le> g_preempt_count m + 1
                 then ResumeKernel (ucast (status_code LETTUCE_STATUS_OK)) else Continue (Some (context_frame (t_context (ts ! n)))))"
    and "g_policy_ops m' = g_policy_ops m" "mc_timer m' = mc_timer m"
    and "g_scheduler_active m' = (g_scheduler_active m \<and> flow \<noteq> ResumeKernel (ucast (status_code LETTUCE_STATUS_OK)))"
proof -
  have n: "n < length (g_task_table (ps_tasks (mc_policy m)))" using assms(2,3) by simp
  have same: "(case cur of Some c \<Rightarrow> t_domain_id (ptask (mc_policy m) n) = t_domain_id (ptask (mc_policy m) c) | None \<Rightarrow> False)
      \<longleftrightarrow> same_domain (ts, cur) n"
    using assms(2,4) n by (auto simp: same_domain_def ts_def erased_nth split: option.split)
  have nt: "t_context (ts ! n) = t_context (ptask (mc_policy m) n)" "t_service_id (ts ! n) = t_service_id (ptask (mc_policy m) n)"
      "t_domain_id (ts ! n) = t_domain_id (ptask (mc_policy m) n)"
    using n by (simp_all add: ts_def erased_nth)
  note eq = assms(1)[unfolded switch_to_def Let_def same, symmetric]
  show "sched_view_of m' = (ts[n := (ts ! n)\<lparr>t_state := LETTUCE_TASK_STATE_RUNNING\<rparr>], Some n)"
    using eq running_view [of n LETTUCE_TASK_STATE_RUNNING "mc_policy m", unfolded erased_def [of "upd_ptask _ _ _"]]
    by (auto simp: sched_view_of_def ts_def split: if_splits)
  show "current_service_id (mc_kernel m') = t_service_id (ts ! n)"
    using eq nt by (auto simp: context_defs split: if_splits)
  show "mc_mmu m' = (if same_domain (ts, cur) n then mc_mmu m else snd (lettuce_mmu_enter (t_domain_id (ts ! n)) (mc_mmu m)))"
    using eq nt by (auto split: if_splits)
  show "g_switch_count m' = g_switch_count m + 1" "g_policy_ops m' = g_policy_ops m" "mc_timer m' = mc_timer m"
      "g_same_domain_switches m' = g_same_domain_switches m + (if same_domain (ts, cur) n then 1 else 0)"
      "g_cross_domain_switches m' = g_cross_domain_switches m + (if same_domain (ts, cur) n then 0 else 1)"
      "g_preempt_count m' = g_preempt_count m + (if pre then 1 else 0)"
    using eq by (auto split: if_splits)
  show "flow = (if pre \<and> 0 < g_preempt_limit m \<and> g_preempt_limit m \<le> g_preempt_count m + 1
      then ResumeKernel (ucast (status_code LETTUCE_STATUS_OK)) else Continue (Some (context_frame (t_context (ts ! n)))))"
      "g_scheduler_active m' = (g_scheduler_active m \<and> flow \<noteq> ResumeKernel (ucast (status_code LETTUCE_STATUS_OK)))"
    using eq nt by (auto split: if_splits)
qed

context sched_policy
begin

lemma account_view:
  assumes run: "account_current ops cur tf pre s = (g, s2)" and len: "length (erased s) = LETTUCE_MAX_TASKS"
    and cur: "\<And>c. cur = Some c \<Longrightarrow> c < LETTUCE_MAX_TASKS"
  shows "pcur s2 = pcur s"
    and "g \<Longrightarrow> erased s2 = erased s \<and> pre \<and> (\<exists>c. cur = Some c \<and> t_state (erased s ! c) = LETTUCE_TASK_STATE_RUNNING)"
    and "\<not> g \<Longrightarrow> erased s2 = saved tf (erased s, cur)"
proof -
  let ?f = "\<lambda>t. t\<lparr>t_context := frame_context tf, t_state := LETTUCE_TASK_STATE_READY\<rparr>"
  have u: "erased (upd_ptask c ?f s') = (erased s')[c := ?f (erased s' ! c)]" for c s'
    by (rule erased_upd) (simp add: erase_accounting_def)
  have st: "t_state (erased s ! c) = t_state (ptask s c)" if "cur = Some c" for c
    using cur [OF that] len by (simp add: erased_nth)
  show "pcur s2 = pcur s"
      "g \<Longrightarrow> erased s2 = erased s \<and> pre \<and> (\<exists>c. cur = Some c \<and> t_state (erased s ! c) = LETTUCE_TASK_STATE_RUNNING)"
      "\<not> g \<Longrightarrow> erased s2 = saved tf (erased s, cur)"
    using run st by (auto simp: account_current_def saved_def Let_def hook_views u split: option.splits if_splits)
qed

lemma do_schedule_cases:
  assumes ops: "g_policy_ops m = ops" and act: "g_scheduler_active m" and len: "length (erased (mc_policy m)) = LETTUCE_MAX_TASKS"
    and cur: "\<And>c. pcur (mc_policy m) = Some c \<Longrightarrow> c < LETTUCE_MAX_TASKS"
    and run: "do_schedule (Some tf) pre m = (flow, m')"
    and v: "v = (map (wake_task (g_timer_ticks (mc_timer m))) (erased (mc_policy m)), pcur (mc_policy m))"
  shows "(\<exists>s'. flow = Continue (Some tf) \<and> m' = m\<lparr>mc_policy := s'\<rparr> \<and> pcur s' = pcur (mc_policy m) \<and>
        dispatch tf v tf (erased s', pcur s')) \<or>
      (\<exists>n s3. pcur (mc_policy m) \<noteq> Some n \<and> n < LETTUCE_MAX_TASKS \<and> erased s3 = saved tf v \<and> pcur s3 = pcur (mc_policy m) \<and>
        t_state (saved tf v ! n) = LETTUCE_TASK_STATE_READY \<and> reachable_by_scan (saved tf v ! n) \<and>
        (flow, m') = switch_to (pcur (mc_policy m)) n pre (m\<lparr>mc_policy := s3\<rparr>))"
proof -
  let ?cur = "pcur (mc_policy m)"
  let ?s1 = "wake_sleepers ops (g_timer_ticks (mc_timer m)) (mc_policy m)"
  obtain g s2 where a: "account_current ops ?cur tf pre ?s1 = (g, s2)" by fastforce
  obtain p s3 where pk: "po_pick_next ops ?cur s2 = (p, s3)" by fastforce
  have s1: "erased ?s1 = fst v" "pcur ?s1 = ?cur" using erased_wake_sleepers [OF len] v by simp_all
  have len1: "length (erased ?s1) = LETTUCE_MAX_TASKS" unfolding s1 v using len by (simp del: length_erased)
  note acc = account_view [OF a len1 cur]
  have s3: "erased s3 = erased s2" "pcur s3 = ?cur" using hook_views(9,10) [of ?cur s2] pk acc(1) s1(2) by simp_all
  note eq = run[unfolded do_schedule_def lettuce_timer_get_ticks_def lettuce_task_current_def, folded pcur_def, symmetric]
  show ?thesis
  proof (cases g)
    case True
    then show ?thesis
      using eq act ops a acc(2) s1 acc(1) v by (auto simp: intro!: exI [of _ s2] dispatch.go_on)
  next
    case False
    then have sv: "erased s2 = saved tf v" using acc(3) s1(1) v by (cases v) simp
    have len2: "length (g_task_table (ps_tasks s2)) = LETTUCE_MAX_TASKS"
      using sv len1 unfolding s1(1) by (auto simp: saved_def simp flip: length_erased split: option.split)
    have st2: "t_state (ptask s2 i) = t_state (saved tf v ! i)" "t_generation (ptask s2 i) = t_generation (saved tf v ! i)"
      if "i < LETTUCE_MAX_TASKS" for i using that len2 erased_nth [of i s2] by (simp_all flip: sv)
    have notrun: "t_state (saved tf v ! c) \<noteq> LETTUCE_TASK_STATE_RUNNING" if "?cur = Some c" for c
      using that cur [OF that] len by (simp add: saved_def v del: length_erased)
    have sound: "n < LETTUCE_MAX_TASKS \<and> t_state (saved tf v ! n) = LETTUCE_TASK_STATE_READY \<and> reachable_by_scan (saved tf v ! n)"
      if "p = Some n" for n
    proof -
      have "probed (ps_tasks s2) n \<and> t_state (ptask s2 n) = LETTUCE_TASK_STATE_READY \<or>
          ?cur = Some n \<and> t_state (ptask s2 n) = LETTUCE_TASK_STATE_RUNNING"
        using pick_sound [OF len2 cur, of ?cur n s3] pk that by simp
      then show ?thesis
      proof
        assume "probed (ps_tasks s2) n \<and> t_state (ptask s2 n) = LETTUCE_TASK_STATE_READY"
        then show ?thesis using st2 [of n] by (auto simp: probed_def reachable_by_scan_def)
      next
        assume "?cur = Some n \<and> t_state (ptask s2 n) = LETTUCE_TASK_STATE_RUNNING"
        then show ?thesis using notrun [of n] st2 [of n] cur [of n] by simp
      qed
    qed
    consider (none) "p = None" | (same) n where "p = Some n" "?cur = Some n" | (other) n where "p = Some n" "?cur \<noteq> Some n"
      by (cases p) auto
    then show ?thesis
    proof cases
      case none
      let ?s' = "case ?cur of Some c \<Rightarrow> if t_state (ptask s3 c) = LETTUCE_TASK_STATE_READY then renew_quantum c s3 else s3 | None \<Rightarrow> s3"
      have "erased ?s' = renewed ?cur (saved tf v)" "pcur ?s' = ?cur"
        using s3 sv cur erased_nth [of _ s3] len2 length_erased [of s3] length_erased [of s2]
        by (auto simp: renewed_def renew_quantum_view split: option.split)
      then show ?thesis
        using eq act ops a pk False none v dispatch.stay [of tf "fst v" ?cur] by (intro disjI1 exI [of _ ?s']) simp
    next
      case same
      have "erased (renew_quantum n s3) = renewed ?cur (saved tf v)" "pcur (renew_quantum n s3) = ?cur"
        using s3 sv sound [OF same(1)] same by (simp_all add: renewed_def renew_quantum_view)
      then show ?thesis
        using eq act ops a pk False same v dispatch.stay [of tf "fst v" ?cur] by (intro disjI1 exI [of _ "renew_quantum n s3"]) simp
    next
      case other
      then show ?thesis
        using eq act ops a pk False sound [OF other(1)] s3 sv by (intro disjI2 exI [of _ n] exI [of _ s3]) simp
    qed
  qed
qed

end

section \<open>Invariant\<close>

definition only_current_running :: "sched_view \<Rightarrow> bool" where
  "only_current_running v \<longleftrightarrow>
     (\<forall>i < LETTUCE_MAX_TASKS. t_state (fst v ! i) = LETTUCE_TASK_STATE_RUNNING \<longrightarrow> snd v = Some i)"

definition view_ok :: "sched_view \<Rightarrow> bool" where
  "view_ok v \<longleftrightarrow> length (fst v) = LETTUCE_MAX_TASKS \<and> (\<forall>i < LETTUCE_MAX_TASKS. task_ok i (fst v ! i)) \<and>
     (\<forall>c. snd v = Some c \<longrightarrow> c < LETTUCE_MAX_TASKS \<and> \<not> task_slot_reusable (fst v ! c)) \<and> only_current_running v"

lemma view_okD:
  assumes "view_ok (ts, cur)"
  shows "length ts = LETTUCE_MAX_TASKS" "i < LETTUCE_MAX_TASKS \<Longrightarrow> task_ok i (ts ! i)"
    "cur = Some c \<Longrightarrow> c < LETTUCE_MAX_TASKS"
    "i < LETTUCE_MAX_TASKS \<Longrightarrow> t_state (ts ! i) = LETTUCE_TASK_STATE_RUNNING \<Longrightarrow> cur = Some i"
    "cur = Some c \<Longrightarrow> \<not> task_slot_reusable (ts ! c)"
  using assms unfolding view_ok_def only_current_running_def fst_conv snd_conv by blast+

lemma view_okI:
  assumes "length ts = LETTUCE_MAX_TASKS" "\<And>i. i < LETTUCE_MAX_TASKS \<Longrightarrow> task_ok i (ts ! i)"
    "\<And>c. cur = Some c \<Longrightarrow> c < LETTUCE_MAX_TASKS \<and> \<not> task_slot_reusable (ts ! c)"
    "\<And>i. i < LETTUCE_MAX_TASKS \<Longrightarrow> t_state (ts ! i) = LETTUCE_TASK_STATE_RUNNING \<Longrightarrow> cur = Some i"
  shows "view_ok (ts, cur)"
  using assms unfolding view_ok_def only_current_running_def fst_conv snd_conv by blast

definition frame_ok :: "LettuceTrapFrame \<Rightarrow> bool" where
  "frame_ok tf \<longleftrightarrow> length (tf_x tf) = 30"

definition sched_inv :: "machine \<Rightarrow> bool" where
  "sched_inv m \<longleftrightarrow> view_ok (sched_view_of m) \<and>
     g_switch_count m = g_same_domain_switches m + g_cross_domain_switches m \<and>
     (g_policy_ops m = g_lettuce_sched_rr_ops \<or> g_policy_ops m = g_lettuce_sched_eevdf_ops)"

lemma installed_policy: "sched_inv m \<Longrightarrow> sched_policy (g_policy_ops m)"
  using round_robin.sched_policy_axioms eevdf.sched_policy_axioms by (auto simp: sched_inv_def)

lemma sched_inv_view:
  assumes "sched_inv m"
  shows "length (erased (mc_policy m)) = LETTUCE_MAX_TASKS" "pcur (mc_policy m) = Some c \<Longrightarrow> c < LETTUCE_MAX_TASKS"
    "view_ok (erased (mc_policy m), pcur (mc_policy m))"
  using assms view_okD [of "erased (mc_policy m)" "pcur (mc_policy m)"] unfolding sched_inv_def sched_view_of_def by blast+

lemma wake_task_simps [simp]:
  "t_generation (wake_task now t) = t_generation t" "t_context (wake_task now t) = t_context t"
  "t_service_id (wake_task now t) = t_service_id t" "t_domain_id (wake_task now t) = t_domain_id t"
  "t_state (wake_task now t) = LETTUCE_TASK_STATE_RUNNING \<longleftrightarrow> t_state t = LETTUCE_TASK_STATE_RUNNING"
  "task_ok i (wake_task now t) \<longleftrightarrow> task_ok i t" "task_slot_reusable (wake_task now t) \<longleftrightarrow> task_slot_reusable t"
  by (auto simp: wake_task_def task_ok_def task_slot_reusable_def)

lemma view_ok_wake: "view_ok (ts, cur) \<Longrightarrow> view_ok (map (wake_task now) ts, cur)"
proof (rule view_okI)
  assume ok: "view_ok (ts, cur)"
  note len = view_okD(1) [OF ok]
  show "length (map (wake_task now) ts) = LETTUCE_MAX_TASKS" using len by simp
  show "task_ok i (map (wake_task now) ts ! i)" if "i < LETTUCE_MAX_TASKS" for i
    using that len view_okD(2) [OF ok that] by simp
  show "c < LETTUCE_MAX_TASKS \<and> \<not> task_slot_reusable (map (wake_task now) ts ! c)" if "cur = Some c" for c
    using view_okD(3,5) [OF ok that] len by simp
  show "cur = Some i" if "i < LETTUCE_MAX_TASKS" "t_state (map (wake_task now) ts ! i) = LETTUCE_TASK_STATE_RUNNING" for i
    using that len by (intro view_okD(4) [OF ok]) simp_all
qed

lemma task_ok_running [simp]: "t_state t \<noteq> LETTUCE_TASK_STATE_UNUSED \<Longrightarrow> t_state t \<noteq> LETTUCE_TASK_STATE_TERMINATED \<Longrightarrow>
    task_ok i t \<Longrightarrow> task_ok i (t\<lparr>t_state := x\<rparr>)"
  by (simp add: task_ok_def task_slot_reusable_def)

lemma length_saved [simp]: "length (saved tf v) = length (fst v)"
  by (simp add: saved_def split: option.split)

lemma saved_nth:
  assumes "view_ok (ts, cur)" "i < LETTUCE_MAX_TASKS"
  shows "saved tf (ts, cur) ! i =
    (if cur = Some i \<and> t_state (ts ! i) = LETTUCE_TASK_STATE_RUNNING
     then (ts ! i)\<lparr>t_context := frame_context tf, t_state := LETTUCE_TASK_STATE_READY\<rparr> else ts ! i)"
  using view_okD(1) [OF assms(1)] assms(2) by (cases cur; cases "cur = Some i") (auto simp: saved_def)

lemma saved_not_running:
  assumes "view_ok (ts, cur)" "i < LETTUCE_MAX_TASKS"
  shows "t_state (saved tf (ts, cur) ! i) \<noteq> LETTUCE_TASK_STATE_RUNNING"
  using saved_nth [OF assms, of tf] view_okD(4) [OF assms] by (cases "cur = Some i") (simp_all, metis)

lemma saved_ok:
  assumes "view_ok (ts, cur)" "frame_ok tf"
  shows "view_ok (saved tf (ts, cur), cur)"
proof -
  have "task_ok i (saved tf (ts, cur) ! i)" if i: "i < LETTUCE_MAX_TASKS" for i
  proof -
    have "task_ok i (ts ! i)" using view_okD(2) [OF assms(1)] i .
    then show ?thesis
      using assms(2) saved_nth [OF assms(1) i, of tf]
      by (simp add: task_ok_def task_slot_reusable_def frame_context_def frame_ok_def)
  qed
  moreover have "c < LETTUCE_MAX_TASKS \<and> \<not> task_slot_reusable (saved tf (ts, cur) ! c)" if "cur = Some c" for c
    using view_okD(3,5) [OF assms(1) that] saved_nth [OF assms(1), of c tf] that by (simp add: task_slot_reusable_def)
  ultimately show ?thesis
    using view_okD(1) [OF assms(1)] saved_not_running [OF assms(1), of _ tf] by (intro view_okI) (simp, blast+)
qed

lemma set_running_ok:
  assumes "view_ok (ts, cur)" "n < LETTUCE_MAX_TASKS" "t_state (ts ! n) = LETTUCE_TASK_STATE_READY"
    "\<forall>i < LETTUCE_MAX_TASKS. t_state (ts ! i) \<noteq> LETTUCE_TASK_STATE_RUNNING"
  shows "view_ok (ts[n := (ts ! n)\<lparr>t_state := LETTUCE_TASK_STATE_RUNNING\<rparr>], Some n)"
proof (rule view_okI)
  fix i
  assume i: "i < LETTUCE_MAX_TASKS"
  show "task_ok i (ts[n := (ts ! n)\<lparr>t_state := LETTUCE_TASK_STATE_RUNNING\<rparr>] ! i)"
    using view_okD(1) [OF assms(1)] view_okD(2) [OF assms(1) i] i assms(2,3) by (cases "i = n") simp_all
  show "Some n = Some i" if "t_state (ts[n := (ts ! n)\<lparr>t_state := LETTUCE_TASK_STATE_RUNNING\<rparr>] ! i) = LETTUCE_TASK_STATE_RUNNING"
    using that assms(4) i by (cases "i = n") simp_all
qed (use view_okD(1) [OF assms(1)] assms(2) in \<open>auto simp: task_slot_reusable_def\<close>)

lemma dispatch_ok:
  assumes "dispatch tf v tf' v'" "view_ok v" "frame_ok tf"
  shows "view_ok v'"
  using assms
proof (cases rule: dispatch.cases)
  case (go_on ts c)
  then show ?thesis using assms by simp
next
  case (stay ts cur)
  note sv = saved_ok [OF assms(2)[unfolded stay] assms(3)] and nr = saved_not_running [OF assms(2)[unfolded stay], of _ tf]
  show ?thesis
  proof (cases cur)
    case None
    then show ?thesis using sv stay by (simp add: renewed_def)
  next
    case (Some c)
    then have "c < LETTUCE_MAX_TASKS" using view_okD(3) [OF sv] by simp
    then show ?thesis using sv stay Some nr set_running_ok [OF sv, of c] by (simp add: renewed_def)
  qed
next
  case (hand_over cur n sv ts)
  then show ?thesis
    using saved_ok [of ts cur tf] saved_not_running [of ts cur _ tf] set_running_ok [of "saved tf (ts, cur)" cur n] assms
    by simp
qed

lemma context_roundtrip: "frame_ok tf \<Longrightarrow> context_frame (frame_context tf) = tf"
  by (cases tf) (simp add: frame_ok_def context_frame_def frame_context_def nth_append)

text \<open>
  A step of the scheduler from a good state: the abstract dispatcher moves on the view, and either
  nothing else happens or the rest of the machine follows the hand-over.
\<close>

definition hand_over_effect :: "nat \<Rightarrow> bool \<Rightarrow> machine \<Rightarrow> trap_flow \<Rightarrow> machine \<Rightarrow> LettuceTrapFrame \<Rightarrow> bool" where
  "hand_over_effect n pre m flow m' tf' \<longleftrightarrow>
     (let v = (erased (mc_policy m), pcur (mc_policy m)); nt = fst v ! n in
      current_service_id (mc_kernel m') = t_service_id nt \<and>
      mc_mmu m' = (if same_domain v n then mc_mmu m else snd (lettuce_mmu_enter (t_domain_id nt) (mc_mmu m))) \<and>
      g_switch_count m' = g_switch_count m + 1 \<and>
      g_same_domain_switches m' = g_same_domain_switches m + (if same_domain v n then 1 else 0) \<and>
      g_cross_domain_switches m' = g_cross_domain_switches m + (if same_domain v n then 0 else 1) \<and>
      g_preempt_count m' = g_preempt_count m + (if pre then 1 else 0) \<and>
      flow = (if pre \<and> 0 < g_preempt_limit m \<and> g_preempt_limit m \<le> g_preempt_count m + 1
              then ResumeKernel (ucast (status_code LETTUCE_STATUS_OK)) else Continue (Some tf')) \<and>
      g_scheduler_active m' = (flow = Continue (Some tf')))"

lemma same_domain_saved:
  assumes "view_ok (ts, cur)" "n < LETTUCE_MAX_TASKS"
  shows "same_domain (saved tf (map (wake_task now) ts, cur), cur) n = same_domain (ts, cur) n"
  using assms(2) view_okD(1,3) [OF assms(1)] saved_nth [OF view_ok_wake [OF assms(1), of now], of _ tf]
  by (cases cur) (simp_all add: same_domain_def)

lemma do_schedule_step:
  assumes inv: "sched_inv m" and act: "g_scheduler_active m" and run: "do_schedule (Some tf) pre m = (flow, m')"
  obtains tf' where
    "dispatch tf (map (wake_task (g_timer_ticks (mc_timer m))) (erased (mc_policy m)), pcur (mc_policy m)) tf' (sched_view_of m')"
    "if pcur (mc_policy m') = pcur (mc_policy m)
     then tf' = tf \<and> flow = Continue (Some tf) \<and> m' = m\<lparr>mc_policy := mc_policy m'\<rparr>
     else hand_over_effect (the (pcur (mc_policy m'))) pre m flow m' tf'"
    "g_policy_ops m' = g_policy_ops m" "mc_timer m' = mc_timer m"
proof -
  let ?cur = "pcur (mc_policy m)" and ?ts = "map (wake_task (g_timer_ticks (mc_timer m))) (erased (mc_policy m))"
  note v = sched_inv_view [OF inv]
  consider s' where "flow = Continue (Some tf)" "m' = m\<lparr>mc_policy := s'\<rparr>" "pcur s' = ?cur" "dispatch tf (?ts, ?cur) tf (erased s', pcur s')"
    | n s3 where "?cur \<noteq> Some n" "n < LETTUCE_MAX_TASKS" "erased s3 = saved tf (?ts, ?cur)" "pcur s3 = ?cur"
        "t_state (saved tf (?ts, ?cur) ! n) = LETTUCE_TASK_STATE_READY" "reachable_by_scan (saved tf (?ts, ?cur) ! n)"
        "(flow, m') = switch_to ?cur n pre (m\<lparr>mc_policy := s3\<rparr>)"
    using sched_policy.do_schedule_cases [OF installed_policy [OF inv] refl act v(1,2) run refl] by blast
  then show thesis
  proof cases
    case 1
    show ?thesis by (rule that [of tf]) (use 1 in \<open>simp_all add: sched_view_of_def\<close>)
  next
    case 2
    let ?sv = "saved tf (?ts, ?cur)"
    have len: "length (erased (mc_policy (m\<lparr>mc_policy := s3\<rparr>))) = LETTUCE_MAX_TASKS"
      using 2(3) v(1) by (simp del: length_erased)
    note eff = switch_to_effect [OF 2(7)[symmetric] len 2(2) v(2)]
    have d: "dispatch tf (?ts, ?cur) (context_frame (t_context (?sv ! n))) (sched_view_of m')"
      using eff(1) 2 dispatch.hand_over [OF 2(1,2) refl 2(6,5)] by simp
    have nt: "t_service_id (?sv ! n) = t_service_id (erased (mc_policy m) ! n)" "t_domain_id (?sv ! n) = t_domain_id (erased (mc_policy m) ! n)"
      using saved_nth [OF view_ok_wake [OF v(3)] 2(2)] 2(1,2) v(1) by (simp_all del: length_erased)
    have "hand_over_effect n pre m flow m' (context_frame (t_context (?sv ! n)))"
      using eff(2-8,11) 2 act same_domain_saved [OF v(3) 2(2)] by (auto simp: hand_over_effect_def Let_def nt)
    moreover have "pcur (mc_policy m') = Some n" using eff(1) by (simp add: sched_view_of_def)
    ultimately show ?thesis using that [OF d] eff(9,10) 2(1) by simp
  qed
qed

end
