(* ===== verification/Posix.thy ===== *)
theory Posix
  imports Scheduler
begin

text \<open>
  The POSIX-lite layer of \<^verbatim>\<open>runtime/posix/\<close> as compiled for ARM64: the descriptor table (\<^verbatim>\<open>fd.c\<close>), the
  kernel side of the calls (\<^verbatim>\<open>sys.c\<close>) and the EL0 wrappers with their \<^verbatim>\<open>errno\<close> (\<^verbatim>\<open>posix.c\<close>). Memory is a
  map from addresses to bytes, pointers are addresses; the counter and its frequency, which the code
  reads from registers, are arguments.
\<close>

section \<open>Memory and results\<close>

type_synonym s32 = "32 word" \<comment> \<open>a C int, read with \<^const>\<open>sint\<close>\<close>
type_synonym memory = "u64 \<Rightarrow> u8"

abbreviation EBADF :: s64 where "EBADF \<equiv> 9"
abbreviation EINVAL :: s64 where "EINVAL \<equiv> 22"
abbreviation EFAULT :: s64 where "EFAULT \<equiv> 14"
abbreviation ENOSYS :: s64 where "ENOSYS \<equiv> 38"
abbreviation CLOCK_MONOTONIC :: s32 where "CLOCK_MONOTONIC \<equiv> 1"
abbreviation KERNEL_MEM_START :: u64 where "KERNEL_MEM_START \<equiv> 0x40000000"
abbreviation KERNEL_MEM_END :: u64 where "KERNEL_MEM_END \<equiv> 0x40200000"

text \<open>A 64-bit little-endian load and store, as the compiler emits them for the fields of a struct.\<close>

definition load_u64 :: "memory \<Rightarrow> u64 \<Rightarrow> u64" where
  "load_u64 mem a = fold (\<lambda>i v. v OR push_bit (8 * i) (ucast (mem (a + of_nat i)))) [0..<8] 0"

definition store_u64 :: "u64 \<Rightarrow> u64 \<Rightarrow> memory \<Rightarrow> memory" where
  "store_u64 a v mem = fold (\<lambda>i m. m(a + of_nat i := ucast (drop_bit (8 * i) v))) [0..<8] mem"

section \<open>Descriptor table\<close>

definition LETTUCE_MAX_FDS :: nat where "LETTUCE_MAX_FDS = 16"

datatype LettuceFdType =
    LETTUCE_FD_TYPE_UNUSED
  | LETTUCE_FD_TYPE_CONSOLE_IN
  | LETTUCE_FD_TYPE_CONSOLE_OUT
  | LETTUCE_FD_TYPE_CONSOLE_ERR
  | LETTUCE_FD_TYPE_PIPE
  | LETTUCE_FD_TYPE_DEVICE

text \<open>What the operations of a descriptor may read and change: the console and memory.\<close>

record io_state =
  io_console :: string
  io_memory :: memory

record LettuceFdOps =
  fo_read :: "(s32 \<Rightarrow> u64 \<Rightarrow> u64 \<Rightarrow> io_state \<Rightarrow> s64 \<times> io_state) option"
  fo_write :: "(s32 \<Rightarrow> u64 \<Rightarrow> u64 \<Rightarrow> io_state \<Rightarrow> s64 \<times> io_state) option"
  fo_close :: "(s32 \<Rightarrow> io_state \<Rightarrow> s32 \<times> io_state) option"

record LettuceFileDescriptor =
  fd_type :: LettuceFdType
  fd_flags :: u32
  fd_ops :: "LettuceFdOps option"
  fd_private_data :: u64

record posix_state =
  g_fd_table :: "LettuceFileDescriptor list"
  ps_io :: io_state

definition console_read_op :: "s32 \<Rightarrow> u64 \<Rightarrow> u64 \<Rightarrow> io_state \<Rightarrow> s64 \<times> io_state" where
  "console_read_op fd buf count io =
     (if buf = 0 \<and> count > 0 then (- EFAULT, io)
      else if count = 0 then (0, io)
      else (0, io))"

text \<open>The loop over the buffer; the list holds the indices still to print.\<close>

definition console_write_op :: "s32 \<Rightarrow> u64 \<Rightarrow> u64 \<Rightarrow> io_state \<Rightarrow> s64 \<times> io_state" where
  "console_write_op fd buf count io =
     (if buf = 0 \<and> count > 0 then (- EFAULT, io)
      else if count = 0 then (0, io)
      else (count,
        io\<lparr>io_console := fold (\<lambda>i out. lettuce_arch_console_putc (char_of (unat (io_memory io (buf + of_nat i)))) out)
             [0..<unat count] (io_console io)\<rparr>))"

definition console_close_op :: "s32 \<Rightarrow> io_state \<Rightarrow> s32 \<times> io_state" where
  "console_close_op fd io = (0, io)"

definition g_console_in_ops :: LettuceFdOps where
  "g_console_in_ops = \<lparr>fo_read = Some console_read_op, fo_write = None, fo_close = Some console_close_op\<rparr>"

definition g_console_out_ops :: LettuceFdOps where
  "g_console_out_ops = \<lparr>fo_read = None, fo_write = Some console_write_op, fo_close = Some console_close_op\<rparr>"

definition unused_fd :: LettuceFileDescriptor where
  "unused_fd = \<lparr>fd_type = LETTUCE_FD_TYPE_UNUSED, fd_flags = 0, fd_ops = None, fd_private_data = 0\<rparr>"

definition lettuce_fd_table_init :: "posix_state \<Rightarrow> posix_state" where
  "lettuce_fd_table_init st = st\<lparr>g_fd_table := (replicate LETTUCE_MAX_FDS unused_fd)
     [0 := unused_fd\<lparr>fd_type := LETTUCE_FD_TYPE_CONSOLE_IN, fd_ops := Some g_console_in_ops\<rparr>,
      1 := unused_fd\<lparr>fd_type := LETTUCE_FD_TYPE_CONSOLE_OUT, fd_ops := Some g_console_out_ops\<rparr>,
      2 := unused_fd\<lparr>fd_type := LETTUCE_FD_TYPE_CONSOLE_ERR, fd_ops := Some g_console_out_ops\<rparr>]\<rparr>"

definition lettuce_fd_get :: "posix_state \<Rightarrow> s32 \<Rightarrow> LettuceFileDescriptor option" where
  "lettuce_fd_get st fd =
     (if sint fd < 0 \<or> unat fd \<ge> LETTUCE_MAX_FDS then None
      else if fd_type (g_fd_table st ! unat fd) = LETTUCE_FD_TYPE_UNUSED then None
      else Some (g_fd_table st ! unat fd))"

definition lettuce_fd_install ::
  "s32 \<Rightarrow> LettuceFdType \<Rightarrow> LettuceFdOps option \<Rightarrow> u64 \<Rightarrow> posix_state \<Rightarrow> s32 \<times> posix_state" where
  "lettuce_fd_install fd type ops private_data st =
     (if sint fd < 0 \<or> unat fd \<ge> LETTUCE_MAX_FDS then (ucast (- EBADF), st)
      else (0, st\<lparr>g_fd_table := (g_fd_table st)[unat fd :=
        \<lparr>fd_type = type, fd_flags = 0, fd_ops = ops, fd_private_data = private_data\<rparr>]\<rparr>))"

section \<open>Kernel side of the calls\<close>

definition in_kernel_range :: "u64 \<Rightarrow> bool" where
  "in_kernel_range ptr \<longleftrightarrow> ptr \<ge> KERNEL_MEM_START \<and> ptr < KERNEL_MEM_END"

definition lettuce_kernel_sys_write :: "s32 \<Rightarrow> u64 \<Rightarrow> u64 \<Rightarrow> posix_state \<Rightarrow> s64 \<times> posix_state" where
  "lettuce_kernel_sys_write fd buf count st =
     (if count = 0 then (0, st)
      else if buf = 0 then (- EFAULT, st)
      else if in_kernel_range buf then (- EFAULT, st)
      else case lettuce_fd_get st fd of
        None \<Rightarrow> (- EBADF, st)
      | Some desc \<Rightarrow>
          (case fd_ops desc of
             None \<Rightarrow> (- EBADF, st)
           | Some ops \<Rightarrow>
               (case fo_write ops of
                  None \<Rightarrow> (- EBADF, st)
                | Some w \<Rightarrow> (let (res, io) = w fd buf count (ps_io st) in (res, st\<lparr>ps_io := io\<rparr>)))))"

definition lettuce_kernel_sys_read :: "s32 \<Rightarrow> u64 \<Rightarrow> u64 \<Rightarrow> posix_state \<Rightarrow> s64 \<times> posix_state" where
  "lettuce_kernel_sys_read fd buf count st =
     (if count = 0 then (0, st)
      else if buf = 0 then (- EFAULT, st)
      else if in_kernel_range buf then (- EFAULT, st)
      else case lettuce_fd_get st fd of
        None \<Rightarrow> (- EBADF, st)
      | Some desc \<Rightarrow>
          (case fd_ops desc of
             None \<Rightarrow> (- EBADF, st)
           | Some ops \<Rightarrow>
               (case fo_read ops of
                  None \<Rightarrow> (- EBADF, st)
                | Some r \<Rightarrow> (let (res, io) = r fd buf count (ps_io st) in (res, st\<lparr>ps_io := io\<rparr>)))))"

definition lettuce_kernel_sys_close :: "s32 \<Rightarrow> posix_state \<Rightarrow> s64 \<times> posix_state" where
  "lettuce_kernel_sys_close fd st =
     (case lettuce_fd_get st fd of
        None \<Rightarrow> (- EBADF, st)
      | Some desc \<Rightarrow>
          (case fd_ops desc of
             None \<Rightarrow> (- EBADF, st)
           | Some ops \<Rightarrow>
               (case fo_close ops of
                  None \<Rightarrow> (- EBADF, st)
                | Some c \<Rightarrow> (let (res, io) = c fd (ps_io st) in (scast res, st\<lparr>ps_io := io\<rparr>)))))"

definition lettuce_kernel_sys_getpid :: "task_state \<Rightarrow> s64" where
  "lettuce_kernel_sys_getpid ts =
     (case lettuce_task_current ts of Some c \<Rightarrow> ucast (t_id (task_at ts c)) | None \<Rightarrow> 1)"

definition lettuce_kernel_sys_clock_gettime :: "s32 \<Rightarrow> u64 \<Rightarrow> u64 \<Rightarrow> u64 \<Rightarrow> posix_state \<Rightarrow> s64 \<times> posix_state" where
  "lettuce_kernel_sys_clock_gettime clk_id tp ticks freq st =
     (if clk_id \<noteq> CLOCK_MONOTONIC then (- EINVAL, st)
      else if tp = 0 then (- EFAULT, st)
      else if in_kernel_range tp then (- EFAULT, st)
      else if freq = 0 then (- EINVAL, st)
      else (0, st\<lparr>ps_io := (ps_io st)\<lparr>io_memory :=
             store_u64 (tp + 8) (((ticks mod freq) * 1000000000) div freq)
               (store_u64 tp (ticks div freq) (io_memory (ps_io st)))\<rparr>\<rparr>))"

text \<open>
  \<^verbatim>\<open>nanosleep\<close>: the result is the return value together with what the scheduler did to the trap frame.
\<close>

definition lettuce_kernel_sys_nanosleep ::
  "u64 \<Rightarrow> u64 \<Rightarrow> LettuceTrapFrame option \<Rightarrow> u64 \<Rightarrow> io_state \<Rightarrow> machine \<Rightarrow> s64 \<times> trap_flow \<times> machine" where
  "lettuce_kernel_sys_nanosleep req rem trap_frame freq io m =
     (if req = 0 then (- EFAULT, Continue trap_frame, m)
      else let tv_sec = load_u64 (io_memory io) req; tv_nsec = load_u64 (io_memory io) (req + 8) in
      if sint tv_nsec < 0 \<or> sint tv_nsec \<ge> 1000000000 then (- EINVAL, Continue trap_frame, m)
      else if in_kernel_range req then (- EFAULT, Continue trap_frame, m)
      else let delta_ticks = tv_sec * freq + (tv_nsec * freq) div 1000000000
           in (0, lettuce_scheduler_sleep_current delta_ticks trap_frame m))"

section \<open>EL0 wrappers\<close>

text \<open>
  The supervisor call is a parameter: it receives the argument registers that the wrapper sets, the
  call number of \<^verbatim>\<open>x8\<close> and the state, and returns \<^verbatim>\<open>x0\<close>. \<^verbatim>\<open>errno\<close> is a static variable of the runtime.
\<close>

type_synonym 's supervisor_call = "u64 list \<Rightarrow> u64 \<Rightarrow> 's \<Rightarrow> s64 \<times> 's"

abbreviation LETTUCE_SYS_WRITE :: u64 where "LETTUCE_SYS_WRITE \<equiv> 1"
abbreviation LETTUCE_SYS_READ :: u64 where "LETTUCE_SYS_READ \<equiv> 2"
abbreviation LETTUCE_SYS_CLOSE :: u64 where "LETTUCE_SYS_CLOSE \<equiv> 3"
abbreviation LETTUCE_SYS_GETPID :: u64 where "LETTUCE_SYS_GETPID \<equiv> 4"
abbreviation LETTUCE_SYS_CLOCK_GETTIME :: u64 where "LETTUCE_SYS_CLOCK_GETTIME \<equiv> 5"
abbreviation LETTUCE_SYS_NANOSLEEP :: u64 where "LETTUCE_SYS_NANOSLEEP \<equiv> 6"

definition lettuce_syscall0 :: "'s supervisor_call \<Rightarrow> u64 \<Rightarrow> 's \<Rightarrow> s64 \<times> 's" where
  "lettuce_syscall0 svc sys_no s = svc [] sys_no s"
definition lettuce_syscall1 :: "'s supervisor_call \<Rightarrow> u64 \<Rightarrow> u64 \<Rightarrow> 's \<Rightarrow> s64 \<times> 's" where
  "lettuce_syscall1 svc sys_no arg0 s = svc [arg0] sys_no s"
definition lettuce_syscall2 :: "'s supervisor_call \<Rightarrow> u64 \<Rightarrow> u64 \<Rightarrow> u64 \<Rightarrow> 's \<Rightarrow> s64 \<times> 's" where
  "lettuce_syscall2 svc sys_no arg0 arg1 s = svc [arg0, arg1] sys_no s"
definition lettuce_syscall3 :: "'s supervisor_call \<Rightarrow> u64 \<Rightarrow> u64 \<Rightarrow> u64 \<Rightarrow> u64 \<Rightarrow> 's \<Rightarrow> s64 \<times> 's" where
  "lettuce_syscall3 svc sys_no arg0 arg1 arg2 s = svc [arg0, arg1, arg2] sys_no s"

definition lettuce_write :: "'s supervisor_call \<Rightarrow> s32 \<Rightarrow> u64 \<Rightarrow> u64 \<Rightarrow> s32 \<times> 's \<Rightarrow> s64 \<times> s32 \<times> 's" where
  "lettuce_write svc fd buf count es =
     (let (res, s) = lettuce_syscall3 svc LETTUCE_SYS_WRITE (scast fd) buf count (snd es)
      in if sint res < 0 then (- 1, ucast (- res), s) else (res, fst es, s))"

definition lettuce_read :: "'s supervisor_call \<Rightarrow> s32 \<Rightarrow> u64 \<Rightarrow> u64 \<Rightarrow> s32 \<times> 's \<Rightarrow> s64 \<times> s32 \<times> 's" where
  "lettuce_read svc fd buf count es =
     (let (res, s) = lettuce_syscall3 svc LETTUCE_SYS_READ (scast fd) buf count (snd es)
      in if sint res < 0 then (- 1, ucast (- res), s) else (res, fst es, s))"

definition lettuce_close :: "'s supervisor_call \<Rightarrow> s32 \<Rightarrow> s32 \<times> 's \<Rightarrow> s32 \<times> s32 \<times> 's" where
  "lettuce_close svc fd es =
     (let (res, s) = lettuce_syscall1 svc LETTUCE_SYS_CLOSE (scast fd) (snd es)
      in if sint res < 0 then (- 1, ucast (- res), s) else (0, fst es, s))"

definition lettuce_getpid :: "'s supervisor_call \<Rightarrow> s32 \<times> 's \<Rightarrow> s32 \<times> s32 \<times> 's" where
  "lettuce_getpid svc es =
     (let (res, s) = lettuce_syscall0 svc LETTUCE_SYS_GETPID (snd es) in (ucast res, fst es, s))"

definition lettuce_clock_gettime :: "'s supervisor_call \<Rightarrow> s32 \<Rightarrow> u64 \<Rightarrow> s32 \<times> 's \<Rightarrow> s32 \<times> s32 \<times> 's" where
  "lettuce_clock_gettime svc clk_id tp es =
     (let (res, s) = lettuce_syscall2 svc LETTUCE_SYS_CLOCK_GETTIME (scast clk_id) tp (snd es)
      in if sint res < 0 then (- 1, ucast (- res), s) else (0, fst es, s))"

definition lettuce_nanosleep :: "'s supervisor_call \<Rightarrow> u64 \<Rightarrow> u64 \<Rightarrow> s32 \<times> 's \<Rightarrow> s32 \<times> s32 \<times> 's" where
  "lettuce_nanosleep svc req rem es =
     (let (res, s) = lettuce_syscall2 svc LETTUCE_SYS_NANOSLEEP req rem (snd es)
      in if sint res < 0 then (- 1, ucast (- res), s) else (0, fst es, s))"

section \<open>Loads and stores\<close>

lemma upt_8: "[0..<8] = [0, 1, 2, 3, 4, 5, 6, 7]"
  by (simp add: upt_rec)

lemma store_u64_byte:
  assumes "i < 8"
  shows "store_u64 a v mem (a + of_nat i) = ucast (drop_bit (8 * i) v)"
proof -
  have "i \<in> {0, 1, 2, 3, 4, 5, 6, 7}" using assms by auto
  then show ?thesis by (elim insertE) (simp_all add: store_u64_def upt_8)
qed

lemma store_u64_other:
  assumes "\<And>i. i < 8 \<Longrightarrow> b \<noteq> a + of_nat i"
  shows "store_u64 a v mem b = mem b"
proof -
  have "fold (\<lambda>i m. m(a + of_nat i := ucast (drop_bit (8 * i) v))) is mem b = mem b" if "\<forall>i \<in> set is. i < 8" for "is" mem
    using that assms by (induction "is" arbitrary: mem) simp_all
  from this [of "[0..<8]" mem] show ?thesis by (simp add: store_u64_def)
qed

lemma load_u64_bit:
  "bit (load_u64 mem a) n \<longleftrightarrow> n < 64 \<and> bit (mem (a + of_nat (n div 8))) (n mod 8)"
proof -
  have "bit (fold (\<lambda>i v. v OR push_bit (8 * i) (ucast (mem (a + of_nat i)))) is w) n \<longleftrightarrow>
      bit w n \<or> n < 64 \<and> (\<exists>i \<in> set is. 8 * i \<le> n \<and> bit (mem (a + of_nat i)) (n - 8 * i))" for "is" and w :: u64
    by (induction "is" arbitrary: w) (auto simp: bit_simps)
  moreover have "(\<exists>i \<in> set [0..<8]. 8 * i \<le> n \<and> bit (mem (a + of_nat i)) (n - 8 * i)) \<longleftrightarrow> bit (mem (a + of_nat (n div 8))) (n mod 8)"
    if "n < 64"
  proof
    assume "\<exists>i \<in> set [0..<8]. 8 * i \<le> n \<and> bit (mem (a + of_nat i)) (n - 8 * i)"
    then obtain i where i: "8 * i \<le> n" "bit (mem (a + of_nat i)) (n - 8 * i)" by blast
    have "n - 8 * i < 8" using i(2) bit_imp_le_length [OF i(2)] by simp
    moreover obtain d where d: "n = d + 8 * i" using i(1) le_add_diff_inverse2 by metis
    ultimately have "i = n div 8" "n - 8 * i = n mod 8" by simp_all
    then show "bit (mem (a + of_nat (n div 8))) (n mod 8)" using i(2) by simp
  next
    assume b: "bit (mem (a + of_nat (n div 8))) (n mod 8)"
    have "n div 8 \<in> set [0..<8]" "8 * (n div 8) \<le> n" "n - 8 * (n div 8) = n mod 8"
      using that by (simp_all add: less_mult_imp_div_less minus_mult_div_eq_mod)
    then show "\<exists>i \<in> set [0..<8]. 8 * i \<le> n \<and> bit (mem (a + of_nat i)) (n - 8 * i)" using b by metis
  qed
  ultimately show ?thesis by (auto simp: load_u64_def)
qed

lemma load_store_u64: "load_u64 (store_u64 a v mem) a = v"
proof (rule bit_eqI)
  fix n
  assume "possible_bit TYPE(u64) n"
  then have n: "n < 64" by simp
  have "bit (load_u64 (store_u64 a v mem) a) n \<longleftrightarrow> bit (ucast (drop_bit (8 * (n div 8)) v) :: u8) (n mod 8)"
    using n store_u64_byte [of "n div 8" a v mem] by (simp add: load_u64_bit)
  also have "\<dots> \<longleftrightarrow> bit v (8 * (n div 8) + n mod 8)" by (simp add: bit_simps)
  finally show "bit (load_u64 (store_u64 a v mem) a) n \<longleftrightarrow> bit v n" by simp
qed

lemma word_offset_neq: "i < 8 \<Longrightarrow> j < 8 \<Longrightarrow> (a :: u64) + of_nat i \<noteq> a + 8 + of_nat j"
proof
  assume ij: "i < 8" "j < 8" and "a + of_nat i = a + 8 + of_nat j"
  then have "(of_nat i :: u64) = of_nat (8 + j)" by (simp add: add.assoc)
  then have "unat (of_nat i :: u64) = unat (of_nat (8 + j) :: u64)" by (rule arg_cong)
  then show False using ij by (simp only: unat_of_nat) simp
qed

lemma load_store_above: "load_u64 (store_u64 (a + 8) v mem) a = load_u64 mem a"
proof (rule bit_eqI)
  fix n
  assume "possible_bit TYPE(u64) n"
  then have "n div 8 < 8" by (simp add: less_mult_imp_div_less)
  then have "store_u64 (a + 8) v mem (a + of_nat (n div 8)) = mem (a + of_nat (n div 8))"
    by (intro store_u64_other word_offset_neq)
  then show "bit (load_u64 (store_u64 (a + 8) v mem) a) n \<longleftrightarrow> bit (load_u64 mem a) n" by (simp add: load_u64_bit)
qed

section \<open>Descriptors\<close>

text \<open>The table as initialised; no operation of the standard descriptors changes it.\<close>

definition std_fds :: "posix_state \<Rightarrow> bool" where
  "std_fds st \<longleftrightarrow> g_fd_table st = g_fd_table (lettuce_fd_table_init st)"

lemma std_fds_init: "std_fds (lettuce_fd_table_init st)"
  by (simp add: std_fds_def lettuce_fd_table_init_def)

lemma std_fds_io [simp]: "std_fds (st\<lparr>ps_io := io\<rparr>) = std_fds st"
  by (simp add: std_fds_def lettuce_fd_table_init_def)

lemma fd_get_std:
  assumes "std_fds st"
  shows "lettuce_fd_get st fd =
    (if fd = 0 then Some (unused_fd\<lparr>fd_type := LETTUCE_FD_TYPE_CONSOLE_IN, fd_ops := Some g_console_in_ops\<rparr>)
     else if fd = 1 then Some (unused_fd\<lparr>fd_type := LETTUCE_FD_TYPE_CONSOLE_OUT, fd_ops := Some g_console_out_ops\<rparr>)
     else if fd = 2 then Some (unused_fd\<lparr>fd_type := LETTUCE_FD_TYPE_CONSOLE_ERR, fd_ops := Some g_console_out_ops\<rparr>)
     else None)"
proof -
  have small: "sint fd = int (unat fd)" if "unat fd < 16"
  proof -
    have u: "uint fd = int (unat fd)" by simp
    have "0 \<le> int (unat fd)" "int (unat fd) < 16" using that by linarith+
    then have "signed_take_bit 31 (int (unat fd)) = int (unat fd)"
      by - (rule signed_take_bit_int_eq_self, simp_all del: of_nat_unat)
    then show ?thesis by (simp only: sint_uint u) simp
  qed
  have eq: "fd = 0 \<longleftrightarrow> unat fd = 0" "fd = 1 \<longleftrightarrow> unat fd = 1" "fd = 2 \<longleftrightarrow> unat fd = 2"
    by (simp_all add: word_unat_eq_iff)
  show ?thesis
    using assms small unfolding eq
    by (auto simp: lettuce_fd_get_def std_fds_def lettuce_fd_table_init_def LETTUCE_MAX_FDS_def unused_fd_def nth_list_update
        split: if_splits)
qed

lemma console_write_appends:
  "fold (\<lambda>i out. lettuce_arch_console_putc (f i) out) is out = out @ map f is"
  by (rule fold_putc_map)

section \<open>Properties\<close>

text \<open>
  What writing does with the standard descriptors, on every branch: nothing for an empty buffer; EFAULT
  for a NULL buffer or one that starts in kernel memory; for descriptors 1 and 2 exactly the bytes of
  the buffer go to the console in order and their number is returned; EBADF for every other
  descriptor. Errors change nothing, and the descriptor table is never changed.
\<close>

lemma posix_write_spec:
  assumes std: "std_fds st" and run: "lettuce_kernel_sys_write fd buf count st = (res, st')"
  shows "std_fds st' \<and>
    (if count = 0 then res = 0 \<and> st' = st
     else if buf = 0 \<or> in_kernel_range buf then res = - EFAULT \<and> st' = st
     else if fd = 1 \<or> fd = 2 then res = count \<and>
       st' = st\<lparr>ps_io := (ps_io st)\<lparr>io_console := io_console (ps_io st) @
         map (\<lambda>i. char_of (unat (io_memory (ps_io st) (buf + of_nat i)))) [0..<unat count]\<rparr>\<rparr>
     else res = - EBADF \<and> st' = st)"
  using assms
  by (auto simp: lettuce_kernel_sys_write_def fd_get_std g_console_in_ops_def g_console_out_ops_def console_write_op_def
      console_write_appends word_gt_0 split: if_splits)

definition demo_posix :: posix_state where
  "demo_posix = lettuce_fd_table_init \<lparr>g_fd_table = [], ps_io = \<lparr>io_console = ''hi'', io_memory = (\<lambda>a. if a < KERNEL_MEM_START then 65 else 66)\<rparr>\<rparr>"

text \<open>
  Only the first address of a buffer is checked against kernel memory. A write of two bytes from the last
  address below it is accepted and prints the first byte of kernel memory.
\<close>

theorem posix_write_leaks_kernel_byte:
  "\<exists>st'. lettuce_kernel_sys_write 1 (KERNEL_MEM_START - 1) 2 (lettuce_fd_table_init st) = (2, st') \<and>
     io_console (ps_io st') = io_console (ps_io st) @
       [char_of (unat (io_memory (ps_io st) (KERNEL_MEM_START - 1))), char_of (unat (io_memory (ps_io st) KERNEL_MEM_START))]"
proof -
  have io: "ps_io (lettuce_fd_table_init st) = ps_io st" by (simp add: lettuce_fd_table_init_def)
  have two: "[0..<2] = [0, Suc 0]" by (simp add: upt_rec)
  have "(KERNEL_MEM_START - 1 :: u64) \<noteq> 0" "\<not> in_kernel_range (KERNEL_MEM_START - 1)" by (simp_all add: in_kernel_range_def)
  then show ?thesis
    by (simp add: lettuce_kernel_sys_write_def fd_get_std [OF std_fds_init] g_console_out_ops_def console_write_op_def
        lettuce_arch_console_putc_def io two)
qed

lemma nsec_div:
  assumes "0 < freq" "unat freq \<le> 18446744073"
  shows "unat ((t mod freq) * 1000000000 div freq :: u64) = (unat t mod unat freq) * 1000000000 div unat freq"
    "(unat t mod unat freq) * 1000000000 div unat freq < 1000000000"
proof -
  have f: "0 < unat freq" using assms(1) by (simp add: word_less_nat_alt)
  have lt: "unat t mod unat freq < unat freq" using f by simp
  then have "(unat t mod unat freq) * 1000000000 < 2 ^ 64" using assms(2) by simp
  then show "unat ((t mod freq) * 1000000000 div freq) = (unat t mod unat freq) * 1000000000 div unat freq"
    by (simp add: unat_div_distrib unat_word_ariths unat_mod_distrib)
  show "(unat t mod unat freq) * 1000000000 div unat freq < 1000000000"
    using lt f by (simp add: div_less_iff_less_mult mult.commute)
qed

text \<open>
  The monotonic clock. For a counter frequency of at most 18.4 GHz and a user pointer the call succeeds
  and stores seconds and nanoseconds with 0 <= nanoseconds < 10^9 that do not exceed the counter's
  time; a later counter value never gives an earlier time.
\<close>

theorem clock_gettime_monotonic:
  assumes freq: "0 < freq" "unat freq \<le> 18446744073" and tp: "tp \<noteq> 0" "\<not> in_kernel_range tp" and le: "t1 \<le> t2"
    and run: "lettuce_kernel_sys_clock_gettime CLOCK_MONOTONIC tp t1 freq st = (r1, st1)"
      "lettuce_kernel_sys_clock_gettime CLOCK_MONOTONIC tp t2 freq st = (r2, st2)"
  shows "r1 = 0 \<and> r2 = 0 \<and>
    (let sec1 = unat (load_u64 (io_memory (ps_io st1)) tp); nsec1 = unat (load_u64 (io_memory (ps_io st1)) (tp + 8));
         sec2 = unat (load_u64 (io_memory (ps_io st2)) tp); nsec2 = unat (load_u64 (io_memory (ps_io st2)) (tp + 8))
     in sec1 = unat t1 div unat freq \<and> nsec1 < 1000000000 \<and> nsec2 < 1000000000 \<and>
        (sec1 * 1000000000 + nsec1) * unat freq \<le> unat t1 * 1000000000 \<and>
        sec1 * 1000000000 + nsec1 \<le> sec2 * 1000000000 + nsec2)"
proof -
  have f: "0 < unat freq" using freq(1) by (simp add: word_less_nat_alt)
  have nz: "freq \<noteq> 0" using freq(1) by auto
  let ?s = "\<lambda>t. unat t div unat freq" and ?n = "\<lambda>t. (unat t mod unat freq) * 1000000000 div unat freq"
  have st: "unat (load_u64 (io_memory (ps_io (snd (lettuce_kernel_sys_clock_gettime CLOCK_MONOTONIC tp t freq st)))) tp) = ?s t"
      "unat (load_u64 (io_memory (ps_io (snd (lettuce_kernel_sys_clock_gettime CLOCK_MONOTONIC tp t freq st)))) (tp + 8)) = ?n t"
      "fst (lettuce_kernel_sys_clock_gettime CLOCK_MONOTONIC tp t freq st) = 0" for t
    using tp nz nsec_div(1) [OF freq, of t]
    by (simp_all add: lettuce_kernel_sys_clock_gettime_def load_store_u64 load_store_above unat_div_distrib)
  have total: "?s t * 1000000000 + ?n t = unat t * 1000000000 div unat freq" for t
  proof -
    have e: "unat freq * ?s t + unat t mod unat freq = unat t" by simp
    have "unat t * 1000000000 = (unat freq * ?s t + unat t mod unat freq) * 1000000000" by (simp only: e)
    also have "\<dots> = (unat t mod unat freq) * 1000000000 + unat freq * (?s t * 1000000000)" by (simp only: algebra_simps)
    finally show ?thesis using f by simp
  qed
  have "?s t1 * 1000000000 + ?n t1 \<le> ?s t2 * 1000000000 + ?n t2"
    unfolding total using le by (intro div_le_mono) (simp add: word_le_nat_alt)
  moreover have "(?s t1 * 1000000000 + ?n t1) * unat freq \<le> unat t1 * 1000000000" unfolding total by simp
  ultimately show ?thesis
    using st [of t1] st [of t2] run nsec_div(2) [OF freq] by (simp add: Let_def)
qed

lemma clock_gettime_monotonic_witness:
  "fst (lettuce_kernel_sys_clock_gettime CLOCK_MONOTONIC 0x3000 5 2 demo_posix) = 0 \<and>
   unat (load_u64 (io_memory (ps_io (snd (lettuce_kernel_sys_clock_gettime CLOCK_MONOTONIC 0x3000 5 2 demo_posix)))) 0x3000) = 2"
proof -
  obtain r1 st1 where r1: "lettuce_kernel_sys_clock_gettime CLOCK_MONOTONIC 0x3000 5 2 demo_posix = (r1, st1)" by fastforce
  obtain r2 st2 where r2: "lettuce_kernel_sys_clock_gettime CLOCK_MONOTONIC 0x3000 7 2 demo_posix = (r2, st2)" by fastforce
  show ?thesis
    using clock_gettime_monotonic [OF _ _ _ _ _ r1 r2] r1 by (simp add: in_kernel_range_def Let_def)
qed

end
