(* ===== verification/Sched_Events.thy ===== *)
theory Sched_Events
  imports Scheduler
begin

text \<open>
  Sequences of scheduler events: timer ticks, yields, sleeps, the control calls of
  \<^verbatim>\<open>scheduler.c\<close>, and creation and termination of tasks. The invariant of the scheduler state holds
  along every sequence; contexts survive it; the theory ends with what the scheduler guarantees and
  with the cases in which it does not do what its comments say.
\<close>

section \<open>Sequences of scheduler events\<close>

datatype sched_event =
    EvTick LettuceTrapFrame
  | EvYield LettuceTrapFrame
  | EvSleep u64 LettuceTrapFrame
  | EvTimer
  | EvStart
  | EvStop
  | EvLimit u64
  | EvPolicy LettuceSchedPolicyType
  | EvCreate service_id domain_id u64 u64 u64
  | EvTerminate u32

definition on_tasks :: "(task_state \<Rightarrow> task_state) \<Rightarrow> machine \<Rightarrow> machine" where
  "on_tasks f m = m\<lparr>mc_policy := (mc_policy m)\<lparr>ps_tasks := f (ps_tasks (mc_policy m))\<rparr>\<rparr>"

fun sched_step :: "sched_event \<Rightarrow> machine \<Rightarrow> trap_flow \<times> machine" where
  "sched_step (EvTick tf) m = lettuce_scheduler_tick (Some tf) m"
| "sched_step (EvYield tf) m = lettuce_scheduler_yield (Some tf) m"
| "sched_step (EvSleep n tf) m = lettuce_scheduler_sleep_current n (Some tf) m"
| "sched_step EvTimer m = (Continue None, m\<lparr>mc_timer := lettuce_timer_irq_handler (mc_timer m)\<rparr>)"
| "sched_step EvStart m = (Continue None, lettuce_scheduler_start m)"
| "sched_step EvStop m = (Continue None, lettuce_scheduler_stop m)"
| "sched_step (EvLimit n) m = (Continue None, lettuce_scheduler_set_preempt_limit n m)"
| "sched_step (EvPolicy p) m = (Continue None, lettuce_scheduler_set_policy p m)"
| "sched_step (EvCreate sid did pc sp nm) m =
     (Continue None, on_tasks (\<lambda>ts. snd (lettuce_task_create sid did pc sp nm ts)) m)"
| "sched_step (EvTerminate tid) m = (Continue None, on_tasks (lettuce_task_terminate tid) m)"

fun event_ok :: "sched_event \<Rightarrow> bool" where
  "event_ok (EvTick tf) = frame_ok tf"
| "event_ok (EvYield tf) = frame_ok tf"
| "event_ok (EvSleep n tf) = frame_ok tf"
| "event_ok e = True"

definition sched_run :: "sched_event list \<Rightarrow> machine \<Rightarrow> machine" where
  "sched_run es m = fold (\<lambda>e m. snd (sched_step e m)) es m"

abbreviation running_task :: "machine \<Rightarrow> task_ptr" where
  "running_task m \<equiv> pcur (mc_policy m)"

text \<open>The task in a slot, without the accounting fields of the policies.\<close>

definition task_of :: "machine \<Rightarrow> nat \<Rightarrow> LettuceTask" where
  "task_of m i = erase_accounting (ptask (mc_policy m) i)"

lemma task_of_view: "sched_inv m \<Longrightarrow> i < LETTUCE_MAX_TASKS \<Longrightarrow> erased (mc_policy m) ! i = task_of m i"
  using sched_inv_view(1) [of m] by (simp add: task_of_def erased_nth)

lemma do_schedule_inactive: "\<not> g_scheduler_active m \<Longrightarrow> do_schedule p pre m = (Continue p, m)"
  by (simp add: do_schedule_def)

lemma do_schedule_inv:
  assumes inv: "sched_inv m" and tf: "frame_ok tf" and run: "do_schedule (Some tf) pre m = (flow, m')"
  shows "sched_inv m'"
proof (cases "g_scheduler_active m")
  case True
  obtain tf' where d: "dispatch tf (map (wake_task (g_timer_ticks (mc_timer m))) (erased (mc_policy m)), running_task m) tf' (sched_view_of m')"
    and e: "if running_task m' = running_task m then tf' = tf \<and> flow = Continue (Some tf) \<and> m' = m\<lparr>mc_policy := mc_policy m'\<rparr>
      else hand_over_effect (the (running_task m')) pre m flow m' tf'"
    and o: "g_policy_ops m' = g_policy_ops m"
    by (rule do_schedule_step [OF inv True run])
  have "view_ok (sched_view_of m')" by (rule dispatch_ok [OF d view_ok_wake [OF sched_inv_view(3) [OF inv]] tf])
  moreover have "g_switch_count m' = g_same_domain_switches m' + g_cross_domain_switches m'"
  proof (cases "running_task m' = running_task m")
    case True
    then have "m' = m\<lparr>mc_policy := mc_policy m'\<rparr>" using e by simp
    then show ?thesis using inv unfolding sched_inv_def by (metis machine.select_convs(7,9,10) machine.surjective machine.update_convs(5))
  next
    case False
    then show ?thesis using e inv by (simp add: hand_over_effect_def sched_inv_def Let_def)
  qed
  ultimately show ?thesis using inv o by (simp add: sched_inv_def)
next
  case False
  then show ?thesis using run inv by (simp add: do_schedule_inactive)
qed

text \<open>The state in which the scheduling decision of an event starts.\<close>

definition event_prepare :: "sched_event \<Rightarrow> machine \<Rightarrow> machine" where
  "event_prepare e m =
     (case (e, running_task m) of
        (EvYield tf, Some c) \<Rightarrow> m\<lparr>mc_policy := upd_ptask c (\<lambda>t. t\<lparr>t_time_slice_ticks := 0\<rparr>) (mc_policy m)\<rparr>
      | (EvSleep n tf, Some c) \<Rightarrow> m\<lparr>mc_policy := po_on_task_sleep (g_policy_ops m) (Some c)
          (upd_ptask c (\<lambda>t. t\<lparr>t_sleep_deadline_ticks := lettuce_timer_get_ticks (mc_timer m) + n,
             t_state := LETTUCE_TASK_STATE_SLEEPING\<rparr>) (mc_policy m))\<rparr>
      | _ \<Rightarrow> m)"

lemma prepare_fields [simp]:
  "g_switch_count (event_prepare e m) = g_switch_count m" "g_same_domain_switches (event_prepare e m) = g_same_domain_switches m"
  "g_cross_domain_switches (event_prepare e m) = g_cross_domain_switches m" "g_policy_ops (event_prepare e m) = g_policy_ops m"
  "mc_timer (event_prepare e m) = mc_timer m" "mc_mmu (event_prepare e m) = mc_mmu m" "mc_kernel (event_prepare e m) = mc_kernel m"
  "g_scheduler_active (event_prepare e m) = g_scheduler_active m" "g_preempt_count (event_prepare e m) = g_preempt_count m"
  "g_preempt_limit (event_prepare e m) = g_preempt_limit m"
  by (simp_all add: event_prepare_def split: sched_event.split option.split)

lemma prepare_view:
  assumes "sched_inv m"
  shows "running_task (event_prepare e m) = running_task m"
    and "erased (mc_policy (event_prepare e m)) =
      (case (e, running_task m) of
         (EvSleep n tf, Some c) \<Rightarrow> (erased (mc_policy m))[c := (erased (mc_policy m) ! c)
           \<lparr>t_sleep_deadline_ticks := g_timer_ticks (mc_timer m) + n, t_state := LETTUCE_TASK_STATE_SLEEPING\<rparr>]
       | _ \<Rightarrow> erased (mc_policy m))"
proof -
  let ?f = "\<lambda>n t. t\<lparr>t_sleep_deadline_ticks := g_timer_ticks (mc_timer m) + n, t_state := LETTUCE_TASK_STATE_SLEEPING\<rparr>"
  have u: "erased (upd_ptask c (?f n) s) = (erased s)[c := ?f n (erased s ! c)]"
      "erased (upd_ptask c (\<lambda>t. t\<lparr>t_time_slice_ticks := 0\<rparr>) s) = (erased s)[c := erased s ! c]" for c n s
    by (rule erased_upd; simp add: erase_accounting_def)+
  note hooks = sched_policy.hook_views(5,6) [OF installed_policy [OF assms]]
  show "running_task (event_prepare e m) = running_task m"
    by (simp add: event_prepare_def hooks split: sched_event.split option.split)
  show "erased (mc_policy (event_prepare e m)) =
      (case (e, running_task m) of
         (EvSleep n tf, Some c) \<Rightarrow> (erased (mc_policy m))[c := (erased (mc_policy m) ! c)
           \<lparr>t_sleep_deadline_ticks := g_timer_ticks (mc_timer m) + n, t_state := LETTUCE_TASK_STATE_SLEEPING\<rparr>]
       | _ \<Rightarrow> erased (mc_policy m))"
    by (simp add: event_prepare_def hooks u lettuce_timer_get_ticks_def split: sched_event.split option.split)
qed

lemma prepare_inv:
  assumes "sched_inv m"
  shows "sched_inv (event_prepare e m)"
proof -
  note v = sched_inv_view(3) [OF assms]
  have "view_ok (sched_view_of (event_prepare e m))"
    unfolding sched_view_of_def prepare_view [OF assms]
  proof (cases e; cases "running_task m"; simp only: prod.case sched_event.case option.case v)
    fix n tf c
    assume c: "running_task m = Some c"
    let ?ts = "erased (mc_policy m)" and ?f = "\<lambda>t. t\<lparr>t_sleep_deadline_ticks := g_timer_ticks (mc_timer m) + n, t_state := LETTUCE_TASK_STATE_SLEEPING\<rparr>"
    note d = view_okD [OF v]
    have cs: "c < LETTUCE_MAX_TASKS" "task_ok c (?ts ! c)" "\<not> task_slot_reusable (?ts ! c)" using d(2,3,5) c by blast+
    show "view_ok (?ts[c := ?f (?ts ! c)], Some c)"
    proof (rule view_okI)
      fix i assume i: "i < LETTUCE_MAX_TASKS"
      show "task_ok i (?ts[c := ?f (?ts ! c)] ! i)"
        using cs d(1) d(2) [OF i] by (cases "i = c") (simp_all add: task_ok_def task_slot_reusable_def del: length_erased)
      show "Some c = Some i" if "t_state (?ts[c := ?f (?ts ! c)] ! i) = LETTUCE_TASK_STATE_RUNNING"
        using that d(4) [OF i] c cs d(1) by (cases "i = c") (auto simp del: length_erased)
    qed (use cs d(1) in \<open>auto simp: task_slot_reusable_def simp del: length_erased\<close>)
  qed (use v in simp_all)
  then show ?thesis using assms by (simp add: sched_inv_def)
qed

fun event_frame :: "sched_event \<Rightarrow> LettuceTrapFrame option" where
  "event_frame (EvTick tf) = Some tf"
| "event_frame (EvYield tf) = Some tf"
| "event_frame (EvSleep n tf) = Some tf"
| "event_frame e = None"

text \<open>Creating and terminating tasks, on the view.\<close>

lemma task_inv_sched: "sched_inv m \<Longrightarrow> task_inv (ps_tasks (mc_policy m))"
  unfolding task_inv_def
proof (intro conjI allI impI)
  assume inv: "sched_inv m"
  note v = sched_inv_view [OF inv]
  show "length (g_task_table (ps_tasks (mc_policy m))) = LETTUCE_MAX_TASKS" using v(1) by simp
  fix i
  show "task_ok i (ptask (mc_policy m) i)" if "i < LETTUCE_MAX_TASKS"
    using view_okD(2) [OF v(3) that] erased_nth [of i "mc_policy m"] that v(1) by simp
  show "i < LETTUCE_MAX_TASKS" if "g_current_task (ps_tasks (mc_policy m)) = Some i"
    using v(2) that by (simp add: pcur_def)
qed

lemma on_tasks_fields [simp]:
  "mc_mmu (on_tasks f m) = mc_mmu m" "mc_kernel (on_tasks f m) = mc_kernel m" "g_policy_ops (on_tasks f m) = g_policy_ops m"
  "g_switch_count (on_tasks f m) = g_switch_count m" "g_same_domain_switches (on_tasks f m) = g_same_domain_switches m"
  "g_cross_domain_switches (on_tasks f m) = g_cross_domain_switches m" "mc_timer (on_tasks f m) = mc_timer m"
  by (simp_all add: on_tasks_def)

lemma create_view:
  assumes "sched_inv m" and m'_def: "m' = on_tasks (\<lambda>ts. snd (lettuce_task_create sid did pc sp nm ts)) m"
  shows "sched_view_of m' = sched_view_of m \<or> (\<exists>i < LETTUCE_MAX_TASKS. task_slot_reusable (task_of m i) \<and>
    sched_view_of m' = ((erased (mc_policy m))[i := erase_accounting (fresh_task i sid did pc sp nm (erased (mc_policy m) ! i))], running_task m))"
proof (cases "find_task_slot (g_task_table (ps_tasks (mc_policy m))) 0")
  case None
  then show ?thesis by (simp add: m'_def on_tasks_def sched_view_of_def lettuce_task_create_def)
next
  case (Some i)
  let ?f = "fresh_task i sid did pc sp nm"
  have i: "i < LETTUCE_MAX_TASKS" "task_slot_reusable (ptask (mc_policy m) i)"
    using find_task_slot_bound [OF task_inv_sched [OF assms(1)] Some] by simp_all
  have u: "erased (upd_ptask i ?f s) = (erased s)[i := erase_accounting (?f (erased s ! i))]" for s
    by (rule erased_upd) (simp add: erase_accounting_def fresh_task_def Let_def)
  have "mc_policy m' = upd_ptask i ?f (mc_policy m)"
    using Some by (simp add: m'_def on_tasks_def lettuce_task_create_def upd_ptask_def)
  then have "sched_view_of m' = ((erased (mc_policy m))[i := erase_accounting (?f (erased (mc_policy m) ! i))], running_task m)"
    by (simp add: sched_view_of_def u)
  moreover have "task_slot_reusable (task_of m i)" using i(2) by (simp add: task_of_def task_slot_reusable_def)
  ultimately show ?thesis using i(1) by blast
qed

lemma terminate_view:
  assumes "sched_inv m"
  shows "sched_view_of (on_tasks (lettuce_task_terminate tid) m) =
    (case lettuce_task_get (ps_tasks (mc_policy m)) tid of None \<Rightarrow> sched_view_of m
     | Some i \<Rightarrow> ((erased (mc_policy m))[i := (erased (mc_policy m) ! i)\<lparr>t_state := LETTUCE_TASK_STATE_TERMINATED,
         t_generation := next_generation (t_generation (erased (mc_policy m) ! i))\<rparr>],
         if running_task m = Some i then None else running_task m))"
proof -
  let ?f = "\<lambda>t. t\<lparr>t_state := LETTUCE_TASK_STATE_TERMINATED, t_generation := next_generation (t_generation t)\<rparr>"
  have f: "erase_accounting (?f t) = ?f (erase_accounting t)" for t by (cases t) (simp add: erase_accounting_def)
  have u: "map erase_accounting (g_task_table (upd_task i ?f ts)) =
      (map erase_accounting (g_task_table ts))[i := ?f (map erase_accounting (g_task_table ts) ! i)]" if "i < length (g_task_table ts)" for i ts
    using that f [of "task_at ts i"] by (simp add: upd_task_def map_update)
  have len: "length (g_task_table (ps_tasks (mc_policy m))) = LETTUCE_MAX_TASKS" using sched_inv_view(1) [OF assms] by simp
  show ?thesis
  proof (cases "lettuce_task_get (ps_tasks (mc_policy m)) tid")
    case None
    then show ?thesis by (simp add: on_tasks_def lettuce_task_terminate_def)
  next
    case (Some i)
    then have "i < length (g_task_table (ps_tasks (mc_policy m)))" using task_get_SomeD [OF Some] len by simp
    then show ?thesis
      using Some u [of i "ps_tasks (mc_policy m)"]
      by (simp add: on_tasks_def sched_view_of_def lettuce_task_terminate_def erased_def pcur_def Let_def)
  qed
qed

lemma create_inv:
  assumes "sched_inv m"
  shows "sched_inv (on_tasks (\<lambda>ts. snd (lettuce_task_create sid did pc sp nm ts)) m)"
proof -
  let ?m' = "on_tasks (\<lambda>ts. snd (lettuce_task_create sid did pc sp nm ts)) m" and ?ts = "erased (mc_policy m)"
  note v = sched_inv_view(3) [OF assms] and d = view_okD [OF sched_inv_view(3) [OF assms]]
  from create_view [OF assms refl, of sid did pc sp nm] have "view_ok (sched_view_of ?m')"
  proof (elim disjE exE conjE)
    assume "sched_view_of ?m' = sched_view_of m"
    then show ?thesis using v by (simp add: sched_view_of_def)
  next
    fix i
    assume i: "i < LETTUCE_MAX_TASKS" "task_slot_reusable (task_of m i)"
      and e: "sched_view_of ?m' = (?ts[i := erase_accounting (fresh_task i sid did pc sp nm (?ts ! i))], running_task m)"
    have ne: "running_task m \<noteq> Some i" using d(5) [of i] i task_of_view [OF assms i(1)] by auto
    show ?thesis unfolding e
    proof (rule view_okI)
      fix j
      assume j: "j < LETTUCE_MAX_TASKS"
      show "task_ok j (?ts[i := erase_accounting (fresh_task i sid did pc sp nm (?ts ! i))] ! j)"
        using d(1) d(2) [OF j] fresh_task_ok [OF d(2) [OF j]] i by (cases "j = i") (simp_all del: length_erased)
      show "running_task m = Some j"
        if "t_state (?ts[i := erase_accounting (fresh_task i sid did pc sp nm (?ts ! i))] ! j) = LETTUCE_TASK_STATE_RUNNING"
        using that d(4) [OF j] d(1) i(1) by (cases "j = i") (simp_all add: fresh_task_def Let_def del: length_erased)
    next
      fix c
      assume "running_task m = Some c"
      then show "c < LETTUCE_MAX_TASKS \<and> \<not> task_slot_reusable (?ts[i := erase_accounting (fresh_task i sid did pc sp nm (?ts ! i))] ! c)"
        using d(3,5) ne by auto
    qed (use d(1) in simp)
  qed
  then show ?thesis using assms by (simp add: sched_inv_def)
qed

lemma terminate_inv:
  assumes "sched_inv m"
  shows "sched_inv (on_tasks (lettuce_task_terminate tid) m)"
proof -
  let ?ts = "erased (mc_policy m)"
  note d = view_okD [OF sched_inv_view(3) [OF assms]]
  have "view_ok (sched_view_of (on_tasks (lettuce_task_terminate tid) m))"
  proof (cases "lettuce_task_get (ps_tasks (mc_policy m)) tid")
    case None
    then show ?thesis using assms by (simp add: terminate_view [OF assms] sched_inv_def)
  next
    case (Some i)
    have i: "i < LETTUCE_MAX_TASKS" using task_get_SomeD [OF Some] by simp
    let ?t = "(?ts ! i)\<lparr>t_state := LETTUCE_TASK_STATE_TERMINATED, t_generation := next_generation (t_generation (?ts ! i))\<rparr>"
    show ?thesis unfolding terminate_view [OF assms] Some option.case
    proof (rule view_okI)
      fix j
      assume j: "j < LETTUCE_MAX_TASKS"
      show "task_ok j (?ts[i := ?t] ! j)"
        using d(1) d(2) [OF j] i by (cases "j = i") (simp_all add: task_ok_def task_slot_reusable_def del: length_erased)
      show "(if running_task m = Some i then None else running_task m) = Some j"
        if "t_state (?ts[i := ?t] ! j) = LETTUCE_TASK_STATE_RUNNING"
        using that d(4) [OF j] d(1) i by (cases "j = i") (auto simp del: length_erased)
    next
      fix c
      assume "(if running_task m = Some i then None else running_task m) = Some c"
      then show "c < LETTUCE_MAX_TASKS \<and> \<not> task_slot_reusable (?ts[i := ?t] ! c)"
        using d(3,5) by (auto split: if_splits)
    qed (use d(1) in simp)
  qed
  then show ?thesis using assms by (simp add: sched_inv_def)
qed

text \<open>
  Every event either leaves tasks and current task alone, or is a scheduling decision on the
  prepared state, or creates or terminates a task.
\<close>

fun task_event :: "sched_event \<Rightarrow> bool" where
  "task_event (EvCreate sid did pc sp nm) = True"
| "task_event (EvTerminate tid) = True"
| "task_event e = False"

lemma sched_step_split:
  assumes "sched_step e m = (flow, m')" "sched_inv m" "\<not> task_event e"
  shows "(sched_view_of m' = sched_view_of m \<and> sched_inv m' \<and> mc_mmu m' = mc_mmu m \<and> mc_kernel m' = mc_kernel m \<and>
      flow = Continue (event_frame e)) \<or>
    (\<exists>tf pre. event_frame e = Some tf \<and> do_schedule (Some tf) pre (event_prepare e m) = (flow, m'))"
proof (cases e)
  case (EvTick tf)
  then show ?thesis using assms by (simp add: lettuce_scheduler_tick_def event_prepare_def split: option.splits) blast
next
  case (EvYield tf)
  then show ?thesis using assms
    by (cases "running_task m")
      (auto simp: lettuce_scheduler_yield_def event_prepare_def lettuce_task_current_def pcur_def)
next
  case (EvSleep n tf)
  then show ?thesis using assms
    by (cases "running_task m")
      (auto simp: lettuce_scheduler_sleep_current_def event_prepare_def lettuce_task_current_def pcur_def Let_def)
next
  case (EvPolicy p)
  have "ps_tasks (po_init g_lettuce_sched_rr_ops s) = ps_tasks s" "ps_tasks (po_init g_lettuce_sched_eevdf_ops s) = ps_tasks s" for s
    using round_robin.init_mech eevdf.init_mech by simp_all
  then have "sched_view_of m' = sched_view_of m"
    using EvPolicy assms(1) by (auto simp: lettuce_scheduler_set_policy_def Let_def sched_view_of_def erased_def pcur_def)
  then show ?thesis using EvPolicy assms by (auto simp: lettuce_scheduler_set_policy_def Let_def sched_inv_def)
qed (use assms in \<open>auto simp: sched_view_of_def sched_inv_def lettuce_scheduler_start_def lettuce_scheduler_stop_def
      lettuce_scheduler_set_preempt_limit_def\<close>)

lemma sched_step_inv:
  assumes "sched_inv m" "event_ok e"
  shows "sched_inv (snd (sched_step e m))"
proof -
  obtain flow m' where r: "sched_step e m = (flow, m')" by fastforce
  consider (create) sid did pc sp nm where "e = EvCreate sid did pc sp nm" | (kill) tid where "e = EvTerminate tid" | (other) "\<not> task_event e"
    by (cases e) simp_all
  then have "sched_inv m'"
  proof cases
    case create
    then show ?thesis using r create_inv [OF assms(1)] by auto
  next
    case kill
    then show ?thesis using r terminate_inv [OF assms(1)] by auto
  next
    case other
    from sched_step_split [OF r assms(1) other] show ?thesis
    proof (elim disjE exE conjE)
      fix tf pre
      assume "event_frame e = Some tf" "do_schedule (Some tf) pre (event_prepare e m) = (flow, m')"
      moreover have "frame_ok tf" using assms(2) calculation(1) by (cases e) simp_all
      ultimately show ?thesis using do_schedule_inv [OF prepare_inv [OF assms(1)]] by blast
    qed
  qed
  then show ?thesis using r by simp
qed

lemma sched_run_inv: "sched_inv m \<Longrightarrow> \<forall>e \<in> set es. event_ok e \<Longrightarrow> sched_inv (sched_run es m)"
  unfolding sched_run_def by (induction es arbitrary: m) (simp_all add: sched_step_inv)

section \<open>Tasks that are not running\<close>

lemma dispatch_other:
  assumes "dispatch tf (ts, cur) tf' (ts', cur')" "view_ok (ts, cur)" "c < LETTUCE_MAX_TASKS" "cur \<noteq> Some c"
  shows "(t_context (ts' ! c) = t_context (ts ! c)) \<and>
    (task_slot_reusable (ts ! c) = task_slot_reusable (ts' ! c)) \<and>
    (t_service_id (ts' ! c) = t_service_id (ts ! c)) \<and>
    (t_domain_id (ts' ! c) = t_domain_id (ts ! c)) \<and>
    (t_generation (ts' ! c) = t_generation (ts ! c)) \<and>
    (cur' = Some c \<longrightarrow> tf' = context_frame (t_context (ts ! c))) \<and>
    (cur' = Some c \<longrightarrow> reachable_by_scan (ts ! c)) \<and>
    (cur' \<noteq> Some c \<longrightarrow> ts' ! c = ts ! c)"
  using assms(1)
proof (cases rule: dispatch.cases)
  case stay
  then show ?thesis
    using assms saved_nth [OF assms(2,3), of tf] by (cases cur) (auto simp: renewed_def)
next
  case (hand_over n sv)
  have len: "length sv = LETTUCE_MAX_TASKS" using hand_over view_okD(1) [OF assms(2)] by simp
  have "sv ! c = ts ! c" using hand_over saved_nth [OF assms(2,3), of tf] assms(4) by simp
  then show ?thesis using hand_over len assms(3) by (cases "n = c") (auto simp: task_slot_reusable_def)
qed (use assms in simp_all)

lemma dispatch_current:
  assumes "dispatch tf (ts, Some c) tf' (ts', cur')" "view_ok (ts, Some c)"
  shows "(t_service_id (ts' ! c) = t_service_id (ts ! c)) \<and>
    (t_domain_id (ts' ! c) = t_domain_id (ts ! c)) \<and>
    (t_generation (ts' ! c) = t_generation (ts ! c)) \<and>
    (\<not> task_slot_reusable (ts' ! c)) \<and>
    (cur' \<noteq> Some c \<and> t_state (ts ! c) = LETTUCE_TASK_STATE_RUNNING \<longrightarrow> ts' ! c = (ts ! c)\<lparr>t_context := frame_context tf, t_state := LETTUCE_TASK_STATE_READY\<rparr>) \<and>
    (cur' \<noteq> Some c \<and> t_state (ts ! c) \<noteq> LETTUCE_TASK_STATE_RUNNING \<longrightarrow> ts' ! c = ts ! c)"
  using assms(1)
proof (cases rule: dispatch.cases)
  case go_on
  then show ?thesis using view_okD(5) [OF assms(2)] by simp
next
  case stay
  note c = view_okD(3,5) [OF assms(2) refl] and len = view_okD(1) [OF assms(2)]
  show ?thesis
    using stay c len saved_nth [OF assms(2) c(1), of tf] by (auto simp: renewed_def task_slot_reusable_def)
next
  case (hand_over n sv)
  note c = view_okD(3,5) [OF assms(2) refl] and len = view_okD(1) [OF assms(2)]
  show ?thesis
    using hand_over c len saved_nth [OF assms(2) c(1), of tf] by (auto simp: task_slot_reusable_def)
qed

lemma dispatch_current_some: "dispatch tf (ts, cur) tf' (ts', cur') \<Longrightarrow> cur \<noteq> None \<Longrightarrow> cur' \<noteq> None"
  by (cases rule: dispatch.cases) auto

lemma prepare_other:
  assumes "sched_inv m" "c < LETTUCE_MAX_TASKS" "running_task m \<noteq> Some c"
  shows "task_of (event_prepare e m) c = task_of m c"
proof -
  have "erased (mc_policy (event_prepare e m)) ! c = erased (mc_policy m) ! c"
    using assms(3) unfolding prepare_view(2) [OF assms(1)] by (auto split: sched_event.split option.split)
  then show ?thesis using task_of_view [OF assms(1,2)] task_of_view [OF prepare_inv [OF assms(1)] assms(2)] by simp
qed

lemma prepare_identity:
  assumes "sched_inv m" "i < LETTUCE_MAX_TASKS"
  shows "t_service_id (task_of (event_prepare e m) i) = t_service_id (task_of m i) \<and>
    t_domain_id (task_of (event_prepare e m) i) = t_domain_id (task_of m i) \<and>
    t_context (task_of (event_prepare e m) i) = t_context (task_of m i) \<and>
    t_generation (task_of (event_prepare e m) i) = t_generation (task_of m i) \<and>
    task_slot_reusable (task_of (event_prepare e m) i) = task_slot_reusable (task_of m i)"
proof (cases "running_task m = Some i")
  case False
  then show ?thesis using prepare_other [OF assms] by simp
next
  case True
  have live: "\<not> task_slot_reusable (task_of m i)"
    using view_okD(5) [OF sched_inv_view(3) [OF assms(1)] True] task_of_view [OF assms] by simp
  note tv = task_of_view [OF prepare_inv [OF assms(1)] assms(2), of e, symmetric]
  show ?thesis
    using True live assms(2) sched_inv_view(1) [OF assms(1)] task_of_view [OF assms]
    unfolding tv prepare_view(2) [OF assms(1)] by (cases e) (simp_all add: task_slot_reusable_def del: length_erased)
qed

text \<open>One scheduling decision, from the point of view of a task that is not the current one.\<close>

lemma do_schedule_other:
  assumes inv: "sched_inv m" and tf: "frame_ok tf" and run: "do_schedule (Some tf) pre m = (flow, m')"
    and c: "c < LETTUCE_MAX_TASKS" "running_task m \<noteq> Some c"
  shows "(t_context (task_of m' c) = t_context (task_of m c)) \<and>
    (task_slot_reusable (task_of m' c) = task_slot_reusable (task_of m c)) \<and>
    (t_service_id (task_of m' c) = t_service_id (task_of m c)) \<and>
    (t_domain_id (task_of m' c) = t_domain_id (task_of m c)) \<and>
    (t_generation (task_of m' c) = t_generation (task_of m c)) \<and>
    (running_task m' = Some c \<and> flow = Continue (Some f') \<longrightarrow> f' = context_frame (t_context (task_of m c))) \<and>
    (running_task m' = Some c \<longrightarrow> reachable_by_scan (task_of m c)) \<and>
    (running_task m' \<noteq> Some c \<and> g_scheduler_active m \<longrightarrow> task_of m' c = wake_task (g_timer_ticks (mc_timer m)) (task_of m c))"
proof (cases "g_scheduler_active m")
  case False
  then show ?thesis using run c by (simp add: do_schedule_inactive)
next
  case True
  let ?ts = "map (wake_task (g_timer_ticks (mc_timer m))) (erased (mc_policy m))"
  obtain tf' where d: "dispatch tf (?ts, running_task m) tf' (sched_view_of m')"
    and e: "if running_task m' = running_task m then tf' = tf \<and> flow = Continue (Some tf) \<and> m' = m\<lparr>mc_policy := mc_policy m'\<rparr>
      else hand_over_effect (the (running_task m')) pre m flow m' tf'"
    by (rule do_schedule_step [OF inv True run])
  note ok = view_ok_wake [OF sched_inv_view(3) [OF inv]]
  have t: "?ts ! c = wake_task (g_timer_ticks (mc_timer m)) (task_of m c)"
    using task_of_view [OF inv c(1)] sched_inv_view(1) [OF inv] c(1) by simp
  have t': "erased (mc_policy m') ! c = task_of m' c" by (rule task_of_view [OF do_schedule_inv [OF inv tf run] c(1)])
  have fl: "f' = tf'" if "running_task m' = Some c" "flow = Continue (Some f')"
    using e that c(2) by (auto simp: hand_over_effect_def Let_def split: if_splits)
  show ?thesis
    using dispatch_other [OF d [unfolded sched_view_of_def] ok c] fl
    by (auto simp: t t' reachable_by_scan_def)
qed

lemma do_schedule_some:
  assumes "sched_inv m" "do_schedule (Some tf) pre m = (flow, m')" "running_task m \<noteq> None"
  shows "running_task m' \<noteq> None"
proof (cases "g_scheduler_active m")
  case True
  obtain tf' where "dispatch tf (map (wake_task (g_timer_ticks (mc_timer m))) (erased (mc_policy m)), running_task m) tf' (sched_view_of m')"
    by (rule do_schedule_step [OF assms(1) True assms(2)])
  then show ?thesis using dispatch_current_some assms(3) unfolding sched_view_of_def by blast
next
  case False
  then show ?thesis using assms(2,3) do_schedule_inactive [OF False] by auto
qed

text \<open>An event that does not terminate the task in slot \<^term>\<open>c\<close>.\<close>

fun spares :: "nat \<Rightarrow> sched_event \<Rightarrow> bool" where
  "spares c (EvTerminate tid) \<longleftrightarrow> unat (handle_slot tid) \<noteq> c"
| "spares c e \<longleftrightarrow> True"

definition parked :: "machine \<Rightarrow> nat \<Rightarrow> LettuceTaskContext \<Rightarrow> bool" where
  "parked m c cx \<longleftrightarrow> running_task m \<noteq> Some c \<and> \<not> task_slot_reusable (task_of m c) \<and> t_context (task_of m c) = cx"

lemma step_parked:
  assumes inv: "sched_inv m" and ok: "event_ok e" "spares c e" and run: "sched_step e m = (flow, m')"
    and c: "c < LETTUCE_MAX_TASKS" and parked: "parked m c cx"
  shows "(running_task m' \<noteq> Some c \<longrightarrow> parked m' c cx) \<and>
    (running_task m' = Some c \<and> flow = Continue (Some tf') \<longrightarrow> tf' = context_frame cx)"
proof -
  have inv': "sched_inv m'" using sched_step_inv [OF inv ok(1)] run by simp
  note tv = task_of_view [OF inv c] and tv' = task_of_view [OF inv' c] and len = sched_inv_view(1) [OF inv]
  have same: "parked m' c cx" "running_task m' \<noteq> Some c"
    if "erased (mc_policy m') ! c = erased (mc_policy m) ! c" "running_task m' \<in> {None, running_task m}"
    using that parked by (auto simp: parked_def tv tv')
  consider (create) sid did pc sp nm where "e = EvCreate sid did pc sp nm" | (kill) tid where "e = EvTerminate tid" | (other) "\<not> task_event e"
    by (cases e) simp_all
  then show ?thesis
  proof cases
    case create
    have "sched_view_of m' = sched_view_of m \<or> (\<exists>i. i \<noteq> c \<and> sched_view_of m' = ((erased (mc_policy m))
        [i := erase_accounting (fresh_task i sid did pc sp nm (erased (mc_policy m) ! i))], running_task m))"
      using create_view [OF inv, of m' sid did pc sp nm] run parked create by (auto simp: parked_def)
    then have "erased (mc_policy m') ! c = erased (mc_policy m) ! c" "running_task m' = running_task m"
      by (auto simp: sched_view_of_def)
    then show ?thesis using same by simp
  next
    case kill
    have "sched_view_of m' = (case lettuce_task_get (ps_tasks (mc_policy m)) tid of None \<Rightarrow> sched_view_of m
        | Some i \<Rightarrow> ((erased (mc_policy m))[i := (erased (mc_policy m) ! i)\<lparr>t_state := LETTUCE_TASK_STATE_TERMINATED,
         t_generation := next_generation (t_generation (erased (mc_policy m) ! i))\<rparr>],
         if running_task m = Some i then None else running_task m))"
      using terminate_view [OF inv, of tid] run kill by auto
    moreover have "lettuce_task_get (ps_tasks (mc_policy m)) tid \<noteq> Some c"
      using task_get_SomeD [of "ps_tasks (mc_policy m)" tid c] ok(2) kill by auto
    ultimately have "erased (mc_policy m') ! c = erased (mc_policy m) ! c" "running_task m' \<in> {None, running_task m}"
      by (auto simp: sched_view_of_def split: option.splits if_splits)
    then show ?thesis using same by simp
  next
    case other
    from sched_step_split [OF run inv other] show ?thesis
    proof (elim disjE exE conjE)
      assume "sched_view_of m' = sched_view_of m"
      then show ?thesis using same by (simp add: sched_view_of_def)
    next
      fix tf pre
      assume f: "event_frame e = Some tf" and r: "do_schedule (Some tf) pre (event_prepare e m) = (flow, m')"
      have tf: "frame_ok tf" using ok(1) f by (cases e) simp_all
      have nr: "running_task (event_prepare e m) \<noteq> Some c" using parked by (simp add: prepare_view(1) [OF inv] parked_def)
      show ?thesis
        using do_schedule_other [OF prepare_inv [OF inv] tf r c nr, of tf'] prepare_other [OF inv c, of e] parked
        by (auto simp: parked_def)
    qed
  qed
qed

text \<open>The task in slot \<^term>\<open>c\<close> is not the current one before, during and after the events.\<close>

fun stays_off :: "nat \<Rightarrow> sched_event list \<Rightarrow> machine \<Rightarrow> bool" where
  "stays_off c [] m \<longleftrightarrow> running_task m \<noteq> Some c"
| "stays_off c (e # es) m \<longleftrightarrow> running_task m \<noteq> Some c \<and> stays_off c es (snd (sched_step e m))"

lemma run_parked:
  assumes "sched_inv m" "\<forall>e \<in> set es. event_ok e \<and> spares c e" "c < LETTUCE_MAX_TASKS" "parked m c cx" "stays_off c es m"
  shows "parked (sched_run es m) c cx"
  using assms
proof (induction es arbitrary: m)
  case Nil
  then show ?case by (simp add: sched_run_def)
next
  case (Cons e es)
  obtain flow m1 where r: "sched_step e m = (flow, m1)" by fastforce
  have off: "running_task m1 \<noteq> Some c" using Cons.prems(5) r by (cases es) auto
  have "parked m1 c cx" using step_parked [OF Cons.prems(1) _ _ r Cons.prems(3,4)] Cons.prems(2) off by simp
  moreover have "sched_inv m1" using sched_step_inv [OF Cons.prems(1), of e] Cons.prems(2) r by simp
  ultimately show ?case
    using Cons.IH [of m1] Cons.prems r by (simp add: sched_run_def)
qed

section \<open>A booted machine\<close>

lemma sched_inv_init:
  assumes "g_policy_ops m = g_lettuce_sched_rr_ops \<or> g_policy_ops m = g_lettuce_sched_eevdf_ops"
  shows "sched_inv (lettuce_scheduler_init m)"
proof -
  have tasks: "ps_tasks (mc_policy (lettuce_scheduler_init m)) = lettuce_task_init_subsystem"
    using assms round_robin.init_mech eevdf.init_mech by (auto simp: lettuce_scheduler_init_def Let_def)
  have "view_ok (sched_view_of (lettuce_scheduler_init m))"
    unfolding sched_view_of_def erased_def pcur_def tasks
    by (rule view_okI)
      (simp_all add: lettuce_task_init_subsystem_def task_ok_def task_slot_init_def zero_context_def task_slot_reusable_def
        erase_accounting_def)
  then show ?thesis using assms by (simp add: sched_inv_def lettuce_scheduler_init_def Let_def)
qed

definition demo_mmu :: mmu_state where
  "demo_mmu = \<lparr>current_el = 1, kernel_l2_device = [], domain_l1 = [], domain_l2 = [], domain_l3 = [],
     arch_domains = map (\<lambda>d. d\<lparr>ad_ttbr0_val := domain_ttbr0 d\<rparr>) (arch_domains_init demo_layout), current_domain = DOMAIN_A,
     ttbr0 = 0, mair = 0, tcr = 0, sctlr = 1, tlb_log = [], zeroed_pages = [], g_expecting_fault = False, g_fault_observed = False,
     g_expected_far = 0, g_last_fault_far = 0, g_last_fault_esr = 0, g_last_fault_elr = 0,
     g_expecting_sysreg_trap = False, g_sysreg_trap_observed = False\<rparr>"

definition demo_machine0 :: machine where
  "demo_machine0 = \<lparr>mc_kernel = demo_kernel, mc_mmu = demo_mmu,
     mc_timer = \<lparr>g_timer_ticks = 0, g_timer_interval = 0, g_timer_enabled = False, cntv_tval = 0, cntv_ctl = 0\<rparr>,
     mc_gic = [], mc_policy = \<lparr>ps_tasks = lettuce_task_init_subsystem, g_rr_last_idx = 0, g_eevdf_vsys = 0\<rparr>,
     g_scheduler_active = False, g_switch_count = 0, g_preempt_count = 0, g_same_domain_switches = 0,
     g_cross_domain_switches = 0, g_preempt_limit = 0, g_current_policy_type = LETTUCE_SCHED_POLICY_RR,
     g_policy_ops = g_lettuce_sched_rr_ops\<rparr>"

definition demo_frame :: "u64 \<Rightarrow> LettuceTrapFrame" where
  "demo_frame n = \<lparr>tf_x = replicate 30 n, tf_lr = n + 1, tf_elr = n + 2, tf_spsr = 0, tf_sp_el0 = n + 3\<rparr>"

text \<open>Two tasks: slot 0 runs, slot 1 is ready; the second has a given generation and domain.\<close>

definition demo_tasks_with :: "u16 \<Rightarrow> domain_id \<Rightarrow> policy_state" where
  "demo_tasks_with g d = \<lparr>ps_tasks = \<lparr>g_task_table =
     [(fresh_task 0 10 DOMAIN_A 0x41050000 DOMAIN_A_STACK_TOP 0 task_slot_init)\<lparr>t_state := LETTUCE_TASK_STATE_RUNNING\<rparr>,
      fresh_task 1 20 d 0x41050100 DOMAIN_B_STACK_TOP 0 (task_slot_init\<lparr>t_generation := g\<rparr>)] @ replicate 14 task_slot_init,
     g_current_task = Some 0\<rparr>, g_rr_last_idx = 0, g_eevdf_vsys = 0\<rparr>"

definition demo_machine_with :: "u16 \<Rightarrow> domain_id \<Rightarrow> machine" where
  "demo_machine_with g d = demo_machine0\<lparr>mc_policy := demo_tasks_with g d, mc_kernel := demo_kernel\<lparr>g_current_service_id := 10\<rparr>,
     g_scheduler_active := True\<rparr>"

definition demo_tasks :: policy_state where "demo_tasks = demo_tasks_with 1 DOMAIN_B"
definition demo_machine :: machine where "demo_machine = demo_machine_with 1 DOMAIN_B"

lemma demo_frame_ok: "frame_ok (demo_frame n)"
  by (simp add: demo_frame_def frame_ok_def)

lemma demo_task_nth:
  "i < LETTUCE_MAX_TASKS \<Longrightarrow> g_task_table (ps_tasks (demo_tasks_with g d)) ! i =
    (if i = 0 then (fresh_task 0 10 DOMAIN_A 0x41050000 DOMAIN_A_STACK_TOP 0 task_slot_init)\<lparr>t_state := LETTUCE_TASK_STATE_RUNNING\<rparr>
     else if i = 1 then fresh_task 1 20 d 0x41050100 DOMAIN_B_STACK_TOP 0 (task_slot_init\<lparr>t_generation := g\<rparr>) else task_slot_init)"
  by (simp add: demo_tasks_with_def LETTUCE_MAX_TASKS_def nth_Cons' split: if_split)

lemma demo_slot_ok: "g \<noteq> 0 \<Longrightarrow> task_ok i (task_slot_init\<lparr>t_generation := g\<rparr>)" "task_ok i task_slot_init"
  by (simp_all add: task_ok_def task_slot_init_def zero_context_def task_slot_reusable_def)

lemma demo_machine_with_inv:
  assumes g: "g \<noteq> 0"
  shows "sched_inv (demo_machine_with g d)"
proof -
  let ?P = "demo_tasks_with g d"
  have len: "length (g_task_table (ps_tasks ?P)) = LETTUCE_MAX_TASKS" by (simp add: demo_tasks_with_def LETTUCE_MAX_TASKS_def)
  have nth: "erased ?P ! i = erase_accounting (ptask ?P i)" if "i < LETTUCE_MAX_TASKS" for i
    using that len by (simp add: erased_nth)
  have "view_ok (erased ?P, Some 0)"
  proof (rule view_okI)
    fix i
    assume i: "i < LETTUCE_MAX_TASKS"
    have "task_ok 0 ((fresh_task 0 10 DOMAIN_A 0x41050000 DOMAIN_A_STACK_TOP 0 task_slot_init)\<lparr>t_state := LETTUCE_TASK_STATE_RUNNING\<rparr>)"
      using fresh_task_ok [OF demo_slot_ok(2)] by (intro task_ok_running) (simp_all add: fresh_task_def Let_def)
    then show "task_ok i (erased ?P ! i)"
      using fresh_task_ok [OF demo_slot_ok(1) [OF g]] demo_slot_ok(2) by (simp add: nth [OF i] demo_task_nth [OF i])
    show "Some 0 = Some i" if "t_state (erased ?P ! i) = LETTUCE_TASK_STATE_RUNNING"
      using that by (simp add: nth [OF i] demo_task_nth [OF i] fresh_task_def task_slot_init_def Let_def split: if_splits)
  next
    fix c :: nat
    assume "Some 0 = Some c"
    then show "c < LETTUCE_MAX_TASKS \<and> \<not> task_slot_reusable (erased ?P ! c)"
      using nth [of 0] demo_task_nth [of 0] max_tasks_pos by (simp add: task_slot_reusable_def)
  qed (simp add: len)
  then show ?thesis
    by (simp add: sched_inv_def sched_view_of_def demo_machine_with_def demo_machine0_def pcur_def demo_tasks_with_def)
qed

lemma demo_machine_inv: "sched_inv demo_machine"
  unfolding demo_machine_def by (rule demo_machine_with_inv) simp

lemma demo_machine_with_simps [simp]:
  "mc_policy (demo_machine_with g d) = demo_tasks_with g d" "g_policy_ops (demo_machine_with g d) = g_lettuce_sched_rr_ops"
  "g_scheduler_active (demo_machine_with g d)" "g_timer_ticks (mc_timer (demo_machine_with g d)) = 0"
  "pcur (demo_tasks_with g d) = Some 0" "g_preempt_limit (demo_machine_with g d) = 0" "mc_mmu (demo_machine_with g d) = demo_mmu"
  "g_current_service_id (mc_kernel (demo_machine_with g d)) = 10"
  by (simp_all add: demo_machine_with_def demo_machine0_def demo_tasks_with_def pcur_def)

text \<open>The part of a decision that concerns tasks and policy only.\<close>

definition policy_step ::
  "LettuceSchedPolicyOps \<Rightarrow> u64 \<Rightarrow> LettuceTrapFrame \<Rightarrow> bool \<Rightarrow> policy_state \<Rightarrow> task_ptr \<times> policy_state" where
  "policy_step ops now tf pre s =
     (let (go_on, s2) = account_current ops (pcur s) tf pre (wake_sleepers ops now s)
      in if go_on then (None, s2) else po_pick_next ops (pcur s) s2)"

definition policy_switched :: "nat \<Rightarrow> policy_state \<Rightarrow> policy_state" where
  "policy_switched n s =
     (let s1 = upd_ptask n (\<lambda>t. t\<lparr>t_state := LETTUCE_TASK_STATE_RUNNING\<rparr>) s
      in s1\<lparr>ps_tasks := lettuce_task_set_current (Some n) (ps_tasks s1)\<rparr>)"

lemma do_schedule_switches:
  assumes "g_scheduler_active m" "policy_step (g_policy_ops m) (g_timer_ticks (mc_timer m)) tf pre (mc_policy m) = (Some n, s3)"
    "running_task m \<noteq> Some n"
  shows "do_schedule (Some tf) pre m = switch_to (running_task m) n pre (m\<lparr>mc_policy := s3\<rparr>)"
  using assms by (auto simp: do_schedule_def policy_step_def lettuce_task_current_def lettuce_timer_get_ticks_def pcur_def
      Let_def split: prod.splits if_splits)

lemma switch_to_policy:
  "mc_policy (snd (switch_to cur n pre m)) = policy_switched n (mc_policy m)"
  "mc_timer (snd (switch_to cur n pre m)) = mc_timer m" "g_policy_ops (snd (switch_to cur n pre m)) = g_policy_ops m"
  "\<not> pre \<Longrightarrow> g_scheduler_active (snd (switch_to cur n pre m)) = g_scheduler_active m"
  "\<not> pre \<Longrightarrow> fst (switch_to cur n pre m) = Continue (Some (context_frame (t_context (ptask (mc_policy m) n))))"
  by (simp_all add: switch_to_def policy_switched_def Let_def)

definition demo_next :: policy_state where
  "demo_next = policy_switched 1 (snd (policy_step g_lettuce_sched_rr_ops 0 (demo_frame 9) False demo_tasks))"

lemma demo_picks:
  "fst (policy_step g_lettuce_sched_rr_ops 0 (demo_frame 9) False demo_tasks) = Some 1"
  "fst (policy_step g_lettuce_sched_rr_ops 0 (demo_frame 5) False (upd_ptask 1 (\<lambda>t. t\<lparr>t_time_slice_ticks := 0\<rparr>) demo_next)) = Some 0"
  by code_simp+

section \<open>Properties\<close>


lemma demo_machine_simps [simp]:
  "mc_policy demo_machine = demo_tasks" "g_policy_ops demo_machine = g_lettuce_sched_rr_ops" "g_scheduler_active demo_machine"
  "g_timer_ticks (mc_timer demo_machine) = 0" "pcur demo_tasks = Some 0" "g_preempt_limit demo_machine = 0"
  "mc_mmu demo_machine = demo_mmu" "g_current_service_id (mc_kernel demo_machine) = 10"
  by (simp_all add: demo_machine_def demo_tasks_def)

lemma demo_first_switch:
  obtains m1 where "do_schedule (Some (demo_frame 9)) False demo_machine = (Continue (Some (context_frame (t_context (task_of demo_machine 1)))), m1)"
    "running_task m1 = Some 1" "mc_policy m1 = demo_next" "g_policy_ops m1 = g_lettuce_sched_rr_ops" "g_scheduler_active m1"
    "g_timer_ticks (mc_timer m1) = 0" "sched_inv m1"
proof -
  obtain s3 where s3: "policy_step g_lettuce_sched_rr_ops 0 (demo_frame 9) False demo_tasks = (Some 1, s3)"
    using demo_picks(1) by (cases "policy_step g_lettuce_sched_rr_ops 0 (demo_frame 9) False demo_tasks") simp
  obtain flow m1 where r: "do_schedule (Some (demo_frame 9)) False demo_machine = (flow, m1)" by fastforce
  have sw: "do_schedule (Some (demo_frame 9)) False demo_machine = switch_to (Some 0) 1 False (demo_machine\<lparr>mc_policy := s3\<rparr>)"
    using do_schedule_switches [of demo_machine "demo_frame 9" False 1 s3] s3 by simp
  have pol: "mc_policy m1 = demo_next" "g_policy_ops m1 = g_lettuce_sched_rr_ops" "g_scheduler_active m1" "mc_timer m1 = mc_timer demo_machine"
    using switch_to_policy(1-3) [of "Some 0" 1 False "demo_machine\<lparr>mc_policy := s3\<rparr>"]
      switch_to_policy(4) [of False "Some 0" 1 "demo_machine\<lparr>mc_policy := s3\<rparr>"] r sw s3 by (simp_all add: demo_next_def)
  have one: "running_task m1 = Some 1" by (simp add: pol(1) demo_next_def policy_switched_def Let_def pcur_def lettuce_task_set_current_def)
  have inv: "sched_inv m1" by (rule do_schedule_inv [OF demo_machine_inv demo_frame_ok r])
  have "\<exists>f. flow = Continue (Some f)" using switch_to_policy(5) [of False "Some 0" 1 "demo_machine\<lparr>mc_policy := s3\<rparr>"] r sw by simp
  then have "flow = Continue (Some (context_frame (t_context (task_of demo_machine 1))))"
    using do_schedule_other [OF demo_machine_inv demo_frame_ok r, of 1] one by (auto simp: LETTUCE_MAX_TASKS_def)
  then show ?thesis using that r pol one inv by simp
qed





text \<open>
  What one scheduling decision does. If the current task does not change, the trap frame, the address
  space, the service identity and all counters stay as they are. Otherwise the new current task was
  ready (or just woken), is now running and its saved context is the frame that continues, unless the
  preemption limit is reached and the kernel is resumed instead; its service identity is installed,
  the address space is entered unless both tasks share a domain, and the switch is counted. The task
  that ran is ready with the interrupted frame as its context. Every other task is only woken if its
  deadline has passed (and its generation is at most 10).
\<close>

theorem scheduler_decision:
  assumes inv: "sched_inv m" and tf: "frame_ok tf" and act: "g_scheduler_active m"
    and run: "do_schedule (Some tf) pre m = (flow, m')"
  shows "(if running_task m' = running_task m then flow = Continue (Some tf) \<and> m' = m\<lparr>mc_policy := mc_policy m'\<rparr>
     else \<exists>n < LETTUCE_MAX_TASKS. running_task m' = Some n \<and> t_state (task_of m' n) = LETTUCE_TASK_STATE_RUNNING \<and>
       t_state (wake_task (lettuce_timer_get_ticks (mc_timer m)) (task_of m n)) = LETTUCE_TASK_STATE_READY \<and>
       hand_over_effect n pre m flow m' (context_frame (t_context (task_of m n)))) \<and>
    (\<forall>c. running_task m = Some c \<and> t_state (task_of m c) = LETTUCE_TASK_STATE_RUNNING \<and> running_task m' \<noteq> Some c \<longrightarrow>
       task_of m' c = (task_of m c)\<lparr>t_context := frame_context tf, t_state := LETTUCE_TASK_STATE_READY\<rparr>) \<and>
    (\<forall>j < LETTUCE_MAX_TASKS. running_task m \<noteq> Some j \<and> running_task m' \<noteq> Some j \<longrightarrow>
       task_of m' j = wake_task (lettuce_timer_get_ticks (mc_timer m)) (task_of m j))"
    (is "?A \<and> ?B \<and> ?C")
proof (intro conjI)
  let ?now = "g_timer_ticks (mc_timer m)"
  let ?ts = "map (wake_task ?now) (erased (mc_policy m))"
  obtain tf' where d: "dispatch tf (?ts, running_task m) tf' (erased (mc_policy m'), running_task m')"
    and e: "if running_task m' = running_task m then tf' = tf \<and> flow = Continue (Some tf) \<and> m' = m\<lparr>mc_policy := mc_policy m'\<rparr>
      else hand_over_effect (the (running_task m')) pre m flow m' tf'"
    by (rule do_schedule_step [OF inv act run, unfolded sched_view_of_def])
  note ok = view_ok_wake [OF sched_inv_view(3) [OF inv], of ?now] and inv' = do_schedule_inv [OF inv tf run]
  have t: "?ts ! j = wake_task ?now (task_of m j)" if "j < LETTUCE_MAX_TASKS" for j
    using task_of_view [OF inv that] sched_inv_view(1) [OF inv] that by simp
  show ?A
  proof (cases "running_task m' = running_task m")
    case True
    then show ?thesis using e by simp
  next
    case False
    from d obtain n where n: "running_task m' = Some n" "running_task m \<noteq> Some n" "n < LETTUCE_MAX_TASKS"
        "t_state (saved tf (?ts, running_task m) ! n) = LETTUCE_TASK_STATE_READY"
        "tf' = context_frame (t_context (saved tf (?ts, running_task m) ! n))"
        "erased (mc_policy m') = (saved tf (?ts, running_task m))[n := (saved tf (?ts, running_task m) ! n)\<lparr>t_state := LETTUCE_TASK_STATE_RUNNING\<rparr>]"
      by (cases rule: dispatch.cases) (use False in simp_all)
    have sv: "saved tf (?ts, running_task m) ! n = wake_task ?now (task_of m n)"
      using saved_nth [OF ok n(3), of tf] n(2) t [OF n(3)] by simp
    have "task_of m' n = (wake_task ?now (task_of m n))\<lparr>t_state := LETTUCE_TASK_STATE_RUNNING\<rparr>"
      using n(6) n(3) view_okD(1) [OF ok] task_of_view [OF inv' n(3)] by (simp add: sv)
    then have "n < LETTUCE_MAX_TASKS \<and> running_task m' = Some n \<and> t_state (task_of m' n) = LETTUCE_TASK_STATE_RUNNING \<and>
        t_state (wake_task (lettuce_timer_get_ticks (mc_timer m)) (task_of m n)) = LETTUCE_TASK_STATE_READY \<and>
        hand_over_effect n pre m flow m' (context_frame (t_context (task_of m n)))"
      using n e False by (simp add: sv lettuce_timer_get_ticks_def)
    then show ?thesis unfolding if_not_P [OF False] by blast
  qed
  show ?B
  proof (intro allI impI)
    fix c
    assume c: "running_task m = Some c \<and> t_state (task_of m c) = LETTUCE_TASK_STATE_RUNNING \<and> running_task m' \<noteq> Some c"
    have lt: "c < LETTUCE_MAX_TASKS" using sched_inv_view(2) [OF inv] c by simp
    show "task_of m' c = (task_of m c)\<lparr>t_context := frame_context tf, t_state := LETTUCE_TASK_STATE_READY\<rparr>"
      using dispatch_current [of tf ?ts c tf' "erased (mc_policy m')" "running_task m'"] d ok c
        task_of_view [OF inv' lt] by (simp add: t [OF lt] wake_task_def)
  qed
  show ?C
    using do_schedule_other [OF inv tf run] act by (simp add: lettuce_timer_get_ticks_def)
qed

lemma scheduler_decision_witness:
  "\<exists>flow m'. do_schedule (Some (demo_frame 9)) False demo_machine = (flow, m') \<and> running_task m' = Some 1 \<and>
     t_state (task_of m' 1) = LETTUCE_TASK_STATE_RUNNING \<and> t_context (task_of m' 0) = frame_context (demo_frame 9)"
proof -
  obtain m1 where m1: "do_schedule (Some (demo_frame 9)) False demo_machine = (Continue (Some (context_frame (t_context (task_of demo_machine 1)))), m1)"
      "running_task m1 = Some 1" by (rule demo_first_switch)
  have run0: "t_state (task_of demo_machine 0) = LETTUCE_TASK_STATE_RUNNING"
    using demo_task_nth [of 0] max_tasks_pos by (simp add: task_of_def demo_tasks_def)
  show ?thesis using scheduler_decision [OF demo_machine_inv demo_frame_ok _ m1(1)] m1 run0 by auto
qed

section \<open>Running at home\<close>

definition known_domain :: "domain_id \<Rightarrow> bool" where
  "known_domain d \<longleftrightarrow> d = DOMAIN_A \<or> d = DOMAIN_B \<or> d = DOMAIN_C"

definition at_home :: "machine \<Rightarrow> bool" where
  "at_home m \<longleftrightarrow>
     (\<forall>c. running_task m = Some c \<longrightarrow> lettuce_mmu_current_domain (mc_mmu m) = t_domain_id (task_of m c) \<and>
        current_service_id (mc_kernel m) = t_service_id (task_of m c)) \<and>
     (\<forall>i < LETTUCE_MAX_TASKS. \<not> task_slot_reusable (task_of m i) \<longrightarrow> known_domain (t_domain_id (task_of m i)))"

lemma enter_known: "known_domain d \<Longrightarrow> lettuce_mmu_current_domain (snd (lettuce_mmu_enter d st)) = d"
  by (auto simp: known_domain_def lettuce_mmu_enter_def arch_domain_lookup_def write_ttbr_def lettuce_mmu_current_domain_def Let_def)

text \<open>The identity of a task is not changed by scheduling.\<close>

lemma do_schedule_identity:
  assumes inv: "sched_inv m" and tf: "frame_ok tf" and run: "do_schedule (Some tf) pre m = (flow, m')" and i: "i < LETTUCE_MAX_TASKS"
  shows "t_service_id (task_of m' i) = t_service_id (task_of m i) \<and> t_domain_id (task_of m' i) = t_domain_id (task_of m i) \<and>
    task_slot_reusable (task_of m' i) = task_slot_reusable (task_of m i) \<and> t_generation (task_of m' i) = t_generation (task_of m i)"
proof (cases "running_task m = Some i \<and> g_scheduler_active m")
  case True
  let ?ts = "map (wake_task (g_timer_ticks (mc_timer m))) (erased (mc_policy m))"
  obtain tf' where d: "dispatch tf (?ts, Some i) tf' (erased (mc_policy m'), running_task m')"
    using do_schedule_step [OF inv _ run, unfolded sched_view_of_def] True by metis
  have ok: "view_ok (?ts, Some i)" using view_ok_wake [OF sched_inv_view(3) [OF inv]] True by simp
  have t: "?ts ! i = wake_task (g_timer_ticks (mc_timer m)) (task_of m i)"
    using task_of_view [OF inv i] sched_inv_view(1) [OF inv] i by simp
  show ?thesis
    using dispatch_current [OF d ok] view_okD(5) [OF ok refl] task_of_view [OF do_schedule_inv [OF inv tf run] i]
    unfolding t by simp
next
  case False
  then show ?thesis
    using do_schedule_other [OF inv tf run i] run by (cases "g_scheduler_active m") (auto simp: do_schedule_inactive)
qed

lemma do_schedule_home:
  assumes inv: "sched_inv m" and tf: "frame_ok tf" and run: "do_schedule (Some tf) pre m = (flow, m')" and home: "at_home m"
  shows "at_home m'"
proof (cases "g_scheduler_active m")
  case False
  then show ?thesis using run home by (simp add: do_schedule_inactive)
next
  case act: True
  note id = do_schedule_identity [OF inv tf run] and inv' = do_schedule_inv [OF inv tf run]
  obtain tf' where d: "dispatch tf (map (wake_task (g_timer_ticks (mc_timer m))) (erased (mc_policy m)), running_task m) tf' (sched_view_of m')"
    and e: "if running_task m' = running_task m then tf' = tf \<and> flow = Continue (Some tf) \<and> m' = m\<lparr>mc_policy := mc_policy m'\<rparr>
      else hand_over_effect (the (running_task m')) pre m flow m' tf'"
    by (rule do_schedule_step [OF inv act run])
  have cur: "lettuce_mmu_current_domain (mc_mmu m') = t_domain_id (task_of m' n) \<and>
      current_service_id (mc_kernel m') = t_service_id (task_of m' n)" if n: "running_task m' = Some n" for n
  proof (cases "running_task m' = running_task m")
    case True
    then have same: "m' = m\<lparr>mc_policy := mc_policy m'\<rparr>" using e by simp
    have "n < LETTUCE_MAX_TASKS" using sched_inv_view(2) [OF inv'] n by simp
    moreover have "mc_mmu m' = mc_mmu m" "mc_kernel m' = mc_kernel m" by (subst same; simp)+
    ultimately show ?thesis using home n True id [of n] by (simp add: at_home_def)
  next
    case False
    have lt: "n < LETTUCE_MAX_TASKS" using sched_inv_view(2) [OF inv'] n by simp
    have live: "\<not> task_slot_reusable (task_of m' n)"
      using view_okD(5) [OF sched_inv_view(3) [OF inv']] n task_of_view [OF inv' lt] by auto
    then have known: "known_domain (t_domain_id (task_of m n))" using home id [OF lt] lt by (simp add: at_home_def)
    have eff: "hand_over_effect n pre m flow m' tf'" using e False n by simp
    have sd: "t_domain_id (task_of m n) = lettuce_mmu_current_domain (mc_mmu m)"
      if "same_domain (erased (mc_policy m), running_task m) n"
      using that home task_of_view [OF inv lt] task_of_view [OF inv] sched_inv_view(2) [OF inv]
      by (auto simp: same_domain_def at_home_def split: option.splits)
    show ?thesis
      using eff id [OF lt] task_of_view [OF inv lt] enter_known [OF known] sd
      by (auto simp: hand_over_effect_def Let_def split: if_splits)
  qed
  then show ?thesis using home id by (simp add: at_home_def)
qed

fun home_event :: "sched_event \<Rightarrow> bool" where
  "home_event (EvCreate sid did pc sp nm) = known_domain did"
| "home_event e = True"

lemma at_home_view:
  assumes "at_home m" "mc_mmu m' = mc_mmu m" "mc_kernel m' = mc_kernel m"
    "\<forall>c. running_task m' = Some c \<longrightarrow> running_task m = Some c \<and> c < LETTUCE_MAX_TASKS \<and>
       t_service_id (task_of m' c) = t_service_id (task_of m c) \<and> t_domain_id (task_of m' c) = t_domain_id (task_of m c)"
    "\<forall>i < LETTUCE_MAX_TASKS. \<not> task_slot_reusable (task_of m' i) \<longrightarrow> known_domain (t_domain_id (task_of m' i))"
  shows "at_home m'"
  using assms by (auto simp: at_home_def)

lemma at_home_same:
  assumes "at_home m" "sched_inv m" "mc_mmu m' = mc_mmu m" "mc_kernel m' = mc_kernel m" "sched_inv m'" "sched_view_of m' = sched_view_of m"
  shows "at_home m'"
proof -
  have run: "running_task m' = running_task m" using assms(6) by (simp add: sched_view_of_def)
  have t: "task_of m' i = task_of m i" if "i < LETTUCE_MAX_TASKS" for i
    using assms(6) task_of_view [OF assms(2) that] task_of_view [OF assms(5) that] by (simp add: sched_view_of_def)
  show ?thesis
    by (rule at_home_view [OF assms(1,3,4)])
      (use run t assms(1) sched_inv_view(2) [OF assms(2)] in \<open>simp_all add: at_home_def\<close>)
qed

lemma step_home:
  assumes inv: "sched_inv m" and ok: "event_ok e" "home_event e" and home: "at_home m"
  shows "at_home (snd (sched_step e m))"
proof -
  obtain flow m' where r: "sched_step e m = (flow, m')" by fastforce
  have inv': "sched_inv m'" using sched_step_inv [OF inv ok(1)] r by simp
  note tv = task_of_view [OF inv] and tv' = task_of_view [OF inv'] and len = sched_inv_view(1) [OF inv]
  have lt: "c < LETTUCE_MAX_TASKS" if "running_task m' = Some c" for c using sched_inv_view(2) [OF inv' that] .
  consider (create) sid did pc sp nm where "e = EvCreate sid did pc sp nm" | (kill) tid where "e = EvTerminate tid" | (other) "\<not> task_event e"
    by (cases e) simp_all
  then have "at_home m'"
  proof cases
    case create
    have m': "m' = on_tasks (\<lambda>ts. snd (lettuce_task_create sid did pc sp nm ts)) m" using r create by simp
    then have mk: "mc_mmu m' = mc_mmu m" "mc_kernel m' = mc_kernel m" by simp_all
    consider "sched_view_of m' = sched_view_of m" | i where "i < LETTUCE_MAX_TASKS" "task_slot_reusable (task_of m i)"
      "sched_view_of m' = ((erased (mc_policy m))[i := erase_accounting (fresh_task i sid did pc sp nm (erased (mc_policy m) ! i))], running_task m)"
      using create_view [OF inv m'] by blast
    then show ?thesis
    proof cases
      case 1
      show ?thesis by (rule at_home_same [OF home inv mk inv' 1])
    next
      case 2
      have t: "task_of m' j = (if j = i then erase_accounting (fresh_task i sid did pc sp nm (task_of m i)) else task_of m j)" if "j < LETTUCE_MAX_TASKS" for j
        using 2 tv [OF that] tv [OF 2(1)] tv' [OF that] len that by (cases "j = i") (auto simp: sched_view_of_def simp del: length_erased)
      have "running_task m' = running_task m" using 2(3) by (simp add: sched_view_of_def)
      moreover have "running_task m \<noteq> Some i" using view_okD(5) [OF sched_inv_view(3) [OF inv]] 2(1,2) tv by fastforce
      ultimately show ?thesis
        by (intro at_home_view [OF home mk])
          (use home lt t ok(2) create in \<open>auto simp: at_home_def fresh_task_def Let_def\<close>)
    qed
  next
    case kill
    have m': "m' = on_tasks (lettuce_task_terminate tid) m" using r kill by simp
    then have mk: "mc_mmu m' = mc_mmu m" "mc_kernel m' = mc_kernel m" by simp_all
    show ?thesis
    proof (cases "lettuce_task_get (ps_tasks (mc_policy m)) tid")
      case None
      then have "sched_view_of m' = sched_view_of m" using terminate_view [OF inv, of tid] m' by simp
      then show ?thesis by (rule at_home_same [OF home inv mk inv'])
    next
      case (Some i)
      have v: "sched_view_of m' = ((erased (mc_policy m))[i := (erased (mc_policy m) ! i)\<lparr>t_state := LETTUCE_TASK_STATE_TERMINATED,
         t_generation := next_generation (t_generation (erased (mc_policy m) ! i))\<rparr>],
         if running_task m = Some i then None else running_task m)"
        using terminate_view [OF inv, of tid] m' Some by simp
      have i: "i < LETTUCE_MAX_TASKS" using task_get_SomeD [OF Some] by simp
      have t: "task_of m' j = (if j = i then (task_of m i)\<lparr>t_state := LETTUCE_TASK_STATE_TERMINATED,
          t_generation := next_generation (t_generation (task_of m i))\<rparr> else task_of m j)" if "j < LETTUCE_MAX_TASKS" for j
        using v tv [OF that] tv [OF i] tv' [OF that] len that by (cases "j = i") (auto simp: sched_view_of_def simp del: length_erased)
      have "running_task m' = (if running_task m = Some i then None else running_task m)" using v by (simp add: sched_view_of_def)
      then show ?thesis
        by (intro at_home_view [OF home mk])
          (use home lt t in \<open>auto simp: at_home_def task_slot_reusable_def split: if_splits\<close>)
    qed
  next
    case other
    from sched_step_split [OF r inv other] show ?thesis
    proof (elim disjE exE conjE)
      assume v: "sched_view_of m' = sched_view_of m" "mc_mmu m' = mc_mmu m" "mc_kernel m' = mc_kernel m"
      show ?thesis by (rule at_home_same [OF home inv v(2,3) inv' v(1)])
    next
      fix tf pre
      assume f: "event_frame e = Some tf" and d: "do_schedule (Some tf) pre (event_prepare e m) = (flow, m')"
      have tf: "frame_ok tf" using ok(1) f by (cases e) simp_all
      note invp = prepare_inv [OF inv, of e]
      note p = prepare_identity [OF inv, of _ e]
      have "at_home (event_prepare e m)"
        by (rule at_home_view [OF home])
          (use home p prepare_view(1) [OF inv, of e] sched_inv_view(2) [OF inv] in \<open>simp_all add: at_home_def\<close>)
      then show ?thesis by (rule do_schedule_home [OF invp tf d])
    qed
  qed
  then show ?thesis using r by simp
qed

lemma run_home: "sched_inv m \<Longrightarrow> at_home m \<Longrightarrow> \<forall>e \<in> set es. event_ok e \<and> home_event e \<Longrightarrow> at_home (sched_run es m)"
  unfolding sched_run_def by (induction es arbitrary: m) (simp_all add: sched_step_inv step_home)

text \<open>
  C19: Scheduling keeps every task at home. If the current task runs in its own protection domain under its
  own service identity and all tasks belong to the platform's three domains, this stays so after any
  sequence of scheduler events and task creations and terminations: whichever task is current then
  runs in its own domain and the kernel attributes its calls to its own service.
\<close>

theorem scheduler_keeps_tasks_home:
  assumes "sched_inv m" "at_home m" "\<forall>e \<in> set es. event_ok e \<and> home_event e" "running_task (sched_run es m) = Some c"
  shows "lettuce_mmu_current_domain (mc_mmu (sched_run es m)) = t_domain_id (task_of (sched_run es m) c) \<and>
    current_service_id (mc_kernel (sched_run es m)) = t_service_id (task_of (sched_run es m) c)"
  using run_home [OF assms(1-3)] assms(4) by (simp add: at_home_def)

lemma demo_at_home: "at_home demo_machine"
proof -
  have "t_domain_id (task_of demo_machine 0) = DOMAIN_A" "t_service_id (task_of demo_machine 0) = 10"
    using demo_task_nth [of 0] max_tasks_pos by (simp_all add: task_of_def demo_tasks_def fresh_task_def Let_def)
  moreover have "known_domain (t_domain_id (task_of demo_machine i))"
    if "i < LETTUCE_MAX_TASKS" "\<not> task_slot_reusable (task_of demo_machine i)" for i
    using that demo_task_nth [of i]
    by (auto simp: task_of_def demo_tasks_def fresh_task_def task_slot_init_def task_slot_reusable_def known_domain_def Let_def split: if_splits)
  ultimately show ?thesis
    by (simp add: at_home_def demo_mmu_def lettuce_mmu_current_domain_def current_service_id_def)
qed

lemma scheduler_keeps_tasks_home_witness:
  "\<exists>c. running_task (sched_run [EvTick (demo_frame 9)] demo_machine) = Some c \<and>
     lettuce_mmu_current_domain (mc_mmu (sched_run [EvTick (demo_frame 9)] demo_machine)) =
       t_domain_id (task_of (sched_run [EvTick (demo_frame 9)] demo_machine) c)"
proof -
  have m': "do_schedule (Some (demo_frame 9)) True demo_machine =
      (fst (do_schedule (Some (demo_frame 9)) True demo_machine), sched_run [EvTick (demo_frame 9)] demo_machine)"
    by (simp add: sched_run_def lettuce_scheduler_tick_def)
  obtain c where "running_task (sched_run [EvTick (demo_frame 9)] demo_machine) = Some c"
    using do_schedule_some [OF demo_machine_inv m'] by auto
  then show ?thesis
    using scheduler_keeps_tasks_home [OF demo_machine_inv demo_at_home, of "[EvTick (demo_frame 9)]" c] by (simp add: demo_frame_ok)
qed

section \<open>Where the mechanism falls short\<close>

text \<open>
  C33: A task that sleeps loses the point where it called. lettuce_scheduler_sleep_current marks the current
  task as sleeping before do_schedule looks at it, and do_schedule saves the context of running tasks
  only. When the task becomes current again it continues with the context of its last preemption (or
  of its creation), whatever frame it slept from.
\<close>

theorem sleeping_task_resumes_stale:
  assumes inv: "sched_inv m" and tf: "frame_ok tf" and running: "running_task m = Some c"
    and away: "lettuce_scheduler_sleep_current ticks (Some tf) m = (flow, m1)" "running_task m1 \<noteq> Some c"
    and between: "\<forall>e \<in> set es. event_ok e \<and> spares c e" "stays_off c es m1"
    and again: "event_ok e" "spares c e" "sched_step e (sched_run es m1) = (Continue (Some tf'), m2)" "running_task m2 = Some c"
  shows "tf' = context_frame (t_context (task_of m c))"
proof -
  have c: "c < LETTUCE_MAX_TASKS" using sched_inv_view(2) [OF inv running] .
  let ?e = "EvSleep ticks tf"
  let ?p = "event_prepare ?e m"
  note invp = prepare_inv [OF inv, of ?e]
  have run: "do_schedule (Some tf) False ?p = (flow, m1)"
    using away(1) running
    by (simp add: lettuce_scheduler_sleep_current_def event_prepare_def lettuce_task_current_def pcur_def Let_def)
  have rp: "running_task ?p = Some c" using running prepare_view(1) [OF inv] by simp
  have act: "g_scheduler_active ?p" using run away(2) rp do_schedule_inactive [of ?p "Some tf" False] by (cases "g_scheduler_active ?p") auto
  let ?now = "g_timer_ticks (mc_timer ?p)"
  let ?ts = "map (wake_task ?now) (erased (mc_policy ?p))"
  obtain tf1 where d: "dispatch tf (?ts, Some c) tf1 (erased (mc_policy m1), running_task m1)"
    by (rule do_schedule_step [OF invp act run, unfolded sched_view_of_def rp])
  have ok: "view_ok (?ts, Some c)" using view_ok_wake [OF sched_inv_view(3) [OF invp]] rp by simp
  have ts: "?ts ! c = wake_task ?now (task_of ?p c)" using task_of_view [OF invp c] sched_inv_view(1) [OF invp] c by simp
  have "t_state (task_of ?p c) = LETTUCE_TASK_STATE_SLEEPING"
    using running c sched_inv_view(1) [OF inv]
    unfolding task_of_view [OF invp c, symmetric] prepare_view(2) [OF inv] by (simp del: length_erased)
  then have nr: "t_state (?ts ! c) \<noteq> LETTUCE_TASK_STATE_RUNNING" unfolding ts by simp
  have inv1: "sched_inv m1" by (rule do_schedule_inv [OF invp tf run])
  have "parked m1 c (t_context (task_of m c))"
    using dispatch_current [OF d ok] nr away(2) prepare_identity [OF inv c, of ?e] task_of_view [OF inv1 c]
    unfolding ts parked_def by auto
  then have "parked (sched_run es m1) c (t_context (task_of m c))" by (rule run_parked [OF inv1 between(1) c _ between(2)])
  moreover have "sched_inv (sched_run es m1)" using sched_run_inv [OF inv1] between(1) by blast
  ultimately show ?thesis using step_parked [OF _ again(1-3) c] again(4) by blast
qed

definition demo_asleep :: policy_state where
  "demo_asleep = upd_ptask 0 (\<lambda>t. t\<lparr>t_sleep_deadline_ticks := 1, t_state := LETTUCE_TASK_STATE_SLEEPING\<rparr>) demo_tasks"

definition demo_after_sleep :: policy_state where
  "demo_after_sleep = policy_switched 1 (snd (policy_step g_lettuce_sched_rr_ops 0 (demo_frame 9) False demo_asleep))"

lemma demo_sleep_picks:
  "fst (policy_step g_lettuce_sched_rr_ops 0 (demo_frame 9) False demo_asleep) = Some 1"
  "fst (policy_step g_lettuce_sched_rr_ops 1 (demo_frame 5) False (upd_ptask 1 (\<lambda>t. t\<lparr>t_time_slice_ticks := 0\<rparr>) demo_after_sleep)) = Some 0"
  by code_simp+

lemma sleeping_task_resumes_stale_witness:
  "\<exists>m1 m2. snd (lettuce_scheduler_sleep_current 1 (Some (demo_frame 9)) demo_machine) = m1 \<and>
     sched_step (EvYield (demo_frame 5)) (sched_run [EvTimer] m1) = (Continue (Some (context_frame (t_context (task_of demo_machine 0)))), m2) \<and>
     running_task m2 = Some 0 \<and> context_frame (t_context (task_of demo_machine 0)) \<noteq> demo_frame 9"
proof -
  let ?p = "demo_machine\<lparr>mc_policy := demo_asleep\<rparr>"
  obtain s3 where s3: "policy_step g_lettuce_sched_rr_ops 0 (demo_frame 9) False demo_asleep = (Some 1, s3)"
    using demo_sleep_picks(1) by (cases "policy_step g_lettuce_sched_rr_ops 0 (demo_frame 9) False demo_asleep") simp
  obtain flow m1 where r: "lettuce_scheduler_sleep_current 1 (Some (demo_frame 9)) demo_machine = (flow, m1)" by fastforce
  have "lettuce_scheduler_sleep_current 1 (Some (demo_frame 9)) demo_machine = do_schedule (Some (demo_frame 9)) False ?p"
    using demo_machine_simps(5)
    by (simp add: lettuce_scheduler_sleep_current_def lettuce_task_current_def demo_asleep_def pcur_def Let_def
        lettuce_timer_get_ticks_def g_lettuce_sched_rr_ops_def rr_on_task_sleep_def)
  moreover have "do_schedule (Some (demo_frame 9)) False ?p = switch_to (Some 0) 1 False (?p\<lparr>mc_policy := s3\<rparr>)"
    using do_schedule_switches [of ?p "demo_frame 9" False 1 s3] s3 by (simp add: demo_asleep_def)
  ultimately have sw: "switch_to (Some 0) 1 False (?p\<lparr>mc_policy := s3\<rparr>) = (flow, m1)" using r by simp
  have m1: "mc_policy m1 = demo_after_sleep" "g_policy_ops m1 = g_lettuce_sched_rr_ops" "g_scheduler_active m1" "mc_timer m1 = mc_timer demo_machine"
    using switch_to_policy(1-3) [of "Some 0" 1 False "?p\<lparr>mc_policy := s3\<rparr>"]
      switch_to_policy(4) [of False "Some 0" 1 "?p\<lparr>mc_policy := s3\<rparr>"] sw s3 by (simp_all add: demo_after_sleep_def)
  have one: "running_task m1 = Some 1"
    by (simp add: m1(1) demo_after_sleep_def policy_switched_def Let_def pcur_def lettuce_task_set_current_def)
  let ?P = "upd_ptask 1 (\<lambda>t. t\<lparr>t_time_slice_ticks := 0\<rparr>) demo_after_sleep"
  let ?m = "(sched_run [EvTimer] m1)\<lparr>mc_policy := ?P\<rparr>"
  obtain s4 where s4: "policy_step g_lettuce_sched_rr_ops 1 (demo_frame 5) False ?P = (Some 0, s4)"
    using demo_sleep_picks(2) by (cases "policy_step g_lettuce_sched_rr_ops 1 (demo_frame 5) False ?P") simp
  obtain flow2 m2 where r2: "sched_step (EvYield (demo_frame 5)) (sched_run [EvTimer] m1) = (flow2, m2)" by fastforce
  have tick: "g_timer_ticks (lettuce_timer_irq_handler (mc_timer demo_machine)) = 1"
    by (simp add: lettuce_timer_irq_handler_def lettuce_timer_rearm_def)
  have "sched_step (EvYield (demo_frame 5)) (sched_run [EvTimer] m1) = do_schedule (Some (demo_frame 5)) False ?m"
    using one m1(1) by (simp add: sched_run_def lettuce_scheduler_yield_def lettuce_task_current_def pcur_def)
  moreover have "do_schedule (Some (demo_frame 5)) False ?m = switch_to (Some 1) 0 False (?m\<lparr>mc_policy := s4\<rparr>)"
    using do_schedule_switches [of ?m "demo_frame 5" False 0 s4] s4 m1 one tick by (simp add: sched_run_def)
  ultimately have sw2: "switch_to (Some 1) 0 False (?m\<lparr>mc_policy := s4\<rparr>) = (flow2, m2)" using r2 by simp
  obtain tf' where fl: "flow2 = Continue (Some tf')"
    using switch_to_policy(5) [of False "Some 1" 0 "?m\<lparr>mc_policy := s4\<rparr>"] sw2 by simp
  have zero: "running_task m2 = Some 0"
    using switch_to_policy(1) [of "Some 1" 0 False "?m\<lparr>mc_policy := s4\<rparr>"] sw2
    by (simp add: policy_switched_def Let_def pcur_def lettuce_task_set_current_def)
  have "tf' = context_frame (t_context (task_of demo_machine 0))"
    by (rule sleeping_task_resumes_stale [OF demo_machine_inv demo_frame_ok _ r, where es = "[EvTimer]" and e = "EvYield (demo_frame 5)" and ?m2.0 = m2])
      (use one r2 fl zero in \<open>simp_all add: demo_frame_ok sched_run_def\<close>)
  moreover have "context_frame (t_context (task_of demo_machine 0)) \<noteq> demo_frame 9"
    using demo_task_nth [of 0] max_tasks_pos
    by (simp add: task_of_def demo_tasks_def fresh_task_def Let_def zero_context_def context_frame_def demo_frame_def)
  ultimately show ?thesis using r r2 fl zero by auto
qed

lemma step_generation:
  assumes inv: "sched_inv m" and ok: "event_ok e" "\<not> task_event e" and c: "c < LETTUCE_MAX_TASKS" "running_task m \<noteq> Some c"
    and run: "sched_step e m = (flow, m')"
  shows "t_generation (task_of m' c) = t_generation (task_of m c) \<and> (running_task m' = Some c \<longrightarrow> reachable_by_scan (task_of m c))"
proof -
  have inv': "sched_inv m'" using sched_step_inv [OF inv ok(1)] run by simp
  from sched_step_split [OF run inv ok(2)] show ?thesis
  proof (elim disjE exE conjE)
    assume "sched_view_of m' = sched_view_of m"
    then show ?thesis using task_of_view [OF inv c(1)] task_of_view [OF inv' c(1)] c(2) by (simp add: sched_view_of_def)
  next
    fix tf pre
    assume f: "event_frame e = Some tf" and d: "do_schedule (Some tf) pre (event_prepare e m) = (flow, m')"
    have tf: "frame_ok tf" using ok(1) f by (cases e) simp_all
    show ?thesis
      using do_schedule_other [OF prepare_inv [OF inv] tf d c(1)] prepare_other [OF inv c] prepare_view(1) [OF inv, of e] c(2) by simp
  qed
qed

text \<open>
  C34: A task whose slot has been reused ten times is never scheduled. The loops that go from a slot to a task
  try generations 1 to 10 only, so a task of generation 11 or more that is not current never becomes
  current, whatever ticks, yields and sleeps happen and under either policy, even if it is ready and
  nothing else is.
\<close>

theorem late_generation_never_runs:
  assumes "sched_inv m" "\<forall>e \<in> set es. event_ok e \<and> \<not> task_event e" "c < LETTUCE_MAX_TASKS" "running_task m \<noteq> Some c"
    "10 < unat (t_generation (task_of m c))"
  shows "running_task (sched_run es m) \<noteq> Some c"
  using assms
proof (induction es arbitrary: m)
  case Nil
  then show ?case by (simp add: sched_run_def)
next
  case (Cons e es)
  obtain flow m1 where r: "sched_step e m = (flow, m1)" by fastforce
  have "t_generation (task_of m1 c) = t_generation (task_of m c)" "running_task m1 \<noteq> Some c"
    using step_generation [OF Cons.prems(1) _ _ Cons.prems(3,4) r] Cons.prems(2,5) by (auto simp: reachable_by_scan_def)
  moreover have "sched_inv m1" using sched_step_inv [OF Cons.prems(1), of e] Cons.prems(2) r by simp
  ultimately have "running_task (sched_run es m1) \<noteq> Some c" using Cons.IH [of m1] Cons.prems by simp
  then show ?case using r by (simp add: sched_run_def)
qed

lemma late_generation_never_runs_witness:
  "t_state (task_of (demo_machine_with 11 DOMAIN_B) 1) = LETTUCE_TASK_STATE_READY \<and>
   running_task (sched_run (replicate 100 (EvYield (demo_frame 9))) (demo_machine_with 11 DOMAIN_B)) \<noteq> Some 1"
proof
  have t: "task_of (demo_machine_with 11 DOMAIN_B) 1 =
      erase_accounting (fresh_task 1 20 DOMAIN_B 0x41050100 DOMAIN_B_STACK_TOP 0 (task_slot_init\<lparr>t_generation := 11\<rparr>))"
    using demo_task_nth [of 1] by (simp add: task_of_def LETTUCE_MAX_TASKS_def)
  then show "t_state (task_of (demo_machine_with 11 DOMAIN_B) 1) = LETTUCE_TASK_STATE_READY" by (simp add: fresh_task_def Let_def)
  show "running_task (sched_run (replicate 100 (EvYield (demo_frame 9))) (demo_machine_with 11 DOMAIN_B)) \<noteq> Some 1"
    by (rule late_generation_never_runs [OF demo_machine_with_inv])
      (simp_all add: t [simplified] demo_frame_ok LETTUCE_MAX_TASKS_def fresh_task_def Let_def)
qed

text \<open>
  C35: A same-domain switch trusts the tasks' home domains. When the running task is preempted while the
  address space is not its own (it is inside a protected call into another domain), a switch to a task
  of the same home domain leaves the address space as it is: the new task runs in the foreign domain.
\<close>

theorem switch_keeps_foreign_address_space:
  assumes inv: "sched_inv m" and tf: "frame_ok tf" and act: "g_scheduler_active m"
    and run: "do_schedule (Some tf) pre m = (flow, m')"
    and cur: "running_task m = Some c" "running_task m' = Some n" "n \<noteq> c"
    and away: "lettuce_mmu_current_domain (mc_mmu m) \<noteq> t_domain_id (task_of m c)"
    and same: "t_domain_id (task_of m n) = t_domain_id (task_of m c)"
  shows "mc_mmu m' = mc_mmu m \<and> lettuce_mmu_current_domain (mc_mmu m') \<noteq> t_domain_id (task_of m' n)"
proof -
  obtain tf' where "if running_task m' = running_task m then tf' = tf \<and> flow = Continue (Some tf) \<and> m' = m\<lparr>mc_policy := mc_policy m'\<rparr>
      else hand_over_effect (the (running_task m')) pre m flow m' tf'"
    by (rule do_schedule_step [OF inv act run])
  then have eff: "hand_over_effect n pre m flow m' tf'" using cur by simp
  have lt: "c < LETTUCE_MAX_TASKS" "n < LETTUCE_MAX_TASKS"
    using sched_inv_view(2) [OF inv cur(1)] sched_inv_view(2) [OF do_schedule_inv [OF inv tf run] cur(2)] .
  have "same_domain (erased (mc_policy m), running_task m) n"
    using same cur(1) task_of_view [OF inv lt(1)] task_of_view [OF inv lt(2)] by (simp add: same_domain_def)
  then have mmu: "mc_mmu m' = mc_mmu m" using eff by (simp add: hand_over_effect_def Let_def)
  show ?thesis using mmu away same do_schedule_identity [OF inv tf run lt(2)] by simp
qed

lemma demo_same_domain_pick:
  "fst (policy_step g_lettuce_sched_rr_ops 0 (demo_frame 9) False (demo_tasks_with 1 DOMAIN_A)) = Some 1"
  by code_simp

lemma switch_keeps_foreign_address_space_witness:
  "let m = (demo_machine_with 1 DOMAIN_A)\<lparr>mc_mmu := lettuce_mmu_set_current_domain DOMAIN_B demo_mmu\<rparr>;
       m' = snd (do_schedule (Some (demo_frame 9)) False m)
   in running_task m' = Some 1 \<and> lettuce_mmu_current_domain (mc_mmu m') \<noteq> t_domain_id (task_of m' 1)"
proof -
  let ?m = "(demo_machine_with 1 DOMAIN_A)\<lparr>mc_mmu := lettuce_mmu_set_current_domain DOMAIN_B demo_mmu\<rparr>"
  have inv: "sched_inv ?m" using demo_machine_with_inv [of 1 DOMAIN_A] by (simp add: sched_inv_def sched_view_of_def)
  obtain s3 where s3: "policy_step g_lettuce_sched_rr_ops 0 (demo_frame 9) False (demo_tasks_with 1 DOMAIN_A) = (Some 1, s3)"
    using demo_same_domain_pick by (cases "policy_step g_lettuce_sched_rr_ops 0 (demo_frame 9) False (demo_tasks_with 1 DOMAIN_A)") simp
  obtain flow m' where r: "do_schedule (Some (demo_frame 9)) False ?m = (flow, m')" by fastforce
  have "switch_to (Some 0) 1 False (?m\<lparr>mc_policy := s3\<rparr>) = (flow, m')"
    using do_schedule_switches [of ?m "demo_frame 9" False 1 s3] s3 r by simp
  then have one: "running_task m' = Some 1"
    using switch_to_policy(1) [of "Some 0" 1 False "?m\<lparr>mc_policy := s3\<rparr>"]
    by (simp add: policy_switched_def Let_def pcur_def lettuce_task_set_current_def)
  have dom: "t_domain_id (task_of ?m 0) = DOMAIN_A" "t_domain_id (task_of ?m 1) = DOMAIN_A"
    using demo_task_nth [of 0] demo_task_nth [of 1] by (simp_all add: task_of_def fresh_task_def Let_def LETTUCE_MAX_TASKS_def)
  have "lettuce_mmu_current_domain (mc_mmu m') \<noteq> t_domain_id (task_of m' 1)"
    by (rule switch_keeps_foreign_address_space [OF inv demo_frame_ok _ r, of 0, THEN conjunct2])
      (use one dom in \<open>simp_all add: lettuce_mmu_current_domain_def lettuce_mmu_set_current_domain_def\<close>)
  then show ?thesis using r one by (simp add: Let_def)
qed

text \<open>
  Sleeping does not wait when nothing else is ready. If no other task is ready or due, the sleeping task
  stays current and its frame continues at once; it runs on in state SLEEPING, and no time passes for
  it before the call returns.
\<close>

theorem sleep_returns_at_once:
  assumes inv: "sched_inv m" and tf: "frame_ok tf" and act: "g_scheduler_active m" and running: "running_task m = Some c"
    and later: "0 < ticks" "unat (lettuce_timer_get_ticks (mc_timer m)) + unat ticks < 2 ^ 64"
    and none: "\<forall>j < LETTUCE_MAX_TASKS. j \<noteq> c \<longrightarrow>
      t_state (wake_task (lettuce_timer_get_ticks (mc_timer m)) (task_of m j)) \<noteq> LETTUCE_TASK_STATE_READY"
    and run: "lettuce_scheduler_sleep_current ticks (Some tf) m = (flow, m')"
  shows "flow = Continue (Some tf) \<and> running_task m' = Some c \<and> t_state (task_of m' c) = LETTUCE_TASK_STATE_SLEEPING"
proof -
  have c: "c < LETTUCE_MAX_TASKS" using sched_inv_view(2) [OF inv running] .
  let ?e = "EvSleep ticks tf"
  let ?p = "event_prepare ?e m" and ?now = "g_timer_ticks (mc_timer m)"
  note invp = prepare_inv [OF inv, of ?e]
  have r: "do_schedule (Some tf) False ?p = (flow, m')"
    using run running
    by (simp add: lettuce_scheduler_sleep_current_def event_prepare_def lettuce_task_current_def pcur_def Let_def)
  have rp: "running_task ?p = Some c" using running prepare_view(1) [OF inv] by simp
  have actp: "g_scheduler_active ?p" using act by simp
  let ?ts = "map (wake_task ?now) (erased (mc_policy ?p))"
  obtain tf1 where d: "dispatch tf (?ts, Some c) tf1 (erased (mc_policy m'), running_task m')"
    and e: "if running_task m' = running_task ?p then tf1 = tf \<and> flow = Continue (Some tf) \<and> m' = ?p\<lparr>mc_policy := mc_policy m'\<rparr>
      else hand_over_effect (the (running_task m')) False ?p flow m' tf1"
    using do_schedule_step [OF invp actp r] rp by (simp only: sched_view_of_def prepare_fields) metis
  have ok: "view_ok (?ts, Some c)" using view_ok_wake [OF sched_inv_view(3) [OF invp]] rp by simp
  have ts: "?ts ! j = wake_task ?now (task_of ?p j)" if "j < LETTUCE_MAX_TASKS" for j
    using task_of_view [OF invp that] sched_inv_view(1) [OF invp] that by simp
  have tp: "task_of ?p c = (task_of m c)\<lparr>t_sleep_deadline_ticks := ?now + ticks, t_state := LETTUCE_TASK_STATE_SLEEPING\<rparr>"
    using running c sched_inv_view(1) [OF inv] task_of_view [OF inv c]
    unfolding task_of_view [OF invp c, symmetric] prepare_view(2) [OF inv] by (simp del: length_erased)
  have "\<not> ?now + ticks \<le> ?now"
    using later by (simp add: lettuce_timer_get_ticks_def word_le_nat_alt unat_word_ariths word_less_nat_alt)
  then have slp: "?ts ! c = task_of ?p c" by (simp add: ts [OF c] tp wake_task_def)
  have other: "t_state (?ts ! j) \<noteq> LETTUCE_TASK_STATE_READY" if "j < LETTUCE_MAX_TASKS" for j
    using none that slp tp ts [OF that] prepare_other [OF inv that, of ?e] running
    by (cases "j = c") (auto simp: lettuce_timer_get_ticks_def)
  have sv: "saved tf (?ts, Some c) = ?ts" using slp tp by (simp add: saved_def)
  from d have m': "running_task m' = Some c \<and> erased (mc_policy m') = ?ts"
    by (cases rule: dispatch.cases) (use sv other slp tp in \<open>auto simp: renewed_def\<close>)
  have "task_of m' c = ?ts ! c"
    using task_of_view [OF do_schedule_inv [OF invp tf r] c] unfolding conjunct2 [OF m'] by (rule sym)
  then have "t_state (task_of m' c) = LETTUCE_TASK_STATE_SLEEPING" by (simp only: slp tp) simp
  moreover have "flow = Continue (Some tf)" using e m' rp by simp
  ultimately show ?thesis using m' by blast
qed

lemma sleep_returns_at_once_witness:
  "let m = on_tasks (lettuce_task_terminate 0x10001) demo_machine; (flow, m') = lettuce_scheduler_sleep_current 5 (Some (demo_frame 9)) m
   in flow = Continue (Some (demo_frame 9)) \<and> t_state (task_of m' 0) = LETTUCE_TASK_STATE_SLEEPING"
proof -
  let ?m = "on_tasks (lettuce_task_terminate 0x10001) demo_machine"
  have inv: "sched_inv ?m" by (rule terminate_inv [OF demo_machine_inv])
  have len: "length (erased demo_tasks) = LETTUCE_MAX_TASKS" using sched_inv_view(1) [OF demo_machine_inv] by simp
  have get: "lettuce_task_get (ps_tasks demo_tasks) 0x10001 = Some 1"
    using demo_task_nth [of 1 1 DOMAIN_B] by (simp add: lettuce_task_get_def handle_slot_def handle_generation_def Let_def LETTUCE_MAX_TASKS_def
        demo_tasks_def fresh_task_def task_slot_init_def)
  have v: "sched_view_of ?m = ((erased demo_tasks)[1 := (erased demo_tasks ! 1)\<lparr>t_state := LETTUCE_TASK_STATE_TERMINATED,
      t_generation := next_generation (t_generation (erased demo_tasks ! 1))\<rparr>], Some 0)"
    using terminate_view [OF demo_machine_inv, of "0x10001"] get by simp
  have none: "t_state (wake_task now (task_of ?m j)) \<noteq> LETTUCE_TASK_STATE_READY" if "j < LETTUCE_MAX_TASKS" "j \<noteq> 0" for j now
  proof (cases "j = 1")
    case True
    then have "task_of ?m j = (erased demo_tasks ! 1)\<lparr>t_state := LETTUCE_TASK_STATE_TERMINATED,
        t_generation := next_generation (t_generation (erased demo_tasks ! 1))\<rparr>"
      using v that len task_of_view [OF inv that(1)] by (simp add: sched_view_of_def del: length_erased)
    then show ?thesis by (simp add: wake_task_def)
  next
    case False
    then have "task_of ?m j = erase_accounting task_slot_init"
      using v that len task_of_view [OF inv that(1)] task_of_view [OF demo_machine_inv that(1)] demo_task_nth [OF that(1)]
      by (auto simp: sched_view_of_def task_of_def demo_tasks_def simp del: length_erased)
    then show ?thesis by (simp add: wake_task_def task_slot_init_def)
  qed
  obtain flow m' where r: "lettuce_scheduler_sleep_current 5 (Some (demo_frame 9)) ?m = (flow, m')" by fastforce
  have "flow = Continue (Some (demo_frame 9)) \<and> running_task m' = Some 0 \<and> t_state (task_of m' 0) = LETTUCE_TASK_STATE_SLEEPING"
    by (rule sleep_returns_at_once [OF inv demo_frame_ok _ _ _ _ _ r])
      (use v none in \<open>simp_all add: sched_view_of_def lettuce_timer_get_ticks_def, simp add: on_tasks_def\<close>)
  then show ?thesis using r by (simp add: Let_def)
qed

end
