(* ===== verification/Arch_Trap.thy ===== *)
theory Arch_Trap
  imports Posix Sched_Events
begin

text \<open>
  Exception handling of \<^verbatim>\<open>kernel/arch/arm64/cpu.c\<close>: the stack of interrupted callers with pointer
  authentication, preemption counters, supervisor calls from EL0 (protected calls, returns, yield and
  the POSIX-lite dispatcher), aborts and traps, and the interrupt handlers. The assembly transition of
  \<^verbatim>\<open>elevator.S\<close>, which the handler calls, is included; signing and authentication of pointers
  (\<^verbatim>\<open>pac.S\<close>, an instruction each) are parameters, and so are the syndrome and fault address registers,
  the acknowledged interrupt and the counter.
\<close>

section \<open>State\<close>

record LettuceArchContextFrame =
  cf_service_id :: service_id
  cf_domain_id :: domain_id
  cf_elr :: u64
  cf_spsr :: u64
  cf_sp_el0 :: u64

definition LETTUCE_ARCH_CONTEXT_MAX :: u32 where "LETTUCE_ARCH_CONTEXT_MAX = 8"

record trap_state =
  tr_machine :: machine
  tr_posix :: posix_state
  g_context_stack :: "LettuceArchContextFrame list"
  g_context_stack_depth :: u32
  g_pac_enabled :: bool
  g_pac_expected_trap :: bool
  g_pac_trap_observed :: bool
  g_preempt_disable_count :: u32
  g_elevator_use_asm :: bool

record pac_unit =
  lettuce_pac_sign :: "u64 \<Rightarrow> u64 \<Rightarrow> u64"
  lettuce_pac_auth :: "u64 \<Rightarrow> u64 \<Rightarrow> u64"

text \<open>
  How a handler ends: back to EL0 with a frame, into the kernel code that entered EL0 (with a status),
  or in an endless wait.
\<close>

datatype trap_end = TrapReturn LettuceTrapFrame | TrapResume u64 | TrapHalt

abbreviation tr_kernel :: "trap_state \<Rightarrow> kernel_state" where "tr_kernel st \<equiv> mc_kernel (tr_machine st)"
abbreviation tr_mmu :: "trap_state \<Rightarrow> mmu_state" where "tr_mmu st \<equiv> mc_mmu (tr_machine st)"

definition on_mmu :: "(mmu_state \<Rightarrow> mmu_state) \<Rightarrow> trap_state \<Rightarrow> trap_state" where
  "on_mmu f st = st\<lparr>tr_machine := (tr_machine st)\<lparr>mc_mmu := f (tr_mmu st)\<rparr>\<rparr>"

definition on_kernel :: "(kernel_state \<Rightarrow> kernel_state) \<Rightarrow> trap_state \<Rightarrow> trap_state" where
  "on_kernel f st = st\<lparr>tr_machine := (tr_machine st)\<lparr>mc_kernel := f (tr_kernel st)\<rparr>\<rparr>"

definition on_console :: "(string \<Rightarrow> string) list \<Rightarrow> trap_state \<Rightarrow> trap_state" where
  "on_console prints st = st\<lparr>tr_posix := (tr_posix st)\<lparr>ps_io := (ps_io (tr_posix st))
     \<lparr>io_console := fold (\<lambda>p out. p out) prints (io_console (ps_io (tr_posix st)))\<rparr>\<rparr>\<rparr>"

abbreviation puts :: "string \<Rightarrow> string \<Rightarrow> string" where "puts text \<equiv> lettuce_arch_console_puts (Some text)"
abbreviation hex :: "u64 \<Rightarrow> string \<Rightarrow> string" where "hex v \<equiv> lettuce_arch_console_print_hex v"

text \<open>Initialisation installs the exception vectors in the base register of the current exception level.\<close>

datatype vector_base = VBAR_EL1 u64 | VBAR_EL2 u64

definition lettuce_arch_init :: "u64 \<Rightarrow> u64 \<Rightarrow> vector_base option" where
  "lettuce_arch_init current_el_reg vectors =
     (let el = lettuce_arch_current_el current_el_reg in
      if el = 2 then Some (VBAR_EL2 vectors) else if el = 1 then Some (VBAR_EL1 vectors) else None)"

section \<open>Flags and counters\<close>

definition lettuce_pac_enable :: "bool \<Rightarrow> trap_state \<Rightarrow> trap_state" where
  "lettuce_pac_enable enable st = st\<lparr>g_pac_enabled := enable\<rparr>"
definition lettuce_pac_is_enabled :: "trap_state \<Rightarrow> bool" where
  "lettuce_pac_is_enabled st = g_pac_enabled st"
definition lettuce_pac_expect_trap :: "trap_state \<Rightarrow> trap_state" where
  "lettuce_pac_expect_trap st = st\<lparr>g_pac_expected_trap := True, g_pac_trap_observed := False\<rparr>"
definition lettuce_pac_trap_observed :: "trap_state \<Rightarrow> bool" where
  "lettuce_pac_trap_observed st = g_pac_trap_observed st"

definition lettuce_arch_context_corrupt_top_elr :: "u64 \<Rightarrow> trap_state \<Rightarrow> trap_state" where
  "lettuce_arch_context_corrupt_top_elr xor_mask st =
     (if g_context_stack_depth st > 0
      then let top = unat (g_context_stack_depth st - 1); fr = g_context_stack st ! top
           in st\<lparr>g_context_stack := (g_context_stack st)[top := fr\<lparr>cf_elr := cf_elr fr XOR xor_mask\<rparr>]\<rparr>
      else st)"

definition lettuce_preempt_disable :: "trap_state \<Rightarrow> trap_state" where
  "lettuce_preempt_disable st = st\<lparr>g_preempt_disable_count := g_preempt_disable_count st + 1\<rparr>"
definition lettuce_preempt_enable :: "trap_state \<Rightarrow> trap_state" where
  "lettuce_preempt_enable st =
     (if g_preempt_disable_count st > 0 then st\<lparr>g_preempt_disable_count := g_preempt_disable_count st - 1\<rparr> else st)"
definition lettuce_preempt_is_enabled :: "trap_state \<Rightarrow> bool" where
  "lettuce_preempt_is_enabled st \<longleftrightarrow> g_preempt_disable_count st = 0"

definition lettuce_elevator_set_use_asm :: "bool \<Rightarrow> trap_state \<Rightarrow> trap_state" where
  "lettuce_elevator_set_use_asm use_asm st = st\<lparr>g_elevator_use_asm := use_asm\<rparr>"
definition lettuce_elevator_is_using_asm :: "trap_state \<Rightarrow> bool" where
  "lettuce_elevator_is_using_asm st = g_elevator_use_asm st"

section \<open>The stack of callers\<close>

definition lettuce_arch_context_push ::
  "pac_unit \<Rightarrow> service_id \<Rightarrow> domain_id \<Rightarrow> u64 \<Rightarrow> u64 \<Rightarrow> u64 \<Rightarrow> trap_state \<Rightarrow> bool \<times> trap_state" where
  "lettuce_arch_context_push pac svc did elr spsr sp_el0 st =
     (if g_context_stack_depth st \<ge> LETTUCE_ARCH_CONTEXT_MAX then (False, st)
      else let stored_elr = (if g_pac_enabled st then lettuce_pac_sign pac elr (ucast svc) else elr)
           in (True, st\<lparr>g_context_stack := (g_context_stack st)[unat (g_context_stack_depth st) :=
                  \<lparr>cf_service_id = svc, cf_domain_id = did, cf_elr = stored_elr, cf_spsr = spsr, cf_sp_el0 = sp_el0\<rparr>],
                g_context_stack_depth := g_context_stack_depth st + 1\<rparr>))"

definition lettuce_arch_context_pop :: "pac_unit \<Rightarrow> trap_state \<Rightarrow> LettuceArchContextFrame option \<times> trap_state" where
  "lettuce_arch_context_pop pac st =
     (if g_context_stack_depth st = 0 then (None, st)
      else let st1 = st\<lparr>g_context_stack_depth := g_context_stack_depth st - 1\<rparr>;
               fr = g_context_stack st1 ! unat (g_context_stack_depth st1)
           in (Some (if g_pac_enabled st1 then fr\<lparr>cf_elr := lettuce_pac_auth pac (cf_elr fr) (ucast (cf_service_id fr))\<rparr> else fr), st1))"

definition lettuce_arch_context_depth :: "trap_state \<Rightarrow> u32" where
  "lettuce_arch_context_depth st = g_context_stack_depth st"

section \<open>Supervisor calls\<close>

abbreviation LETTUCE_SVC_RETURN :: u32 where "LETTUCE_SVC_RETURN \<equiv> 0"
abbreviation LETTUCE_SVC_CALL :: u32 where "LETTUCE_SVC_CALL \<equiv> 1"
abbreviation LETTUCE_SVC_CROSS_LAYER :: u32 where "LETTUCE_SVC_CROSS_LAYER \<equiv> 2"
abbreviation LETTUCE_SVC_ELEVATOR :: u32 where "LETTUCE_SVC_ELEVATOR \<equiv> 3"
abbreviation LETTUCE_SVC_YIELD :: u32 where "LETTUCE_SVC_YIELD \<equiv> 4"
abbreviation LETTUCE_SVC_SYSCALL :: u32 where "LETTUCE_SVC_SYSCALL \<equiv> 5"

definition set_x0 :: "u64 \<Rightarrow> LettuceTrapFrame \<Rightarrow> LettuceTrapFrame" where
  "set_x0 v fr = fr\<lparr>tf_x := (tf_x fr)[0 := v]\<rparr>"

definition svc_return :: "pac_unit \<Rightarrow> LettuceTrapFrame \<Rightarrow> trap_state \<Rightarrow> trap_end \<times> trap_state" where
  "svc_return pac frame st =
     (if g_context_stack_depth st > 0
      then case lettuce_arch_context_pop pac st of
             (None, st1) \<Rightarrow> (TrapReturn frame, st1)
           | (Some caller, st1) \<Rightarrow>
               let st2 = on_mmu (lettuce_mmu_leave (cf_domain_id caller)) st1;
                   st3 = on_kernel (kernel_set_current_service_id (cf_service_id caller)) st2;
                   return_status = tf_x frame ! 0
               in (TrapReturn (set_x0 return_status (frame\<lparr>tf_elr := cf_elr caller, tf_spsr := cf_spsr caller,
                     tf_sp_el0 := cf_sp_el0 caller\<rparr>)), st3)
      else (TrapResume (tf_x frame ! 0), st))"

record LettuceElevatorDescriptor =
  ed_target_entry_pc :: u64
  ed_target_sp_el0 :: u64
  ed_target_ttbr0_val :: u64
  ed_caller_ttbr0_val :: u64
  ed_target_service :: service_id
  ed_target_domain :: domain_id
  ed_caller_service :: service_id
  ed_caller_domain :: domain_id

definition lettuce_elevator_asm_transition ::
  "LettuceElevatorDescriptor \<Rightarrow> LettuceTrapFrame \<Rightarrow> mmu_state \<Rightarrow> LettuceTrapFrame \<times> mmu_state" where
  "lettuce_elevator_asm_transition desc frame mmu =
     (frame\<lparr>tf_elr := ed_target_entry_pc desc, tf_spsr := 0, tf_sp_el0 := ed_target_sp_el0 desc\<rparr>,
      mmu\<lparr>ttbr0 := ed_target_ttbr0_val desc\<rparr>)"

text \<open>The message and the validation of a protected call.\<close>

definition frame_message :: "LettuceTrapFrame \<Rightarrow> LettuceCallMessage" where
  "frame_message frame = \<lparr>msg_target_service_id = ucast (tf_x frame ! 0), msg_operation_id = ucast (tf_x frame ! 1),
     msg_resource_id = ucast (tf_x frame ! 2), msg_capability_handle = ucast (tf_x frame ! 3)\<rparr>"

definition svc_validate :: "u32 \<Rightarrow> LettuceTrapFrame \<Rightarrow> kernel_state \<Rightarrow> LettuceStatus + LettuceCallResolution" where
  "svc_validate imm frame ks =
     (let msg = frame_message frame in
      if imm = LETTUCE_SVC_CALL
      then lettuce_same_layer_validate (msg_target_service_id msg) (msg_operation_id msg) (msg_resource_id msg)
             (msg_capability_handle msg) True ks
      else if imm = LETTUCE_SVC_CROSS_LAYER then lettuce_cross_layer_validate (Some msg) True ks
      else lettuce_elevator_policy (Some msg) True ks)"

definition svc_call :: "pac_unit \<Rightarrow> u32 \<Rightarrow> LettuceTrapFrame \<Rightarrow> trap_state \<Rightarrow> trap_end \<times> trap_state" where
  "svc_call pac imm frame st =
     (let caller_svc = current_service_id (tr_kernel st); caller_dom = lettuce_mmu_current_domain (tr_mmu st) in
      case svc_validate imm frame (tr_kernel st) of
        Inl val_status \<Rightarrow> (TrapReturn (set_x0 (ucast (status_code val_status)) frame), st)
      | Inr resolution \<Rightarrow>
          if de_entry (cr_entry resolution) = 0
          then (TrapReturn (set_x0 (ucast (status_code LETTUCE_STATUS_INVALID_TARGET_ENTRY)) frame), st)
          else let (pushed, st1) = lettuce_arch_context_push pac caller_svc caller_dom (tf_elr frame) (tf_spsr frame) (tf_sp_el0 frame) st;
                   target = cr_target resolution
          in if \<not> pushed then (TrapReturn (set_x0 (ucast (status_code LETTUCE_STATUS_OVERFLOW)) frame), st1)
          else if imm = LETTUCE_SVC_ELEVATOR \<and> g_elevator_use_asm st1
          then let desc = \<lparr>ed_target_entry_pc = de_entry (cr_entry resolution),
                     ed_target_sp_el0 = lettuce_arch_domain_stack_top (sd_domain target),
                     ed_target_ttbr0_val = lettuce_arch_domain_ttbr0_val (tr_mmu st1) (sd_domain target),
                     ed_caller_ttbr0_val = lettuce_arch_domain_ttbr0_val (tr_mmu st1) caller_dom,
                     ed_target_service = sd_id target, ed_target_domain = sd_domain target,
                     ed_caller_service = caller_svc, ed_caller_domain = caller_dom\<rparr>;
                   st2 = on_kernel (kernel_set_current_service_id (sd_id target)) st1;
                   st3 = on_mmu (lettuce_mmu_set_current_domain (sd_domain target)) st2;
                   (frame', mmu) = lettuce_elevator_asm_transition desc frame (tr_mmu st3)
               in (TrapReturn frame', on_mmu (\<lambda>_. mmu) st3)
          else let st2 = on_mmu (\<lambda>mmu. snd (lettuce_mmu_enter (sd_domain target) mmu)) st1;
                   st3 = on_kernel (kernel_set_current_service_id (sd_id target)) st2
               in (TrapReturn (frame\<lparr>tf_elr := de_entry (cr_entry resolution),
                     tf_sp_el0 := lettuce_arch_domain_stack_top (sd_domain target), tf_spsr := 0\<rparr>), st3))"

definition flow_end :: "LettuceTrapFrame \<Rightarrow> trap_flow \<Rightarrow> trap_end" where
  "flow_end frame flow =
     (case flow of Continue None \<Rightarrow> TrapReturn frame | Continue (Some fr) \<Rightarrow> TrapReturn fr | ResumeKernel s \<Rightarrow> TrapResume s)"

definition svc_yield :: "LettuceTrapFrame \<Rightarrow> trap_state \<Rightarrow> trap_end \<times> trap_state" where
  "svc_yield frame st =
     (let (flow, m) = lettuce_scheduler_yield (Some frame) (tr_machine st) in (flow_end frame flow, st\<lparr>tr_machine := m\<rparr>))"

definition svc_syscall :: "u64 \<Rightarrow> u64 \<Rightarrow> LettuceTrapFrame \<Rightarrow> trap_state \<Rightarrow> trap_end \<times> trap_state" where
  "svc_syscall counter freq frame st =
     (let sys_no = tf_x frame ! 8; x0 = tf_x frame ! 0; x1 = tf_x frame ! 1; x2 = tf_x frame ! 2;
          posix_result = (\<lambda>(res, ps). (TrapReturn (set_x0 res frame), st\<lparr>tr_posix := ps\<rparr>)) in
      if sys_no = LETTUCE_SYS_WRITE then posix_result (lettuce_kernel_sys_write (ucast x0) x1 x2 (tr_posix st))
      else if sys_no = LETTUCE_SYS_READ then posix_result (lettuce_kernel_sys_read (ucast x0) x1 x2 (tr_posix st))
      else if sys_no = LETTUCE_SYS_CLOSE then posix_result (lettuce_kernel_sys_close (ucast x0) (tr_posix st))
      else if sys_no = LETTUCE_SYS_GETPID
      then (TrapReturn (set_x0 (lettuce_kernel_sys_getpid (ps_tasks (mc_policy (tr_machine st)))) frame), st)
      else if sys_no = LETTUCE_SYS_CLOCK_GETTIME
      then posix_result (lettuce_kernel_sys_clock_gettime (ucast x0) x1 counter freq (tr_posix st))
      else if sys_no = LETTUCE_SYS_NANOSLEEP
      then let (res, flow, m) = lettuce_kernel_sys_nanosleep x0 x1 (Some frame) freq (ps_io (tr_posix st)) (tr_machine st)
           in (case flow_end frame flow of TrapReturn fr \<Rightarrow> TrapReturn (set_x0 res fr) | e \<Rightarrow> e, st\<lparr>tr_machine := m\<rparr>)
      else (TrapReturn (set_x0 (- ENOSYS) frame), st))"

section \<open>Handlers\<close>

definition fault_kind :: "u64 \<Rightarrow> string \<Rightarrow> string" where
  "fault_kind fault_status =
     (if fault_status \<ge> 0x4 \<and> fault_status \<le> 0x7 then puts '' (translation_fault)''
      else if fault_status \<ge> 0x8 \<and> fault_status \<le> 0xb then puts '' (access_flag_fault)''
      else if fault_status \<ge> 0xc \<and> fault_status \<le> 0xf then puts '' (permission_fault)''
      else puts '' (data_abort)'')"

definition lettuce_arch_sync_lower_el_handler ::
  "pac_unit \<Rightarrow> u64 \<Rightarrow> u64 \<Rightarrow> u64 \<Rightarrow> u64 \<Rightarrow> LettuceTrapFrame \<Rightarrow> trap_state \<Rightarrow> trap_end \<times> trap_state" where
  "lettuce_arch_sync_lower_el_handler pac counter freq esr far frame st =
     (let exception_class = drop_bit 26 esr AND 0x3f; fault_status = esr AND 0x3f;
          did = ucast (lettuce_mmu_current_domain (tr_mmu st)); svc = ucast (current_service_id (tr_kernel st)) in
      if exception_class = 0x15
      then let imm = ucast (esr AND 0xffff) :: u32 in
           if imm = LETTUCE_SVC_RETURN then svc_return pac frame st
           else if imm = LETTUCE_SVC_CALL \<or> imm = LETTUCE_SVC_CROSS_LAYER \<or> imm = LETTUCE_SVC_ELEVATOR then svc_call pac imm frame st
           else if imm = LETTUCE_SVC_YIELD then svc_yield frame st
           else if imm = LETTUCE_SVC_SYSCALL then svc_syscall counter freq frame st
           else (TrapHalt, on_console [puts ''[EXCEPTION] Unexpected SVC immediate: '', hex (ucast imm), puts ''\<newline>''] st)
      else if exception_class = 0x24 \<or> exception_class = 0x25
      then let st1 = on_console [puts ''[EXCEPTION] LowerEL DataAbort ESR='', hex esr, puts '' ELR='', hex (tf_elr frame),
                 puts '' FAR='', hex far, puts '' EC='', hex exception_class, puts '' FSC='', hex fault_status,
                 fault_kind fault_status, puts '' domain='', hex did, puts '' service='', hex svc, puts ''\<newline>''] st;
               (handled, mmu) = lettuce_mmu_handle_fault esr far (tf_elr frame) (tr_mmu st1);
               st2 = on_mmu (\<lambda>_. mmu) st1
           in if handled then (TrapResume (ucast (status_code LETTUCE_STATUS_ABORTED)), st2)
              else (TrapHalt, on_console [puts ''unexpected LowerEL DataAbort - halted\<newline>''] st2)
      else if exception_class = 0x18 \<or> exception_class = 0x00
      then let st1 = on_console [puts ''[EXCEPTION] LowerEL SysRegTrap ESR='', hex esr, puts '' ELR='', hex (tf_elr frame),
                 puts '' EC='', hex exception_class, puts '' (trapped_sysreg/undefined) domain='', hex did,
                 puts '' service='', hex svc, puts ''\<newline>''] st;
               (handled, mmu) = lettuce_arch_handle_sysreg_trap esr (tf_elr frame) (tr_mmu st1);
               st2 = on_mmu (\<lambda>_. mmu) st1
           in if handled then (TrapResume (ucast (status_code LETTUCE_STATUS_DENIED)), st2)
              else (TrapHalt, on_console [puts ''unexpected LowerEL SysRegTrap - halted\<newline>''] st2)
      else if exception_class = 0x20 \<or> exception_class = 0x21
      then (TrapHalt, on_console [puts ''[EXCEPTION] LowerEL InstructionAbort ESR='', hex esr, puts '' ELR='', hex (tf_elr frame),
              puts '' FAR='', hex far, puts ''\<newline>''] st)
      else (TrapHalt, on_console [puts ''[EXCEPTION] LowerEL Unknown exception class='', hex exception_class, puts ''\<newline>''] st))"

definition lettuce_arch_sync_el1_handler ::
  "u64 \<Rightarrow> u64 \<Rightarrow> LettuceTrapFrame \<Rightarrow> trap_state \<Rightarrow> trap_end \<times> trap_state" where
  "lettuce_arch_sync_el1_handler esr far frame st =
     (let exception_class = drop_bit 26 esr AND 0x3f; fault_status = esr AND 0x3f;
          did = ucast (lettuce_mmu_current_domain (tr_mmu st)); svc = ucast (current_service_id (tr_kernel st));
          data_abort = (exception_class = 0x24 \<or> exception_class = 0x25);
          kind = (if exception_class = 0x20 \<or> exception_class = 0x21 then puts '' (instruction_abort)''
                  else if data_abort then fault_kind fault_status else puts '' (other)'');
          st1 = on_console [puts ''[EXCEPTION] SyncEL1 ESR='', hex esr, puts '' ELR='', hex (tf_elr frame), puts '' FAR='', hex far,
                  puts '' EC='', hex exception_class, puts '' FSC='', hex fault_status, kind,
                  puts '' domain='', hex did, puts '' service='', hex svc, puts ''\<newline>''] st;
          (handled, st2) = (if data_abort
             then let (h, mmu) = lettuce_mmu_handle_fault esr far (tf_elr frame) (tr_mmu st1) in (h, on_mmu (\<lambda>_. mmu) st1)
             else (False, st1))
      in if handled then (TrapReturn (frame\<lparr>tf_elr := tf_elr frame + 4\<rparr>), st2)
         else let st3 = (if exception_class = 0x1c
                then on_console [puts ''[EXCEPTION] SyncEL1 PAC Trap ESR='', hex esr, puts '' ELR='', hex (tf_elr frame), puts ''\<newline>''] st2
                else st2)
         in if exception_class = 0x1c \<and> g_pac_expected_trap st3
            then (TrapReturn (frame\<lparr>tf_elr := tf_elr frame + 4\<rparr>), st3\<lparr>g_pac_trap_observed := True, g_pac_expected_trap := False\<rparr>)
            else (TrapHalt, on_console [puts ''unexpected EL1 exception - system halted\<newline>''] st3))"

definition lettuce_arch_exception_unexpected :: "trap_state \<Rightarrow> trap_end \<times> trap_state" where
  "lettuce_arch_exception_unexpected st =
     (TrapHalt, on_console [puts ''[EXCEPTION] Unexpected exception vector hit - system halted\<newline>''] st)"

definition timer_tick :: "trap_state \<Rightarrow> trap_state" where
  "timer_tick st = st\<lparr>tr_machine := (tr_machine st)\<lparr>mc_timer := lettuce_timer_irq_handler (mc_timer (tr_machine st))\<rparr>\<rparr>"

definition end_of_interrupt :: "u32 \<Rightarrow> trap_state \<Rightarrow> trap_state" where
  "end_of_interrupt intid st =
     (if intid \<noteq> GIC_SPURIOUS_INTID
      then st\<lparr>tr_machine := (tr_machine st)\<lparr>mc_gic := lettuce_gic_end_of_interrupt intid (mc_gic (tr_machine st))\<rparr>\<rparr> else st)"

definition lettuce_arch_irq_el1_handler :: "u32 \<Rightarrow> LettuceTrapFrame \<Rightarrow> trap_state \<Rightarrow> trap_end \<times> trap_state" where
  "lettuce_arch_irq_el1_handler iar frame st =
     (let intid = lettuce_gic_acknowledge iar;
          st1 = (if intid = GIC_INTID_VTIMER then timer_tick st else st)
      in (TrapReturn frame, end_of_interrupt intid st1))"

definition lettuce_arch_irq_lower_el_handler :: "u32 \<Rightarrow> LettuceTrapFrame \<Rightarrow> trap_state \<Rightarrow> trap_end \<times> trap_state" where
  "lettuce_arch_irq_lower_el_handler iar frame st =
     (let intid = lettuce_gic_acknowledge iar in
      if intid = GIC_INTID_VTIMER
      then let st1 = timer_tick st in
           if lettuce_scheduler_is_active (tr_machine st1) \<and> lettuce_preempt_is_enabled st1
           then (case lettuce_scheduler_tick (Some frame) (tr_machine st1) of
                   (ResumeKernel s, m) \<Rightarrow> (TrapResume s, st1\<lparr>tr_machine := m\<rparr>)
                 | (flow, m) \<Rightarrow> (flow_end frame flow, end_of_interrupt intid (st1\<lparr>tr_machine := m\<rparr>)))
           else (TrapReturn frame, end_of_interrupt intid st1)
      else (TrapReturn frame, end_of_interrupt intid st))"

section \<open>Protected calls\<close>

text \<open>
  The state between traps: the translation root is that of the current domain, the caller stack has its
  eight slots and every registered service lives in one of the platform's domains.
\<close>

definition services_placed :: "kernel_state \<Rightarrow> bool" where
  "services_placed ks \<longleftrightarrow>
     (\<forall>sid d. lettuce_service_registry_lookup (ks_services ks) sid = Some d \<longrightarrow> domain_number (sd_domain d) \<noteq> None)"

definition trap_ok :: "mmu_layout \<Rightarrow> u64 \<Rightarrow> trap_state \<Rightarrow> bool" where
  "trap_ok lay el st \<longleftrightarrow> mmu_ok lay el (tr_mmu st) \<and> reg_inv (ks_services (tr_kernel st)) \<and> services_placed (tr_kernel st) \<and>
     length (g_context_stack st) = unat LETTUCE_ARCH_CONTEXT_MAX \<and> g_context_stack_depth st \<le> LETTUCE_ARCH_CONTEXT_MAX"

text \<open>What an accepted call leaves behind.\<close>

definition call_frame :: "LettuceCallResolution \<Rightarrow> LettuceTrapFrame \<Rightarrow> LettuceTrapFrame" where
  "call_frame r frame = frame\<lparr>tf_elr := de_entry (cr_entry r),
     tf_sp_el0 := lettuce_arch_domain_stack_top (sd_domain (cr_target r)), tf_spsr := 0\<rparr>"

definition call_mmu :: "bool \<Rightarrow> domain_id \<Rightarrow> mmu_state \<Rightarrow> mmu_state" where
  "call_mmu asm d mmu = (if asm then mmu\<lparr>current_domain := d, ttbr0 := lettuce_arch_domain_ttbr0_val mmu d\<rparr>
                         else snd (lettuce_mmu_enter d mmu))"

definition saved_caller :: "pac_unit \<Rightarrow> LettuceTrapFrame \<Rightarrow> trap_state \<Rightarrow> LettuceArchContextFrame" where
  "saved_caller pac frame st =
     \<lparr>cf_service_id = current_service_id (tr_kernel st), cf_domain_id = current_domain (tr_mmu st),
      cf_elr = (if g_pac_enabled st then lettuce_pac_sign pac (tf_elr frame) (ucast (current_service_id (tr_kernel st))) else tf_elr frame),
      cf_spsr = tf_spsr frame, cf_sp_el0 = tf_sp_el0 frame\<rparr>"

definition call_state :: "pac_unit \<Rightarrow> bool \<Rightarrow> LettuceCallResolution \<Rightarrow> LettuceTrapFrame \<Rightarrow> trap_state \<Rightarrow> trap_state" where
  "call_state pac asm r frame st =
     st\<lparr>g_context_stack := (g_context_stack st)[unat (g_context_stack_depth st) := saved_caller pac frame st],
        g_context_stack_depth := g_context_stack_depth st + 1,
        tr_machine := (tr_machine st)\<lparr>mc_kernel := kernel_set_current_service_id (sd_id (cr_target r)) (tr_kernel st),
          mc_mmu := call_mmu asm (sd_domain (cr_target r)) (tr_mmu st)\<rparr>\<rparr>"

lemma svc_call_eq:
  "svc_call pac imm frame st =
     (case svc_validate imm frame (tr_kernel st) of
        Inl s \<Rightarrow> (TrapReturn (set_x0 (ucast (status_code s)) frame), st)
      | Inr r \<Rightarrow>
          if de_entry (cr_entry r) = 0 then (TrapReturn (set_x0 (ucast (status_code LETTUCE_STATUS_INVALID_TARGET_ENTRY)) frame), st)
          else if g_context_stack_depth st \<ge> LETTUCE_ARCH_CONTEXT_MAX
          then (TrapReturn (set_x0 (ucast (status_code LETTUCE_STATUS_OVERFLOW)) frame), st)
          else (TrapReturn (call_frame r frame), call_state pac (imm = LETTUCE_SVC_ELEVATOR \<and> g_elevator_use_asm st) r frame st))"
  by (cases "imm = LETTUCE_SVC_ELEVATOR"; cases "g_elevator_use_asm st")
    (simp_all add: svc_call_def lettuce_arch_context_push_def call_frame_def call_state_def call_mmu_def saved_caller_def
      on_kernel_def on_mmu_def lettuce_elevator_asm_transition_def lettuce_mmu_set_current_domain_def lettuce_mmu_current_domain_def
      Let_def split: sum.split)

definition svc_permission :: "u32 \<Rightarrow> u32" where
  "svc_permission imm = (if imm = LETTUCE_SVC_ELEVATOR then LETTUCE_CAP_CALL OR LETTUCE_CAP_CRITICAL else LETTUCE_CAP_CALL)"

definition svc_layers :: "u32 \<Rightarrow> u8 \<Rightarrow> u8 \<Rightarrow> bool" where
  "svc_layers imm a b \<longleftrightarrow> (imm = LETTUCE_SVC_CALL \<longrightarrow> a = b) \<and> (imm = LETTUCE_SVC_CROSS_LAYER \<longrightarrow> a \<noteq> b)"

lemma svc_validate_iff:
  assumes "reg_inv (ks_services ks)" "imm \<in> {LETTUCE_SVC_CALL, LETTUCE_SVC_CROSS_LAYER, LETTUCE_SVC_ELEVATOR}"
  shows "svc_validate imm frame ks = Inr r \<longleftrightarrow>
    call_authorised (svc_permission imm) ks (frame_message frame) r \<and> svc_layers imm (sd_layer (cr_caller r)) (sd_layer (cr_target r))"
  using assms(2) same_layer_validate_iff [of "frame_message frame" ks r] cross_layer_validate_iff [OF assms(1), of "frame_message frame" r]
    elevator_policy_iff [OF assms(1), of "frame_message frame" r]
  by (auto simp: svc_validate_def svc_permission_def svc_layers_def same_layer_message_validate_def Let_def)

lemma svc_validate_not_ok: "svc_validate imm frame ks = Inl s \<Longrightarrow> s \<noteq> LETTUCE_STATUS_OK"
  by (auto simp: svc_validate_def lettuce_same_layer_validate_def lettuce_cross_layer_validate_def lettuce_elevator_policy_def Let_def
      split: if_splits option.splits)

text \<open>
  C1: Protected calls from EL0 are completely mediated. A call trap either returns to its caller with a
  status other than OK in x0 and no other effect, or it was authorised: both services are registered
  and active, the layers are as the kind of call demands, and the service the kernel holds as current
  owns a live capability for exactly this target, operation and resource (with CRITICAL for the
  Elevator). Then EL0 continues at the registered entry on the stack of the target's domain with PSTATE
  zero and the argument registers untouched, the target is the current service, and the caller is on
  the stack.
\<close>

theorem svc_call_mediated:
  assumes reg: "reg_inv (ks_services (tr_kernel st))"
    and imm: "imm \<in> {LETTUCE_SVC_CALL, LETTUCE_SVC_CROSS_LAYER, LETTUCE_SVC_ELEVATOR}"
    and run: "svc_call pac imm frame st = (e, st')"
  shows "(\<exists>s. s \<noteq> LETTUCE_STATUS_OK \<and> e = TrapReturn (set_x0 (ucast (status_code s)) frame) \<and> st' = st) \<or>
    (\<exists>r. call_authorised (svc_permission imm) (tr_kernel st) (frame_message frame) r \<and>
       svc_layers imm (sd_layer (cr_caller r)) (sd_layer (cr_target r)) \<and>
       g_context_stack_depth st < LETTUCE_ARCH_CONTEXT_MAX \<and>
       e = TrapReturn (frame\<lparr>tf_elr := de_entry (cr_entry r), tf_spsr := 0,
             tf_sp_el0 := lettuce_arch_domain_stack_top (sd_domain (cr_target r))\<rparr>) \<and>
       current_service_id (tr_kernel st') = sd_id (cr_target r) \<and>
       lettuce_arch_context_depth st' = lettuce_arch_context_depth st + 1 \<and>
       g_context_stack st' = (g_context_stack st)[unat (g_context_stack_depth st) := saved_caller pac frame st])"
proof (cases "svc_validate imm frame (tr_kernel st)")
  case (Inl s)
  then show ?thesis using run svc_validate_not_ok [OF Inl] by (auto simp: svc_call_eq)
next
  case (Inr r)
  have auth: "call_authorised (svc_permission imm) (tr_kernel st) (frame_message frame) r \<and>
      svc_layers imm (sd_layer (cr_caller r)) (sd_layer (cr_target r))"
    using svc_validate_iff [OF reg imm] Inr by blast
  consider "de_entry (cr_entry r) = 0" | "de_entry (cr_entry r) \<noteq> 0" "g_context_stack_depth st \<ge> LETTUCE_ARCH_CONTEXT_MAX"
    | "de_entry (cr_entry r) \<noteq> 0" "\<not> LETTUCE_ARCH_CONTEXT_MAX \<le> g_context_stack_depth st" by fastforce
  then show ?thesis
  proof cases
    case 1
    then show ?thesis using run Inr by (intro disjI1 exI [of _ LETTUCE_STATUS_INVALID_TARGET_ENTRY]) (simp add: svc_call_eq)
  next
    case 2
    then show ?thesis using run Inr by (intro disjI1 exI [of _ LETTUCE_STATUS_OVERFLOW]) (simp add: svc_call_eq)
  next
    case 3
    have "(e, st') = (TrapReturn (call_frame r frame), call_state pac (imm = LETTUCE_SVC_ELEVATOR \<and> g_elevator_use_asm st) r frame st)"
      using run Inr 3 by (simp add: svc_call_eq)
    moreover have "g_context_stack_depth st < LETTUCE_ARCH_CONTEXT_MAX" using 3(2) by (simp add: not_le)
    ultimately show ?thesis using auth
      by (intro disjI2 exI [of _ r])
        (simp add: call_frame_def call_state_def lettuce_arch_context_depth_def current_service_id_def
          kernel_set_current_service_id_def set_current_service_id_def)
  qed
qed

lemma call_mmu_asm:
  assumes "mmu_ok lay el mmu" "domain_number d \<noteq> None"
  shows "call_mmu True d mmu = call_mmu False d mmu"
proof -
  obtain c where c: "domain_number (current_domain mmu) = Some c" "ttbr0 mmu = domain_root lay el c"
      "arch_domains mmu = arch_domains (lettuce_mmu_init lay (mmu_boot lay el))"
    using assms(1) by (auto simp: mmu_ok_def)
  obtain k where k: "domain_number d = Some k" using assms(2) by auto
  have val: "lettuce_arch_domain_ttbr0_val mmu d = domain_root lay el k"
    using k c(3) by (simp add: lettuce_arch_domain_ttbr0_val_def arch_domain_lookup_number domain_root_def)
  have nz: "d \<noteq> 0" using k by (auto simp: domain_number_def)
  show ?thesis
  proof (cases "d = current_domain mmu")
    case True
    then show ?thesis using c k val by (simp add: call_mmu_def lettuce_mmu_enter_def)
  next
    case False
    then show ?thesis using nz k val c(3)
      by (simp add: call_mmu_def lettuce_mmu_enter_def arch_domain_lookup_number write_ttbr_def domain_root_def)
  qed
qed

lemma call_mmu_enter:
  assumes "mmu_ok lay el mmu" "domain_number d \<noteq> None"
  shows "call_mmu asm d mmu = snd (lettuce_mmu_enter d mmu)"
proof (cases asm)
  case True
  then show ?thesis using call_mmu_asm [OF assms] by (simp add: call_mmu_def [of False])
qed (simp add: call_mmu_def)

text \<open>
  C22: The assembly transition of the Elevator is equivalent to the C path. When the translation root is that
  of the current domain and the accepted target lives in a known domain, an Elevator call ends in the
  same trap frame and the same kernel and translation state whichever path is selected.
\<close>

theorem elevator_asm_equivalent:
  assumes "mmu_ok lay el (tr_mmu st)"
    and "\<And>r. svc_validate LETTUCE_SVC_ELEVATOR frame (tr_kernel st) = Inr r \<Longrightarrow> domain_number (sd_domain (cr_target r)) \<noteq> None"
  shows "svc_call pac LETTUCE_SVC_ELEVATOR frame (lettuce_elevator_set_use_asm True st) =
    map_prod id (lettuce_elevator_set_use_asm True) (svc_call pac LETTUCE_SVC_ELEVATOR frame (lettuce_elevator_set_use_asm False st))"
proof (cases "svc_validate LETTUCE_SVC_ELEVATOR frame (tr_kernel st)")
  case (Inl s)
  then show ?thesis by (simp add: svc_call_eq lettuce_elevator_set_use_asm_def)
next
  case (Inr r)
  have "call_mmu True (sd_domain (cr_target r)) (tr_mmu st) = call_mmu False (sd_domain (cr_target r)) (tr_mmu st)"
    by (rule call_mmu_asm [OF assms(1) assms(2) [OF Inr]])
  then show ?thesis using Inr by (simp add: svc_call_eq lettuce_elevator_set_use_asm_def call_state_def saved_caller_def)
qed

text \<open>
  Without that condition the two paths differ. For an accepted Elevator call to a service of an unknown
  domain the assembly path installs translation root zero and records the unknown domain as current,
  while the C path keeps address space and current domain.
\<close>

theorem elevator_asm_unknown_domain:
  assumes "svc_validate LETTUCE_SVC_ELEVATOR frame (tr_kernel st) = Inr r" "de_entry (cr_entry r) \<noteq> 0"
    "g_context_stack_depth st < LETTUCE_ARCH_CONTEXT_MAX" "domain_number (sd_domain (cr_target r)) = None"
  shows "tr_mmu (snd (svc_call pac LETTUCE_SVC_ELEVATOR frame (lettuce_elevator_set_use_asm True st))) =
      (tr_mmu st)\<lparr>current_domain := sd_domain (cr_target r), ttbr0 := 0\<rparr> \<and>
    tr_mmu (snd (svc_call pac LETTUCE_SVC_ELEVATOR frame (lettuce_elevator_set_use_asm False st))) = tr_mmu st"
proof -
  have "\<not> LETTUCE_ARCH_CONTEXT_MAX \<le> g_context_stack_depth st" using assms(3) by (simp add: not_le)
  moreover have "arch_domain_lookup mmu (sd_domain (cr_target r)) = None" for mmu
    using assms(4) by (simp add: arch_domain_lookup_number)
  ultimately show ?thesis using assms(1,2)
    by (simp add: svc_call_eq lettuce_elevator_set_use_asm_def call_state_def call_mmu_def lettuce_arch_domain_ttbr0_val_def
        lettuce_mmu_enter_def Let_def)
qed

section \<open>Returning\<close>

text \<open>What pointer authentication promises: a signed pointer authenticates to itself under the same modifier.\<close>

definition pac_sound :: "pac_unit \<Rightarrow> bool" where
  "pac_sound pac \<longleftrightarrow> (\<forall>p m. lettuce_pac_auth pac (lettuce_pac_sign pac p m) m = p)"

text \<open>
  What may happen inside a protected call: system calls other than nanosleep, refused calls, and
  complete calls with their own inside.
\<close>

inductive activity :: "pac_unit \<Rightarrow> trap_state \<Rightarrow> trap_state \<Rightarrow> bool" for pac where
  idle: "activity pac st st"
| syscall: "tf_x frame ! 8 \<noteq> LETTUCE_SYS_NANOSLEEP \<Longrightarrow> svc_syscall counter freq frame st = (e, st1) \<Longrightarrow>
    activity pac st1 st2 \<Longrightarrow> activity pac st st2"
| refused: "imm \<in> {LETTUCE_SVC_CALL, LETTUCE_SVC_CROSS_LAYER, LETTUCE_SVC_ELEVATOR} \<Longrightarrow> svc_call pac imm frame st = (e, st1) \<Longrightarrow>
    g_context_stack_depth st1 = g_context_stack_depth st \<Longrightarrow> activity pac st1 st2 \<Longrightarrow> activity pac st st2"
| nested: "imm \<in> {LETTUCE_SVC_CALL, LETTUCE_SVC_CROSS_LAYER, LETTUCE_SVC_ELEVATOR} \<Longrightarrow> svc_call pac imm frame st = (e1, st1) \<Longrightarrow>
    g_context_stack_depth st1 \<noteq> g_context_stack_depth st \<Longrightarrow> activity pac st1 st2 \<Longrightarrow>
    svc_return pac frame2 st2 = (e2, st3) \<Longrightarrow> activity pac st3 st4 \<Longrightarrow> activity pac st st4"

lemma trap_ok_posix [simp]: "trap_ok lay el (st\<lparr>tr_posix := ps\<rparr>) = trap_ok lay el st"
  by (simp add: trap_ok_def)

lemma syscall_machine:
  assumes "svc_syscall counter freq frame st = (e, st')" "tf_x frame ! 8 \<noteq> LETTUCE_SYS_NANOSLEEP"
  shows "\<exists>ps. st' = st\<lparr>tr_posix := ps\<rparr>"
proof -
  have "\<exists>ps. st = st\<lparr>tr_posix := ps\<rparr>" by (rule exI [of _ "tr_posix st"]) simp
  then show ?thesis
    using assms by (auto simp: svc_syscall_def Let_def split: prod.splits if_splits)
qed

text \<open>The state an accepted call leaves, when the target's domain is known.\<close>

lemma call_accepted:
  assumes ok: "trap_ok lay el st" and imm: "imm \<in> {LETTUCE_SVC_CALL, LETTUCE_SVC_CROSS_LAYER, LETTUCE_SVC_ELEVATOR}"
    and run: "svc_call pac imm frame st = (e, st1)"
  shows "st1 = st \<or>
    (\<exists>r asm. g_context_stack_depth st < LETTUCE_ARCH_CONTEXT_MAX \<and> e = TrapReturn (call_frame r frame) \<and>
      st1 = call_state pac asm r frame st \<and> g_context_stack_depth st1 \<noteq> g_context_stack_depth st \<and> trap_ok lay el st1 \<and>
      call_mmu asm (sd_domain (cr_target r)) (tr_mmu st) = snd (lettuce_mmu_enter (sd_domain (cr_target r)) (tr_mmu st)))"
proof (cases "svc_validate imm frame (tr_kernel st)")
  case (Inl s)
  then show ?thesis using run by (simp add: svc_call_eq)
next
  case (Inr r)
  let ?asm = "imm = LETTUCE_SVC_ELEVATOR \<and> g_elevator_use_asm st" and ?d = "sd_domain (cr_target r)"
  have reg: "reg_inv (ks_services (tr_kernel st))" using ok by (simp add: trap_ok_def)
  have "call_authorised (svc_permission imm) (tr_kernel st) (frame_message frame) r"
    using svc_validate_iff [OF reg imm] Inr by blast
  then have known: "domain_number ?d \<noteq> None" using ok by (auto simp: trap_ok_def services_placed_def call_authorised_def)
  have mo: "mmu_ok lay el (tr_mmu st)" using ok by (simp add: trap_ok_def)
  have "mmu_ok lay el (snd (lettuce_mmu_enter ?d (tr_mmu st)))" by (rule mmu_enter_facts [OF mo prod.collapse [symmetric], THEN conjunct1])
  then have mmu: "mmu_ok lay el (call_mmu ?asm ?d (tr_mmu st))" by (simp only: call_mmu_enter [OF mo known])
  consider "st1 = st" | "\<not> LETTUCE_ARCH_CONTEXT_MAX \<le> g_context_stack_depth st" "e = TrapReturn (call_frame r frame)" "st1 = call_state pac ?asm r frame st"
    using run Inr
    by (cases "de_entry (cr_entry r) = 0"; cases "LETTUCE_ARCH_CONTEXT_MAX \<le> g_context_stack_depth st") (simp_all add: svc_call_eq)
  then show ?thesis
  proof cases
    case 2
    have lt: "unat (g_context_stack_depth st) < 8" using 2(1) by (simp add: LETTUCE_ARCH_CONTEXT_MAX_def word_le_nat_alt)
    have depth: "g_context_stack_depth st1 = g_context_stack_depth st + 1" using 2(3) by (simp add: call_state_def)
    have "unat (g_context_stack_depth st + 1) = unat (g_context_stack_depth st) + 1" using lt by (simp add: unat_word_ariths)
    then have "g_context_stack_depth st1 \<le> LETTUCE_ARCH_CONTEXT_MAX" using lt depth by (simp add: LETTUCE_ARCH_CONTEXT_MAX_def word_le_nat_alt)
    moreover have "ks_services (kernel_set_current_service_id (sd_id (cr_target r)) (tr_kernel st)) = ks_services (tr_kernel st)"
      by (simp add: kernel_set_current_service_id_def set_current_service_id_def)
    ultimately have "trap_ok lay el st1"
      using ok mmu 2(3) by (simp add: trap_ok_def call_state_def services_placed_def)
    then show ?thesis using 2 depth by (intro disjI2 exI [of _ r] exI [of _ ?asm]) (auto simp: not_le call_mmu_enter [OF mo known])
  qed simp
qed

text \<open>A return pops the caller a call has pushed, whatever lies above on the stack.\<close>

definition above :: "trap_state \<Rightarrow> trap_state \<Rightarrow> bool" where
  "above st st' \<longleftrightarrow> tr_machine st' = tr_machine st \<and> g_context_stack_depth st' = g_context_stack_depth st \<and>
     take (unat (g_context_stack_depth st)) (g_context_stack st') = take (unat (g_context_stack_depth st)) (g_context_stack st) \<and>
     length (g_context_stack st') = length (g_context_stack st) \<and>
     g_pac_enabled st' = g_pac_enabled st \<and> g_elevator_use_asm st' = g_elevator_use_asm st"

lemma above_refl: "above st st" by (simp add: above_def)
lemma above_trans: "above st st1 \<Longrightarrow> above st1 st2 \<Longrightarrow> above st st2" by (simp add: above_def)
lemma above_trap_ok: "above st st' \<Longrightarrow> trap_ok lay el st \<Longrightarrow> trap_ok lay el st'" by (simp add: above_def trap_ok_def)

lemma set_current_service_undo:
  "kernel_set_current_service_id (current_service_id ks) (kernel_set_current_service_id s ks) = ks"
  by (simp add: kernel_set_current_service_id_def set_current_service_id_def current_service_id_def)

lemma pop_saved_caller:
  assumes len: "length (g_context_stack st) = 8" and sound: "g_pac_enabled st \<Longrightarrow> pac_sound pac"
    and lt: "g_context_stack_depth st < LETTUCE_ARCH_CONTEXT_MAX"
    and dep: "g_context_stack_depth st2 = g_context_stack_depth st + 1" and pac: "g_pac_enabled st2 = g_pac_enabled st"
    and tk: "take (unat (g_context_stack_depth st2)) (g_context_stack st2) =
      take (unat (g_context_stack_depth st2)) ((g_context_stack st)[unat (g_context_stack_depth st) := saved_caller pac frame st])"
  shows "g_context_stack_depth st2 > 0 \<and> lettuce_arch_context_pop pac st2 =
    (Some ((saved_caller pac frame st)\<lparr>cf_elr := tf_elr frame\<rparr>), st2\<lparr>g_context_stack_depth := g_context_stack_depth st\<rparr>)"
proof -
  let ?n = "unat (g_context_stack_depth st)"
  have n: "?n < 8" using lt by (simp add: LETTUCE_ARCH_CONTEXT_MAX_def word_less_nat_alt)
  have n1: "unat (g_context_stack_depth st2) = Suc ?n" using n dep by (simp add: unat_word_ariths)
  have nz: "g_context_stack_depth st2 \<noteq> 0" using n1 by auto
  have "g_context_stack st2 ! ?n = take (Suc ?n) (g_context_stack st2) ! ?n" by simp
  also have "\<dots> = saved_caller pac frame st" unfolding tk [unfolded n1] using n len by simp
  finally have top: "g_context_stack st2 ! ?n = saved_caller pac frame st" .
  have "(if g_pac_enabled st then lettuce_pac_auth pac (cf_elr (saved_caller pac frame st)) (ucast (cf_service_id (saved_caller pac frame st)))
      else cf_elr (saved_caller pac frame st)) = tf_elr frame"
    using sound by (simp add: saved_caller_def pac_sound_def)
  then show ?thesis using dep nz by (auto simp: lettuce_arch_context_pop_def Let_def top pac saved_caller_def word_gt_0)
qed

lemma return_undoes_call:
  assumes ok: "trap_ok lay el st" and sound: "g_pac_enabled st \<Longrightarrow> pac_sound pac"
    and lt: "g_context_stack_depth st < LETTUCE_ARCH_CONTEXT_MAX"
    and mmu: "call_mmu asm (sd_domain (cr_target r)) (tr_mmu st) = snd (lettuce_mmu_enter (sd_domain (cr_target r)) (tr_mmu st))"
    and ab: "above (call_state pac asm r frame st) st2"
  shows "svc_return pac frame2 st2 =
    (TrapReturn (frame2\<lparr>tf_elr := tf_elr frame, tf_spsr := tf_spsr frame, tf_sp_el0 := tf_sp_el0 frame\<rparr>),
     st2\<lparr>g_context_stack_depth := g_context_stack_depth st, tr_machine := tr_machine st\<rparr>)"
proof -
  have len: "length (g_context_stack st) = 8" using ok by (simp add: trap_ok_def LETTUCE_ARCH_CONTEXT_MAX_def)
  have pop: "g_context_stack_depth st2 > 0 \<and> lettuce_arch_context_pop pac st2 =
      (Some ((saved_caller pac frame st)\<lparr>cf_elr := tf_elr frame\<rparr>), st2\<lparr>g_context_stack_depth := g_context_stack_depth st\<rparr>)"
    using ab by (intro pop_saved_caller [OF len sound lt]) (simp_all add: above_def call_state_def)
  have "mmu_ok lay el (tr_mmu st)" using ok by (simp add: trap_ok_def)
  then have leave: "lettuce_mmu_leave (current_domain (tr_mmu st)) (call_mmu asm (sd_domain (cr_target r)) (tr_mmu st)) = tr_mmu st"
    unfolding mmu using mmu_enter_facts [OF _ prod.collapse [symmetric]] by metis
  have mach: "tr_machine st2 = tr_machine (call_state pac asm r frame st)" using ab by (simp add: above_def)
  show ?thesis
    using pop by (simp add: svc_return_def on_mmu_def on_kernel_def mach call_state_def saved_caller_def leave
        set_current_service_undo set_x0_def Let_def)
qed

lemma above_call_state:
  assumes lt: "g_context_stack_depth st < LETTUCE_ARCH_CONTEXT_MAX" and ab: "above (call_state pac asm r frame st) st2"
  shows "above st (st2\<lparr>g_context_stack_depth := g_context_stack_depth st, tr_machine := tr_machine st\<rparr>)"
proof -
  let ?n = "unat (g_context_stack_depth st)"
  have n: "?n < 8" using lt by (simp add: LETTUCE_ARCH_CONTEXT_MAX_def word_less_nat_alt)
  have n1: "unat (g_context_stack_depth st + 1) = Suc ?n" using n by (simp add: unat_word_ariths)
  have "take (Suc ?n) (g_context_stack st2) = take (Suc ?n) ((g_context_stack st)[?n := saved_caller pac frame st])"
    using ab n1 by (simp add: above_def call_state_def)
  from arg_cong [OF this, of "take ?n"] have "take ?n (g_context_stack st2) = take ?n (g_context_stack st)" by (simp add: min_def)
  then show ?thesis using ab by (simp add: above_def call_state_def)
qed

lemma activity_above:
  "activity pac st st' \<Longrightarrow> trap_ok lay el st \<Longrightarrow> (g_pac_enabled st \<Longrightarrow> pac_sound pac) \<Longrightarrow> above st st'"
proof (induction rule: activity.induct)
  case (idle st)
  show ?case by (rule above_refl)
next
  case (syscall frame counter freq st e st1 st2)
  obtain ps where ps: "st1 = st\<lparr>tr_posix := ps\<rparr>" using syscall_machine [OF syscall.hyps(2,1)] by blast
  have "above st st1" by (simp add: ps above_def)
  moreover have "above st1 st2" using syscall.IH syscall.prems by (simp add: ps)
  ultimately show ?case by (rule above_trans)
next
  case (refused imm frame st e st1 st2)
  have "st1 = st" using call_accepted [OF refused.prems(1) refused.hyps(1,2)] refused.hyps(3) by auto
  then show ?case using refused.IH refused.prems by simp
next
  case (nested imm frame st e1 st1 st2 frame2 e2 st3 st4)
  obtain r asm where c: "g_context_stack_depth st < LETTUCE_ARCH_CONTEXT_MAX" "st1 = call_state pac asm r frame st" "trap_ok lay el st1"
      "call_mmu asm (sd_domain (cr_target r)) (tr_mmu st) = snd (lettuce_mmu_enter (sd_domain (cr_target r)) (tr_mmu st))"
    using call_accepted [OF nested.prems(1) nested.hyps(1,2)] nested.hyps(3) by auto
  have p1: "g_pac_enabled st1 = g_pac_enabled st" by (simp add: c(2) call_state_def)
  have ab: "above st1 st2" using nested.IH(1) c(3) nested.prems(2) p1 by simp
  have st3: "st3 = st2\<lparr>g_context_stack_depth := g_context_stack_depth st, tr_machine := tr_machine st\<rparr>"
    using return_undoes_call [OF nested.prems c(1,4) ab [unfolded c(2)], of frame2] nested.hyps(5) by simp
  have "above st st3" using above_call_state [OF c(1) ab [unfolded c(2)]] by (simp add: st3)
  then show ?case using nested.IH(2) above_trap_ok [OF _ nested.prems(1)] nested.prems(2) above_trans by (auto simp: above_def)
qed


section \<open>Interrupts\<close>

lemma switch_to_gic:
  assumes "switch_to cur n pre m = (flow, m')"
  shows "case flow of Continue fr \<Rightarrow> fr \<noteq> None \<and> mc_gic m' = mc_gic m | ResumeKernel s \<Rightarrow> mc_gic m' = GicEoi GIC_INTID_VTIMER # mc_gic m"
  using assms by (auto simp: switch_to_def lettuce_gic_end_of_interrupt_def Let_def split: if_splits option.splits)

lemma do_schedule_gic:
  assumes "do_schedule (Some tf) pre m = (flow, m')"
  shows "case flow of Continue fr \<Rightarrow> fr \<noteq> None \<and> mc_gic m' = mc_gic m | ResumeKernel s \<Rightarrow> mc_gic m' = GicEoi GIC_INTID_VTIMER # mc_gic m"
  using assms by (auto simp: do_schedule_def Let_def split: if_splits prod.splits option.splits dest!: switch_to_gic split: trap_flow.splits)

lemma irq_keeps_callers:
  assumes "lettuce_arch_irq_lower_el_handler iar frame st = (e, st')"
  shows "\<exists>m. st' = st\<lparr>tr_machine := m\<rparr>"
proof -
  have "\<exists>m. st = st\<lparr>tr_machine := m\<rparr>" by (rule exI [of _ "tr_machine st"]) simp
  then show ?thesis
    using assms by (auto simp: lettuce_arch_irq_lower_el_handler_def timer_tick_def end_of_interrupt_def Let_def
        split: if_splits prod.splits trap_flow.splits)
qed

lemma yield_keeps_callers: "svc_yield frame st = (e, st') \<Longrightarrow> \<exists>m. st' = st\<lparr>tr_machine := m\<rparr>"
  by (auto simp: svc_yield_def split: prod.splits)

text \<open>
  C29: An interrupt taken at EL0 is ended exactly once, with the identifier that was acknowledged, on every path:
  also when the scheduler abandons the trap and resumes the kernel. Spurious interrupts are not ended.
  Only the virtual timer's interrupt, with the scheduler active and preemption enabled, can change the
  running task; any other interrupt returns to the interrupted frame and leaves tasks, services and
  address space alone. The stack of callers is never touched.
\<close>

theorem irq_ended_once:
  assumes "lettuce_arch_irq_lower_el_handler iar frame st = (e, st')"
  shows "e \<noteq> TrapHalt \<and>
    mc_gic (tr_machine st') = (if lettuce_gic_acknowledge iar = GIC_SPURIOUS_INTID then mc_gic (tr_machine st)
                               else GicEoi (lettuce_gic_acknowledge iar) # mc_gic (tr_machine st)) \<and>
    (lettuce_gic_acknowledge iar \<noteq> GIC_INTID_VTIMER \<or> \<not> lettuce_scheduler_is_active (tr_machine st) \<or> \<not> lettuce_preempt_is_enabled st \<longrightarrow>
       e = TrapReturn frame \<and> mc_policy (tr_machine st') = mc_policy (tr_machine st) \<and>
       tr_kernel st' = tr_kernel st \<and> tr_mmu st' = tr_mmu st) \<and>
    g_context_stack st' = g_context_stack st \<and> lettuce_arch_context_depth st' = lettuce_arch_context_depth st"
proof -
  have idem: "GicEoi (lettuce_gic_acknowledge iar AND 0x3ff) = GicEoi (lettuce_gic_acknowledge iar)"
    by (simp add: lettuce_gic_acknowledge_def and.assoc)
  note unf = lettuce_arch_irq_lower_el_handler_def timer_tick_def end_of_interrupt_def lettuce_gic_end_of_interrupt_def
    lettuce_scheduler_is_active_def lettuce_preempt_is_enabled_def lettuce_arch_context_depth_def Let_def
  show ?thesis
  proof (cases "lettuce_gic_acknowledge iar = GIC_INTID_VTIMER \<and> g_scheduler_active (tr_machine st) \<and> g_preempt_disable_count st = 0")
    case False
    then show ?thesis using assms idem by (auto simp: unf split: if_splits)
  next
    case True
    let ?m = "tr_machine (timer_tick st)"
    obtain flow m' where r: "do_schedule (Some frame) True ?m = (flow, m')" by fastforce
    have g: "mc_gic ?m = mc_gic (tr_machine st)" by (simp add: timer_tick_def)
    have ns: "GIC_INTID_VTIMER \<noteq> GIC_SPURIOUS_INTID" by simp
    show ?thesis using assms True r do_schedule_gic [OF r] g idem ns
      by (cases flow) (auto simp: unf lettuce_scheduler_tick_def flow_end_def)
  qed
qed

section \<open>Concrete states\<close>

definition demo_trap :: "kernel_state \<Rightarrow> trap_state" where
  "demo_trap ks = \<lparr>tr_machine = demo_machine\<lparr>mc_kernel := ks, mc_mmu := lettuce_mmu_init demo_layout (mmu_boot demo_layout 1)\<rparr>,
     tr_posix = demo_posix, g_context_stack = replicate 8 \<lparr>cf_service_id = 0, cf_domain_id = 0, cf_elr = 0, cf_spsr = 0, cf_sp_el0 = 0\<rparr>,
     g_context_stack_depth = 0, g_pac_enabled = True, g_pac_expected_trap = False, g_pac_trap_observed = False,
     g_preempt_disable_count = 0, g_elevator_use_asm = False\<rparr>"

definition demo_pac :: pac_unit where
  "demo_pac = \<lparr>lettuce_pac_sign = (\<lambda>p m. p XOR push_bit 48 m), lettuce_pac_auth = (\<lambda>p m. p XOR push_bit 48 m)\<rparr>"

definition message_frame :: "LettuceCallMessage \<Rightarrow> LettuceTrapFrame" where
  "message_frame msg = (demo_frame 7)\<lparr>tf_x := [ucast (msg_target_service_id msg), ucast (msg_operation_id msg),
     ucast (msg_resource_id msg), ucast (msg_capability_handle msg)] @ replicate 26 0\<rparr>"

lemma demo_pac_sound: "pac_sound demo_pac"
  by (simp add: pac_sound_def demo_pac_def xor.assoc)

lemma frame_message_demo: "frame_message (message_frame demo_message) = demo_message"
    "frame_message (message_frame elevator_message) = elevator_message"
  by (simp_all add: frame_message_def message_frame_def demo_message_def elevator_message_def)

lemma demo_services_nth:
  assumes "n < LETTUCE_SERVICE_TABLE_SIZE"
  shows "re_descriptor (demo_services ! n) =
     (if n = 10 then camera_descriptor else if n = 20 then display_descriptor else if n = 40 then sensor_descriptor else zero_descriptor)"
  using assms by (simp add: demo_services_def lettuce_service_registry_init_def
      lettuce_service_registry_register_def lettuce_dispatch_register_def
      lettuce_service_registry_entry_mutable_def zero_descriptor_def Let_def
      LETTUCE_SERVICE_TABLE_SIZE_def LETTUCE_DISPATCH_OPERATION_LIMIT_def camera_descriptor_def
      display_descriptor_def sensor_descriptor_def zero_operations_def nth_list_update)

lemma demo_services_placed: "ks_services ks = demo_services \<Longrightarrow> services_placed ks"
  by (auto simp: services_placed_def lettuce_service_registry_lookup_def demo_services_nth Let_def camera_descriptor_def
      display_descriptor_def sensor_descriptor_def zero_descriptor_def domain_number_def split: if_splits)

lemma demo_trap_simps [simp]:
  "tr_kernel (demo_trap ks) = ks" "tr_mmu (demo_trap ks) = lettuce_mmu_init demo_layout (mmu_boot demo_layout 1)"
  "g_context_stack_depth (demo_trap ks) = 0" "g_pac_enabled (demo_trap ks)"
  by (simp_all add: demo_trap_def)

lemma demo_trap_ok: "ks_services ks = demo_services \<Longrightarrow> trap_ok demo_layout 1 (demo_trap ks)"
  using demo_reg_inv by (simp add: trap_ok_def mmu_ok_init demo_services_placed LETTUCE_ARCH_CONTEXT_MAX_def demo_trap_def demo_kernel_def)

lemma demo_svc_validate: "svc_validate LETTUCE_SVC_CALL (message_frame demo_message) demo_kernel = Inr demo_resolution"
  using demo_authorised svc_validate_iff [OF demo_reg_inv, of LETTUCE_SVC_CALL "message_frame demo_message" demo_resolution]
  by (simp add: frame_message_demo svc_permission_def svc_layers_def demo_resolution_def camera_descriptor_def display_descriptor_def)

lemma elevator_svc_validate: "svc_validate LETTUCE_SVC_ELEVATOR (message_frame elevator_message) elevator_kernel = Inr elevator_resolution"
  using elevator_demo(2) by (simp add: svc_validate_def frame_message_demo Let_def)

text \<open>The same kernel with the sensor registered in a domain the platform does not have.\<close>

definition stray_services :: service_table where
  "stray_services = fold reg_step [RegRegister camera_descriptor, RegRegister (sensor_descriptor\<lparr>sd_domain := 999\<rparr>),
     RegDispatch 40 1 0x41050100] lettuce_service_registry_init"

definition stray_kernel :: kernel_state where
  "stray_kernel = elevator_kernel\<lparr>ks_services := stray_services\<rparr>"

lemma stray_lookups:
  "lettuce_service_registry_lookup stray_services 10 = Some camera_descriptor"
  "lettuce_service_registry_lookup stray_services 40 = Some (sensor_descriptor\<lparr>sd_domain := 999\<rparr>)"
  "lettuce_dispatch_lookup stray_services 40 1 = Some \<lparr>de_entry = 0x41050100, de_active = True\<rparr>"
  by (simp_all add: stray_services_def lettuce_service_registry_init_def
      lettuce_service_registry_register_def lettuce_dispatch_register_def
      lettuce_service_registry_entry_mutable_def zero_descriptor_def Let_def
      lettuce_service_registry_lookup_def lettuce_dispatch_lookup_def lettuce_service_registry_entry_def
      LETTUCE_SERVICE_TABLE_SIZE_def LETTUCE_DISPATCH_OPERATION_LIMIT_def camera_descriptor_def
      sensor_descriptor_def zero_operations_def)

lemma stray_svc_validate:
  "svc_validate LETTUCE_SVC_ELEVATOR (message_frame elevator_message) stray_kernel =
     Inr (elevator_resolution\<lparr>cr_target := sensor_descriptor\<lparr>sd_domain := 999\<rparr>\<rparr>)"
proof -
  have "reg_inv stray_services" unfolding stray_services_def by (rule reg_inv_run [OF reg_inv_init])
  then have inv: "reg_inv (ks_services stray_kernel)" by (simp add: stray_kernel_def)
  have "lettuce_elevator_policy (Some elevator_message) True stray_kernel = Inr (elevator_resolution\<lparr>cr_target := sensor_descriptor\<lparr>sd_domain := 999\<rparr>\<rparr>)"
    unfolding elevator_policy_iff [OF inv]
    by (simp add: call_authorised_def stray_kernel_def elevator_kernel_def elevator_message_def elevator_resolution_def
        demo_kernel_def stray_lookups elevator_cap_view cap_allows_def current_service_id_def
        service_active_def camera_descriptor_def sensor_descriptor_def)
  then show ?thesis by (simp add: svc_validate_def frame_message_demo Let_def)
qed

lemma elevator_asm_unknown_domain_witness:
  "ttbr0 (tr_mmu (snd (svc_call demo_pac LETTUCE_SVC_ELEVATOR (message_frame elevator_message)
     (lettuce_elevator_set_use_asm True (demo_trap stray_kernel))))) = 0"
  using elevator_asm_unknown_domain [of "message_frame elevator_message" "demo_trap stray_kernel" _ demo_pac]
  by (simp add: stray_svc_validate elevator_resolution_def sensor_descriptor_def domain_number_def LETTUCE_ARCH_CONTEXT_MAX_def)

lemma demo_call_depth:
  "lettuce_arch_context_depth (snd (svc_call demo_pac LETTUCE_SVC_CALL (message_frame demo_message) (demo_trap demo_kernel))) = 1"
  by (simp add: svc_call_eq demo_svc_validate demo_resolution_def LETTUCE_ARCH_CONTEXT_MAX_def call_state_def lettuce_arch_context_depth_def)

lemma svc_call_mediated_witness:
  "reg_inv (ks_services demo_kernel) \<and>
   current_service_id (tr_kernel (snd (svc_call demo_pac LETTUCE_SVC_CALL (message_frame demo_message) (demo_trap demo_kernel)))) = 20"
proof -
  let ?r = "svc_call demo_pac LETTUCE_SVC_CALL (message_frame demo_message) (demo_trap demo_kernel)"
  have reg: "reg_inv (ks_services (tr_kernel (demo_trap demo_kernel)))" using demo_reg_inv by simp
  have "snd ?r \<noteq> demo_trap demo_kernel" using demo_call_depth by (auto simp: lettuce_arch_context_depth_def)
  moreover have "sd_id (cr_target r) = 20" if "call_authorised p demo_kernel demo_message r" for p r
  proof -
    have "lettuce_service_registry_lookup demo_services 20 = Some (cr_target r)"
      using that by (simp add: call_authorised_def demo_message_def demo_kernel_def)
    then have "cr_target r = display_descriptor" unfolding demo_lookups by simp
    then show ?thesis by (simp add: display_descriptor_def)
  qed
  ultimately show ?thesis
    using svc_call_mediated [OF reg _ prod.collapse [symmetric], of LETTUCE_SVC_CALL demo_pac "message_frame demo_message"] demo_reg_inv
    by (auto simp: frame_message_demo)
qed

lemma elevator_asm_equivalent_witness:
  "svc_validate LETTUCE_SVC_ELEVATOR (message_frame elevator_message) elevator_kernel = Inr elevator_resolution \<and>
   domain_number (sd_domain (cr_target elevator_resolution)) \<noteq> None \<and>
   fst (svc_call demo_pac LETTUCE_SVC_ELEVATOR (message_frame elevator_message) (lettuce_elevator_set_use_asm True (demo_trap elevator_kernel))) =
   fst (svc_call demo_pac LETTUCE_SVC_ELEVATOR (message_frame elevator_message) (lettuce_elevator_set_use_asm False (demo_trap elevator_kernel)))"
proof -
  have d: "domain_number (sd_domain (cr_target elevator_resolution)) \<noteq> None"
    by (simp add: elevator_resolution_def sensor_descriptor_def domain_number_def)
  show ?thesis
    using elevator_asm_equivalent [of demo_layout 1 "demo_trap elevator_kernel" "message_frame elevator_message" demo_pac] d
    by (simp add: mmu_ok_init elevator_svc_validate)
qed


lemma irq_ended_once_witness:
  "mc_gic (tr_machine (snd (lettuce_arch_irq_lower_el_handler 27 (demo_frame 9) (demo_trap demo_kernel)))) = [GicEoi 27]"
  using irq_ended_once [OF prod.collapse [symmetric], of 27 "demo_frame 9" "demo_trap demo_kernel"]
  by (simp add: lettuce_gic_acknowledge_def demo_trap_def demo_machine_def demo_machine_with_def demo_machine0_def)

end
