(* ===== verification/El0.thy ===== *)
theory El0
  imports Arch_Trap
begin

text \<open>
  Code at EL0: a model of the instructions the services of \<^verbatim>\<open>kernel/arch/arm64/entry.S\<close> consist of, on a
  machine in which every fetch, load and store goes through the translation tables of the kernel and every
  exception goes to the handler of \<^verbatim>\<open>cpu.c\<close>. The theory holds the step function, the loop that runs
  a service until the kernel is resumed, and the isolation of domains for arbitrary code.
\<close>

section \<open>Instructions\<close>

text \<open>
  Registers are numbered from 0 to 29, branch targets are byte offsets from the instruction. \<^verbatim>\<open>Ldr_lit\<close>
  is the pseudo-instruction \<^verbatim>\<open>ldr x, =constant\<close>, \<^verbatim>\<open>Mrs\<close> reads a system register of EL1.
\<close>

datatype el0_instr =
    Mov nat u64
  | Ldr_lit nat u64
  | Ldr nat nat
  | Str nat nat
  | Add_imm nat nat u64
  | Cmp nat nat
  | Cmp_imm nat u64
  | B u64
  | B_ne u64
  | Cbz nat u64
  | Cbnz nat u64
  | Mrs nat
  | Svc u64

text \<open>
  The condition flags are the bits 31 to 28 of the saved program status: negative, zero, carry,
  overflow of the subtraction.
\<close>

definition flags_of_cmp :: "u64 \<Rightarrow> u64 \<Rightarrow> u64" where
  "flags_of_cmp a b =
     (if bit (a - b) 63 then push_bit 31 1 else 0) OR (if a = b then push_bit 30 1 else 0) OR
     (if b \<le> a then push_bit 29 1 else 0) OR (if bit a 63 \<noteq> bit b 63 \<and> bit (a - b) 63 \<noteq> bit a 63 then push_bit 28 1 else 0)"

definition set_flags :: "u64 \<Rightarrow> LettuceTrapFrame \<Rightarrow> LettuceTrapFrame" where
  "set_flags f fr = fr\<lparr>tf_spsr := (tf_spsr fr AND NOT 0xf0000000) OR f\<rparr>"

definition zero_flag :: "LettuceTrapFrame \<Rightarrow> bool" where
  "zero_flag fr \<longleftrightarrow> bit (tf_spsr fr) 30"

section \<open>Memory\<close>

text \<open>Physical memory, as 64-bit words at the addresses the code uses, beside the state of the kernel.\<close>

record el0_world =
  ew_trap :: trap_state
  ew_mem :: "u64 \<Rightarrow> u64"

abbreviation ew_mmu :: "'a el0_world_scheme \<Rightarrow> mmu_state" where "ew_mmu w \<equiv> tr_mmu (ew_trap w)"

datatype access = Fetch | Load | Store

definition permits :: "access \<Rightarrow> u64 \<Rightarrow> bool" where
  "permits acc e = (case acc of Fetch \<Rightarrow> el0_exec e | Load \<Rightarrow> el0_access e | Store \<Rightarrow> el0_write e)"

text \<open>The level at which a walk ends, for the fault status.\<close>

definition walk_level :: "mmu_layout \<Rightarrow> mmu_state \<Rightarrow> u64 \<Rightarrow> u64 \<Rightarrow> u64" where
  "walk_level lay st root va =
     (if 2 ^ 39 \<le> unat va then 0
      else case table_at lay st (root AND ADDR_MASK) of None \<Rightarrow> 0 | Some t1 \<Rightarrow>
        let e1 = t1 ! table_index 30 va in
        if \<not> desc_valid e1 \<or> \<not> desc_next e1 then 1
        else case table_at lay st (e1 AND ADDR_MASK) of None \<Rightarrow> 1 | Some t2 \<Rightarrow>
          let e2 = t2 ! table_index 21 va in
          if \<not> desc_valid e2 \<or> \<not> desc_next e2 then 2 else 3)"

text \<open>An access gives a physical address or a fault status code: 4 plus level for a missing translation, 12 plus level for a missing right.\<close>

definition translate :: "mmu_layout \<Rightarrow> mmu_state \<Rightarrow> access \<Rightarrow> u64 \<Rightarrow> u64 + u64" where
  "translate lay st acc va =
     (case walk lay st (ttbr0 st) va of
        None \<Rightarrow> Inl (4 + walk_level lay st (ttbr0 st) va)
      | Some (e, pa) \<Rightarrow> if permits acc e then Inr pa else Inl (12 + walk_level lay st (ttbr0 st) va))"

section \<open>Execution\<close>

text \<open>
  What the model is relative to: the addresses the linker chose, the instructions in the page of service
  code, the pointer authentication unit, the counter and its frequency, and the values that the code of the
  kernel has in the general registers and in the link register when it enters EL0.
\<close>

record platform =
  pl_layout :: mmu_layout
  pl_image :: "el0_instr list"
  pl_pac :: pac_unit
  pl_counter :: u64
  pl_freq :: u64
  pl_regs :: "trap_state \<Rightarrow> u64 list"
  pl_link :: "trap_state \<Rightarrow> u64"

datatype 'w el0_outcome = Running LettuceTrapFrame 'w | Resumed u64 'w | Halted 'w

text \<open>An exception: the vector code saves the registers, the handler runs, and its end decides.\<close>

definition el0_exception ::
  "platform \<Rightarrow> u64 \<Rightarrow> u64 \<Rightarrow> LettuceTrapFrame \<Rightarrow> 'a el0_world_scheme \<Rightarrow> 'a el0_world_scheme el0_outcome" where
  "el0_exception pl esr far fr w =
     (case lettuce_arch_sync_lower_el_handler (pl_pac pl) (pl_counter pl) (pl_freq pl) esr far fr (ew_trap w) of
        (TrapReturn fr', st) \<Rightarrow> Running fr' (w\<lparr>ew_trap := st\<rparr>)
      | (TrapResume s, st) \<Rightarrow> Resumed s (w\<lparr>ew_trap := st\<rparr>)
      | (TrapHalt, st) \<Rightarrow> Halted (w\<lparr>ew_trap := st\<rparr>))"

definition ESR_SVC :: "u64 \<Rightarrow> u64" where "ESR_SVC imm = 0x56000000 OR imm"
definition ESR_DATA_ABORT :: "u64 \<Rightarrow> bool \<Rightarrow> u64" where
  "ESR_DATA_ABORT fsc is_write = 0x92000000 OR (if is_write then 0x40 else 0) OR fsc"
definition ESR_INSTRUCTION_ABORT :: "u64 \<Rightarrow> u64" where "ESR_INSTRUCTION_ABORT fsc = 0x82000000 OR fsc"
definition ESR_UNDEFINED :: u64 where "ESR_UNDEFINED = 0x02000000"

definition next_pc :: "LettuceTrapFrame \<Rightarrow> LettuceTrapFrame" where
  "next_pc fr = fr\<lparr>tf_elr := tf_elr fr + 4\<rparr>"

definition jump :: "u64 \<Rightarrow> LettuceTrapFrame \<Rightarrow> LettuceTrapFrame" where
  "jump off fr = fr\<lparr>tf_elr := tf_elr fr + off\<rparr>"

definition set_x :: "nat \<Rightarrow> u64 \<Rightarrow> LettuceTrapFrame \<Rightarrow> LettuceTrapFrame" where
  "set_x r v fr = fr\<lparr>tf_x := (tf_x fr)[r := v]\<rparr>"

fun el0_exec_instr ::
  "platform \<Rightarrow> el0_instr \<Rightarrow> LettuceTrapFrame \<Rightarrow> 'a el0_world_scheme \<Rightarrow> 'a el0_world_scheme el0_outcome" where
  "el0_exec_instr pl (Mov r imm) fr w = Running (next_pc (set_x r imm fr)) w"
| "el0_exec_instr pl (Ldr_lit r imm) fr w = Running (next_pc (set_x r imm fr)) w"
| "el0_exec_instr pl (Ldr r a) fr w =
     (case translate (pl_layout pl) (ew_mmu w) Load (tf_x fr ! a) of
        Inl fsc \<Rightarrow> el0_exception pl (ESR_DATA_ABORT fsc False) (tf_x fr ! a) fr w
      | Inr pa \<Rightarrow> Running (next_pc (set_x r (ew_mem w pa) fr)) w)"
| "el0_exec_instr pl (Str r a) fr w =
     (case translate (pl_layout pl) (ew_mmu w) Store (tf_x fr ! a) of
        Inl fsc \<Rightarrow> el0_exception pl (ESR_DATA_ABORT fsc True) (tf_x fr ! a) fr w
      | Inr pa \<Rightarrow> Running (next_pc fr) (w\<lparr>ew_mem := (ew_mem w)(pa := tf_x fr ! r)\<rparr>))"
| "el0_exec_instr pl (Add_imm r a imm) fr w = Running (next_pc (set_x r (tf_x fr ! a + imm) fr)) w"
| "el0_exec_instr pl (Cmp a b) fr w = Running (next_pc (set_flags (flags_of_cmp (tf_x fr ! a) (tf_x fr ! b)) fr)) w"
| "el0_exec_instr pl (Cmp_imm a imm) fr w = Running (next_pc (set_flags (flags_of_cmp (tf_x fr ! a) imm) fr)) w"
| "el0_exec_instr pl (B off) fr w = Running (jump off fr) w"
| "el0_exec_instr pl (B_ne off) fr w = Running (if zero_flag fr then next_pc fr else jump off fr) w"
| "el0_exec_instr pl (Cbz r off) fr w = Running (if tf_x fr ! r = 0 then jump off fr else next_pc fr) w"
| "el0_exec_instr pl (Cbnz r off) fr w = Running (if tf_x fr ! r \<noteq> 0 then jump off fr else next_pc fr) w"
| "el0_exec_instr pl (Mrs r) fr w = el0_exception pl ESR_UNDEFINED 0 fr w"
| "el0_exec_instr pl (Svc imm) fr w = el0_exception pl (ESR_SVC imm) 0 (next_pc fr) w"

text \<open>Fetching goes through the tables too; outside the instructions of the image the encoding is undefined.\<close>

definition el0_step :: "platform \<Rightarrow> LettuceTrapFrame \<Rightarrow> 'a el0_world_scheme \<Rightarrow> 'a el0_world_scheme el0_outcome" where
  "el0_step pl fr w =
     (case translate (pl_layout pl) (ew_mmu w) Fetch (tf_elr fr) of
        Inl fsc \<Rightarrow> el0_exception pl (ESR_INSTRUCTION_ABORT fsc) (tf_elr fr) fr w
      | Inr pa \<Rightarrow>
          let i = unat (pa - lay_code (pl_layout pl)) div 4 in
          if i < length (pl_image pl) then el0_exec_instr pl (pl_image pl ! i) fr w
          else el0_exception pl ESR_UNDEFINED 0 fr w)"

text \<open>
  Running until a handler resumes the kernel, which is where \<^verbatim>\<open>lettuce_el0_enter\<close> returns to its caller. A
  service that never returns has no result, and neither has a machine that halts.
\<close>

partial_function (option) el0_loop ::
  "platform \<Rightarrow> LettuceTrapFrame \<Rightarrow> 'a el0_world_scheme \<Rightarrow> (s64 \<times> 'a el0_world_scheme) option" where
  "el0_loop pl fr w =
     (case el0_step pl fr w of Running fr' w' \<Rightarrow> el0_loop pl fr' w' | Resumed s w' \<Rightarrow> Some (s, w') | Halted w' \<Rightarrow> None)"

text \<open>
  \<^verbatim>\<open>lettuce_el0_enter\<close> sets program counter, stack pointer and status; of the general registers it
  changes x2 and x3 only, so code at EL0 starts with the two arguments and with whatever the kernel had in the others.
\<close>

definition el0_start :: "u64 list \<Rightarrow> u64 \<Rightarrow> u64 \<Rightarrow> u64 \<Rightarrow> LettuceTrapFrame" where
  "el0_start regs link entry_pc el0_sp =
     \<lparr>tf_x = regs[0 := entry_pc, 1 := el0_sp], tf_lr = link, tf_elr = entry_pc, tf_spsr = 0, tf_sp_el0 = el0_sp\<rparr>"

definition lettuce_el0_enter ::
  "platform \<Rightarrow> u64 \<Rightarrow> u64 \<Rightarrow> 'a el0_world_scheme \<Rightarrow> (s64 \<times> 'a el0_world_scheme) option" where
  "lettuce_el0_enter pl entry_pc el0_sp w =
     el0_loop pl (el0_start (pl_regs pl (ew_trap w)) (pl_link pl (ew_trap w)) entry_pc el0_sp) w"

section \<open>What code at EL0 can reach\<close>

text \<open>The translation tables are those that initialisation built.\<close>

definition tables_ok :: "mmu_layout \<Rightarrow> u64 \<Rightarrow> mmu_state \<Rightarrow> bool" where
  "tables_ok lay el mmu \<longleftrightarrow>
     (let st = lettuce_mmu_init lay (mmu_boot lay el) in
      kernel_l2_device mmu = kernel_l2_device st \<and> domain_l1 mmu = domain_l1 st \<and> domain_l2 mmu = domain_l2 st \<and> domain_l3 mmu = domain_l3 st)"

definition in_domain :: "mmu_layout \<Rightarrow> u64 \<Rightarrow> nat \<Rightarrow> mmu_state \<Rightarrow> bool" where
  "in_domain lay el k mmu \<longleftrightarrow> tables_ok lay el mmu \<and> mmu_ok lay el mmu \<and> domain_number (current_domain mmu) = Some k"

lemma in_domain_lt: "in_domain lay el k mmu \<Longrightarrow> k < 3"
  by (auto simp: in_domain_def domain_number_lt)

lemma in_domain_root: "in_domain lay el k mmu \<Longrightarrow> ttbr0 mmu = domain_root lay el k"
  by (auto simp: in_domain_def mmu_ok_def)

lemma table_at_tables:
  "tables_ok lay el mmu \<Longrightarrow> table_at lay mmu = table_at lay (lettuce_mmu_init lay (mmu_boot lay el))"
  by (simp add: table_at_def tables_ok_def Let_def fun_eq_iff)

lemma walk_tables:
  assumes "tables_ok lay el mmu"
  shows "walk lay mmu = walk lay (lettuce_mmu_init lay (mmu_boot lay el))"
    and "walk_level lay mmu = walk_level lay (lettuce_mmu_init lay (mmu_boot lay el))"
  unfolding walk_def walk_level_def fun_eq_iff table_at_tables [OF assms] by (rule allI | rule refl)+

text \<open>The frames a domain may read, and those it may write.\<close>

definition readable_frames :: "mmu_layout \<Rightarrow> nat \<Rightarrow> u64 list" where
  "readable_frames lay k = map fst (el0_rights lay k)"

definition writable_frames :: "mmu_layout \<Rightarrow> nat \<Rightarrow> u64 list" where
  "writable_frames lay k = [private_frame lay k, lay_stack lay k, lay_shared lay]"

lemma translate_frames:
  assumes ok: "lay_ok lay" and d: "in_domain lay el k mmu" and t: "translate lay mmu acc va = Inr pa"
  shows "pa AND ADDR_MASK \<in> set (readable_frames lay k)"
    and "acc = Store \<Longrightarrow> pa AND ADDR_MASK \<in> set (writable_frames lay k)"
    and "acc = Fetch \<Longrightarrow> pa AND ADDR_MASK = lay_code lay"
proof -
  let ?st = "lettuce_mmu_init lay (mmu_boot lay el)"
  note k = in_domain_lt [OF d]
  have tab: "tables_ok lay el mmu" using d by (simp add: in_domain_def)
  obtain e where w: "walk lay ?st (domain_root lay el k) va = Some (e, pa)" and p: "permits acc e"
    using t unfolding translate_def walk_tables [OF tab] in_domain_root [OF d] by (auto split: option.splits if_splits)
  have el0: "el0_access e" using p by (auto simp: permits_def el0_access_def el0_write_def el0_exec_def split: access.splits)
  obtain i where i: "i < TABLE_ENTRIES" "e = domain_l3_table lay k ! i" "desc_valid e" "pa = (e AND ADDR_MASK) OR (va AND 0xfff)"
    using walk_el0 [OF ok k w el0] by blast
  obtain f wr x where r: "(f, wr, x) \<in> set (el0_rights lay k)" and u: "user_page e f wr x"
    using l3_entry [OF ok k i(1)] i(2,3) zero_desc by auto
  have "page_frame f" using r lay_frames [OF ok k] by (auto simp: el0_rights_def split: if_splits)
  then have f: "pa AND ADDR_MASK = f" using i(4) u frame_offset by (simp add: user_page_def)
  show "pa AND ADDR_MASK \<in> set (readable_frames lay k)" using r f by (force simp: readable_frames_def)
  show "acc = Store \<Longrightarrow> pa AND ADDR_MASK \<in> set (writable_frames lay k)"
    using r u p f by (auto simp: writable_frames_def el0_rights_def user_page_def permits_def split: if_splits)
  show "acc = Fetch \<Longrightarrow> pa AND ADDR_MASK = lay_code lay"
    using r u p f by (auto simp: el0_rights_def user_page_def permits_def split: if_splits)
qed

section \<open>Where the pages of a domain are\<close>

lemma table_index_unat: "table_index n va = (unat va div 2 ^ n) mod 512"
proof -
  have "drop_bit n va AND 0x1ff = take_bit 9 (drop_bit n va)" by (simp add: take_bit_eq_mask mask_eq_exp_minus_1)
  then have "unat (drop_bit n va AND 0x1ff) = take_bit 9 (drop_bit n (unat va))"
    by (simp only: unsigned_take_bit_eq unat_drop_bit_eq)
  then show ?thesis by (simp add: table_index_def take_bit_eq_mod drop_bit_eq_div)
qed

lemma page_offset: "va AND 0xfff = (of_nat (unat va mod 4096) :: u64)"
proof -
  have "va AND 0xfff = take_bit 12 va" by (simp add: take_bit_eq_mask mask_eq_exp_minus_1)
  also have "\<dots> = of_nat (unat (take_bit 12 va))" by simp
  also have "unat (take_bit 12 va) = unat va mod 4096" by (simp only: unsigned_take_bit_eq) (simp add: take_bit_eq_mod)
  finally show ?thesis .
qed

text \<open>Addresses in the region of the domains: page \<^verbatim>\<open>i\<close> of 512, offset \<^verbatim>\<open>n\<close>.\<close>

definition region_va :: "nat \<Rightarrow> nat \<Rightarrow> u64" where
  "region_va i n = of_nat (0x41000000 + 4096 * i + n)"

lemma region_va_index:
  assumes "i < 512" "n < 4096"
  shows "table_index 30 (region_va i n) = 1" "table_index 21 (region_va i n) = 8" "table_index 12 (region_va i n) = i"
    "region_va i n AND 0xfff = of_nat n" "unat (region_va i n) < 2 ^ 39"
proof -
  have "take_bit LENGTH(64) (0x41000000 + 4096 * i + n) = 0x41000000 + 4096 * i + n"
    by (rule take_bit_nat_eq_self) (use assms in simp)
  then have u: "unat (region_va i n) = 0x41000000 + 4096 * i + n"
    unfolding region_va_def unsigned_of_nat of_nat_id .
  have page: "unat (region_va i n) div 4096 = 512 * 520 + i" "unat (region_va i n) mod 4096 = n"
  proof -
    have "1090519040 + 4096 * i + n = n + 4096 * (512 * 520 + i)" by simp
    then show "unat (region_va i n) div 4096 = 512 * 520 + i" "unat (region_va i n) mod 4096 = n"
      unfolding u using assms(2) by (simp_all only: div_mult_self2 mod_mult_self2) simp_all
  qed
  have ix: "table_index (12 + k) (region_va i n) = ((512 * 520 + i) div 2 ^ k) mod 512" for k
    unfolding table_index_unat power_add div_mult2_eq using page(1) by simp
  have sec: "(512 * 520 + i) div 512 = 520" using assms(1) by (simp only: div_mult_self4)
  have low: "(512 * 520 + i) mod 512 = i" using assms(1) by (simp only: mod_mult_self4 mod_less)
  show "table_index 30 (region_va i n) = 1" using ix [of 18] assms(1) by (simp add: div_nat_eqI)
  show "table_index 21 (region_va i n) = 8" using ix [of 9] sec by simp
  show "table_index 12 (region_va i n) = i" using ix [of 0] low by simp
  show "region_va i n AND 0xfff = of_nat n" unfolding page_offset page(2) ..
  show "unat (region_va i n) < 2 ^ 39" unfolding u using assms by simp
qed
lemma translate_region:
  assumes ok: "lay_ok lay" and d: "in_domain lay el k mmu" and i: "i < 512" "n < 4096"
  shows "translate lay mmu acc (region_va i n) =
    (let e = domain_l3_table lay k ! i in
     if \<not> desc_valid e \<or> \<not> desc_next e then Inl 7 else if permits acc e then Inr ((e AND ADDR_MASK) OR of_nat n) else Inl 15)"
proof -
  note k = in_domain_lt [OF d] and va = region_va_index [OF i]
  note fr = lay_frames [OF ok k] and tab = table_at_layout [OF ok k, of el]
  note td = table_descriptor_addr [OF fr(3)] table_descriptor_addr [OF fr(4)]
  have tabs: "tables_ok lay el mmu" using d by (simp add: in_domain_def)
  have "l1_table lay k ! 1 = table_descriptor (lay_l2 lay k)" "l2_table lay k ! 8 = table_descriptor (lay_l3 lay k)"
    by (simp_all add: nth_l1_table nth_l2_table TABLE_ENTRIES_def)
  then have lev: "walk_level lay (lettuce_mmu_init lay (mmu_boot lay el)) (domain_root lay el k) (region_va i n) = 3"
    using va(5) by (simp add: walk_level_def domain_root_addr [OF ok k] tab td va(1,2) Let_def)
  show ?thesis
    unfolding translate_def walk_tables [OF tabs] in_domain_root [OF d] lev walk_region [OF ok k va(1,2,5)] va(3,4) by (simp add: Let_def)
qed

text \<open>The pages of a domain, by number: code, shared page and its own private page and stack.\<close>

definition private_page :: "nat \<Rightarrow> nat" where "private_page k = [0, 256, 384] ! k"

lemma l3_pages:
  assumes "k < 3"
  shows "domain_l3_table lay k ! 80 = page_descriptor (lay_code lay) ATTR_RX"
    "domain_l3_table lay k ! 448 = page_descriptor (lay_shared lay) ATTR_RW"
    "j < 3 \<Longrightarrow> domain_l3_table lay k ! private_page j = (if j = k then page_descriptor (private_frame lay k) ATTR_RW else 0)"
proof -
  have ix: "table_index 12 PRIVATE_A_VA = 0" "table_index 12 PRIVATE_B_VA = 256" "table_index 12 PRIVATE_C_VA = 384"
      "table_index 12 DOMAIN_A_STACK_VA = 1" "table_index 12 DOMAIN_B_STACK_VA = 257" "table_index 12 DOMAIN_C_STACK_VA = 385"
    by code_simp+
  have k: "k = 0 \<or> k = 1 \<or> k = 2" using assms by linarith
  show "domain_l3_table lay k ! 80 = page_descriptor (lay_code lay) ATTR_RX"
    "domain_l3_table lay k ! 448 = page_descriptor (lay_shared lay) ATTR_RW"
    using k by (auto simp: domain_l3_table_def domain_vas_def nth_l3_table TABLE_ENTRIES_def ix)
  assume "j < 3"
  then have "j = 0 \<or> j = 1 \<or> j = 2" by linarith
  then show "domain_l3_table lay k ! private_page j = (if j = k then page_descriptor (private_frame lay k) ATTR_RW else 0)"
    using k by (auto simp: domain_l3_table_def domain_vas_def nth_l3_table TABLE_ENTRIES_def ix private_page_def)
qed

lemma translate_pages:
  assumes ok: "lay_ok lay" and d: "in_domain lay el k mmu" and n: "n < 4096"
  shows "translate lay mmu Fetch (region_va 80 n) = Inr (lay_code lay OR of_nat n)"
    and "acc \<noteq> Fetch \<Longrightarrow> translate lay mmu acc (region_va 448 n) = Inr (lay_shared lay OR of_nat n)"
    and "acc \<noteq> Fetch \<Longrightarrow> translate lay mmu acc (region_va (private_page k) n) = Inr (private_frame lay k OR of_nat n)"
    and "j < 3 \<Longrightarrow> j \<noteq> k \<Longrightarrow> translate lay mmu acc (region_va (private_page j) n) = Inl 7"
proof -
  note k = in_domain_lt [OF d]
  note fr = lay_frames [OF ok k] and e = l3_pages [OF k, where lay = lay]
  note up = user_pages(2) [OF fr(9)] user_pages(1) [OF fr(7)] user_pages(1) [OF fr(5)]
  have p: "private_page j < 512" if "j < 3" for j
  proof -
    have "j = 0 \<or> j = 1 \<or> j = 2" using that by linarith
    then show ?thesis by (auto simp: private_page_def)
  qed
  have acc: "acc = Load \<or> acc = Store" if "acc \<noteq> Fetch" using that by (cases acc) auto
  show "translate lay mmu Fetch (region_va 80 n) = Inr (lay_code lay OR of_nat n)"
    using translate_region [OF ok d _ n, of 80 Fetch] up(1) by (simp add: e(1) user_page_def permits_def Let_def)
  show "acc \<noteq> Fetch \<Longrightarrow> translate lay mmu acc (region_va 448 n) = Inr (lay_shared lay OR of_nat n)"
    using translate_region [OF ok d _ n, of 448 acc] up(2) acc by (auto simp: e(2) user_page_def permits_def Let_def)
  show "acc \<noteq> Fetch \<Longrightarrow> translate lay mmu acc (region_va (private_page k) n) = Inr (private_frame lay k OR of_nat n)"
    using translate_region [OF ok d p [OF k] n, where acc = acc] up(3) acc by (auto simp: e(3) [OF k] user_page_def permits_def Let_def)
  show "j < 3 \<Longrightarrow> j \<noteq> k \<Longrightarrow> translate lay mmu acc (region_va (private_page j) n) = Inl 7"
    using translate_region [OF ok d p [of j] n, where acc = acc] by (simp add: e(3) zero_desc Let_def)
qed

text \<open>The kernel's memory is mapped, for the kernel only: a permission fault at level 2.\<close>

lemma translate_kernel:
  assumes ok: "lay_ok lay" and d: "in_domain lay el k mmu"
  shows "translate lay mmu acc 0x40082000 = Inl 14"
proof -
  note k = in_domain_lt [OF d]
  note fr = lay_frames [OF ok k] and tab = table_at_layout [OF ok k, of el]
  note td = table_descriptor_addr [OF fr(3)] table_descriptor_addr [OF fr(4)]
  have tabs: "tables_ok lay el mmu" using d by (simp add: in_domain_def)
  have ix: "table_index 30 0x40082000 = 1" "table_index 21 0x40082000 = 0" by code_simp+
  have e: "l1_table lay k ! Suc 0 = table_descriptor (lay_l2 lay k)" "l2_table lay k ! 0 = kernel_ram_block_descriptor KERNEL_RAM_PA"
    by (simp_all add: nth_l1_table nth_l2_table TABLE_ENTRIES_def)
  have v: "desc_valid (kernel_ram_block_descriptor KERNEL_RAM_PA)" by code_simp
  have np: "\<not> permits acc (kernel_ram_block_descriptor KERNEL_RAM_PA)"
    using supervisor_blocks(2) by (auto simp: permits_def el0_access_def el0_write_def el0_exec_def split: access.split)
  show ?thesis
    unfolding translate_def walk_tables [OF tabs] in_domain_root [OF d]
    using supervisor_blocks(1) v np by (simp add: walk_def walk_level_def domain_root_addr [OF ok k] tab td ix e Let_def)
qed

section \<open>Handlers keep the tables\<close>

definition world_ok :: "mmu_layout \<Rightarrow> u64 \<Rightarrow> trap_state \<Rightarrow> bool" where
  "world_ok lay el st \<longleftrightarrow> trap_ok lay el st \<and> tables_ok lay el (tr_mmu st)"

lemma tables_enter: "tables_ok lay el (snd (lettuce_mmu_enter d mmu)) = tables_ok lay el mmu"
  by (simp add: tables_ok_def lettuce_mmu_enter_def write_ttbr_def Let_def split: option.split)

lemma world_ok_domain: "world_ok lay el st \<Longrightarrow> \<exists>k. in_domain lay el k (tr_mmu st)"
  by (auto simp: world_ok_def trap_ok_def in_domain_def mmu_ok_def)

text \<open>What matters of the machine: translation state and services.\<close>

lemma world_ok_cong:
  assumes "world_ok lay el st" "mmu_ok lay el (tr_mmu st')" "tables_ok lay el (tr_mmu st')" "ks_services (tr_kernel st') = ks_services (tr_kernel st)"
    "length (g_context_stack st') = length (g_context_stack st)" "g_context_stack_depth st' \<le> g_context_stack_depth st"
  shows "world_ok lay el st'"
  using assms by (auto simp: world_ok_def trap_ok_def services_placed_def)

lemma enter_ok: "mmu_ok lay el mmu \<Longrightarrow> mmu_ok lay el (snd (lettuce_mmu_enter d mmu))"
  by (rule mmu_enter_facts [OF _ prod.collapse [symmetric], THEN conjunct1])

lemma world_ok_console [simp]: "world_ok lay el (on_console ps st) = world_ok lay el st"
  by (simp add: world_ok_def trap_ok_def on_console_def)

lemma world_ok_posix [simp]: "world_ok lay el (st\<lparr>tr_posix := ps\<rparr>) = world_ok lay el st"
  by (simp add: world_ok_def trap_ok_def)

lemma tr_mmu_console [simp]: "tr_mmu (on_console ps st) = tr_mmu st"
  by (simp add: on_console_def)

lemma world_ok_fault:
  assumes "world_ok lay el st"
  shows "world_ok lay el (on_mmu (\<lambda>_. snd (lettuce_mmu_handle_fault esr far elr (tr_mmu st))) st)"
    and "world_ok lay el (on_mmu (\<lambda>_. snd (lettuce_arch_handle_sysreg_trap esr elr (tr_mmu st))) st)"
  using assms
  by (simp_all add: world_ok_def trap_ok_def on_mmu_def mmu_ok_def tables_ok_def lettuce_mmu_handle_fault_def
      lettuce_arch_handle_sysreg_trap_def Let_def)

lemma svc_return_world:
  assumes "world_ok lay el st" "svc_return pac fr st = (e, st')"
  shows "world_ok lay el st'"
proof (cases "g_context_stack_depth st = 0")
  case True
  then show ?thesis using assms by (simp add: svc_return_def)
next
  case False
  have le: "g_context_stack_depth st - 1 \<le> g_context_stack_depth st" using False by (simp add: word_le_nat_alt unat_minus_one)
  have mm: "mmu_ok lay el (tr_mmu st)" "tables_ok lay el (tr_mmu st)" using assms(1) by (simp_all add: world_ok_def trap_ok_def)
  show ?thesis
    by (rule world_ok_cong [OF assms(1)])
      (use assms(2) False le mm in \<open>auto simp: svc_return_def lettuce_arch_context_pop_def on_mmu_def on_kernel_def lettuce_mmu_leave_def
        enter_ok tables_enter kernel_set_current_service_id_def set_current_service_id_def Let_def word_gt_0\<close>)
qed

lemma svc_call_world:
  assumes "world_ok lay el st" "imm \<in> {LETTUCE_SVC_CALL, LETTUCE_SVC_CROSS_LAYER, LETTUCE_SVC_ELEVATOR}" "svc_call pac imm fr st = (e, st')"
  shows "world_ok lay el st'"
proof -
  have ok: "trap_ok lay el st" using assms(1) by (simp add: world_ok_def)
  consider "st' = st" | r asm where "st' = call_state pac asm r fr st" "trap_ok lay el st'"
      "call_mmu asm (sd_domain (cr_target r)) (tr_mmu st) = snd (lettuce_mmu_enter (sd_domain (cr_target r)) (tr_mmu st))"
    using call_accepted [OF ok assms(2,3)] by blast
  then show ?thesis
    by cases (use assms(1) tables_enter in \<open>simp_all add: world_ok_def call_state_def\<close>)
qed

lemma do_schedule_world:
  assumes "do_schedule tf pre m = (flow, m')"
  shows "(mc_mmu m' = mc_mmu m \<or> (\<exists>d. mc_mmu m' = snd (lettuce_mmu_enter d (mc_mmu m)))) \<and> ks_services (mc_kernel m') = ks_services (mc_kernel m)"
  using assms
  by (auto simp: do_schedule_def switch_to_def kernel_set_current_service_id_def set_current_service_id_def Let_def
      split: if_splits option.splits prod.splits)

lemma machine_world:
  assumes "world_ok lay el st" "mc_mmu m' = tr_mmu st \<or> (\<exists>d. mc_mmu m' = snd (lettuce_mmu_enter d (tr_mmu st)))"
    "ks_services (mc_kernel m') = ks_services (tr_kernel st)"
  shows "world_ok lay el (st\<lparr>tr_machine := m'\<rparr>)"
proof (rule world_ok_cong [OF assms(1)])
  have "mmu_ok lay el (tr_mmu st)" "tables_ok lay el (tr_mmu st)" using assms(1) by (simp_all add: world_ok_def trap_ok_def)
  then show "mmu_ok lay el (tr_mmu (st\<lparr>tr_machine := m'\<rparr>))" "tables_ok lay el (tr_mmu (st\<lparr>tr_machine := m'\<rparr>))"
    using assms(2) enter_ok tables_enter by auto
qed (use assms(3) in simp_all)

lemma svc_yield_world: "world_ok lay el st \<Longrightarrow> svc_yield fr st = (e, st') \<Longrightarrow> world_ok lay el st'"
  by (auto simp: svc_yield_def lettuce_scheduler_yield_def split: prod.splits option.splits dest!: do_schedule_world intro!: machine_world)

lemma svc_syscall_world:
  assumes "world_ok lay el st" "svc_syscall counter freq fr st = (e, st')"
  shows "world_ok lay el st'"
proof (cases "tf_x fr ! 8 = LETTUCE_SYS_NANOSLEEP")
  case False
  then show ?thesis using syscall_machine [OF assms(2)] assms(1) by auto
next
  case True
  obtain res flow m where n: "lettuce_kernel_sys_nanosleep (tf_x fr ! 0) (tf_x fr ! 1) (Some fr) freq (ps_io (tr_posix st)) (tr_machine st) = (res, flow, m)"
    by (cases "lettuce_kernel_sys_nanosleep (tf_x fr ! 0) (tf_x fr ! 1) (Some fr) freq (ps_io (tr_posix st)) (tr_machine st)")
  have "st' = st\<lparr>tr_machine := m\<rparr>" using assms(2) True n by (simp add: svc_syscall_def Let_def)
  moreover have "(mc_mmu m = tr_mmu st \<or> (\<exists>d. mc_mmu m = snd (lettuce_mmu_enter d (tr_mmu st)))) \<and> ks_services (mc_kernel m) = ks_services (tr_kernel st)"
    using n by (auto simp: lettuce_kernel_sys_nanosleep_def lettuce_scheduler_sleep_current_def Let_def
        split: if_splits option.splits dest!: do_schedule_world)
  ultimately show ?thesis using machine_world [OF assms(1)] by simp
qed

lemma handler_world:
  assumes "world_ok lay el st" "lettuce_arch_sync_lower_el_handler pac counter freq esr far fr st = (e, st')"
  shows "world_ok lay el st'"
proof -
  note unf = lettuce_arch_sync_lower_el_handler_def Let_def
  show ?thesis
  proof (cases "drop_bit 26 esr AND 0x3f = 0x15")
    case True
    then show ?thesis
      using assms svc_return_world [OF assms(1)] svc_call_world [OF assms(1)] svc_yield_world [OF assms(1)] svc_syscall_world [OF assms(1)]
      by (auto simp: unf split: if_splits)
  next
    case False
    then show ?thesis
      using assms world_ok_fault [of lay el "on_console _ st"]
      by (auto simp: unf split: if_splits prod.splits) (metis assms(1) snd_conv tr_mmu_console world_ok_console world_ok_fault(1,2))+
  qed
qed

section \<open>A concrete machine\<close>

definition demo_platform :: "el0_instr list \<Rightarrow> platform" where
  "demo_platform code = \<lparr>pl_layout = demo_layout, pl_image = code, pl_pac = demo_pac, pl_counter = 0, pl_freq = 62500000,
     pl_regs = (\<lambda>_. replicate 30 0), pl_link = (\<lambda>_. 0)\<rparr>"

definition demo_world :: el0_world where
  "demo_world = \<lparr>ew_trap = demo_trap demo_kernel, ew_mem = (\<lambda>_. 0)\<rparr>"

lemma demo_platform_layout [simp]: "pl_layout (demo_platform code) = demo_layout" "pl_image (demo_platform code) = code"
  by (simp_all add: demo_platform_def)

lemma tables_ok_init: "tables_ok lay el (lettuce_mmu_init lay (mmu_boot lay el))"
  by (simp add: tables_ok_def)

lemma demo_world_ok: "world_ok demo_layout 1 (ew_trap demo_world)" "in_domain demo_layout 1 0 (ew_mmu demo_world)"
  using demo_trap_ok [of demo_kernel] tables_ok_init [of demo_layout 1] mmu_ok_init
  by (simp_all add: demo_world_def world_ok_def in_domain_def demo_kernel_def lettuce_mmu_init_def mmu_boot_def domain_number_def Let_def)

end
