(* ===== verification/El1_Asm.thy ===== *)
theory El1_Asm
  imports El0
begin

text \<open>
  The machine code of the kernel around the handlers: the boot code that clears the data section, the exception vectors that save and
  restore a frame, the entry into EL0 with the resumption of the kernel, and the context switch. They run on a small machine of general
  registers, stack pointers, the two registers of exception return and a memory of words. The vectors are shown to hand
  the handlers exactly the interrupted registers and to continue with exactly the frame that the handler leaves.
\<close>

section \<open>The machine\<close>

record el1_cpu =
  r_x :: "nat \<Rightarrow> u64"
  r_sp :: u64
  r_elr :: u64
  r_spsr :: u64
  r_sp_el0 :: u64
  r_mem :: "u64 \<Rightarrow> u64"

datatype sysreg = ELR_EL1 | SPSR_EL1 | SP_EL0

datatype el1_base = SP | X nat

datatype el1_instr =
    KSub_sp u64
  | KAdd_sp u64
  | KStp nat nat el1_base u64
  | KLdp nat nat el1_base u64
  | KStr nat el1_base u64
  | KLdr nat el1_base u64
  | KMrs nat sysreg
  | KMsr sysreg nat
  | KMsr_xzr sysreg
  | KMov_from_sp nat
  | KMov_to_sp nat
  | KAdrp nat u64
  | KIsb

definition set_r :: "nat \<Rightarrow> u64 \<Rightarrow> el1_cpu \<Rightarrow> el1_cpu" where
  "set_r n v s = s\<lparr>r_x := (r_x s)(n := v)\<rparr>"

definition store :: "u64 \<Rightarrow> u64 \<Rightarrow> el1_cpu \<Rightarrow> el1_cpu" where
  "store a v s = s\<lparr>r_mem := (r_mem s)(a := v)\<rparr>"

fun base_value :: "el1_base \<Rightarrow> el1_cpu \<Rightarrow> u64" where
  "base_value SP s = r_sp s"
| "base_value (X n) s = r_x s n"

fun get_sysreg :: "sysreg \<Rightarrow> el1_cpu \<Rightarrow> u64" where
  "get_sysreg ELR_EL1 s = r_elr s"
| "get_sysreg SPSR_EL1 s = r_spsr s"
| "get_sysreg SP_EL0 s = r_sp_el0 s"

fun set_sysreg :: "sysreg \<Rightarrow> u64 \<Rightarrow> el1_cpu \<Rightarrow> el1_cpu" where
  "set_sysreg ELR_EL1 v s = s\<lparr>r_elr := v\<rparr>"
| "set_sysreg SPSR_EL1 v s = s\<lparr>r_spsr := v\<rparr>"
| "set_sysreg SP_EL0 v s = s\<lparr>r_sp_el0 := v\<rparr>"

fun el1_step :: "el1_instr \<Rightarrow> el1_cpu \<Rightarrow> el1_cpu" where
  "el1_step (KSub_sp n) s = s\<lparr>r_sp := r_sp s - n\<rparr>"
| "el1_step (KAdd_sp n) s = s\<lparr>r_sp := r_sp s + n\<rparr>"
| "el1_step (KStp a b base off) s = store (base_value base s + off + 8) (r_x s b) (store (base_value base s + off) (r_x s a) s)"
| "el1_step (KLdp a b base off) s =
     set_r b (r_mem s (base_value base s + off + 8)) (set_r a (r_mem s (base_value base s + off)) s)"
| "el1_step (KStr a base off) s = store (base_value base s + off) (r_x s a) s"
| "el1_step (KLdr a base off) s = set_r a (r_mem s (base_value base s + off)) s"
| "el1_step (KMrs a reg) s = set_r a (get_sysreg reg s) s"
| "el1_step (KMsr reg a) s = set_sysreg reg (r_x s a) s"
| "el1_step (KMsr_xzr reg) s = set_sysreg reg 0 s"
| "el1_step (KMov_from_sp a) s = set_r a (r_sp s) s"
| "el1_step (KMov_to_sp a) s = s\<lparr>r_sp := r_x s a\<rparr>"
| "el1_step (KAdrp a page) s = set_r a page s"
| "el1_step KIsb s = s"

definition el1_run :: "el1_instr list \<Rightarrow> el1_cpu \<Rightarrow> el1_cpu" where
  "el1_run code s = fold el1_step code s"

section \<open>The exception vectors\<close>

text \<open>The four vectors of \<^verbatim>\<open>exception.S\<close> differ in the handler they call only.\<close>

definition vector_save :: "el1_instr list" where
  "vector_save =
     [KSub_sp 272, KStp 0 1 SP 0, KStp 2 3 SP 16, KStp 4 5 SP 32, KStp 6 7 SP 48, KStp 8 9 SP 64, KStp 10 11 SP 80, KStp 12 13 SP 96,
      KStp 14 15 SP 112, KStp 16 17 SP 128, KStp 18 19 SP 144, KStp 20 21 SP 160, KStp 22 23 SP 176, KStp 24 25 SP 192, KStp 26 27 SP 208,
      KStp 28 29 SP 224, KStr 30 SP 240, KMrs 21 ELR_EL1, KMrs 22 SPSR_EL1, KStp 21 22 SP 248, KMrs 23 SP_EL0, KStr 23 SP 264, KMov_from_sp 0]"

definition vector_restore :: "el1_instr list" where
  "vector_restore =
     [KLdr 23 SP 264, KMsr SP_EL0 23, KLdp 21 22 SP 248, KMsr ELR_EL1 21, KMsr SPSR_EL1 22,
      KLdp 0 1 SP 0, KLdp 2 3 SP 16, KLdp 4 5 SP 32, KLdp 6 7 SP 48, KLdp 8 9 SP 64, KLdp 10 11 SP 80, KLdp 12 13 SP 96, KLdp 14 15 SP 112,
      KLdp 16 17 SP 128, KLdp 18 19 SP 144, KLdp 20 21 SP 160, KLdp 22 23 SP 176, KLdp 24 25 SP 192, KLdp 26 27 SP 208, KLdp 28 29 SP 224,
      KLdr 30 SP 240, KAdd_sp 272]"

text \<open>
  A call of a compiled handler takes registers and memory to registers and memory, and the state of the kernel with them. The handlers
  that resume the kernel harness or halt do not return to the vector.
\<close>

type_synonym 'st c_function = "el1_cpu \<Rightarrow> 'st \<Rightarrow> (el1_cpu \<times> 'st) option"

definition vector :: "'st c_function \<Rightarrow> el1_cpu \<Rightarrow> 'st \<Rightarrow> (el1_cpu \<times> 'st) option" where
  "vector handler s st = map_option (\<lambda>(s', st'). (el1_run vector_restore s', st')) (handler (el1_run vector_save s) st)"

section \<open>Entering EL0 and resuming the kernel\<close>

text \<open>Page and offset of the variable that keeps the stack pointer are chosen by the linker.\<close>

definition el0_enter_code :: "u64 \<Rightarrow> u64 \<Rightarrow> el1_instr list" where
  "el0_enter_code page lo12 =
     [KSub_sp 96, KStp 19 20 SP 0, KStp 21 22 SP 16, KStp 23 24 SP 32, KStp 25 26 SP 48, KStp 27 28 SP 64, KStp 29 30 SP 80,
      KAdrp 2 page, KMov_from_sp 3, KStr 3 (X 2) lo12, KMsr ELR_EL1 0, KMsr SP_EL0 1, KMsr_xzr SPSR_EL1, KIsb]"

definition el0_resume_code :: "u64 \<Rightarrow> u64 \<Rightarrow> el1_instr list" where
  "el0_resume_code page lo12 =
     [KAdrp 2 page, KLdr 3 (X 2) lo12, KMov_to_sp 3, KLdp 19 20 SP 0, KLdp 21 22 SP 16, KLdp 23 24 SP 32, KLdp 25 26 SP 48, KLdp 27 28 SP 64,
      KLdp 29 30 SP 80, KAdd_sp 96]"

section \<open>The context switch\<close>

definition context_save :: "el1_instr list" where
  "context_save = [KStp 19 20 (X 0) 152, KStp 21 22 (X 0) 168, KStp 23 24 (X 0) 184, KStp 25 26 (X 0) 200, KStp 27 28 (X 0) 216,
     KStp 29 30 (X 0) 232, KMov_from_sp 2, KStr 2 (X 0) 248]"

definition context_restore :: "el1_instr list" where
  "context_restore = [KLdp 19 20 (X 1) 152, KLdp 21 22 (X 1) 168, KLdp 23 24 (X 1) 184, KLdp 25 26 (X 1) 200, KLdp 27 28 (X 1) 216,
     KLdp 29 30 (X 1) 232, KLdr 2 (X 1) 248, KMov_to_sp 2]"

definition lettuce_arch_context_switch :: "el1_cpu \<Rightarrow> el1_cpu" where
  "lettuce_arch_context_switch s =
     (let s1 = (if r_x s 0 = 0 then s else el1_run context_save s) in if r_x s1 1 = 0 then s1 else el1_run context_restore s1)"

section \<open>Boot\<close>

partial_function (option) clear_bss :: "u64 \<Rightarrow> u64 \<Rightarrow> (u64 \<Rightarrow> u64) \<Rightarrow> (u64 \<Rightarrow> u64) option" where
  "clear_bss x0 x1 mem = (if x0 \<ge> x1 then Some mem else clear_bss (x0 + 16) x1 (mem(x0 := 0, x0 + 8 := 0)))"

section \<open>Interrupt masks and the key of pointer authentication\<close>

text \<open>
  \<^verbatim>\<open>irq.S\<close>: the masks D, A, I and F are bits 9 to 6 of the register, which reads as zero elsewhere; the immediate 2 of \<^verbatim>\<open>daifset\<close> and \<^verbatim>\<open>daifclr\<close>
  names I.
\<close>

definition lettuce_arch_irq_enable :: "u64 \<Rightarrow> u64" where
  "lettuce_arch_irq_enable daif = daif AND NOT 0x80"

definition lettuce_arch_irq_disable :: "u64 \<Rightarrow> u64" where
  "lettuce_arch_irq_disable daif = daif OR 0x80"

definition lettuce_arch_irq_save :: "u64 \<Rightarrow> u64 \<times> u64" where
  "lettuce_arch_irq_save daif = (daif, daif OR 0x80)"

definition lettuce_arch_irq_restore :: "u64 \<Rightarrow> u64 \<Rightarrow> u64" where
  "lettuce_arch_irq_restore flags daif = flags AND 0x3c0"

definition irq_masked :: "u64 \<Rightarrow> bool" where
  "irq_masked daif \<longleftrightarrow> bit daif 7"

record pac_registers =
  apiakeylo_el1 :: u64
  apiakeyhi_el1 :: u64
  sctlr_el1 :: u64

definition lettuce_pac_init :: "pac_registers \<Rightarrow> pac_registers" where
  "lettuce_pac_init s = s\<lparr>apiakeylo_el1 := 0x0123456789abcdef, apiakeyhi_el1 := 0xfedcba9876543210,
     sctlr_el1 := sctlr_el1 s OR push_bit 31 1\<rparr>"

section \<open>Frames in memory\<close>

text \<open>The frame that C code sees behind a pointer, and the one that the registers of the interrupted program make.\<close>

definition frame_at :: "(u64 \<Rightarrow> u64) \<Rightarrow> u64 \<Rightarrow> LettuceTrapFrame" where
  "frame_at mem a = \<lparr>tf_x = map (\<lambda>i. mem (a + 8 * of_nat i)) [0..<30], tf_lr = mem (a + 240), tf_elr = mem (a + 248),
     tf_spsr = mem (a + 256), tf_sp_el0 = mem (a + 264)\<rparr>"

definition cpu_frame :: "el1_cpu \<Rightarrow> LettuceTrapFrame" where
  "cpu_frame s = \<lparr>tf_x = map (r_x s) [0..<30], tf_lr = r_x s 30, tf_elr = r_elr s, tf_spsr = r_spsr s, tf_sp_el0 = r_sp_el0 s\<rparr>"

text \<open>The words from an address on.\<close>

definition words_from :: "u64 \<Rightarrow> nat \<Rightarrow> u64 set" where
  "words_from a n = (\<lambda>i. a + 8 * of_nat i) ` {..<n}"

lemmas el1_simps = el1_run_def set_r_def store_def

lemma el1_run_Cons: "el1_run (i # code) s = el1_run code (el1_step i s)"
  by (simp add: el1_run_def)

lemma twelve: "i < 12 \<Longrightarrow> i = 0 \<or> i = 1 \<or> i = 2 \<or> i = 3 \<or> i = 4 \<or> i = 5 \<or> i = 6 \<or> i = 7 \<or> i = 8 \<or> i = 9 \<or> i = 10 \<or> i = (11 :: nat)"
  by presburger

lemma upt_30: "[0..<30] = [0, 1, 2, 3, 4, 5, 6, 7, 8, 9, 10, 11, 12, 13, 14, 15, 16, 17, 18, 19, 20, 21, 22, 23, 24, 25, 26, 27, 28, 29 :: nat]"
  by code_simp

lemma save_from_stack:
  "r_sp (el1_run (tl vector_save) s) = r_sp s" "r_x (el1_run (tl vector_save) s) 0 = r_sp s"
  "frame_at (r_mem (el1_run (tl vector_save) s)) (r_sp s) = cpu_frame s"
  by (simp_all add: vector_save_def el1_simps frame_at_def cpu_frame_def upt_30 add.assoc)

lemma save_frame:
  "r_sp (el1_run vector_save s) = r_sp s - 272" "r_x (el1_run vector_save s) 0 = r_sp s - 272"
  "frame_at (r_mem (el1_run vector_save s)) (r_sp s - 272) = cpu_frame s"
proof -
  let ?s = "s\<lparr>r_sp := r_sp s - 272\<rparr>"
  have "vector_save = KSub_sp 272 # tl vector_save" by (simp add: vector_save_def)
  then have "el1_run vector_save s = el1_run (tl vector_save) ?s" by (metis el1_run_Cons el1_step.simps(1))
  moreover have "cpu_frame ?s = cpu_frame s" by (simp add: cpu_frame_def)
  ultimately show "r_sp (el1_run vector_save s) = r_sp s - 272" "r_x (el1_run vector_save s) 0 = r_sp s - 272"
    "frame_at (r_mem (el1_run vector_save s)) (r_sp s - 272) = cpu_frame s"
    using save_from_stack [of ?s] by simp_all
qed

lemma restore_frame:
  "r_sp (el1_run vector_restore s) = r_sp s + 272" "r_mem (el1_run vector_restore s) = r_mem s"
  "cpu_frame (el1_run vector_restore s) = frame_at (r_mem s) (r_sp s)"
  by (simp_all add: vector_restore_def el1_simps frame_at_def cpu_frame_def upt_30 add.assoc)

section \<open>Vectors and handlers\<close>

text \<open>
  What the vector relies on in a compiled handler that returns: it works on the frame behind its argument, as the model of the handler
  does on the frame, and it gives the stack pointer back.
\<close>

locale c_handler =
  fixes call :: "'st c_function" and H :: "LettuceTrapFrame \<Rightarrow> 'st \<Rightarrow> trap_end \<times> 'st"
  assumes returns: "H (frame_at (r_mem s) (r_x s 0)) st = (TrapReturn fr, st') \<Longrightarrow> length (tf_x fr) = 30 \<Longrightarrow>
    \<exists>s'. call s st = Some (s', st') \<and> r_sp s' = r_sp s \<and> frame_at (r_mem s') (r_x s 0) = fr"
begin

lemma vector_returns:
  assumes "H (cpu_frame s) st = (TrapReturn fr, st')" "length (tf_x fr) = 30"
  shows "\<exists>s'. vector call s st = Some (s', st') \<and> cpu_frame s' = fr \<and> r_sp s' = r_sp s"
proof -
  let ?s = "el1_run vector_save s"
  have "H (frame_at (r_mem ?s) (r_x ?s 0)) st = (TrapReturn fr, st')" using assms(1) by (simp add: save_frame)
  then obtain s1 where s1: "call ?s st = Some (s1, st')" "r_sp s1 = r_sp s - 272" "frame_at (r_mem s1) (r_sp s - 272) = fr"
    using returns [OF _ assms(2), of ?s st st'] by (auto simp: save_frame)
  then show ?thesis by (simp add: vector_def restore_frame)
qed

end

text \<open>A handler that stores the words of its result through its argument.\<close>

definition frame_word :: "LettuceTrapFrame \<Rightarrow> nat \<Rightarrow> u64" where
  "frame_word fr i = (tf_x fr @ [tf_lr fr, tf_elr fr, tf_spsr fr, tf_sp_el0 fr]) ! i"

definition write_frame :: "u64 \<Rightarrow> LettuceTrapFrame \<Rightarrow> (u64 \<Rightarrow> u64) \<Rightarrow> u64 \<Rightarrow> u64" where
  "write_frame a fr mem = fold (\<lambda>i mem. mem(a + 8 * of_nat i := frame_word fr i)) [0..<34] mem"

definition through_memory :: "(LettuceTrapFrame \<Rightarrow> 'st \<Rightarrow> trap_end \<times> 'st) \<Rightarrow> 'st c_function" where
  "through_memory H s st =
     (case H (frame_at (r_mem s) (r_x s 0)) st of
        (TrapReturn fr, st') \<Rightarrow> Some (s\<lparr>r_mem := write_frame (r_x s 0) fr (r_mem s)\<rparr>, st')
      | _ \<Rightarrow> None)"

lemma written_word:
  assumes "n \<le> 34" "i < n"
  shows "fold (\<lambda>i mem. mem(a + 8 * of_nat i := f i)) [0..<n] (mem :: u64 \<Rightarrow> u64) (a + 8 * of_nat i) = f i"
  using assms
proof (induction n)
  case (Suc n)
  have u: "unat (8 * of_nat j :: u64) = 8 * j" if "j < 34" for j
    using that unat_of_nat [of "8 * j", where 'a = 64] by simp
  have "n < 34" "i < 34" using Suc.prems by linarith+
  then have "n = i" if "(8 * of_nat n :: u64) = 8 * of_nat i" using u [of n] u [of i] arg_cong [OF that, of unat] by linarith
  then show ?case using Suc by (cases "i = n") auto
qed simp

lemma write_frame_read: "length (tf_x fr) = 30 \<Longrightarrow> frame_at (write_frame a fr mem) a = fr"
proof -
  assume len: "length (tf_x fr) = 30"
  have w: "write_frame a fr mem (a + 8 * of_nat i) = frame_word fr i" if "i < 34" for i unfolding write_frame_def by (rule written_word) (use that in simp_all)
  have "map (\<lambda>i. write_frame a fr mem (a + 8 * of_nat i)) [0..<30] = tf_x fr"
    by (rule nth_equalityI) (use len in \<open>simp_all add: w frame_word_def nth_append\<close>)
  then show ?thesis using w [of 30] w [of 31] w [of 32] w [of 33] len by (simp add: frame_at_def frame_word_def nth_append)
qed

interpretation sync_lower: c_handler "through_memory (lettuce_arch_sync_lower_el_handler pac counter freq esr far)"
  "lettuce_arch_sync_lower_el_handler pac counter freq esr far" for pac counter freq esr far
  by unfold_locales (auto simp: through_memory_def write_frame_read)

interpretation irq_lower: c_handler "through_memory (lettuce_arch_irq_lower_el_handler iar)" "lettuce_arch_irq_lower_el_handler iar" for iar
  by unfold_locales (auto simp: through_memory_def write_frame_read)

interpretation irq_el1: c_handler "through_memory (lettuce_arch_irq_el1_handler iar)" "lettuce_arch_irq_el1_handler iar" for iar
  by unfold_locales (auto simp: through_memory_def write_frame_read)

section \<open>Entry, resumption and interrupts between them\<close>

text \<open>An interrupt that the kernel takes before instruction \<^verbatim>\<open>k\<close> of the entry, which lies at the address given, four bytes to an instruction.\<close>

definition enter_interrupted ::
  "u64 \<Rightarrow> u64 \<Rightarrow> u64 \<Rightarrow> u64 \<Rightarrow> 'st c_function \<Rightarrow> nat \<Rightarrow> el1_cpu \<Rightarrow> 'st \<Rightarrow> (el1_cpu \<times> 'st) option" where
  "enter_interrupted page lo12 pc pstate handler k s st =
     (let s1 = el1_run (take k (el0_enter_code page lo12)) s;
          s2 = s1\<lparr>r_elr := pc + 4 * of_nat k, r_spsr := pstate\<rparr>
      in map_option (\<lambda>(s3, st'). (el1_run (drop k (el0_enter_code page lo12)) s3, st')) (vector handler s2 st))"

lemma enter_parts:
  assumes "k \<le> 14"
  shows "r_x (el1_run (take k (el0_enter_code page lo12)) s) 0 = r_x s 0"
    "r_elr (el1_run (drop k (el0_enter_code page lo12)) s) = (if k \<le> 10 then r_x s 0 else r_elr s)"
    "r_spsr (el1_run (drop k (el0_enter_code page lo12)) s) = (if k \<le> 12 then 0 else r_spsr s)"
proof -
  have "k = 0 \<or> k = 1 \<or> k = 2 \<or> k = 3 \<or> k = 4 \<or> k = 5 \<or> k = 6 \<or> k = 7 \<or> k = 8 \<or> k = 9 \<or> k = 10 \<or> k = 11 \<or> k = 12 \<or> k = 13 \<or> k = 14"
    using assms by presburger
  then show "r_x (el1_run (take k (el0_enter_code page lo12)) s) 0 = r_x s 0"
    "r_elr (el1_run (drop k (el0_enter_code page lo12)) s) = (if k \<le> 10 then r_x s 0 else r_elr s)"
    "r_spsr (el1_run (drop k (el0_enter_code page lo12)) s) = (if k \<le> 12 then 0 else r_spsr s)"
    by (elim disjE; simp add: el0_enter_code_def el1_simps)+
qed

lemma irq_el1_frame: "\<exists>st'. lettuce_arch_irq_el1_handler iar fr st = (TrapReturn fr, st')"
  by (simp add: lettuce_arch_irq_el1_handler_def Let_def)

lemma cpu_frame_eqD:
  assumes "cpu_frame s = cpu_frame s'"
  shows "r_x s 0 = r_x s' 0" "r_elr s = r_elr s'" "r_spsr s = r_spsr s'"
  using assms by (simp_all add: cpu_frame_def upt_30)

text \<open>
  C8: The vectors implement the handlers. Whatever the registers and the stack pointer at an exception, a vector gives its handler exactly the
  interrupted registers as a frame, and when the handler returns, the processor continues with exactly the frame that the handler
  leaves, with the stack pointer of the kernel as before. The compiled handler is assumed to work on the frame
  behind its argument and to give the stack pointer back.
\<close>

theorem vectors_refine_handlers:
  assumes call: "c_handler call H" and h: "H (cpu_frame s) st = (TrapReturn fr, st')" and len: "length (tf_x fr) = 30"
  shows "\<exists>s'. vector call s st = Some (s', st') \<and> cpu_frame s' = fr \<and> r_sp s' = r_sp s"
  by (rule c_handler.vector_returns [OF call h len])

definition demo_cpu :: el1_cpu where
  "demo_cpu = \<lparr>r_x = of_nat, r_sp = 0x40090000, r_elr = 0x41050008, r_spsr = 0, r_sp_el0 = 0x41002000, r_mem = (\<lambda>_. 0)\<rparr>"

lemma vectors_refine_handlers_witness:
  "\<exists>s' st'. vector (through_memory (lettuce_arch_irq_el1_handler 27)) demo_cpu (demo_trap demo_kernel) = Some (s', st') \<and> cpu_frame s' = cpu_frame demo_cpu"
proof -
  obtain st' where st': "lettuce_arch_irq_el1_handler 27 (cpu_frame demo_cpu) (demo_trap demo_kernel) = (TrapReturn (cpu_frame demo_cpu), st')"
    using irq_el1_frame by blast
  have "length (tf_x (cpu_frame demo_cpu)) = 30" by (simp add: cpu_frame_def)
  then show ?thesis using vectors_refine_handlers [OF irq_el1.c_handler_axioms st'] by blast
qed

text \<open>
  C40: Entering EL0 is not safe against interrupts. An interrupt that the kernel takes before one of the first eleven instructions of
  \<^verbatim>\<open>lettuce_el0_enter\<close> is harmless: the return address is then the entry point and the saved status that of EL0. Between the instruction that sets
  the return address and \<^verbatim>\<open>eret\<close> it is not: the vector overwrites return address and status, so that \<^verbatim>\<open>eret\<close> goes to an address within
  \<^verbatim>\<open>lettuce_el0_enter\<close>, as EL0 before the status is set and otherwise as the kernel, where it repeats itself. Tests 21 and 25
  call it with interrupts enabled.
\<close>

theorem el0_entry_race:
  assumes call: "c_handler call (lettuce_arch_irq_el1_handler iar)" and k: "k \<le> 14"
  shows "r_elr (el1_run (el0_enter_code page lo12) s) = r_x s 0 \<and> r_spsr (el1_run (el0_enter_code page lo12) s) = 0 \<and>
    (\<exists>s' st'. enter_interrupted page lo12 pc pstate call k s st = Some (s', st') \<and>
       r_elr s' = (if k \<le> 10 then r_x s 0 else pc + 4 * of_nat k) \<and> r_spsr s' = (if k \<le> 12 then 0 else pstate))"
proof -
  define s1 where "s1 = el1_run (take k (el0_enter_code page lo12)) s"
  define s2 where "s2 = s1\<lparr>r_elr := pc + 4 * of_nat k, r_spsr := pstate\<rparr>"
  obtain st' where h: "lettuce_arch_irq_el1_handler iar (cpu_frame s2) st = (TrapReturn (cpu_frame s2), st')" using irq_el1_frame by blast
  obtain s3 where s3: "vector call s2 st = Some (s3, st')" "cpu_frame s3 = cpu_frame s2"
    using c_handler.vector_returns [OF call h] by (auto simp: cpu_frame_def)
  note e = cpu_frame_eqD [OF s3(2)]
  have "r_x s1 0 = r_x s 0" unfolding s1_def by (rule enter_parts(1) [OF k])
  then have f: "r_x s3 0 = r_x s 0" "r_elr s3 = pc + 4 * of_nat k" "r_spsr s3 = pstate" using e by (simp_all add: s2_def)
  have "enter_interrupted page lo12 pc pstate call k s st = Some (el1_run (drop k (el0_enter_code page lo12)) s3, st')"
    using s3(1) by (simp add: enter_interrupted_def s1_def [symmetric] s2_def [symmetric])
  moreover have "r_elr (el1_run (el0_enter_code page lo12) s) = r_x s 0" "r_spsr (el1_run (el0_enter_code page lo12) s) = 0"
    using enter_parts(2,3) [of 0 page lo12 s] by simp_all
  ultimately show ?thesis using enter_parts(2,3) [OF k, of page lo12 s3] f by auto
qed

lemma el0_entry_race_witness:
  "\<exists>s' st'. enter_interrupted 0x40085000 0x10 0x40080100 5 (through_memory (lettuce_arch_irq_el1_handler 27)) 14 demo_cpu (demo_trap demo_kernel) =
     Some (s', st') \<and> r_elr s' = 0x40080138 \<and> r_spsr s' = 5"
  using el0_entry_race [OF irq_el1.c_handler_axioms, of 14 "0x40085000" "0x10" demo_cpu "0x40080100" 5 27 "demo_trap demo_kernel"] by auto

text \<open>The words on the stack of the kernel that hold the registers of the caller.\<close>

lemma enter_memory:
  assumes apart: "page + lo12 \<notin> words_from (r_sp s - 96) 12"
  defines "s1 \<equiv> el1_run (el0_enter_code page lo12) s"
  shows "r_mem s1 (page + lo12) = r_sp s - 96" "i < 12 \<Longrightarrow> r_mem s1 (r_sp s - 96 + 8 * of_nat i) = r_x s (19 + i)"
    "cpu_frame s1 = el0_start ((tf_x (cpu_frame s))[2 := page, 3 := r_sp s - 96]) (r_x s 30) (r_x s 0) (r_x s 1)"
proof -
  define b where "b = r_sp s - 96"
  have n: "page + lo12 \<noteq> b + 8 * of_nat j" if "j < 12" for j using apart that by (auto simp: words_from_def b_def)
  note n = n [of 0] n [of 1] n [of 2] n [of 3] n [of 4] n [of 5] n [of 6] n [of 7] n [of 8] n [of 9] n [of 10] n [of 11]
  define t where "t = s\<lparr>r_sp := b\<rparr>"
  have s1: "s1 = el1_run (tl (el0_enter_code page lo12)) t" by (simp add: s1_def el0_enter_code_def el1_run_Cons t_def b_def del: el1_step.simps) (simp add: el1_run_def)
  have t: "r_sp t = b" "r_x t = r_x s" by (simp_all add: t_def)
  show "r_mem s1 (page + lo12) = r_sp s - 96" unfolding s1 using t by (simp add: el0_enter_code_def el1_simps b_def)
  show "r_mem s1 (r_sp s - 96 + 8 * of_nat i) = r_x s (19 + i)" if "i < 12"
    unfolding s1 b_def [symmetric] using twelve [OF that] t n by (elim disjE) (simp_all add: el0_enter_code_def el1_simps add.assoc)
  show "cpu_frame s1 = el0_start ((tf_x (cpu_frame s))[2 := page, 3 := r_sp s - 96]) (r_x s 30) (r_x s 0) (r_x s 1)"
    unfolding s1 using t by (simp add: el0_enter_code_def el1_simps cpu_frame_def el0_start_def upt_30 b_def)
qed

lemma resume_registers:
  assumes "r_mem s (page + lo12) = b"
  defines "s1 \<equiv> el1_run (el0_resume_code page lo12) s"
  shows "r_sp s1 = b + 96" "r_x s1 0 = r_x s 0" "i < 12 \<Longrightarrow> r_x s1 (19 + i) = r_mem s (b + 8 * of_nat i)"
proof -
  show "r_sp s1 = b + 96" "r_x s1 0 = r_x s 0" using assms(1) by (simp_all add: s1_def el0_resume_code_def el1_simps)
  show "r_x s1 (19 + i) = r_mem s (b + 8 * of_nat i)" if "i < 12"
    using twelve [OF that] assms(1) by (elim disjE) (simp_all add: s1_def el0_resume_code_def el1_simps add.assoc)
qed

text \<open>
  C9: The kernel resumes where it entered EL0. Entering leaves the processor with the frame in which services are started, the entry point and stack
  of the call and the status of EL0. Whatever runs afterwards, if it leaves the twelve words on the stack of the kernel and
  the saved stack pointer alone, then resuming the kernel with a status returns to the caller of \<^verbatim>\<open>lettuce_el0_enter\<close> with that status, its
  registers 19 to 30, the return address among them, and its stack pointer.
\<close>

theorem el0_enter_resume:
  assumes apart: "page + lo12 \<notin> words_from (r_sp s - 96) 12" and enter: "s1 = el1_run (el0_enter_code page lo12) s"
    and kept: "\<forall>a \<in> insert (page + lo12) (words_from (r_sp s - 96) 12). r_mem s2 a = r_mem s1 a"
    and resume: "s3 = el1_run (el0_resume_code page lo12) s2"
  shows "cpu_frame s1 = el0_start ((tf_x (cpu_frame s))[2 := page, 3 := r_sp s - 96]) (r_x s 30) (r_x s 0) (r_x s 1) \<and>
    (\<forall>i. 19 \<le> i \<and> i \<le> 30 \<longrightarrow> r_x s3 i = r_x s i) \<and> r_sp s3 = r_sp s \<and> r_x s3 0 = r_x s2 0"
proof -
  note e = enter_memory [OF apart, folded enter]
  have b: "r_mem s2 (page + lo12) = r_sp s - 96" using kept e(1) by simp
  note r = resume_registers [OF b, folded resume]
  have "r_x s3 i = r_x s i" if i: "19 \<le> i \<and> i \<le> 30" for i
  proof -
    have j: "i - 19 < 12" "19 + (i - 19) = i" using i by arith+
    have "r_sp s - 96 + 8 * of_nat (i - 19) \<in> words_from (r_sp s - 96) 12" using j(1) by (auto simp: words_from_def)
    then have "r_mem s2 (r_sp s - 96 + 8 * of_nat (i - 19)) = r_mem s1 (r_sp s - 96 + 8 * of_nat (i - 19))" using kept by blast
    then show ?thesis using r(3) [OF j(1)] e(2) [OF j(1)] j(2) by simp
  qed
  then show ?thesis using e(3) r(1,2) by simp
qed

lemma el0_enter_resume_witness:
  "r_x (el1_run (el0_resume_code 0x40085000 0x10) (el1_run (el0_enter_code 0x40085000 0x10) demo_cpu)) 30 = 30"
proof -
  have "unat (8 * of_nat i :: u64) = 8 * i" if "i < 12" for i using that unat_of_nat [of "8 * i", where 'a = 64] by simp
  then have "unat (0x4008ffa0 + 8 * of_nat i :: u64) = 0x4008ffa0 + 8 * i" if "i < 12" for i
    using that unat_word_ariths(1) [of "0x4008ffa0 :: u64" "8 * of_nat i"] by simp
  moreover have "(0x40085010 :: u64) \<noteq> x" if "unat x = 0x4008ffa0 + 8 * i" for x i using that by auto
  ultimately have "(0x40085010 :: u64) \<noteq> 0x4008ffa0 + 8 * of_nat i" if "i < 12" for i using that by blast
  then have "(0x40085000 :: u64) + 0x10 \<notin> words_from (r_sp demo_cpu - 96) 12" by (auto simp: words_from_def demo_cpu_def)
  from el0_enter_resume [OF this refl _ refl] show ?thesis by (auto simp: demo_cpu_def)
qed

section \<open>The context switch\<close>

lemma context_save_memory:
  assumes "r_x s 0 = a"
  defines "s1 \<equiv> el1_run context_save s"
  shows "i < 12 \<Longrightarrow> r_mem s1 (a + 152 + 8 * of_nat i) = r_x s (19 + i)" "r_mem s1 (a + 248) = r_sp s" "r_x s1 1 = r_x s 1"
    "w \<notin> words_from (a + 152) 13 \<Longrightarrow> r_mem s1 w = r_mem s w"
proof -
  show "r_mem s1 (a + 152 + 8 * of_nat i) = r_x s (19 + i)" if "i < 12"
    using twelve [OF that] assms(1) by (elim disjE) (simp_all add: s1_def context_save_def el1_simps add.assoc)
  show "r_mem s1 (a + 248) = r_sp s" "r_x s1 1 = r_x s 1" using assms(1) by (simp_all add: s1_def context_save_def el1_simps add.assoc)
  show "r_mem s1 w = r_mem s w" if "w \<notin> words_from (a + 152) 13"
  proof -
    have "w \<noteq> a + 152 + 8 * of_nat j" if "j < 13" for j using \<open>w \<notin> words_from (a + 152) 13\<close> that by (auto simp: words_from_def)
    from this [of 0] this [of 1] this [of 2] this [of 3] this [of 4] this [of 5] this [of 6] this [of 7] this [of 8] this [of 9] this [of 10] this [of 11]
      this [of 12]
    show ?thesis using assms(1) by (simp add: s1_def context_save_def el1_simps add.assoc)
  qed
qed

lemma context_restore_registers:
  assumes "r_x s 1 = a"
  defines "s1 \<equiv> el1_run context_restore s"
  shows "i < 12 \<Longrightarrow> r_x s1 (19 + i) = r_mem s (a + 152 + 8 * of_nat i)" "r_sp s1 = r_mem s (a + 248)" "r_mem s1 = r_mem s"
proof -
  show "r_x s1 (19 + i) = r_mem s (a + 152 + 8 * of_nat i)" if "i < 12"
    using twelve [OF that] assms(1) by (elim disjE) (simp_all add: s1_def context_restore_def el1_simps add.assoc)
  show "r_sp s1 = r_mem s (a + 248)" "r_mem s1 = r_mem s" using assms(1) by (simp_all add: s1_def context_restore_def el1_simps)
qed

text \<open>
  Switching away and back. A context that is switched out into a block of memory and later switched to again, by whatever runs then, with the block
  intact and other contexts saved elsewhere, continues with its registers 19 to 30 and its stack pointer.
\<close>

theorem context_switch_returns:
  assumes a: "r_x s 0 = a" "a \<noteq> 0" and s1: "s1 = lettuce_arch_context_switch s"
    and kept: "\<forall>w \<in> words_from (a + 152) 13. r_mem s2 w = r_mem s1 w" and to: "r_x s2 1 = a"
    and apart: "r_x s2 0 = 0 \<or> words_from (r_x s2 0 + 152) 13 \<inter> words_from (a + 152) 13 = {}" and s3: "s3 = lettuce_arch_context_switch s2"
  shows "(\<forall>i. 19 \<le> i \<and> i \<le> 30 \<longrightarrow> r_x s3 i = r_x s i) \<and> r_sp s3 = r_sp s"
proof -
  note c = context_save_memory [OF a(1)]
  define t where "t = (if r_x s2 0 = 0 then s2 else el1_run context_save s2)"
  have mem1: "r_mem s1 = r_mem (el1_run context_save s)"
    using a context_restore_registers(3) [OF refl, of "el1_run context_save s"] by (simp add: s1 lettuce_arch_context_switch_def Let_def)
  have t1: "r_x t 1 = a" using to context_save_memory(3) [OF refl, of s2] by (simp add: t_def)
  have memt: "r_mem t w = r_mem s1 w" if w: "w \<in> words_from (a + 152) 13" for w
    using kept w apart context_save_memory(4) [OF refl, of w s2] by (auto simp: t_def)
  have r3: "s3 = el1_run context_restore t" using a(2) t1 by (simp add: s3 lettuce_arch_context_switch_def Let_def t_def [symmetric])
  note r = context_restore_registers [OF t1, folded r3]
  have in_block: "a + 152 + 8 * of_nat j \<in> words_from (a + 152) 13" if "j < 13" for j using that by (auto simp: words_from_def)
  have "r_sp s3 = r_sp s" using r(2) memt [OF in_block [of 12]] mem1 c(2) by (simp add: add.assoc)
  moreover have "r_x s3 i = r_x s i" if i: "19 \<le> i \<and> i \<le> 30" for i
  proof -
    have j: "i - 19 < 12" "i - 19 < 13" "19 + (i - 19) = i" using i by arith+
    show ?thesis using r(1) [OF j(1)] memt [OF in_block [OF j(2)]] mem1 c(1) [OF j(1)] j(3) by simp
  qed
  ultimately show ?thesis by blast
qed

section \<open>Clearing the data section\<close>

text \<open>Words cleared from an address on: as many as asked for, one more if the number is odd, and nothing else.\<close>

definition cleared :: "u64 \<Rightarrow> nat \<Rightarrow> (u64 \<Rightarrow> u64) \<Rightarrow> (u64 \<Rightarrow> u64) \<Rightarrow> bool" where
  "cleared x0 m mem mem' \<longleftrightarrow> (\<forall>i < m. mem' (x0 + 8 * of_nat i) = 0) \<and> (\<forall>w. (\<forall>i < m + m mod 2. w \<noteq> x0 + 8 * of_nat i) \<longrightarrow> mem' w = mem w)"

lemma cleared_step:
  assumes m: "2 \<le> m" "8 * m < 2 ^ 64" and step: "cleared (x0 + 16) (m - 2) (mem(x0 := 0, x0 + 8 := 0)) mem'"
  shows "cleared x0 m mem mem'"
proof -
  let ?mem = "mem(x0 := 0, x0 + 8 := 0)"
  have two: "x0 + 16 + 8 * of_nat i = x0 + 8 * of_nat (i + 2)" for i by simp
  have odd: "(m - 2) mod 2 = m mod 2" "m - 2 + 2 = m" "m mod 2 < 2" using m(1) by (simp_all add: le_mod_geq)
  have zero: "\<forall>i < m - 2. mem' (x0 + 8 * of_nat (i + 2)) = 0"
      and same: "\<forall>w. (\<forall>i < m - 2 + m mod 2. w \<noteq> x0 + 8 * of_nat (i + 2)) \<longrightarrow> mem' w = ?mem w"
    using step unfolding cleared_def two odd by blast+
  have off: "unat (8 * of_nat j :: u64) = 8 * j" if "j \<le> m" for j using that m(2) unat_of_nat [of "8 * j", where 'a = 64] by simp
  have far: "x0 + 8 * of_nat j \<noteq> x0 + 8 * of_nat (i + 2)" if "j < 2" "i < m - 2 + m mod 2" for i j
  proof -
    have "i + 2 \<le> m" using that(2) odd by linarith
    then have "unat (8 * of_nat j :: u64) \<noteq> unat (8 * of_nat (i + 2) :: u64)" using off [of j] off [of "i + 2"] that(1) by simp
    then show ?thesis by auto
  qed
  have "mem' (x0 + 8 * of_nat i) = 0" if i: "i < m" for i
  proof (cases "i < 2")
    case True
    then have "mem' (x0 + 8 * of_nat i) = ?mem (x0 + 8 * of_nat i)" using same far by blast
    moreover have "i = 0 \<or> i = 1" using True by linarith
    ultimately show ?thesis by auto
  next
    case False
    then have "i - 2 < m - 2" "i - 2 + 2 = i" using i by simp_all
    then show ?thesis using zero by metis
  qed
  moreover have "mem' w = mem w" if w: "\<forall>i < m + m mod 2. w \<noteq> x0 + 8 * of_nat i" for w
  proof -
    have "w \<noteq> x0" "w \<noteq> x0 + 8" using w [rule_format, of 0] w [rule_format, of 1] m(1) by auto
    moreover have "w \<noteq> x0 + 8 * of_nat (i + 2)" if "i < m - 2 + m mod 2" for i
      by (rule w [rule_format]) (use that odd(2) in linarith)
    then have "mem' w = ?mem w" using same by blast
    ultimately show ?thesis by simp
  qed
  ultimately show ?thesis by (simp add: cleared_def)
qed

text \<open>
  The loop of the boot code ends and clears the section: every word from its start to its end is zero afterwards, and nothing else is changed but at most
  the word at the end, when the size is not a multiple of sixteen.
\<close>

theorem clear_bss_clears:
  assumes "unat x0 + 8 * m = unat x1" "unat x1 + 16 \<le> 2 ^ 64"
  shows "\<exists>mem'. clear_bss x0 x1 mem = Some mem' \<and> cleared x0 m mem mem'"
  using assms
proof (induction m arbitrary: x0 mem rule: less_induct)
  case (less m)
  show ?case
  proof (cases "m = 0")
    case True
    then have "x1 \<le> x0" using less.prems(1) by (simp add: word_le_nat_alt)
    then show ?thesis using True by (subst clear_bss.simps) (simp add: cleared_def)
  next
    case False
    then have lt: "\<not> x1 \<le> x0" using less.prems(1) by (simp add: word_le_nat_alt)
    let ?mem = "mem(x0 := 0, x0 + 8 := 0)"
    have go: "clear_bss x0 x1 mem = clear_bss (x0 + 16) x1 ?mem" using lt by (subst clear_bss.simps) simp
    have u: "unat (x0 + 16) = unat x0 + 16" using less.prems False by (subst unat_add_lem [THEN iffD1]) (simp_all add: word_less_nat_alt)
    show ?thesis
    proof (cases "m = 1")
      case True
      have "x1 \<le> x0 + 16" using less.prems(1) u True by (simp add: word_le_nat_alt)
      then have "clear_bss (x0 + 16) x1 ?mem = Some ?mem" by (subst clear_bss.simps) simp
      then show ?thesis using go True by (auto simp: cleared_def less_Suc_eq)
    next
      case m: False
      have prem: "unat (x0 + 16) + 8 * (m - 2) = unat x1" "m - 2 < m" "2 \<le> m" "8 * m < 2 ^ 64" using less.prems u False m by simp_all
      obtain mem' where "clear_bss (x0 + 16) x1 ?mem = Some mem'" "cleared (x0 + 16) (m - 2) ?mem mem'"
        using less.IH [OF prem(2,1) less.prems(2), of ?mem] by (elim exE conjE) (rule that)
      then show ?thesis using go cleared_step [OF prem(3,4)] by auto
    qed
  qed
qed

text \<open>
  Critical sections nest. Saving masks interrupts whatever was masked before, and restoring the flags that were saved brings back exactly the masks of
  before, whatever ran in between; enabling and disabling change no other mask.
\<close>

lemma bit_single: "bit (push_bit k (1 :: u64)) n \<longleftrightarrow> n = k \<and> k < 64"
  by (auto simp: bit_simps)

lemma bit_irq_mask:
  "bit (0x80 :: u64) n \<longleftrightarrow> n = 7" "bit (- 129 :: u64) n \<longleftrightarrow> n \<noteq> 7 \<and> n < 64"
  using bit_single [of 7 n] bit_not_iff [of "0x80 :: u64" n] by auto

theorem irq_save_restore:
  assumes "daif AND 0x3c0 = daif" "lettuce_arch_irq_save daif = (flags, masked)"
  shows "irq_masked masked \<and> lettuce_arch_irq_restore flags inside = daif"
  using assms by (auto simp: lettuce_arch_irq_save_def lettuce_arch_irq_restore_def irq_masked_def bit_irq_mask bit_or_iff)

theorem irq_enable_disable:
  "irq_masked (lettuce_arch_irq_disable daif) \<and> \<not> irq_masked (lettuce_arch_irq_enable daif) \<and>
   (n \<noteq> 7 \<longrightarrow> bit (lettuce_arch_irq_disable daif) n = bit daif n \<and> bit (lettuce_arch_irq_enable daif) n = bit daif n)"
proof (intro conjI impI)
  assume "n \<noteq> 7"
  then show "bit (lettuce_arch_irq_enable daif) n = bit daif n"
    using bit_imp_le_length [of daif n] by (auto simp: lettuce_arch_irq_enable_def bit_and_iff bit_irq_mask simp del: bit_neg_numeral_word_iff bit_numeral_word_iff)
qed (auto simp: irq_masked_def lettuce_arch_irq_enable_def lettuce_arch_irq_disable_def bit_or_iff bit_and_iff bit_irq_mask simp del: bit_neg_numeral_word_iff bit_numeral_word_iff)

text \<open>The initialisation of pointer authentication keeps every bit of the control register that was set and enables instruction keys A.\<close>

lemma pac_init_enables:
  "bit (sctlr_el1 (lettuce_pac_init s)) n \<longleftrightarrow> n = 31 \<or> bit (sctlr_el1 s) n"
  using bit_single [of 31 n] by (auto simp: lettuce_pac_init_def bit_or_iff)

end
