(* ===== verification/Host_Arch.thy ===== *)
theory Host_Arch
  imports Posix
begin

text \<open>
  The stand-ins of \<^verbatim>\<open>kernel/main/host_arch_stubs.c\<close> for the hooks of the architecture, with which the portable code runs on a host, and the hosted
  variant of the clock. With the stubs, the computation that the ARM64 build makes from counter and frequency gives the time that the hosted
  build takes from the host directly.
\<close>

section \<open>The stubs\<close>

text \<open>The monotonic clock of the host, as one reading gives it.\<close>

record host_timespec =
  tv_sec :: u64
  tv_nsec :: u64

definition host_counter_read :: "host_timespec \<Rightarrow> u64" where
  "host_counter_read ts = tv_sec ts * 1000000000 + tv_nsec ts"

definition host_counter_frequency :: u64 where
  "host_counter_frequency = 1000000000"

record host_state =
  g_host_timer_ticks :: u64

definition host_timer_get_ticks :: "host_state \<Rightarrow> u64" where
  "host_timer_get_ticks st = g_host_timer_ticks st"

definition host_timer_tick_step :: "host_state \<Rightarrow> host_state" where
  "host_timer_tick_step st = st\<lparr>g_host_timer_ticks := g_host_timer_ticks st + 1\<rparr>"

definition host_preempt_is_enabled :: "host_state \<Rightarrow> bool" where
  "host_preempt_is_enabled st = True"

definition host_preempt_disable :: "host_state \<Rightarrow> host_state" where
  "host_preempt_disable st = st"

definition host_preempt_enable :: "host_state \<Rightarrow> host_state" where
  "host_preempt_enable st = st"

definition host_domain_ttbr0_val :: "domain_id \<Rightarrow> u64" where
  "host_domain_ttbr0_val domain = 0"

section \<open>The hosted clock\<close>

text \<open>The hosted variant of the system call; reading the clock of the host can fail.\<close>

definition host_clock_gettime :: "s32 \<Rightarrow> u64 \<Rightarrow> host_timespec option \<Rightarrow> posix_state \<Rightarrow> s64 \<times> posix_state" where
  "host_clock_gettime clk_id tp reading st =
     (if clk_id \<noteq> CLOCK_MONOTONIC then (- EINVAL, st)
      else if tp = 0 then (- EFAULT, st)
      else case reading of
          None \<Rightarrow> (- EINVAL, st)
        | Some host_tp \<Rightarrow> (0, st\<lparr>ps_io := (ps_io st)\<lparr>io_memory :=
             store_u64 (tp + 8) (tv_nsec host_tp) (store_u64 tp (tv_sec host_tp) (io_memory (ps_io st)))\<rparr>\<rparr>))"

lemma host_counter_split:
  assumes "unat (tv_nsec ts) < 1000000000" "unat (tv_sec ts) * 1000000000 + unat (tv_nsec ts) < 2 ^ 64"
  shows "host_counter_read ts div host_counter_frequency = tv_sec ts"
    "(host_counter_read ts mod host_counter_frequency) * 1000000000 div host_counter_frequency = tv_nsec ts"
proof -
  have c: "unat (host_counter_read ts) = unat (tv_sec ts) * 1000000000 + unat (tv_nsec ts)"
    using assms(2) by (simp add: host_counter_read_def unat_word_ariths)
  have "unat (host_counter_read ts div host_counter_frequency) = unat (tv_sec ts)"
    using assms(1) by (simp add: unat_div_distrib c host_counter_frequency_def)
  then show "host_counter_read ts div host_counter_frequency = tv_sec ts" by (simp add: word_unat_eq_iff)
  have "unat ((host_counter_read ts mod host_counter_frequency) * 1000000000 div host_counter_frequency) = unat (tv_nsec ts)"
    using nsec_div(1) [of host_counter_frequency "host_counter_read ts"] assms(1)
    by (simp add: host_counter_frequency_def c word_less_nat_alt)
  then show "(host_counter_read ts mod host_counter_frequency) * 1000000000 div host_counter_frequency = tv_nsec ts" by (simp add: word_unat_eq_iff)
qed

text \<open>
  Hosted and target build tell the same time. For a reading of the host's clock that fits into the counter, the system call of the ARM64 build, run with counter
  and frequency of the stubs, stores exactly what the hosted build stores, on every argument outside kernel memory.
\<close>

theorem host_clock_agrees:
  assumes "unat (tv_nsec ts) < 1000000000" "unat (tv_sec ts) * 1000000000 + unat (tv_nsec ts) < 2 ^ 64" "\<not> in_kernel_range tp"
  shows "lettuce_kernel_sys_clock_gettime clk_id tp (host_counter_read ts) host_counter_frequency st = host_clock_gettime clk_id tp (Some ts) st"
  using assms(3) host_counter_split [OF assms(1,2)]
  by (simp add: lettuce_kernel_sys_clock_gettime_def host_clock_gettime_def) (simp add: host_counter_frequency_def)

end
