(* ===== verification/El0_Services.thy ===== *)
theory El0_Services
  imports El0
begin

text \<open>
  The EL0 services of \<^verbatim>\<open>kernel/arch/arm64/entry.S\<close>, section \<^verbatim>\<open>.service_text\<close>, instruction by instruction, and the
  symbols by which the test harness refers to them. A local label is written as the distance in bytes from
  the branch to it.
\<close>

section \<open>The page of service code\<close>

definition svc_display_code :: "el0_instr list" where
  "svc_display_code =
     [Ldr_lit 1 0x41100000, Ldr_lit 2 0x200b0001200b0001, Str 2 1, Ldr 3 1, Cmp 2 3, B_ne 12,
      Mov 0 0, Svc 0, Mov 0 1, Svc 0]"

definition svc_camera_code :: "el0_instr list" where
  "svc_camera_code =
     [Ldr_lit 1 0x41000000, Ldr_lit 2 0x100a0001100a0001, Str 2 1, Ldr 3 1, Cmp 2 3, B_ne 12,
      Mov 0 0, Svc 0, Mov 0 1, Svc 0]"

definition svc_storage_code :: "el0_instr list" where
  "svc_storage_code =
     [Ldr_lit 1 0x41180000, Ldr_lit 2 0x300c0001300c0001, Str 2 1, Ldr 3 1, Cmp 2 3, B_ne 12,
      Mov 0 0, Svc 0, Mov 0 1, Svc 0]"

definition svc_failing_code :: "el0_instr list" where
  "svc_failing_code = [Mov 0 1, Svc 0]"

definition svc_camera_call_display_code :: "el0_instr list" where
  "svc_camera_call_display_code =
     [Ldr_lit 1 0x41000000, Ldr_lit 2 0x100a0001100a0001, Str 2 1, Ldr_lit 4 0x411c0000, Ldr 3 4,
      Mov 0 20, Mov 1 1, Mov 2 1, Svc 1, Cbnz 0 32,
      Ldr_lit 1 0x41000000, Ldr_lit 2 0x100a0001100a0001, Ldr 3 1, Cmp 2 3, B_ne 12,
      Mov 0 0, Svc 0, Mov 0 1, Svc 0]"

definition svc_display_call_storage_code :: "el0_instr list" where
  "svc_display_call_storage_code =
     [Ldr_lit 1 0x41100000, Ldr_lit 2 0x200b0001200b0001, Str 2 1, Ldr_lit 4 0x411c0008, Ldr 3 4,
      Mov 0 30, Mov 1 1, Mov 2 2, Svc 1, Cbnz 0 32,
      Ldr_lit 1 0x41100000, Ldr_lit 2 0x200b0001200b0001, Ldr 3 1, Cmp 2 3, B_ne 12,
      Mov 0 0, Svc 0, Mov 0 1, Svc 0]"

definition svc_test_sysreg_code :: "el0_instr list" where
  "svc_test_sysreg_code = [Mrs 0, Mov 0 0, Svc 0]"

definition svc_test_kernel_mem_code :: "el0_instr list" where
  "svc_test_kernel_mem_code = [Ldr_lit 1 0x40082000, Ldr 0 1, Mov 0 0, Svc 0]"

definition svc_test_foreign_mem_a_to_b_code :: "el0_instr list" where
  "svc_test_foreign_mem_a_to_b_code = [Ldr_lit 1 0x41100000, Ldr 0 1, Mov 0 0, Svc 0]"

definition svc_test_foreign_mem_b_to_a_code :: "el0_instr list" where
  "svc_test_foreign_mem_b_to_a_code = [Ldr_lit 1 0x41000000, Ldr 0 1, Mov 0 0, Svc 0]"

definition svc_test_shared_write_a_code :: "el0_instr list" where
  "svc_test_shared_write_a_code = [Ldr_lit 1 0x411c0000, Ldr_lit 2 0xcafebabe00000001, Str 2 1, Mov 0 0, Svc 0]"

definition svc_test_shared_read_modify_b_code :: "el0_instr list" where
  "svc_test_shared_read_modify_b_code =
     [Ldr_lit 1 0x411c0000, Ldr 0 1, Ldr_lit 2 0xcafebabe00000001, Cmp 0 2, B_ne 20,
      Ldr_lit 2 0xfeedface00000002, Str 2 1, Mov 0 0, Svc 0, Mov 0 1, Svc 0]"

definition svc_test_shared_verify_a_code :: "el0_instr list" where
  "svc_test_shared_verify_a_code =
     [Ldr_lit 1 0x411c0000, Ldr 0 1, Ldr_lit 2 0xfeedface00000002, Cmp 0 2, B_ne 12, Mov 0 0, Svc 0, Mov 0 1, Svc 0]"

definition svc_minimal_return_code :: "el0_instr list" where
  "svc_minimal_return_code = [Mov 0 0, Svc 0]"

definition svc_camera_cross_layer_code :: "el0_instr list" where
  "svc_camera_cross_layer_code =
     [Ldr_lit 1 0x41000000, Ldr_lit 2 0x100a0001100a0001, Str 2 1, Ldr_lit 4 0x411c0010, Ldr 3 4,
      Mov 0 40, Mov 1 1, Mov 2 2, Svc 2, Cbnz 0 32,
      Ldr_lit 1 0x41000000, Ldr_lit 2 0x100a0001100a0001, Ldr 3 1, Cmp 2 3, B_ne 12,
      Mov 0 0, Svc 0, Mov 0 1, Svc 0]"

definition svc_camera_elevator_code :: "el0_instr list" where
  "svc_camera_elevator_code =
     [Ldr_lit 1 0x41000000, Ldr_lit 2 0x100a0001100a0001, Str 2 1, Ldr_lit 4 0x411c0018, Ldr 3 4,
      Mov 0 40, Mov 1 1, Mov 2 2, Svc 3, Cbnz 0 32,
      Ldr_lit 1 0x41000000, Ldr_lit 2 0x100a0001100a0001, Ldr 3 1, Cmp 2 3, B_ne 12,
      Mov 0 0, Svc 0, Mov 0 1, Svc 0]"

definition svc_camera_invalid_cap_code :: "el0_instr list" where
  "svc_camera_invalid_cap_code = [Mov 0 20, Mov 1 1, Mov 2 1, Ldr_lit 3 0xdeadbeef, Svc 1, Svc 0]"

definition task_counter_a_code :: "el0_instr list" where
  "task_counter_a_code = [Ldr_lit 0 0x41000000, Ldr_lit 1 0x411c0050, Ldr 3 0, Ldr 2 1, Add_imm 2 2 1, Str 2 1, B (- 16)]"

definition task_counter_b_code :: "el0_instr list" where
  "task_counter_b_code = [Ldr_lit 0 0x41100000, Ldr_lit 1 0x411c0058, Ldr 3 0, Ldr 2 1, Add_imm 2 2 1, Str 2 1, B (- 16)]"

definition task_counter_c_code :: "el0_instr list" where
  "task_counter_c_code = [Ldr_lit 0 0x41180000, Ldr_lit 1 0x411c0060, Ldr 3 0, Ldr 2 1, Add_imm 2 2 1, Str 2 1, B (- 16)]"

definition task_posix_runner_code :: "el0_instr list" where
  "task_posix_runner_code =
     [Mov 0 1, Ldr_lit 1 0x411c0020, Mov 2 10, Mov 8 1, Svc 5, Cmp_imm 0 10, B_ne 44,
      Mov 8 4, Svc 5, Cbz 0 32,
      Mov 0 1, Ldr_lit 1 0x411c0040, Mov 8 5, Svc 5, Cbnz 0 12,
      Mov 0 0, Svc 0, Mov 0 1, Svc 0]"

definition task_bench_syscall_code :: "el0_instr list" where
  "task_bench_syscall_code = [Mov 8 4, Svc 5, Mov 0 1, Ldr_lit 1 0x411c0040, Mov 8 5, Svc 5, Mov 0 0, Svc 0]"

definition service_text :: "el0_instr list list" where
  "service_text =
     [svc_display_code, svc_camera_code, svc_storage_code, svc_failing_code, svc_camera_call_display_code,
      svc_display_call_storage_code, svc_test_sysreg_code, svc_test_kernel_mem_code, svc_test_foreign_mem_a_to_b_code,
      svc_test_foreign_mem_b_to_a_code, svc_test_shared_write_a_code, svc_test_shared_read_modify_b_code,
      svc_test_shared_verify_a_code, svc_minimal_return_code, svc_camera_cross_layer_code, svc_camera_elevator_code,
      svc_camera_invalid_cap_code, task_counter_a_code, task_counter_b_code, task_counter_c_code, task_posix_runner_code,
      task_bench_syscall_code]"

definition service_image :: "el0_instr list" where
  "service_image = concat service_text"

text \<open>The symbols of the section: every instruction takes four bytes and nothing lies between the services.\<close>

record el0_symbols =
  el0_service_code_start :: u64
  svc_display_entry :: u64
  svc_camera_entry :: u64
  svc_storage_entry :: u64
  svc_failing_entry :: u64
  svc_camera_call_display :: u64
  svc_display_call_storage :: u64
  svc_test_sysreg :: u64
  svc_test_kernel_mem :: u64
  svc_test_foreign_mem_a_to_b :: u64
  svc_test_foreign_mem_b_to_a :: u64
  svc_test_shared_write_a :: u64
  svc_test_shared_read_modify_b :: u64
  svc_test_shared_verify_a :: u64
  svc_minimal_return_entry :: u64
  svc_camera_cross_layer_call :: u64
  svc_camera_elevator_call :: u64
  svc_camera_invalid_cap_call :: u64
  task_counter_a :: u64
  task_counter_b :: u64
  task_counter_c :: u64
  task_posix_runner :: u64
  task_bench_syscall :: u64

definition service_offset :: "nat \<Rightarrow> nat" where
  "service_offset n = length (concat (take n service_text))"

definition image_symbols :: "u64 \<Rightarrow> el0_symbols" where
  "image_symbols start = (let symbol = (\<lambda>n. start + 4 * of_nat (service_offset n)) in
     \<lparr>el0_service_code_start = start, svc_display_entry = symbol 0, svc_camera_entry = symbol 1, svc_storage_entry = symbol 2,
      svc_failing_entry = symbol 3, svc_camera_call_display = symbol 4, svc_display_call_storage = symbol 5, svc_test_sysreg = symbol 6,
      svc_test_kernel_mem = symbol 7, svc_test_foreign_mem_a_to_b = symbol 8, svc_test_foreign_mem_b_to_a = symbol 9,
      svc_test_shared_write_a = symbol 10, svc_test_shared_read_modify_b = symbol 11, svc_test_shared_verify_a = symbol 12,
      svc_minimal_return_entry = symbol 13, svc_camera_cross_layer_call = symbol 14, svc_camera_elevator_call = symbol 15,
      svc_camera_invalid_cap_call = symbol 16, task_counter_a = symbol 17, task_counter_b = symbol 18, task_counter_c = symbol 19,
      task_posix_runner = symbol 20, task_bench_syscall = symbol 21\<rparr>)"

end
