(* ===== verification/Service_Runs.thy ===== *)
theory Service_Runs
  imports El0_Services
begin

text \<open>
  What the services of the page of service code do when they run: the memory they change, the supervisor call
  they end with and the status they return, by symbolic execution of their instructions. Protected calls
  are followed into the service that is called and back.
\<close>

section \<open>Running the code\<close>

text \<open>Instruction \<^verbatim>\<open>i\<close> of service \<^verbatim>\<open>n\<close>.\<close>

definition code_at :: "nat \<Rightarrow> nat \<Rightarrow> u64" where
  "code_at n i = SERVICE_CODE_VA + 4 * of_nat (service_offset n + i)"

lemma code_at_next: "code_at n i + 4 = code_at n (i + 1)"
  by (simp add: code_at_def algebra_simps)

lemma code_at_jump: "4 dvd (numeral b :: nat) \<Longrightarrow> code_at n i + numeral b = code_at n (i + numeral b div 4)"
proof -
  assume "4 dvd (numeral b :: nat)"
  then obtain k where k: "(numeral b :: nat) = 4 * k" by (rule dvdE)
  have "(numeral b :: u64) = of_nat (numeral b)" by simp
  then show ?thesis unfolding code_at_def k by (simp add: k algebra_simps)
qed

lemma service_offset_total: "service_offset n \<le> 204"
proof -
  have "length (concat (take n service_text)) \<le> length (concat service_text)"
    by (metis append_take_drop_id concat_append length_append le_add1)
  moreover have "length (concat service_text) = 204" by code_simp
  ultimately show ?thesis by (simp add: service_offset_def)
qed

lemma image_nth:
  assumes "n < length service_text" "i < length (service_text ! n)"
  shows "service_image ! (service_offset n + i) = service_text ! n ! i" "service_offset n + i < length service_image"
    "service_offset n + i < 204"
proof -
  have s: "service_image = concat (take n service_text) @ service_text ! n @ concat (drop (Suc n) service_text)"
    using id_take_nth_drop [OF assms(1)] unfolding service_image_def by (metis concat.simps(2) concat_append)
  show "service_image ! (service_offset n + i) = service_text ! n ! i"
    using assms(2) unfolding s service_offset_def by (simp add: nth_append)
  show "service_offset n + i < length service_image" using assms(2) unfolding s service_offset_def by simp
  moreover have "length service_image = 204" by code_simp
  ultimately show "service_offset n + i < 204" by simp
qed

lemma frame_or_add:
  assumes "page_frame f" "n < 4096"
  shows "f OR of_nat n = f + of_nat n"
proof -
  have "(of_nat n :: u64) = of_nat n AND 0xfff" using assms(2) by (simp add: page_offset unsigned_of_nat take_bit_nat_eq_self)
  then have "f AND of_nat n = (f AND ADDR_MASK) AND (of_nat n AND 0xfff)" using assms(1) by (simp add: page_frame_def)
  also have "\<dots> = f AND of_nat n AND (ADDR_MASK AND 0xfff)" by (simp only: ac_simps)
  also have "\<dots> = 0" by (simp add: ADDR_MASK_def)
  finally show ?thesis using word_plus_and_or [of f "of_nat n"] by simp
qed

text \<open>One instruction of a service of the image, in a machine whose page of service code holds the image.\<close>

lemma step_service:
  assumes ok: "lay_ok (pl_layout pl)" and img: "pl_image pl = service_image" and d: "in_domain (pl_layout pl) el k (ew_mmu w)"
    and n: "n < length service_text" "i < length (service_text ! n)" and pc: "tf_elr fr = code_at n i"
  shows "el0_step pl fr w = el0_exec_instr pl (service_text ! n ! i) fr w"
proof -
  let ?j = "service_offset n + i"
  note im = image_nth [OF n]
  have va: "code_at n i = region_va 80 (4 * ?j)" by (simp add: code_at_def region_va_def algebra_simps)
  have lt: "4 * ?j < 4096" using im(3) by simp
  have tr: "translate (pl_layout pl) (ew_mmu w) Fetch (code_at n i) = Inr (lay_code (pl_layout pl) OR of_nat (4 * ?j))"
    unfolding va by (rule translate_pages(1) [OF ok d lt])
  have "(lay_code (pl_layout pl) OR of_nat (4 * ?j)) - lay_code (pl_layout pl) = (of_nat (4 * ?j) :: u64)"
    unfolding frame_or_add [OF lay_frames(9) [OF ok in_domain_lt [OF d]] lt] by (rule add_diff_cancel_left')
  moreover have "unat (of_nat (4 * ?j) :: u64) = 4 * ?j" unfolding unsigned_of_nat of_nat_id by (rule take_bit_nat_eq_self) (use lt in simp)
  ultimately have ix: "unat ((lay_code (pl_layout pl) OR of_nat (4 * ?j)) - lay_code (pl_layout pl)) div 4 = ?j" by simp
  show ?thesis by (simp only: el0_step_def pc tr sum.case Let_def ix img im if_True)
qed

lemma loop_service:
  assumes "lay_ok (pl_layout pl)" "pl_image pl = service_image" "in_domain (pl_layout pl) el k (ew_mmu w)"
    and "n < length service_text" "i < length (service_text ! n)"
  shows "el0_loop pl \<lparr>tf_x = xs, tf_lr = lr, tf_elr = code_at n i, tf_spsr = ps, tf_sp_el0 = sp\<rparr> w =
    (case el0_exec_instr pl (service_text ! n ! i) \<lparr>tf_x = xs, tf_lr = lr, tf_elr = code_at n i, tf_spsr = ps, tf_sp_el0 = sp\<rparr> w of
       Running fr' w' \<Rightarrow> el0_loop pl fr' w' | Resumed s w' \<Rightarrow> Some (s, w') | Halted w' \<Rightarrow> None)"
  by (subst el0_loop.simps) (simp add: step_service [OF assms])

section \<open>Instruction sequences\<close>

text \<open>The program status after a comparison.\<close>

definition compared :: "u64 \<Rightarrow> u64 \<Rightarrow> u64 \<Rightarrow> u64" where
  "compared a b ps = (ps AND NOT 0xf0000000) OR flags_of_cmp a b"

lemma set_flags_compared:
  "set_flags (flags_of_cmp a b) \<lparr>tf_x = xs, tf_lr = lr, tf_elr = pc, tf_spsr = ps, tf_sp_el0 = sp\<rparr> =
    \<lparr>tf_x = xs, tf_lr = lr, tf_elr = pc, tf_spsr = compared a b ps, tf_sp_el0 = sp\<rparr>"
  by (simp add: set_flags_def compared_def)

lemma zero_flag_compared:
  "zero_flag \<lparr>tf_x = xs, tf_lr = lr, tf_elr = pc, tf_spsr = compared a b ps, tf_sp_el0 = sp\<rparr> \<longleftrightarrow> a = b"
proof -
  have "bit (flags_of_cmp a b) 30 \<longleftrightarrow> a = b" by (auto simp: flags_of_cmp_def bit_simps)
  moreover have "\<not> bit (NOT 0xf0000000 :: u64) 30" by code_simp
  ultimately show ?thesis by (simp add: zero_flag_def compared_def bit_simps)
qed

text \<open>What follows a supervisor call.\<close>

definition svc_continue :: "platform \<Rightarrow> u64 \<Rightarrow> LettuceTrapFrame \<Rightarrow> 'a el0_world_scheme \<Rightarrow> (s64 \<times> 'a el0_world_scheme) option" where
  "svc_continue pl imm fr w =
     (case el0_exception pl (ESR_SVC imm) 0 fr w of
        Running fr' w' \<Rightarrow> el0_loop pl fr' w' | Resumed s w' \<Rightarrow> Some (s, w') | Halted w' \<Rightarrow> None)"

definition private_va :: "nat \<Rightarrow> u64" where "private_va k = [0x41000000, 0x41100000, 0x41180000] ! k"

lemma private_va_region: "k < 3 \<Longrightarrow> private_va k = region_va (private_page k) 0"
proof -
  assume "k < 3"
  then have "k = 0 \<or> k = 1 \<or> k = 2" by linarith
  then show ?thesis by (auto simp: private_va_def private_page_def region_va_def)
qed

lemma translate_data:
  assumes ok: "lay_ok lay" and d: "in_domain lay el k mmu" and acc: "acc \<noteq> Fetch"
  shows "translate lay mmu acc (private_va k) = Inr (private_frame lay k)"
    and "j < 3 \<Longrightarrow> j \<noteq> k \<Longrightarrow> translate lay mmu acc (private_va j) = Inl 7"
    and "n < 4096 \<Longrightarrow> translate lay mmu acc (0x411c0000 + of_nat n) = Inr (lay_shared lay OR of_nat n)"
proof -
  show "translate lay mmu acc (private_va k) = Inr (private_frame lay k)"
    using translate_pages(3) [OF ok d, of 0 acc] acc by (simp add: private_va_region in_domain_lt [OF d])
  show "j < 3 \<Longrightarrow> j \<noteq> k \<Longrightarrow> translate lay mmu acc (private_va j) = Inl 7"
    using translate_pages(4) [OF ok d, of 0 j acc] by (simp add: private_va_region)
  have "0x411c0000 + of_nat n = region_va 448 n" by (simp add: region_va_def)
  then show "n < 4096 \<Longrightarrow> translate lay mmu acc (0x411c0000 + of_nat n) = Inr (lay_shared lay OR of_nat n)"
    using translate_pages(2) [OF ok d, of n acc] acc by simp
qed

lemmas run_simps = next_pc_def set_x_def jump_def set_flags_compared zero_flag_compared svc_continue_def code_at_next code_at_jump

lemma own_page_runs:
  assumes ok: "lay_ok (pl_layout pl)" and img: "pl_image pl = service_image" and d: "in_domain (pl_layout pl) el k (ew_mmu w)"
    and n: "n < length service_text" and len: "length xs = 30"
    and code: "service_text ! n = [Ldr_lit 1 (private_va k), Ldr_lit 2 magic, Str 2 1, Ldr 3 1, Cmp 2 3, B_ne 12, Mov 0 0, Svc 0, Mov 0 1, Svc 0]"
  shows "el0_loop pl \<lparr>tf_x = xs, tf_lr = lr, tf_elr = code_at n 0, tf_spsr = ps, tf_sp_el0 = sp\<rparr> w =
    svc_continue pl 0 \<lparr>tf_x = xs[1 := private_va k, 2 := magic, 3 := magic, 0 := 0], tf_lr = lr, tf_elr = code_at n 8,
       tf_spsr = compared magic magic ps, tf_sp_el0 = sp\<rparr>
      (w\<lparr>ew_mem := (ew_mem w)(private_frame (pl_layout pl) k := magic)\<rparr>)"
  using translate_data(1) [OF ok d, of Load] translate_data(1) [OF ok d, of Store] d len
  by (simp add: loop_service [OF ok img, where el = el and k = k] n code run_simps del: One_nat_def)

text \<open>A service that makes a protected call: up to the call, and from the return on.\<close>

definition caller_code :: "nat \<Rightarrow> u64 \<Rightarrow> nat \<Rightarrow> u64 \<Rightarrow> u64 \<Rightarrow> u64 \<Rightarrow> u64 \<Rightarrow> el0_instr list" where
  "caller_code k magic off target op res imm =
     [Ldr_lit 1 (private_va k), Ldr_lit 2 magic, Str 2 1, Ldr_lit 4 (0x411c0000 + of_nat off), Ldr 3 4,
      Mov 0 target, Mov 1 op, Mov 2 res, Svc imm, Cbnz 0 32,
      Ldr_lit 1 (private_va k), Ldr_lit 2 magic, Ldr 3 1, Cmp 2 3, B_ne 12, Mov 0 0, Svc 0, Mov 0 1, Svc 0]"

lemma shared_not_private:
  assumes "lay_ok lay" "k < 3" "n < 4096"
  shows "lay_shared lay OR of_nat n \<noteq> private_frame lay k" "private_frame lay k \<noteq> lay_shared lay OR of_nat n"
proof -
  have "page_frame (lay_shared lay)" "page_frame (private_frame lay k)" using lay_frames [OF assms(1,2)] by simp_all
  moreover have "(of_nat n :: u64) AND ADDR_MASK = 0"
  proof -
    have "(of_nat n :: u64) = of_nat n AND 0xfff" using assms(3) by (simp add: page_offset unsigned_of_nat take_bit_nat_eq_self)
    then have "(of_nat n :: u64) AND ADDR_MASK = of_nat n AND (0xfff AND ADDR_MASK)" by (metis and.assoc)
    then show ?thesis by (simp add: ADDR_MASK_def)
  qed
  ultimately have m: "(lay_shared lay OR of_nat n) AND ADDR_MASK = lay_shared lay" "private_frame lay k AND ADDR_MASK = private_frame lay k"
    by (auto intro: desc_addr simp: page_frame_def)
  have "lay_shared lay \<noteq> private_frame lay k"
    using page_eq_iff [OF assms(1)] page_not_literal [OF assms(1)] assms(2) by (auto simp: private_frame_def lay_index)
  then show "lay_shared lay OR of_nat n \<noteq> private_frame lay k" "private_frame lay k \<noteq> lay_shared lay OR of_nat n" using m by metis+
qed

lemma caller_runs:
  assumes ok: "lay_ok (pl_layout pl)" and img: "pl_image pl = service_image" and d: "in_domain (pl_layout pl) el k (ew_mmu w)"
    and n: "n < length service_text" and len: "length xs = 30" and off: "off < 4096"
    and code: "service_text ! n = caller_code k magic off target op res imm"
  shows "el0_loop pl \<lparr>tf_x = xs, tf_lr = lr, tf_elr = code_at n 0, tf_spsr = ps, tf_sp_el0 = sp\<rparr> w =
    svc_continue pl imm \<lparr>tf_x = xs[1 := private_va k, 2 := magic, 4 := 0x411c0000 + of_nat off, 3 := ew_mem w (lay_shared (pl_layout pl) OR of_nat off),
         0 := target, 1 := op, 2 := res], tf_lr = lr, tf_elr = code_at n 9, tf_spsr = ps, tf_sp_el0 = sp\<rparr>
      (w\<lparr>ew_mem := (ew_mem w)(private_frame (pl_layout pl) k := magic)\<rparr>)"
  using translate_data(1) [OF ok d, of Store] translate_data(3) [OF ok d _ off, of Load] d len shared_not_private [OF ok in_domain_lt [OF d] off]
  by (simp add: loop_service [OF ok img, where el = el and k = k] n code caller_code_def run_simps del: One_nat_def)

lemma caller_after:
  assumes ok: "lay_ok (pl_layout pl)" and img: "pl_image pl = service_image" and d: "in_domain (pl_layout pl) el k (ew_mmu w)"
    and n: "n < length service_text" and len: "length xs = 30"
    and code: "service_text ! n = caller_code k magic off target op res imm" and own: "ew_mem w (private_frame (pl_layout pl) k) = magic"
  shows "el0_loop pl \<lparr>tf_x = xs, tf_lr = lr, tf_elr = code_at n 9, tf_spsr = ps, tf_sp_el0 = sp\<rparr> w =
    (if xs ! 0 = 0
     then svc_continue pl 0 \<lparr>tf_x = xs[1 := private_va k, 2 := magic, 3 := magic, 0 := 0], tf_lr = lr, tf_elr = code_at n 17,
         tf_spsr = compared magic magic ps, tf_sp_el0 = sp\<rparr> w
     else svc_continue pl 0 \<lparr>tf_x = xs[0 := 1], tf_lr = lr, tf_elr = code_at n 19, tf_spsr = ps, tf_sp_el0 = sp\<rparr> w)"
  using translate_data(1) [OF ok d, of Load] d len own
  by (simp add: loop_service [OF ok img, where el = el and k = k] n code caller_code_def run_simps del: One_nat_def)

section \<open>Supervisor calls of running code\<close>

lemma esr_svc:
  "drop_bit 26 (ESR_SVC 0) AND 0x3f = 0x15" "drop_bit 26 (ESR_SVC 1) AND 0x3f = 0x15" "drop_bit 26 (ESR_SVC 2) AND 0x3f = 0x15"
  "drop_bit 26 (ESR_SVC 3) AND 0x3f = 0x15" "drop_bit 26 (ESR_SVC 5) AND 0x3f = 0x15"
  "ucast (ESR_SVC 0 AND 0xffff) = (0 :: u32)" "ucast (ESR_SVC 1 AND 0xffff) = (1 :: u32)" "ucast (ESR_SVC 2 AND 0xffff) = (2 :: u32)"
  "ucast (ESR_SVC 3 AND 0xffff) = (3 :: u32)" "ucast (ESR_SVC 5 AND 0xffff) = (5 :: u32)"
  by code_simp+

lemma continue_return:
  assumes "g_context_stack_depth (ew_trap w) = 0"
  shows "svc_continue pl 0 fr w = Some (tf_x fr ! 0, w)"
  using assms by (simp add: svc_continue_def el0_exception_def lettuce_arch_sync_lower_el_handler_def esr_svc svc_return_def Let_def)

lemma continue_call:
  assumes "imm \<in> {1, 2, 3}" and "svc_call (pl_pac pl) (ucast imm) fr (ew_trap w) = (TrapReturn fr', st)"
  shows "svc_continue pl imm fr w = el0_loop pl fr' (w\<lparr>ew_trap := st\<rparr>)"
  using assms by (auto simp: svc_continue_def el0_exception_def lettuce_arch_sync_lower_el_handler_def esr_svc Let_def)

lemma continue_return_to:
  assumes "svc_return (pl_pac pl) fr (ew_trap w) = (TrapReturn fr', st)"
  shows "svc_continue pl 0 fr w = el0_loop pl fr' (w\<lparr>ew_trap := st\<rparr>)"
  using assms by (simp add: svc_continue_def el0_exception_def lettuce_arch_sync_lower_el_handler_def esr_svc Let_def)

lemma code_at_nonzero: "code_at n 0 \<noteq> 0"
proof -
  have "unat (of_nat (4 * service_offset n) :: u64) = 4 * service_offset n"
    unfolding unsigned_of_nat of_nat_id by (rule take_bit_nat_eq_self) (use service_offset_total [of n] in simp)
  moreover have "code_at n 0 = SERVICE_CODE_VA + of_nat (4 * service_offset n)" by (simp add: code_at_def)
  ultimately have "unat (code_at n 0) = unat SERVICE_CODE_VA + 4 * service_offset n"
    using service_offset_total [of n] by (simp only: unat_word_ariths) simp
  then show ?thesis by auto
qed

lemma private_frames_apart: "lay_ok lay \<Longrightarrow> j < 3 \<Longrightarrow> k < 3 \<Longrightarrow> j \<noteq> k \<Longrightarrow> private_frame lay j \<noteq> private_frame lay k"
  using rights_apart(1) [of lay k "private_frame lay k" True False j] by (auto simp: el0_rights_def)

lemma in_domain_enter:
  assumes "mmu_ok lay el mmu" "tables_ok lay el mmu" "domain_number dom_id = Some j"
  shows "in_domain lay el j (snd (lettuce_mmu_enter dom_id mmu))"
proof -
  have "lettuce_mmu_enter dom_id mmu = (fst (lettuce_mmu_enter dom_id mmu), snd (lettuce_mmu_enter dom_id mmu))" by simp
  from mmu_enter_facts [OF assms(1) this] show ?thesis
    using assms(2,3) by (simp add: in_domain_def tables_enter)
qed

text \<open>An accepted call to a service that works on its own page: the callee runs in its domain and the caller goes on.\<close>

lemma call_returns:
  assumes ok: "lay_ok (pl_layout pl)" and img: "pl_image pl = service_image" and wok: "world_ok (pl_layout pl) el (ew_trap w)"
    and depth: "g_context_stack_depth (ew_trap w) < LETTUCE_ARCH_CONTEXT_MAX" and pac: "g_pac_enabled (ew_trap w) \<Longrightarrow> pac_sound (pl_pac pl)"
    and m: "m < length service_text" and len: "length (tf_x fr) = 30" and imm: "imm \<in> {1, 2, 3}"
    and callee: "service_text ! m = [Ldr_lit 1 (private_va j), Ldr_lit 2 magic, Str 2 1, Ldr 3 1, Cmp 2 3, B_ne 12, Mov 0 0, Svc 0, Mov 0 1, Svc 0]"
    and v: "svc_validate (ucast imm) fr (tr_kernel (ew_trap w)) = Inr r"
    and r: "de_entry (cr_entry r) = code_at m 0" "domain_number (sd_domain (cr_target r)) = Some j"
  shows "svc_continue pl imm fr w = el0_loop pl (fr\<lparr>tf_x := (tf_x fr)[1 := private_va j, 2 := magic, 3 := magic, 0 := 0]\<rparr>)
    (w\<lparr>ew_trap := (ew_trap w)\<lparr>g_context_stack := (g_context_stack (ew_trap w))
         [unat (g_context_stack_depth (ew_trap w)) := saved_caller (pl_pac pl) fr (ew_trap w)]\<rparr>,
       ew_mem := (ew_mem w)(private_frame (pl_layout pl) j := magic)\<rparr>)"
proof -
  let ?lay = "pl_layout pl" and ?st = "ew_trap w" and ?d = "sd_domain (cr_target r)"
  let ?asm = "ucast imm = LETTUCE_SVC_ELEVATOR \<and> g_elevator_use_asm ?st"
  let ?st1 = "call_state (pl_pac pl) ?asm r fr ?st"
  have tok: "trap_ok ?lay el ?st" and mok: "mmu_ok ?lay el (tr_mmu ?st)" and tab: "tables_ok ?lay el (tr_mmu ?st)"
    using wok by (simp_all add: world_ok_def trap_ok_def)
  have call: "svc_call (pl_pac pl) (ucast imm) fr ?st = (TrapReturn (call_frame r fr), ?st1)"
    unfolding svc_call_eq v using depth code_at_nonzero [of m] by (simp add: r(1) not_le [symmetric])
  have mmu: "call_mmu ?asm ?d (tr_mmu ?st) = snd (lettuce_mmu_enter ?d (tr_mmu ?st))"
    by (rule call_mmu_enter [OF mok]) (simp add: r(2))
  have d1: "in_domain ?lay el j (tr_mmu ?st1)" using in_domain_enter [OF mok tab r(2)] mmu by (simp add: call_state_def)
  let ?w2 = "w\<lparr>ew_trap := ?st1, ew_mem := (ew_mem w)(private_frame ?lay j := magic)\<rparr>"
  let ?fr2 = "fr\<lparr>tf_x := (tf_x fr)[1 := private_va j, 2 := magic, 3 := magic, 0 := 0], tf_elr := code_at m 8,
       tf_spsr := compared magic magic 0, tf_sp_el0 := lettuce_arch_domain_stack_top ?d\<rparr>"
  have "svc_continue pl imm fr w = el0_loop pl (call_frame r fr) (w\<lparr>ew_trap := ?st1\<rparr>)"
    by (rule continue_call [OF imm call])
  also have "\<dots> = svc_continue pl 0 ?fr2 ?w2"
    using own_page_runs [OF ok img _ m _ callee, of el "w\<lparr>ew_trap := ?st1\<rparr>" "tf_x fr" "tf_lr fr" 0 "lettuce_arch_domain_stack_top ?d"] d1 len
    by (cases fr) (simp add: call_frame_def r(1))
  also have "\<dots> = el0_loop pl (?fr2\<lparr>tf_elr := tf_elr fr, tf_spsr := tf_spsr fr, tf_sp_el0 := tf_sp_el0 fr\<rparr>)
      (?w2\<lparr>ew_trap := ?st1\<lparr>g_context_stack_depth := g_context_stack_depth ?st, tr_machine := tr_machine ?st\<rparr>\<rparr>)"
    by (rule continue_return_to)
      (use return_undoes_call [OF tok pac depth mmu above_refl, of ?fr2 fr] in simp)
  also have "?fr2\<lparr>tf_elr := tf_elr fr, tf_spsr := tf_spsr fr, tf_sp_el0 := tf_sp_el0 fr\<rparr> =
      fr\<lparr>tf_x := (tf_x fr)[1 := private_va j, 2 := magic, 3 := magic, 0 := 0]\<rparr>" by (cases fr) simp
  also have "?w2\<lparr>ew_trap := ?st1\<lparr>g_context_stack_depth := g_context_stack_depth ?st, tr_machine := tr_machine ?st\<rparr>\<rparr> =
      w\<lparr>ew_trap := ?st\<lparr>g_context_stack := (g_context_stack ?st)[unat (g_context_stack_depth ?st) := saved_caller (pl_pac pl) fr ?st]\<rparr>,
        ew_mem := (ew_mem w)(private_frame ?lay j := magic)\<rparr>" by (simp add: call_state_def)
  finally show ?thesis .
qed

lemma protected_call_runs:
  assumes ok: "lay_ok (pl_layout pl)" and img: "pl_image pl = service_image"
    and wok: "world_ok (pl_layout pl) el (ew_trap w)" and d: "in_domain (pl_layout pl) el k (ew_mmu w)"
    and depth: "g_context_stack_depth (ew_trap w) = 0" and pac: "g_pac_enabled (ew_trap w) \<Longrightarrow> pac_sound (pl_pac pl)"
    and n: "n < length service_text" "m < length service_text" and len: "length xs = 30" and off: "off < 4096" and imm: "imm \<in> {1, 2, 3}"
    and caller: "service_text ! n = caller_code k magic off target op res imm"
    and callee: "service_text ! m = [Ldr_lit 1 (private_va j), Ldr_lit 2 magic2, Str 2 1, Ldr 3 1, Cmp 2 3, B_ne 12, Mov 0 0, Svc 0, Mov 0 1, Svc 0]"
    and valid: "\<And>fr. frame_message fr = \<lparr>msg_target_service_id = ucast target, msg_operation_id = ucast op, msg_resource_id = ucast res,
        msg_capability_handle = ucast (ew_mem w (lay_shared (pl_layout pl) OR of_nat off))\<rparr> \<Longrightarrow>
      svc_validate (ucast imm) fr (tr_kernel (ew_trap w)) = Inr r"
    and r: "de_entry (cr_entry r) = code_at m 0" "domain_number (sd_domain (cr_target r)) = Some j" "j \<noteq> k"
  shows "\<exists>cs. length cs = 8 \<and> el0_loop pl \<lparr>tf_x = xs, tf_lr = lr, tf_elr = code_at n 0, tf_spsr = ps, tf_sp_el0 = sp\<rparr> w =
    Some (0, w\<lparr>ew_trap := (ew_trap w)\<lparr>g_context_stack := cs\<rparr>,
      ew_mem := (ew_mem w)(private_frame (pl_layout pl) k := magic, private_frame (pl_layout pl) j := magic2)\<rparr>)"
proof -
  let ?lay = "pl_layout pl" and ?st = "ew_trap w"
  let ?xs = "xs[1 := private_va k, 2 := magic, 4 := 0x411c0000 + of_nat off, 3 := ew_mem w (lay_shared ?lay OR of_nat off),
      0 := target, 1 := op, 2 := res]"
  let ?fr = "\<lparr>tf_x = ?xs, tf_lr = lr, tf_elr = code_at n 9, tf_spsr = ps, tf_sp_el0 = sp\<rparr>"
  let ?w1 = "w\<lparr>ew_mem := (ew_mem w)(private_frame ?lay k := magic)\<rparr>"
  have j: "j < 3" and k: "k < 3" using domain_number_lt [OF r(2)] in_domain_lt [OF d] by simp_all
  have v: "svc_validate (ucast imm) ?fr (tr_kernel ?st) = Inr r" by (rule valid) (use len in \<open>simp add: frame_message_def\<close>)
  have lt: "g_context_stack_depth (ew_trap ?w1) < LETTUCE_ARCH_CONTEXT_MAX" using depth by (simp add: LETTUCE_ARCH_CONTEXT_MAX_def)
  let ?cs = "(g_context_stack ?st)[0 := saved_caller (pl_pac pl) ?fr ?st]"
  let ?w3 = "w\<lparr>ew_trap := ?st\<lparr>g_context_stack := ?cs\<rparr>,
      ew_mem := (ew_mem w)(private_frame ?lay k := magic, private_frame ?lay j := magic2)\<rparr>"
  have "el0_loop pl \<lparr>tf_x = xs, tf_lr = lr, tf_elr = code_at n 0, tf_spsr = ps, tf_sp_el0 = sp\<rparr> w = svc_continue pl imm ?fr ?w1"
    by (rule caller_runs [OF ok img d n(1) len off caller])
  also have "\<dots> = el0_loop pl \<lparr>tf_x = ?xs[1 := private_va j, 2 := magic2, 3 := magic2, 0 := 0], tf_lr = lr, tf_elr = code_at n 9, tf_spsr = ps, tf_sp_el0 = sp\<rparr> ?w3"
    using call_returns [OF ok img _ lt _ n(2) _ imm callee, of el ?fr r] wok pac v len r depth by simp
  also have "\<dots> = Some (0, ?w3)"
    using caller_after [OF ok img _ n(1) _ caller, where w = ?w3 and el = el] private_frames_apart [OF ok k j] r(3) d len depth
    by (simp add: continue_return)
  finally have "el0_loop pl \<lparr>tf_x = xs, tf_lr = lr, tf_elr = code_at n 0, tf_spsr = ps, tf_sp_el0 = sp\<rparr> w = Some (0, ?w3)" .
  moreover have "length ?cs = 8" using wok by (simp add: world_ok_def trap_ok_def LETTUCE_ARCH_CONTEXT_MAX_def)
  ultimately show ?thesis by blast
qed

section \<open>The services of the harness\<close>

definition platform_ok :: "platform \<Rightarrow> bool" where
  "platform_ok pl \<longleftrightarrow> lay_ok (pl_layout pl) \<and> pl_image pl = service_image \<and> (\<forall>st. length (pl_regs pl st) = 30)"

text \<open>A world in which domain \<^verbatim>\<open>k\<close> is current and no protected call is open.\<close>

definition ready_in :: "platform \<Rightarrow> u64 \<Rightarrow> nat \<Rightarrow> 'a el0_world_scheme \<Rightarrow> bool" where
  "ready_in pl el k w \<longleftrightarrow> world_ok (pl_layout pl) el (ew_trap w) \<and> in_domain (pl_layout pl) el k (ew_mmu w) \<and>
     g_context_stack_depth (ew_trap w) = 0"

lemma service_text_nth:
  "service_text ! 0 = svc_display_code" "service_text ! Suc 0 = svc_camera_code" "service_text ! 2 = svc_storage_code"
  "service_text ! 4 = svc_camera_call_display_code"
  "service_text ! 6 = svc_test_sysreg_code" "service_text ! 7 = svc_test_kernel_mem_code" "service_text ! 8 = svc_test_foreign_mem_a_to_b_code"
  "service_text ! 9 = svc_test_foreign_mem_b_to_a_code" "service_text ! 10 = svc_test_shared_write_a_code"
  "service_text ! 11 = svc_test_shared_read_modify_b_code" "service_text ! 12 = svc_test_shared_verify_a_code"
  "service_text ! 13 = svc_minimal_return_code" "service_text ! 14 = svc_camera_cross_layer_code" "service_text ! 15 = svc_camera_elevator_code"
  "service_text ! 16 = svc_camera_invalid_cap_code" "service_text ! 20 = task_posix_runner_code" "service_text ! 21 = task_bench_syscall_code"
  "length service_text = 22"
  by (simp_all add: service_text_def)

lemma platform_facts:
  assumes "platform_ok pl"
  shows "lay_ok (pl_layout pl)" "pl_image pl = service_image" "length (pl_regs pl st) = 30"
  using assms by (simp_all add: platform_ok_def)

lemmas enter_simps = lettuce_el0_enter_def el0_start_def continue_return

lemma ready_facts:
  assumes "ready_in pl el k w"
  shows "world_ok (pl_layout pl) el (ew_trap w)" "in_domain (pl_layout pl) el k (ew_mmu w)" "g_context_stack_depth (ew_trap w) = 0"
  using assms by (simp_all add: ready_in_def)

lemma enter_minimal:
  assumes pl: "platform_ok pl" and w: "ready_in pl el k w"
  shows "lettuce_el0_enter pl (code_at 13 0) sp w = Some (0, w)"
  using ready_facts [OF w] platform_facts [OF pl]
  by (simp add: enter_simps loop_service [where el = el and k = k] service_text_nth svc_minimal_return_code_def run_simps
      continue_return [unfolded svc_continue_def] del: One_nat_def)

definition own_page_services :: "(nat \<times> nat \<times> u64) list" where
  "own_page_services = [(1, 0, 0x100a0001100a0001), (0, 1, 0x200b0001200b0001), (2, 2, 0x300c0001300c0001)]"

lemma own_page_code:
  assumes "(n, k, magic) \<in> set own_page_services"
  shows "n < length service_text" "service_text ! n =
    [Ldr_lit 1 (private_va k), Ldr_lit 2 magic, Str 2 1, Ldr 3 1, Cmp 2 3, B_ne 12, Mov 0 0, Svc 0, Mov 0 1, Svc 0]"
  using assms by (auto simp: own_page_services_def service_text_nth svc_camera_code_def svc_display_code_def svc_storage_code_def private_va_def)

lemma enter_own_page:
  assumes pl: "platform_ok pl" and w: "ready_in pl el k w" and n: "(n, k, magic) \<in> set own_page_services"
  shows "lettuce_el0_enter pl (code_at n 0) sp w = Some (0, w\<lparr>ew_mem := (ew_mem w)(private_frame (pl_layout pl) k := magic)\<rparr>)"
  using own_page_runs [OF platform_facts(1,2) [OF pl] ready_facts(2) [OF w] own_page_code(1) [OF n] _ own_page_code(2) [OF n]]
    platform_facts(3) [OF pl] ready_facts(3) [OF w]
  by (simp add: enter_simps)

text \<open>An abort the kernel expects ends the service with status ABORTED.\<close>

definition fault_seen :: "u64 \<Rightarrow> u64 \<Rightarrow> u64 \<Rightarrow> mmu_state \<Rightarrow> mmu_state" where
  "fault_seen esr far elr mmu = mmu\<lparr>g_last_fault_esr := esr, g_last_fault_far := far, g_last_fault_elr := elr,
     g_expecting_fault := False, g_fault_observed := True\<rparr>"

lemma esr_classes:
  "drop_bit 26 (ESR_DATA_ABORT 7 False) AND 0x3f = 0x24" "drop_bit 26 (ESR_DATA_ABORT 14 False) AND 0x3f = 0x24"
  "drop_bit 26 ESR_UNDEFINED AND 0x3f = 0" "ESR_DATA_ABORT 7 False AND 0x3f = 7" "ESR_DATA_ABORT 14 False AND 0x3f = 14"
  by code_simp+

lemma data_abort_expected:
  assumes "fsc \<in> {7, 14}" "g_expecting_fault (ew_mmu w)"
  shows "\<exists>ps. el0_exception pl (ESR_DATA_ABORT fsc False) far fr w =
    Resumed (ucast (status_code LETTUCE_STATUS_ABORTED))
      (w\<lparr>ew_trap := on_mmu (fault_seen (ESR_DATA_ABORT fsc False) far (tf_elr fr)) (on_console ps (ew_trap w))\<rparr>)"
proof -
  have "drop_bit 26 (ESR_DATA_ABORT fsc False) AND 0x3f = 0x24" using assms(1) esr_classes by auto
  then show ?thesis using assms(2)
    by (simp add: el0_exception_def lettuce_arch_sync_lower_el_handler_def lettuce_mmu_handle_fault_def on_mmu_def fault_seen_def Let_def) blast
qed

lemma enter_probe:
  assumes pl: "platform_ok pl" and w: "ready_in pl el k w" and n: "n < length service_text"
    and code: "service_text ! n = [Ldr_lit 1 va, Ldr 0 1, Mov 0 0, Svc 0]" and tr: "translate (pl_layout pl) (ew_mmu w) Load va = Inl fsc"
    and fsc: "fsc \<in> {7, 14}" and e: "g_expecting_fault (ew_mmu w)"
  shows "\<exists>ps. lettuce_el0_enter pl (code_at n 0) sp w = Some (ucast (status_code LETTUCE_STATUS_ABORTED),
    w\<lparr>ew_trap := on_mmu (fault_seen (ESR_DATA_ABORT fsc False) va (code_at n 1)) (on_console ps (ew_trap w))\<rparr>)"
proof -
  let ?fr = "\<lparr>tf_x = (pl_regs pl (ew_trap w))[0 := code_at n 0, 1 := va], tf_lr = pl_link pl (ew_trap w), tf_elr = code_at n 1,
      tf_spsr = 0, tf_sp_el0 = sp\<rparr>"
  obtain ps where "el0_exception pl (ESR_DATA_ABORT fsc False) va ?fr w = Resumed (ucast (status_code LETTUCE_STATUS_ABORTED))
      (w\<lparr>ew_trap := on_mmu (fault_seen (ESR_DATA_ABORT fsc False) va (tf_elr ?fr)) (on_console ps (ew_trap w))\<rparr>)"
    using data_abort_expected [OF fsc e, of pl va ?fr] by blast
  then show ?thesis
    using tr n ready_facts(2) [OF w] platform_facts [OF pl]
    by (intro exI [of _ ps]) (simp add: enter_simps loop_service [where el = el and k = k] code run_simps del: One_nat_def)
qed

lemma enter_foreign:
  assumes pl: "platform_ok pl" and w: "ready_in pl el k w" and n: "(n, k, j) \<in> {(8, 0, 1), (9, 1, 0)}" and e: "g_expecting_fault (ew_mmu w)"
  shows "\<exists>ps. lettuce_el0_enter pl (code_at n 0) sp w = Some (ucast (status_code LETTUCE_STATUS_ABORTED),
    w\<lparr>ew_trap := on_mmu (fault_seen (ESR_DATA_ABORT 7 False) (private_va j) (code_at n 1)) (on_console ps (ew_trap w))\<rparr>)"
proof -
  have code: "n < length service_text" "service_text ! n = [Ldr_lit 1 (private_va j), Ldr 0 1, Mov 0 0, Svc 0]" "j < 3" "j \<noteq> k"
    using n by (auto simp: service_text_nth svc_test_foreign_mem_a_to_b_code_def svc_test_foreign_mem_b_to_a_code_def private_va_def)
  show ?thesis
    by (rule enter_probe [OF pl w code(1,2) _ _ e]) (use translate_data(2) [OF platform_facts(1) [OF pl] ready_facts(2) [OF w]] code in simp_all)
qed

lemma enter_kernel_probe:
  assumes pl: "platform_ok pl" and w: "ready_in pl el k w" and e: "g_expecting_fault (ew_mmu w)"
  shows "\<exists>ps. lettuce_el0_enter pl (code_at 7 0) sp w = Some (ucast (status_code LETTUCE_STATUS_ABORTED),
    w\<lparr>ew_trap := on_mmu (fault_seen (ESR_DATA_ABORT 14 False) 0x40082000 (code_at 7 1)) (on_console ps (ew_trap w))\<rparr>)"
  by (rule enter_probe [OF pl w _ _ _ _ e])
    (use translate_kernel [OF platform_facts(1) [OF pl] ready_facts(2) [OF w]] in \<open>simp_all add: service_text_nth svc_test_kernel_mem_code_def\<close>)

text \<open>A trap on a system register that the kernel expects ends the service with status DENIED.\<close>

definition sysreg_trap_seen :: "u64 \<Rightarrow> u64 \<Rightarrow> mmu_state \<Rightarrow> mmu_state" where
  "sysreg_trap_seen esr elr mmu = mmu\<lparr>g_last_fault_esr := esr, g_last_fault_elr := elr, g_expecting_sysreg_trap := False, g_sysreg_trap_observed := True\<rparr>"

lemma enter_sysreg:
  assumes pl: "platform_ok pl" and w: "ready_in pl el k w" and e: "g_expecting_sysreg_trap (ew_mmu w)"
  shows "\<exists>ps. lettuce_el0_enter pl (code_at 6 0) sp w = Some (ucast (status_code LETTUCE_STATUS_DENIED),
    w\<lparr>ew_trap := on_mmu (sysreg_trap_seen ESR_UNDEFINED (code_at 6 0)) (on_console ps (ew_trap w))\<rparr>)"
proof -
  let ?fr = "\<lparr>tf_x = (pl_regs pl (ew_trap w))[0 := code_at 6 0, 1 := sp], tf_lr = pl_link pl (ew_trap w), tf_elr = code_at 6 0,
      tf_spsr = 0, tf_sp_el0 = sp\<rparr>"
  obtain ps where "el0_exception pl ESR_UNDEFINED 0 ?fr w = Resumed (ucast (status_code LETTUCE_STATUS_DENIED))
      (w\<lparr>ew_trap := on_mmu (sysreg_trap_seen ESR_UNDEFINED (code_at 6 0)) (on_console ps (ew_trap w))\<rparr>)"
    using e by (simp add: el0_exception_def lettuce_arch_sync_lower_el_handler_def esr_classes lettuce_arch_handle_sysreg_trap_def on_mmu_def
        sysreg_trap_seen_def Let_def)
  then show ?thesis
    using ready_facts(2) [OF w] platform_facts [OF pl]
    by (intro exI [of _ ps]) (simp add: enter_simps loop_service [where el = el and k = k] service_text_nth svc_test_sysreg_code_def run_simps del: One_nat_def)
qed

text \<open>The three services that talk through the shared page.\<close>

lemma translate_shared:
  assumes "platform_ok pl" "ready_in pl el k w" "acc \<noteq> Fetch"
  shows "translate (pl_layout pl) (ew_mmu w) acc 0x411c0000 = Inr (lay_shared (pl_layout pl))"
  using translate_data(3) [OF platform_facts(1) [OF assms(1)] ready_facts(2) [OF assms(2)] assms(3), of 0] by simp

lemma enter_shared:
  assumes pl: "platform_ok pl" and w: "ready_in pl el k w"
  shows "lettuce_el0_enter pl (code_at 10 0) sp w = Some (0, w\<lparr>ew_mem := (ew_mem w)(lay_shared (pl_layout pl) := 0xcafebabe00000001)\<rparr>)"
    and "ew_mem w (lay_shared (pl_layout pl)) = 0xcafebabe00000001 \<Longrightarrow>
      lettuce_el0_enter pl (code_at 11 0) sp w = Some (0, w\<lparr>ew_mem := (ew_mem w)(lay_shared (pl_layout pl) := 0xfeedface00000002)\<rparr>)"
    and "ew_mem w (lay_shared (pl_layout pl)) = 0xfeedface00000002 \<Longrightarrow> lettuce_el0_enter pl (code_at 12 0) sp w = Some (0, w)"
  using translate_shared [OF pl w, of Load] translate_shared [OF pl w, of Store] ready_facts(2,3) [OF w] platform_facts [OF pl]
  by (simp_all add: enter_simps loop_service [where el = el and k = k] service_text_nth svc_test_shared_write_a_code_def
      svc_test_shared_read_modify_b_code_def svc_test_shared_verify_a_code_def run_simps continue_return [unfolded svc_continue_def] del: One_nat_def)

text \<open>A call the kernel refuses: the caller sees the status in x0.\<close>

lemma continue_refused:
  assumes "imm \<in> {1, 2, 3}" "svc_validate (ucast imm) fr (tr_kernel (ew_trap w)) = Inl s"
  shows "svc_continue pl imm fr w = el0_loop pl (fr\<lparr>tf_x := (tf_x fr)[0 := ucast (status_code s)]\<rparr>) w"
proof -
  have "svc_call (pl_pac pl) (ucast imm) fr (ew_trap w) = (TrapReturn (fr\<lparr>tf_x := (tf_x fr)[0 := ucast (status_code s)]\<rparr>), ew_trap w)"
    unfolding svc_call_eq assms(2) by (simp add: set_x0_def)
  from continue_call [OF assms(1) this] show ?thesis by simp
qed

lemma enter_invalid_cap:
  assumes pl: "platform_ok pl" and w: "ready_in pl el k w"
    and refused: "\<And>fr. frame_message fr = \<lparr>msg_target_service_id = 20, msg_operation_id = 1, msg_resource_id = 1,
        msg_capability_handle = 0xdeadbeef\<rparr> \<Longrightarrow> svc_validate LETTUCE_SVC_CALL fr (tr_kernel (ew_trap w)) = Inl s"
  shows "lettuce_el0_enter pl (code_at 16 0) sp w = Some (ucast (status_code s), w)"
proof -
  let ?fr = "\<lparr>tf_x = (pl_regs pl (ew_trap w))[0 := code_at 16 0, 1 := sp, 0 := 20, 1 := 1, 2 := 1, 3 := 0xdeadbeef],
      tf_lr = pl_link pl (ew_trap w), tf_elr = code_at 16 5, tf_spsr = 0, tf_sp_el0 = sp\<rparr>"
  have v: "svc_validate (ucast (1 :: u64)) ?fr (tr_kernel (ew_trap w)) = Inl s"
    using refused [of ?fr] platform_facts(3) [OF pl] by (simp add: frame_message_def)
  have c: "svc_continue pl 1 ?fr w = el0_loop pl (?fr\<lparr>tf_x := (tf_x ?fr)[0 := ucast (status_code s)]\<rparr>) w"
    by (rule continue_refused [OF _ v]) simp
  have "lettuce_el0_enter pl (code_at 16 0) sp w = svc_continue pl 1 ?fr w"
    using ready_facts(2) [OF w] platform_facts [OF pl]
    by (simp add: enter_simps loop_service [where el = el and k = k] service_text_nth svc_camera_invalid_cap_code_def run_simps del: One_nat_def)
  also have "\<dots> = Some (ucast (status_code s), w)"
    unfolding c using ready_facts(2,3) [OF w] platform_facts [OF pl]
    by (simp add: loop_service [where el = el and k = k] service_text_nth svc_camera_invalid_cap_code_def run_simps
        continue_return [unfolded svc_continue_def] del: One_nat_def)
  finally show ?thesis .
qed

text \<open>The calling services of the camera: index, place of the handle in the shared page, and the arguments of the call.\<close>

definition camera_calls :: "(nat \<times> nat \<times> u64 \<times> u64 \<times> u64 \<times> u64) list" where
  "camera_calls = [(4, 0, 20, 1, 1, 1), (14, 16, 40, 1, 2, 2), (15, 24, 40, 1, 2, 3)]"

abbreviation CAMERA_MAGIC :: u64 where "CAMERA_MAGIC \<equiv> 0x100a0001100a0001"

lemma camera_call_code:
  assumes "(n, off, target, op, res, imm) \<in> set camera_calls"
  shows "n < length service_text" "service_text ! n = caller_code 0 CAMERA_MAGIC off target op res imm" "off < 4096" "imm \<in> {1, 2, 3}"
  using assms by (auto simp: camera_calls_def service_text_nth svc_camera_call_display_code_def svc_camera_cross_layer_code_def
      svc_camera_elevator_code_def caller_code_def private_va_def)

definition call_message :: "u64 \<Rightarrow> u64 \<Rightarrow> u64 \<Rightarrow> u64 \<Rightarrow> LettuceCallMessage" where
  "call_message target op res cap = \<lparr>msg_target_service_id = ucast target, msg_operation_id = ucast op, msg_resource_id = ucast res,
     msg_capability_handle = ucast cap\<rparr>"

lemma enter_call:
  assumes pl: "platform_ok pl" and w: "ready_in pl el 0 w" and pac: "g_pac_enabled (ew_trap w) \<Longrightarrow> pac_sound (pl_pac pl)"
    and n: "(n, off, target, op, res, imm) \<in> set camera_calls" and m: "(m, j, magic) \<in> set own_page_services" "j \<noteq> 0"
    and valid: "\<And>fr. frame_message fr = call_message target op res (ew_mem w (lay_shared (pl_layout pl) OR of_nat off)) \<Longrightarrow>
      svc_validate (ucast imm) fr (tr_kernel (ew_trap w)) = Inr r"
    and r: "de_entry (cr_entry r) = code_at m 0" "domain_number (sd_domain (cr_target r)) = Some j"
  shows "\<exists>cs. length cs = 8 \<and> lettuce_el0_enter pl (code_at n 0) sp w =
    Some (0, w\<lparr>ew_trap := (ew_trap w)\<lparr>g_context_stack := cs\<rparr>,
      ew_mem := (ew_mem w)(private_frame (pl_layout pl) 0 := CAMERA_MAGIC, private_frame (pl_layout pl) j := magic)\<rparr>)"
  using protected_call_runs [OF platform_facts(1,2) [OF pl] ready_facts [OF w] pac camera_call_code(1) [OF n] own_page_code(1) [OF m(1)] _
      camera_call_code(3,4,2) [OF n] own_page_code(2) [OF m(1)] _ r m(2)] platform_facts(3) [OF pl] valid
  by (simp add: enter_simps call_message_def)

lemma enter_call_refused:
  assumes pl: "platform_ok pl" and w: "ready_in pl el 0 w" and n: "(n, off, target, op, res, imm) \<in> set camera_calls"
    and refused: "\<And>fr. frame_message fr = call_message target op res (ew_mem w (lay_shared (pl_layout pl) OR of_nat off)) \<Longrightarrow>
      svc_validate (ucast imm) fr (tr_kernel (ew_trap w)) = Inl s"
  shows "lettuce_el0_enter pl (code_at n 0) sp w = Some (1, w\<lparr>ew_mem := (ew_mem w)(private_frame (pl_layout pl) 0 := CAMERA_MAGIC)\<rparr>)"
proof -
  note code = camera_call_code [OF n] and plf = platform_facts(1,2) [OF pl] and d = ready_facts(2) [OF w]
  let ?xs = "(pl_regs pl (ew_trap w))[0 := code_at n 0, 1 := sp, 1 := private_va 0, 2 := CAMERA_MAGIC, 4 := 0x411c0000 + of_nat off,
      3 := ew_mem w (lay_shared (pl_layout pl) OR of_nat off), 0 := target, 1 := op, 2 := res]"
  let ?fr = "\<lparr>tf_x = ?xs, tf_lr = pl_link pl (ew_trap w), tf_elr = code_at n 9, tf_spsr = 0, tf_sp_el0 = sp\<rparr>"
  let ?w1 = "w\<lparr>ew_mem := (ew_mem w)(private_frame (pl_layout pl) 0 := CAMERA_MAGIC)\<rparr>"
  have v: "svc_validate (ucast imm) ?fr (tr_kernel (ew_trap ?w1)) = Inl s"
    using refused [of ?fr] platform_facts(3) [OF pl] by (simp add: frame_message_def call_message_def)
  have nz: "(ucast (status_code s) :: u64) \<noteq> 0" using svc_validate_not_ok [OF v] by (cases s) simp_all
  have "lettuce_el0_enter pl (code_at n 0) sp w = svc_continue pl imm ?fr ?w1"
    unfolding lettuce_el0_enter_def el0_start_def
    by (rule caller_runs [OF plf d code(1) _ code(3,2)]) (simp add: platform_facts(3) [OF pl])
  also have "\<dots> = el0_loop pl (?fr\<lparr>tf_x := (tf_x ?fr)[0 := ucast (status_code s)]\<rparr>) ?w1" by (rule continue_refused [OF code(4) v])
  also have "\<dots> = Some (1, ?w1)"
    using caller_after [OF plf _ code(1) _ code(2), where w = ?w1 and el = el] d nz platform_facts(3) [OF pl] ready_facts(3) [OF w]
    by (simp add: continue_return)
  finally show ?thesis .
qed

end
