(* ===== verification/Harness.thy ===== *)
theory Harness
  imports Service_Runs "HOL-Library.While_Combinator" "HOL-Library.Multiset"
begin

text \<open>
  The boot path and the frame of the test harness of \<^verbatim>\<open>kernel/arch/arm64/main.c\<close>: entering EL0 services, initialising
  and filling registry and dispatch table, the report lines of tests and the statistics of the built-in
  benchmark. The tests themselves follow in the next theory.
\<close>

section \<open>Entering EL0\<close>

definition el0_service_va :: "el0_symbols \<Rightarrow> u64 \<Rightarrow> u64" where
  "el0_service_va syms symbol = SERVICE_CODE_VA + (symbol - el0_service_code_start syms)"

text \<open>The symbols of the machine: the linker placed the section of service code at the page the tables map.\<close>

abbreviation el0_syms :: "platform \<Rightarrow> el0_symbols" where "el0_syms pl \<equiv> image_symbols (lay_code (pl_layout pl))"

definition run_el0_service ::
  "platform \<Rightarrow> u64 \<Rightarrow> domain_id \<Rightarrow> service_id \<Rightarrow> 'a el0_world_scheme \<Rightarrow> (s64 \<times> 'a el0_world_scheme) option" where
  "run_el0_service pl symbol domain service w =
     (let st1 = on_kernel (kernel_set_current_service_id service) (ew_trap w);
          st2 = on_mmu (\<lambda>mmu. snd (lettuce_mmu_enter domain mmu)) st1;
          entry_pc = el0_service_va (el0_syms pl) symbol;
          stack_top = lettuce_arch_domain_stack_top domain
      in lettuce_el0_enter pl entry_pc stack_top (w\<lparr>ew_trap := st2\<rparr>))"

section \<open>Boot\<close>

abbreviation SERVICE_CAMERA :: service_id where "SERVICE_CAMERA \<equiv> 10"
abbreviation SERVICE_DISPLAY :: service_id where "SERVICE_DISPLAY \<equiv> 20"
abbreviation SERVICE_STORAGE :: service_id where "SERVICE_STORAGE \<equiv> 30"
abbreviation SERVICE_SENSOR :: service_id where "SERVICE_SENSOR \<equiv> 40"
abbreviation SERVICE_FAILING :: service_id where "SERVICE_FAILING \<equiv> 99"
abbreviation OP_DRAW :: operation_id where "OP_DRAW \<equiv> 1"
abbreviation OP_SAVE :: operation_id where "OP_SAVE \<equiv> 1"
abbreviation OP_FAIL :: operation_id where "OP_FAIL \<equiv> 1"
abbreviation RES_FRAMEBUFFER :: resource_id where "RES_FRAMEBUFFER \<equiv> 1"
abbreviation RES_DISK :: resource_id where "RES_DISK \<equiv> 2"

definition boot_descriptors :: "LettuceServiceDescriptor list" where
  "boot_descriptors =
     [\<lparr>sd_id = SERVICE_CAMERA, sd_layer = 3, sd_domain = DOMAIN_A, sd_flags = LETTUCE_SERVICE_FLAG_ACTIVE\<rparr>,
      \<lparr>sd_id = SERVICE_DISPLAY, sd_layer = 3, sd_domain = DOMAIN_B, sd_flags = LETTUCE_SERVICE_FLAG_ACTIVE\<rparr>,
      \<lparr>sd_id = SERVICE_STORAGE, sd_layer = 3, sd_domain = DOMAIN_C, sd_flags = LETTUCE_SERVICE_FLAG_ACTIVE\<rparr>,
      \<lparr>sd_id = SERVICE_SENSOR, sd_layer = 2, sd_domain = DOMAIN_C, sd_flags = LETTUCE_SERVICE_FLAG_ACTIVE\<rparr>,
      \<lparr>sd_id = SERVICE_FAILING, sd_layer = 3, sd_domain = DOMAIN_C, sd_flags = LETTUCE_SERVICE_FLAG_ACTIVE\<rparr>]"

definition boot_entries :: "el0_symbols \<Rightarrow> (service_id \<times> operation_id \<times> u64) list" where
  "boot_entries syms =
     [(SERVICE_DISPLAY, OP_DRAW, el0_service_va syms (svc_display_entry syms)),
      (SERVICE_STORAGE, OP_SAVE, el0_service_va syms (svc_storage_entry syms)),
      (SERVICE_SENSOR, OP_SAVE, el0_service_va syms (svc_storage_entry syms)),
      (SERVICE_FAILING, OP_FAIL, el0_service_va syms (svc_failing_entry syms))]"

definition dispatch_register_kernel :: "service_id \<Rightarrow> operation_id \<Rightarrow> u64 \<Rightarrow> kernel_state \<Rightarrow> kernel_state" where
  "dispatch_register_kernel sid op entry ks = ks\<lparr>ks_services := snd (lettuce_dispatch_register sid op entry (ks_services ks))\<rparr>"

definition boot_kernel :: "el0_symbols \<Rightarrow> kernel_state \<Rightarrow> kernel_state" where
  "boot_kernel syms ks =
     (let ks1 = ks\<lparr>ks_services := lettuce_service_registry_init\<rparr>;
          ks2 = ks1\<lparr>ks_capabilities := lettuce_capability_init\<rparr>;
          ks3 = fold (\<lambda>d k. k\<lparr>ks_services := snd (lettuce_service_registry_register d (ks_services k))\<rparr>) boot_descriptors ks2
      in fold (\<lambda>(sid, op, entry). dispatch_register_kernel sid op entry) (boot_entries syms) ks3)"

definition boot_machine :: "mmu_layout \<Rightarrow> el0_symbols \<Rightarrow> machine \<Rightarrow> machine" where
  "boot_machine lay syms m = m\<lparr>mc_mmu := lettuce_mmu_init lay (mc_mmu m), mc_kernel := boot_kernel syms (mc_kernel m)\<rparr>"

text \<open>Creating a capability, as the tests of protected calls do.\<close>

definition capability_create_kernel ::
  "service_id \<Rightarrow> service_id \<Rightarrow> operation_id \<Rightarrow> u32 \<Rightarrow> resource_id \<Rightarrow> kernel_state \<Rightarrow> u32 \<times> kernel_state" where
  "capability_create_kernel owner target op perms res ks =
     (let (h, cs) = lettuce_capability_create owner target op perms res (ks_capabilities ks) in (h, ks\<lparr>ks_capabilities := cs\<rparr>))"

section \<open>Test reports\<close>

fun parse_digits :: "u64 \<Rightarrow> string \<Rightarrow> u64" where
  "parse_digits num (c # text) =
     (if (of_char c :: nat) \<ge> 48 \<and> (of_char c :: nat) \<le> 57 then parse_digits (num * 10 + (of_char c - 48)) text else num)"
| "parse_digits num [] = num"

definition parse_test_number :: "string \<Rightarrow> u64" where
  "parse_test_number test_name = (if take 5 test_name = ''Test '' then parse_digits 0 (drop 5 test_name) else 0)"

record harness_state = el0_world +
  g_tests_passed :: u32
  g_tests_failed :: u32

definition say :: "(string \<Rightarrow> string) list \<Rightarrow> harness_state \<Rightarrow> harness_state" where
  "say prints h = h\<lparr>ew_trap := on_console prints (ew_trap h)\<rparr>"

lemma say_append: "say (ps @ qs) h = say qs (say ps h)"
  by (simp add: say_def on_console_def)

abbreviation dec :: "u64 \<Rightarrow> string \<Rightarrow> string" where "dec v \<equiv> lettuce_arch_console_print_dec v"

definition log_pass :: "string \<Rightarrow> harness_state \<Rightarrow> harness_state" where
  "log_pass test_name h =
     (let h1 = say [puts ''[PASS] '', puts test_name, puts ''\<newline>''] (h\<lparr>g_tests_passed := g_tests_passed h + 1\<rparr>);
          num = parse_test_number test_name
      in if num > 0 then say [puts ''TEST,'', dec num, puts '',PASS\<newline>''] h1 else h1)"

definition log_fail :: "string \<Rightarrow> harness_state \<Rightarrow> harness_state" where
  "log_fail test_name h =
     (let h1 = say [puts ''[FAIL] '', puts test_name, puts ''\<newline>''] (h\<lparr>g_tests_failed := g_tests_failed h + 1\<rparr>);
          num = parse_test_number test_name
      in if num > 0 then say [puts ''TEST,'', dec num, puts '',FAIL\<newline>''] h1 else h1)"

section \<open>Benchmark statistics\<close>

definition BENCH_SAMPLES :: nat where "BENCH_SAMPLES = 50"

text \<open>The two loops of the insertion sort: the inner one is a \<^verbatim>\<open>while\<close> of the source.\<close>

definition shift_larger :: "u64 \<Rightarrow> nat \<times> u64 list \<Rightarrow> (nat \<times> u64 list) option" where
  "shift_larger key = while_option (\<lambda>(j, samples). j > 0 \<and> samples ! (j - 1) > key)
     (\<lambda>(j, samples). (j - 1, samples[j := samples ! (j - 1)]))"

definition insert_sample :: "nat \<Rightarrow> u64 list \<Rightarrow> u64 list option" where
  "insert_sample i samples =
     (let key = samples ! i in map_option (\<lambda>(j, samples'). samples'[j := key]) (shift_larger key (i, samples)))"

definition sort_samples :: "u64 list \<Rightarrow> u64 list option" where
  "sort_samples samples = fold (\<lambda>i r. Option.bind r (insert_sample i)) [1..<BENCH_SAMPLES] (Some samples)"

definition print_bench_line :: "string \<Rightarrow> u64 \<Rightarrow> u64 \<Rightarrow> harness_state \<Rightarrow> harness_state" where
  "print_bench_line lbl t freq h =
     (let ns = (if freq > 0 then (t * 1000000000) div freq else 0)
      in say [puts lbl, dec t, puts '' ticks (~'', dec ns, puts '' ns)\<newline>''] h)"

record bench_stats =
  bs_p50 :: u64
  bs_p95 :: u64
  bs_p99 :: u64
  bs_min :: u64
  bs_max :: u64
  bs_mean :: u64

definition bench_stats_of :: "u64 list \<Rightarrow> bench_stats" where
  "bench_stats_of samples =
     \<lparr>bs_p50 = samples ! (BENCH_SAMPLES div 2), bs_p95 = samples ! ((BENCH_SAMPLES * 95 + 99) div 100 - 1),
      bs_p99 = samples ! (BENCH_SAMPLES - 1), bs_min = samples ! 0, bs_max = samples ! (BENCH_SAMPLES - 1),
      bs_mean = fold (\<lambda>i sum. sum + samples ! i) [0..<BENCH_SAMPLES] 0 div of_nat BENCH_SAMPLES\<rparr>"

definition print_bench_stats :: "string \<Rightarrow> u64 list \<Rightarrow> u64 \<Rightarrow> harness_state \<Rightarrow> (u64 list \<times> harness_state) option" where
  "print_bench_stats name samples freq h =
     (case sort_samples samples of None \<Rightarrow> None
      | Some sorted_samples \<Rightarrow>
          let b = bench_stats_of sorted_samples;
              h1 = say [puts ''--- '', puts name, puts '' ---\<newline>''] h;
              h2 = fold (\<lambda>(lbl, t). print_bench_line lbl t freq)
                     [(''  p50:  '', bs_p50 b), (''  p95:  '', bs_p95 b), (''  p99:  '', bs_p99 b),
                      (''  min:  '', bs_min b), (''  max:  '', bs_max b), (''  mean: '', bs_mean b)] h1
          in Some (sorted_samples,
               if take 5 name = ''Case ''
               then say [puts ''BENCH,'', puts (take 1 (drop 5 name)), puts '','', dec (bs_p50 b), puts '','', dec (bs_p95 b), puts '','',
                      dec (bs_p99 b), puts '','', dec (bs_mean b), puts '','', dec (bs_min b), puts '','', dec (bs_max b), puts ''\<newline>''] h2
               else h2))"

section \<open>The booted kernel\<close>

definition entries_mapped :: "el0_symbols \<Rightarrow> bool" where
  "entries_mapped syms \<longleftrightarrow> el0_service_va syms (svc_display_entry syms) \<noteq> 0 \<and> el0_service_va syms (svc_storage_entry syms) \<noteq> 0 \<and>
     el0_service_va syms (svc_failing_entry syms) \<noteq> 0 \<and> el0_service_va syms (svc_display_call_storage syms) \<noteq> 0"

definition boot_services :: "el0_symbols \<Rightarrow> service_table" where
  "boot_services syms = fold reg_step (map RegRegister boot_descriptors @ map (\<lambda>(sid, op, e). RegDispatch sid op e) (boot_entries syms))
     lettuce_service_registry_init"

lemma boot_kernel_services:
  "boot_kernel syms ks = ks\<lparr>ks_services := boot_services syms, ks_capabilities := lettuce_capability_init\<rparr>"
  by (simp add: boot_kernel_def boot_services_def boot_descriptors_def boot_entries_def dispatch_register_kernel_def Let_def)

lemma boot_reg_inv: "reg_inv (boot_services syms)"
  unfolding boot_services_def by (rule reg_inv_run [OF reg_inv_init])

lemmas registry_eval = lettuce_service_registry_init_def lettuce_service_registry_register_def lettuce_dispatch_register_def
  lettuce_service_registry_entry_mutable_def zero_descriptor_def Let_def lettuce_service_registry_lookup_def lettuce_dispatch_lookup_def
  lettuce_service_registry_entry_def LETTUCE_SERVICE_TABLE_SIZE_def LETTUCE_DISPATCH_OPERATION_LIMIT_def zero_operations_def

lemma boot_descriptor_nth:
  assumes "n < LETTUCE_SERVICE_TABLE_SIZE" "entries_mapped syms"
  shows "re_descriptor (boot_services syms ! n) =
     (if n = 10 then boot_descriptors ! 0 else if n = 20 then boot_descriptors ! 1 else if n = 30 then boot_descriptors ! 2
      else if n = 40 then boot_descriptors ! 3 else if n = 99 then boot_descriptors ! 4 else zero_descriptor)"
  using assms by (simp add: boot_services_def boot_descriptors_def boot_entries_def entries_mapped_def registry_eval nth_list_update)

lemma boot_lookup:
  assumes "entries_mapped syms"
  shows "lettuce_service_registry_lookup (boot_services syms) sid = find (\<lambda>d. sd_id d = sid) boot_descriptors"
proof -
  have num: "sid = 10 \<longleftrightarrow> unat sid = 10" "sid = 20 \<longleftrightarrow> unat sid = 20" "sid = 30 \<longleftrightarrow> unat sid = 30" "sid = 40 \<longleftrightarrow> unat sid = 40"
      "sid = 99 \<longleftrightarrow> unat sid = 99" "sid = 0 \<longleftrightarrow> unat sid = 0"
    by (simp_all add: word_unat_eq_iff)
  show ?thesis
    using assms by (auto simp: lettuce_service_registry_lookup_def boot_descriptor_nth Let_def boot_descriptors_def num zero_descriptor_def
        LETTUCE_SERVICE_TABLE_SIZE_def)
qed

lemma boot_dispatch:
  assumes "entries_mapped syms"
  shows "lettuce_dispatch_lookup (boot_services syms) 20 1 = Some \<lparr>de_entry = el0_service_va syms (svc_display_entry syms), de_active = True\<rparr>"
    and "lettuce_dispatch_lookup (boot_services syms) 30 1 = Some \<lparr>de_entry = el0_service_va syms (svc_storage_entry syms), de_active = True\<rparr>"
    and "lettuce_dispatch_lookup (boot_services syms) 40 1 = Some \<lparr>de_entry = el0_service_va syms (svc_storage_entry syms), de_active = True\<rparr>"
    and "lettuce_dispatch_lookup (boot_services syms) 99 1 = Some \<lparr>de_entry = el0_service_va syms (svc_failing_entry syms), de_active = True\<rparr>"
  using assms by (simp_all add: boot_services_def boot_descriptors_def boot_entries_def entries_mapped_def registry_eval)

text \<open>
  C26: Boot establishes what the rest of the development assumes. If the service entries are mapped and the
  caller stack is empty, the machine that initialisation produces satisfies the invariant of traps and the
  invariant of the capability table, exactly the five services are registered, all active and placed in
  the platform's domains, their entries are the intended code, and no capability exists yet.
\<close>

theorem boot_establishes_invariants:
  assumes mapped: "entries_mapped syms" and mmu: "mc_mmu m = mmu_boot lay el" and st: "tr_machine st = boot_machine lay syms m"
    and callers: "length (g_context_stack st) = 8" "lettuce_arch_context_depth st = 0"
  shows "trap_ok lay el st \<and> cap_inv (ks_capabilities (tr_kernel st)) \<and> cap_view (ks_capabilities (tr_kernel st)) = Map.empty \<and>
    (\<forall>sid. lettuce_service_registry_lookup (ks_services (tr_kernel st)) sid = find (\<lambda>d. sd_id d = sid) boot_descriptors) \<and>
    (\<forall>d \<in> set boot_descriptors. service_active d \<and> domain_number (sd_domain d) \<noteq> None) \<and>
    (\<forall>(sid, op, e) \<in> set (boot_entries syms).
       lettuce_dispatch_lookup (ks_services (tr_kernel st)) sid op = Some \<lparr>de_entry = e, de_active = True\<rparr>)"
proof -
  have k: "ks_services (tr_kernel st) = boot_services syms" "ks_capabilities (tr_kernel st) = lettuce_capability_init"
    using st by (simp_all add: boot_machine_def boot_kernel_services)
  have placed: "\<forall>d \<in> set boot_descriptors. service_active d \<and> domain_number (sd_domain d) \<noteq> None"
    by (simp add: boot_descriptors_def service_active_def domain_number_def)
  have "services_placed (tr_kernel st)"
    using placed by (auto simp: services_placed_def k boot_lookup [OF mapped] find_Some_iff)
  moreover have "mmu_ok lay el (tr_mmu st)" using st mmu mmu_ok_init by (simp add: boot_machine_def)
  ultimately have "trap_ok lay el st"
    using callers boot_reg_inv by (simp add: trap_ok_def k LETTUCE_ARCH_CONTEXT_MAX_def lettuce_arch_context_depth_def)
  then show ?thesis
    using placed cap_inv_init cap_view_init boot_lookup [OF mapped] boot_dispatch [OF mapped] by (simp add: k boot_entries_def)
qed

definition demo_symbols :: el0_symbols where
  "demo_symbols = image_symbols 0x40112000"

lemma demo_entries_mapped: "entries_mapped demo_symbols" by code_simp

lemma boot_establishes_invariants_witness:
  "trap_ok demo_layout 1 ((demo_trap demo_kernel)\<lparr>tr_machine := boot_machine demo_layout demo_symbols (demo_machine\<lparr>mc_mmu := mmu_boot demo_layout 1\<rparr>)\<rparr>)"
  using boot_establishes_invariants [OF demo_entries_mapped, of "demo_machine\<lparr>mc_mmu := mmu_boot demo_layout 1\<rparr>" demo_layout 1
      "(demo_trap demo_kernel)\<lparr>tr_machine := boot_machine demo_layout demo_symbols (demo_machine\<lparr>mc_mmu := mmu_boot demo_layout 1\<rparr>)\<rparr>"]
  by (simp add: demo_trap_def lettuce_arch_context_depth_def)

section \<open>Protected calls in the booted kernel\<close>

lemma dispatch_register_twice:
  assumes "lettuce_dispatch_lookup st sid op = Some e"
  shows "lettuce_dispatch_register sid op entry st = (False, st)"
  using assms by (auto simp: lettuce_dispatch_lookup_def lettuce_dispatch_register_def lettuce_service_registry_entry_def
      lettuce_service_registry_entry_mutable_def Let_def split: if_splits)

lemma booted_register_refused:
  assumes "entries_mapped syms" "sid \<in> {20, 30}" "ks_services ks = boot_services syms"
  shows "dispatch_register_kernel sid 1 entry ks = ks"
  using assms boot_dispatch [OF assms(1)] dispatch_register_twice by (auto simp: dispatch_register_kernel_def)

text \<open>The validation of the call that \<^verbatim>\<open>svc_camera_call_display\<close> makes, by the handle it uses.\<close>

lemma camera_call_display:
  assumes mapped: "entries_mapped syms" and ks: "ks_services ks = boot_services syms" "current_service_id ks = SERVICE_CAMERA"
  shows "lettuce_same_layer_validate SERVICE_DISPLAY OP_DRAW RES_FRAMEBUFFER h True ks =
    (if lettuce_capability_check (ks_capabilities ks) SERVICE_CAMERA h SERVICE_DISPLAY OP_DRAW LETTUCE_CAP_CALL RES_FRAMEBUFFER
     then Inr \<lparr>cr_caller = boot_descriptors ! 0, cr_target = boot_descriptors ! 1,
       cr_entry = \<lparr>de_entry = el0_service_va syms (svc_display_entry syms), de_active = True\<rparr>\<rparr>
     else Inl LETTUCE_STATUS_CAPABILITY_DENIED)"
proof -
  have "\<not> lettuce_capability_check cs c 0 t op p r" for cs c t op p r by (simp add: check_eq_view cap_view_zero)
  then show ?thesis
    using boot_dispatch(1) [OF mapped]
    by (auto simp: lettuce_same_layer_validate_def ks boot_lookup [OF mapped] boot_descriptors_def Let_def)
qed

text \<open>A live handle is never handed out again, so it survives later create requests.\<close>

lemma create_keeps_check:
  assumes "cap_inv cs" "cap_view cs h \<noteq> None" "lettuce_capability_create ow t op p r cs = (h', cs')"
  shows "lettuce_capability_check cs' cur h t' op' p' r' = lettuce_capability_check cs cur h t' op' p' r'"
    and "cap_view cs' h \<noteq> None"
proof -
  have "h \<noteq> h'" using cap_view_create(1) [OF assms(3) _ assms(1)] assms(2) cap_view_zero by (cases "h' = 0") auto
  then show "lettuce_capability_check cs' cur h t' op' p' r' = lettuce_capability_check cs cur h t' op' p' r'"
    using cap_store.create_frame [OF assms(1,3)] by simp
  show "cap_view cs' h \<noteq> None"
    using \<open>h \<noteq> h'\<close> cap_view_create(2) [OF assms(3) _ assms(1)] create_zero_unchanged [OF assms(1), of ow t op p r] assms(2,3)
    by (cases "h' = 0") auto
qed

section \<open>Statistics\<close>

text \<open>The inner loop moves the tail of elements above the key up by one and stops at its place.\<close>

lemma shift_larger_state:
  "\<exists>j P' h G. shift_larger key (length P, P @ h0 # G0 @ R) = Some (j, P' @ h # G @ R) \<and> j = length P' \<and>
     P' @ G = P @ G0 \<and> length G \<ge> length G0 \<and> (P' \<noteq> [] \<longrightarrow> last P' \<le> key) \<and> (\<forall>x \<in> set G - set G0. key < x)"
proof (induction P arbitrary: h0 G0 rule: rev_induct)
  case Nil
  show ?case unfolding shift_larger_def
    by (subst while_option_unfold) (intro exI [of _ "[]"] exI [of _ h0] exI [of _ G0] exI [of _ "0::nat"], simp)
next
  case (snoc a P)
  show ?case
  proof (cases "a > key")
    case False
    then show ?thesis unfolding shift_larger_def
      by (subst while_option_unfold)
        (intro exI [of _ "P @ [a]"] exI [of _ h0] exI [of _ G0] exI [of _ "length (P @ [a])"], simp add: nth_append)
  next
    case True
    have step: "shift_larger key (length (P @ [a]), (P @ [a]) @ h0 # G0 @ R) = shift_larger key (length P, P @ a # (a # G0) @ R)"
      using True unfolding shift_larger_def by (subst while_option_unfold) (simp add: nth_append list_update_append)
    obtain j P' h G where ih: "shift_larger key (length P, P @ a # (a # G0) @ R) = Some (j, P' @ h # G @ R)" "j = length P'"
        "P' @ G = P @ a # G0" "length G \<ge> length (a # G0)" "P' \<noteq> [] \<longrightarrow> last P' \<le> key" "\<forall>x \<in> set G - set (a # G0). key < x"
      using snoc.IH [of a "a # G0"] by blast
    show ?thesis unfolding step using ih True
      by (intro exI [of _ j] exI [of _ P'] exI [of _ h] exI [of _ G]) auto
  qed
qed

lemma insert_sample_sorted:
  assumes "i < length xs" "sorted (take i xs)"
  shows "\<exists>ys. insert_sample i xs = Some ys \<and> sorted (take (Suc i) ys) \<and> mset ys = mset xs"
proof -
  let ?key = "xs ! i" and ?P = "take i xs" and ?R = "drop (Suc i) xs"
  have xs: "xs = ?P @ ?key # [] @ ?R" using id_take_nth_drop [OF assms(1)] by simp
  have len: "length ?P = i" using assms(1) by simp
  obtain j P' h G where sh: "shift_larger ?key (length ?P, ?P @ ?key # [] @ ?R) = Some (j, P' @ h # G @ ?R)" and j: "j = length P'"
      and pg: "P' @ G = ?P @ []" and lastP: "P' \<noteq> [] \<longrightarrow> last P' \<le> ?key" and G: "\<forall>x \<in> set G - set []. ?key < x"
    using shift_larger_state [of ?key ?P ?key "[]" ?R] by blast
  have run: "insert_sample i xs = Some (P' @ ?key # G @ ?R)"
    using sh unfolding insert_sample_def len xs [symmetric] by (simp add: Let_def j list_update_append)
  have so: "sorted (P' @ G)" using pg assms(2) by simp
  have "\<forall>x \<in> set P'. x \<le> ?key"
  proof (cases "P' = []")
    case False
    then have "P' = butlast P' @ [last P']" by simp
    then have "\<forall>x \<in> set P'. x \<le> last P'" using so sorted_append [of P' G] sorted_append [of "butlast P'" "[last P']"]
      by (metis Un_iff empty_iff empty_set insert_iff list.simps(15) order_refl set_append)
    then show ?thesis using lastP False by fastforce
  qed simp
  then have "sorted (P' @ ?key # G)" using so G by (auto simp: sorted_append intro: less_imp_le)
  moreover have "Suc i = length P' + Suc (length G)" using arg_cong [OF pg, of length] len by simp
  then have "take (Suc i) (P' @ ?key # G @ ?R) = P' @ ?key # G" by (simp only:) simp
  moreover have "mset (P' @ ?key # G @ ?R) = mset xs"
    using arg_cong [OF xs, of mset] arg_cong [OF pg, of mset] by (simp add: ac_simps)
  ultimately show ?thesis using run by auto
qed

lemma sort_samples_prefix:
  assumes "n \<le> length xs" "0 < n"
  shows "\<exists>ys. fold (\<lambda>i r. Option.bind r (insert_sample i)) [1..<n] (Some xs) = Some ys \<and> sorted (take n ys) \<and> mset ys = mset xs"
  using assms
proof (induction n)
  case (Suc n)
  show ?case
  proof (cases "n = 0")
    case True
    then show ?thesis by (cases xs) simp_all
  next
    case False
    then obtain ys where ys: "fold (\<lambda>i r. Option.bind r (insert_sample i)) [1..<n] (Some xs) = Some ys" "sorted (take n ys)" "mset ys = mset xs"
      using Suc by auto
    have "n < length ys" using Suc.prems mset_eq_length [OF ys(3)] by simp
    then obtain zs where "insert_sample n ys = Some zs" "sorted (take (Suc n) zs)" "mset zs = mset ys"
      using insert_sample_sorted ys(2) by blast
    then show ?thesis using ys False by simp
  qed
qed simp

lemma sort_samples_sorts:
  assumes "length xs = BENCH_SAMPLES"
  shows "sort_samples xs = Some (sort xs)"
proof -
  obtain ys where ys: "sort_samples xs = Some ys" "sorted (take BENCH_SAMPLES ys)" "mset ys = mset xs"
    using sort_samples_prefix [of BENCH_SAMPLES xs] assms by (auto simp: sort_samples_def BENCH_SAMPLES_def)
  have "length ys = BENCH_SAMPLES" using mset_eq_length [OF ys(3)] assms by simp
  then have "sorted ys" using ys(2) by simp
  then show ?thesis using ys(1,3) properties_for_sort [of ys xs] by simp
qed

lemma fold_sum_list: "fold (\<lambda>i s. s + xs ! i) [0..<length xs] (a :: u64) = a + sum_list xs"
proof (induction xs rule: rev_induct)
  case (snoc x xs)
  have "fold (\<lambda>i s. s + (xs @ [x]) ! i) [0..<length xs] a = fold (\<lambda>i s. s + xs ! i) [0..<length xs] a"
    by (rule fold_cong) (simp_all add: nth_append)
  then show ?case using snoc by (simp add: add.assoc)
qed simp

text \<open>
  The benchmark report ends and is right. For fifty samples the sorting loops terminate with the sorted
  samples, and the figures reported are order statistics of the input: least and greatest sample, the
  26th and the 48th of the sorted samples as 50th and 95th percentile, the greatest as 99th; the mean is the
  sum of the samples, modulo two to the 64th, divided by fifty.
\<close>

theorem bench_report_correct:
  assumes len: "length samples = BENCH_SAMPLES"
  shows "\<exists>h'. print_bench_stats name samples freq h = Some (sort samples, h') \<and>
    bench_stats_of (sort samples) = \<lparr>bs_p50 = sort samples ! 25, bs_p95 = sort samples ! 47, bs_p99 = Max (set samples),
      bs_min = Min (set samples), bs_max = Max (set samples), bs_mean = sum_list samples div 50\<rparr>"
proof -
  let ?s = "sort samples"
  have l: "length ?s = 50" using len by (simp add: BENCH_SAMPLES_def)
  have ne: "samples \<noteq> []" using len by (auto simp: BENCH_SAMPLES_def)
  have nth: "?s ! i \<in> set samples" if "i < 50" for i using nth_mem [of i ?s] that l by simp
  have mono: "?s ! i \<le> ?s ! k" if "i \<le> k" "k < 50" for i k using sorted_nth_mono [of ?s i k] that l by simp
  have mem: "\<exists>i < 50. x = ?s ! i" if "x \<in> set samples" for x using that l by (metis in_set_conv_nth set_sort)
  have "Min (set samples) = ?s ! 0"
    by (rule Min_eqI) (use mem mono nth in fastforce)+
  moreover have "Max (set samples) = ?s ! 49"
    by (rule Max_eqI) (use mem mono nth in fastforce)+
  moreover have "sum_list ?s = sum_list samples" by (metis mset_sort sum_mset_sum_list)
  ultimately show ?thesis
    using fold_sum_list [of ?s 0] l by (simp add: print_bench_stats_def sort_samples_sorts [OF len] bench_stats_of_def BENCH_SAMPLES_def Let_def)
qed

lemma bench_report_correct_witness:
  "length (rev (map of_nat [0..<50]) :: u64 list) = BENCH_SAMPLES \<and>
   bs_p95 (bench_stats_of (sort (rev (map of_nat [0..<50])))) = sort (rev (map of_nat [0..<50])) ! 47"
proof -
  have len: "length (rev (map of_nat [0..<50]) :: u64 list) = BENCH_SAMPLES" by (simp add: BENCH_SAMPLES_def)
  show ?thesis using bench_report_correct [OF len] len by (metis bench_stats.select_convs(2))
qed

section \<open>Test numbers\<close>

definition digit :: "char \<Rightarrow> bool" where
  "digit c \<longleftrightarrow> 48 \<le> (of_char c :: nat) \<and> (of_char c :: nat) \<le> 57"

lemma parse_digits_fold:
  assumes "\<forall>c \<in> set ds. digit c" "rest = [] \<or> \<not> digit (hd rest)"
  shows "parse_digits n (ds @ rest) = fold (\<lambda>c v. v * 10 + (of_char c - 48)) ds n"
  using assms
proof (induction ds arbitrary: n)
  case Nil
  then show ?case by (cases rest) (auto simp: digit_def)
qed (simp add: digit_def)

lemma fold_digits_value:
  assumes "\<forall>c \<in> set ds. digit c"
  shows "fold (\<lambda>c v. v * 10 + (of_char c - 48)) ds 0 = (of_nat (number_value 10 ds) :: u64)"
  using assms
proof (induction ds rule: rev_induct)
  case (snoc c ds)
  have "48 \<le> (of_char c :: nat)" "\<not> 97 \<le> (of_char c :: nat)" using snoc.prems by (simp_all add: digit_def)
  then have "(of_nat (digit_value c) :: u64) = of_nat (of_char c) - 48" by (simp add: digit_value_def of_nat_diff)
  then show ?case using snoc by (simp add: number_value_snoc of_nat_of_char)
qed simp

text \<open>
  Test numbers survive the report. The number that the harness reads back from a test name is the
  number that was printed into it, for every 64-bit number and whatever follows that is not a digit; so a
  test that passes is counted once and reported in the machine-readable line under its own number.
\<close>

theorem test_number_roundtrip:
  assumes rest: "rest = [] \<or> \<not> digit (hd rest)" and n: "n \<noteq> 0"
    and name: "test_name = ''Test '' @ lettuce_arch_console_print_dec n [] @ rest"
  shows "parse_test_number test_name = n \<and>
    log_pass test_name h = say [puts ''[PASS] '', puts test_name, puts ''\<newline>'', puts ''TEST,'', dec n, puts '',PASS\<newline>'']
      (h\<lparr>g_tests_passed := g_tests_passed h + 1\<rparr>)"
proof -
  have pd: "lettuce_arch_console_print_dec n [] = rev (dec_buffer n)" using n by (simp add: lettuce_arch_console_print_dec_def fold_putc)
  have "\<forall>c \<in> set (rev (dec_buffer n)). digit c" using dec_buffer_digits by (auto simp: digit_def)
  then have "parse_digits 0 (rev (dec_buffer n) @ rest) = n"
    using parse_digits_fold [OF _ rest] fold_digits_value dec_buffer_value [of n] by simp
  then have "parse_test_number test_name = n" by (simp add: name parse_test_number_def pd)
  moreover have "say [a, b, c, d, e, f] h = say [d, e, f] (say [a, b, c] h)" for a b c d e f h
    using say_append [of "[a, b, c]" "[d, e, f]" h] by simp
  ultimately show ?thesis using n by (simp add: log_pass_def Let_def word_gt_0)
qed

lemma test_number_roundtrip_witness:
  "parse_test_number (''Test '' @ lettuce_arch_console_print_dec 17 [] @ '': ok'') = 17"
  using test_number_roundtrip [of "'': ok''" 17, OF _ _ refl] by (simp add: digit_def)

end
