(* ===== verification/Harness_Tests.thy ===== *)
theory Harness_Tests
  imports Harness "HOL-Library.Monad_Syntax"
begin

text \<open>
  The on-target tests of \<^verbatim>\<open>kernel/arch/arm64/main.c\<close>, statement by statement, on the machine that runs the EL0
  services: entry and return, preserved identity, private and foreign pages, kernel memory, system registers, the shared
  page, protected calls of the three kinds, stale translations, pointer authentication, the sleeping task, the two Elevator
  paths and the system calls. A test has a result when every service it runs returns to the kernel.
\<close>

section \<open>Statements of the tests\<close>

definition on_trap :: "(trap_state \<Rightarrow> trap_state) \<Rightarrow> harness_state \<Rightarrow> harness_state" where
  "on_trap f h = h\<lparr>ew_trap := f (ew_trap h)\<rparr>"

text \<open>A comparison of a service's result with a status of the kernel.\<close>

definition is_status :: "s64 \<Rightarrow> LettuceStatus \<Rightarrow> bool" where
  "is_status s status \<longleftrightarrow> s = ucast (status_code status)"

definition log_test :: "bool \<Rightarrow> string \<Rightarrow> string \<Rightarrow> harness_state \<Rightarrow> harness_state" where
  "log_test ok pass_name fail_name h = (if ok then log_pass pass_name h else log_fail fail_name h)"

abbreviation h_service :: "harness_state \<Rightarrow> service_id" where "h_service h \<equiv> current_service_id (tr_kernel (ew_trap h))"
abbreviation h_domain :: "harness_state \<Rightarrow> domain_id" where "h_domain h \<equiv> lettuce_mmu_current_domain (ew_mmu h)"

text \<open>A store of the kernel, through the tables in force; an address it may not write ends the test run.\<close>

definition el1_store :: "platform \<Rightarrow> u64 \<Rightarrow> u64 \<Rightarrow> harness_state \<Rightarrow> harness_state option" where
  "el1_store pl va v h =
     (case walk (pl_layout pl) (ew_mmu h) (ttbr0 (ew_mmu h)) va of
        None \<Rightarrow> None
      | Some (e, pa) \<Rightarrow> if bit e 7 then None else Some (h\<lparr>ew_mem := (ew_mem h)(pa := v)\<rparr>))"

definition shared_word :: "platform \<Rightarrow> nat \<Rightarrow> u32 \<Rightarrow> harness_state \<Rightarrow> harness_state option" where
  "shared_word pl i handle = el1_store pl (SHARED_PAGE_VA + of_nat (8 * i)) (ucast handle)"

definition with_kernel :: "(kernel_state \<Rightarrow> 'b \<times> kernel_state) \<Rightarrow> harness_state \<Rightarrow> 'b \<times> harness_state" where
  "with_kernel f h = (let (r, ks) = f (tr_kernel (ew_trap h)) in (r, on_trap (on_kernel (\<lambda>_. ks)) h))"

abbreviation run_camera :: "platform \<Rightarrow> u64 \<Rightarrow> harness_state \<Rightarrow> (s64 \<times> harness_state) option" where
  "run_camera pl symbol \<equiv> run_el0_service pl symbol DOMAIN_A SERVICE_CAMERA"
abbreviation run_display :: "platform \<Rightarrow> u64 \<Rightarrow> harness_state \<Rightarrow> (s64 \<times> harness_state) option" where
  "run_display pl symbol \<equiv> run_el0_service pl symbol DOMAIN_B SERVICE_DISPLAY"

section \<open>Execution at EL0\<close>

definition test1 :: "platform \<Rightarrow> harness_state \<Rightarrow> harness_state option" where
  "test1 pl h = do {
     let h = say [puts ''\<newline>--- Test 1: EL1 -> EL0 Entry ---\<newline>''] h;
     (t1_status, h) \<leftarrow> run_camera pl (svc_minimal_return_entry (el0_syms pl)) h;
     Some (log_test (is_status t1_status LETTUCE_STATUS_OK)
       ''Test 1: EL1 -> EL0 transition and execution succeeded'' ''Test 1: EL1 -> EL0 transition failed'' h)
   }"

definition test2 :: "platform \<Rightarrow> harness_state \<Rightarrow> harness_state option" where
  "test2 pl h = do {
     let h = say [puts ''\<newline>--- Test 2: EL0 -> EL1 SVC Return ---\<newline>''] h;
     (t2_status, h) \<leftarrow> run_display pl (svc_minimal_return_entry (el0_syms pl)) h;
     Some (log_test (is_status t2_status LETTUCE_STATUS_OK)
       ''Test 2: EL0 -> EL1 SVC #0 return succeeded with status OK'' ''Test 2: EL0 -> EL1 SVC return failed'' h)
   }"

definition test3 :: "platform \<Rightarrow> harness_state \<Rightarrow> harness_state option" where
  "test3 pl h = do {
     let h = say [puts ''\<newline>--- Test 3: Kernel Authoritative ServiceId Preserved ---\<newline>''] h;
     let h = on_trap (on_kernel (kernel_set_current_service_id SERVICE_CAMERA)) h;
     (_, h) \<leftarrow> run_camera pl (svc_minimal_return_entry (el0_syms pl)) h;
     Some (log_test (h_service h = SERVICE_CAMERA)
       ''Test 3: Kernel authoritative ServiceId maintained across EL0 execution'' ''Test 3: ServiceId corrupted across EL0 execution'' h)
   }"

definition test4 :: "platform \<Rightarrow> harness_state \<Rightarrow> harness_state option" where
  "test4 pl h = do {
     let h = say [puts ''\<newline>--- Test 4: Kernel Authoritative DomainId Preserved ---\<newline>''] h;
     let h = on_trap (on_mmu (\<lambda>mmu. snd (lettuce_mmu_enter DOMAIN_B mmu))) h;
     (_, h) \<leftarrow> run_display pl (svc_minimal_return_entry (el0_syms pl)) h;
     Some (log_test (h_domain h = DOMAIN_B)
       ''Test 4: Kernel authoritative DomainId maintained across EL0 execution'' ''Test 4: DomainId corrupted across EL0 execution'' h)
   }"

definition test5 :: "platform \<Rightarrow> harness_state \<Rightarrow> harness_state option" where
  "test5 pl h = do {
     let h = say [puts ''\<newline>--- Test 5: Own Private Page Accessible from EL0 ---\<newline>''] h;
     (camera, h) \<leftarrow> run_camera pl (svc_camera_entry (el0_syms pl)) h;
     (display, h) \<leftarrow> run_display pl (svc_display_entry (el0_syms pl)) h;
     (storage, h) \<leftarrow> run_el0_service pl (svc_storage_entry (el0_syms pl)) DOMAIN_C SERVICE_STORAGE h;
     Some (log_test (is_status camera LETTUCE_STATUS_OK \<and> is_status display LETTUCE_STATUS_OK \<and> is_status storage LETTUCE_STATUS_OK)
       ''Test 5: Services can read/write their own private pages at EL0'' ''Test 5: Private page access from EL0 failed'' h)
   }"

definition test6 :: "platform \<Rightarrow> harness_state \<Rightarrow> harness_state option" where
  "test6 pl h = do {
     let h = say [puts ''\<newline>--- Test 6: Foreign Private Page Faults from EL0 ---\<newline>''] h;
     let h = on_trap (on_mmu (lettuce_mmu_expect_fault PRIVATE_B_VA)) h;
     (t6_a, h) \<leftarrow> run_camera pl (svc_test_foreign_mem_a_to_b (el0_syms pl)) h;
     let a_pass = (is_status t6_a LETTUCE_STATUS_ABORTED \<and> lettuce_mmu_expected_fault_observed (ew_mmu h) \<and>
       lettuce_mmu_last_fault_far (ew_mmu h) = PRIVATE_B_VA);
     let h = on_trap (on_mmu (lettuce_mmu_expect_fault PRIVATE_A_VA)) h;
     (t6_b, h) \<leftarrow> run_display pl (svc_test_foreign_mem_b_to_a (el0_syms pl)) h;
     let b_pass = (is_status t6_b LETTUCE_STATUS_ABORTED \<and> lettuce_mmu_expected_fault_observed (ew_mmu h) \<and>
       lettuce_mmu_last_fault_far (ew_mmu h) = PRIVATE_A_VA);
     Some (log_test (a_pass \<and> b_pass)
       ''Test 6: Foreign domain access correctly raised MMU translation fault'' ''Test 6: Foreign domain isolation failed'' h)
   }"

definition test7 :: "platform \<Rightarrow> harness_state \<Rightarrow> harness_state option" where
  "test7 pl h = do {
     let h = say [puts ''\<newline>--- Test 7: EL0 Cannot Access Kernel Memory ---\<newline>''] h;
     let h = on_trap (on_mmu (lettuce_mmu_expect_fault 0x40082000)) h;
     (t7_status, h) \<leftarrow> run_camera pl (svc_test_kernel_mem (el0_syms pl)) h;
     let t7_fsc = lettuce_mmu_last_fault_esr (ew_mmu h) AND 0x3f;
     Some (log_test (is_status t7_status LETTUCE_STATUS_ABORTED \<and> lettuce_mmu_expected_fault_observed (ew_mmu h) \<and>
         lettuce_mmu_last_fault_far (ew_mmu h) = 0x40082000 \<and> 0xc \<le> t7_fsc \<and> t7_fsc \<le> 0xf)
       ''Test 7: EL0 access to kernel memory raised MMU permission fault'' ''Test 7: Kernel memory protection failed'' h)
   }"

definition test8 :: "platform \<Rightarrow> harness_state \<Rightarrow> harness_state option" where
  "test8 pl h = do {
     let h = say [puts ''\<newline>--- Test 8: EL0 Traps on Privileged Register Access ---\<newline>''] h;
     let h = on_trap (on_mmu lettuce_arch_expect_sysreg_trap) h;
     (t8_status, h) \<leftarrow> run_camera pl (svc_test_sysreg (el0_syms pl)) h;
     let t8_ec = drop_bit 26 (lettuce_mmu_last_fault_esr (ew_mmu h)) AND 0x3f;
     Some (log_test (is_status t8_status LETTUCE_STATUS_DENIED \<and> lettuce_arch_sysreg_trap_observed (ew_mmu h) \<and> (t8_ec = 0x18 \<or> t8_ec = 0))
       ''Test 8: Privileged register access from EL0 prevented and trapped'' ''Test 8: Privilege register boundary failed'' h)
   }"

definition test9 :: "platform \<Rightarrow> harness_state \<Rightarrow> harness_state option" where
  "test9 pl h = do {
     let h = say [puts ''\<newline>--- Test 9: Controlled Shared Page Across EL0 Domains ---\<newline>''] h;
     (wr, h) \<leftarrow> run_camera pl (svc_test_shared_write_a (el0_syms pl)) h;
     (rm, h) \<leftarrow> run_display pl (svc_test_shared_read_modify_b (el0_syms pl)) h;
     (ve, h) \<leftarrow> run_camera pl (svc_test_shared_verify_a (el0_syms pl)) h;
     Some (log_test (is_status wr LETTUCE_STATUS_OK \<and> is_status rm LETTUCE_STATUS_OK \<and> is_status ve LETTUCE_STATUS_OK)
       ''Test 9: Controlled shared page communication verified across EL0 domains'' ''Test 9: Shared page communication failed'' h)
   }"

section \<open>Protected calls\<close>

definition at_camera :: "harness_state \<Rightarrow> bool" where
  "at_camera h \<longleftrightarrow> h_service h = SERVICE_CAMERA \<and> h_domain h = DOMAIN_A"

definition register_entry :: "platform \<Rightarrow> service_id \<Rightarrow> operation_id \<Rightarrow> u64 \<Rightarrow> harness_state \<Rightarrow> harness_state" where
  "register_entry pl sid op symbol = on_trap (on_kernel (dispatch_register_kernel sid op (el0_service_va (el0_syms pl) symbol)))"

definition test10 :: "platform \<Rightarrow> harness_state \<Rightarrow> (u32 \<times> harness_state) option" where
  "test10 pl h = do {
     let h = say [puts ''\<newline>--- Test 10: Same-Layer EL0 Service Call ---\<newline>''] h;
     let (cap_cam_disp, h) = with_kernel (capability_create_kernel SERVICE_CAMERA SERVICE_DISPLAY OP_DRAW LETTUCE_CAP_CALL RES_FRAMEBUFFER) h;
     h \<leftarrow> shared_word pl 0 cap_cam_disp h;
     (t10_status, h) \<leftarrow> run_camera pl (svc_camera_call_display (el0_syms pl)) h;
     Some (cap_cam_disp, log_test (is_status t10_status LETTUCE_STATUS_OK \<and> at_camera h)
       ''Test 10: Same-Layer EL0 -> SVC -> EL0 transition and restoration succeeded'' ''Test 10: Same-Layer EL0 service call failed'' h)
   }"

definition test11 :: "platform \<Rightarrow> harness_state \<Rightarrow> harness_state option" where
  "test11 pl h = do {
     let h = say [puts ''\<newline>--- Test 11: Target Error Status Propagation ---\<newline>''] h;
     let (cap_cam_fail, h) = with_kernel (capability_create_kernel SERVICE_CAMERA SERVICE_FAILING OP_FAIL LETTUCE_CAP_CALL RES_FRAMEBUFFER) h;
     h \<leftarrow> shared_word pl 0 cap_cam_fail h;
     let h = register_entry pl SERVICE_DISPLAY OP_DRAW (svc_failing_entry (el0_syms pl)) h;
     (t11_status, h) \<leftarrow> run_camera pl (svc_camera_call_display (el0_syms pl)) h;
     let test11_pass = (is_status t11_status LETTUCE_STATUS_ERROR \<and> at_camera h);
     let h = register_entry pl SERVICE_DISPLAY OP_DRAW (svc_display_entry (el0_syms pl)) h;
     Some (log_test test11_pass
       ''Test 11: Target error correctly propagated to caller with domain restoration'' ''Test 11: Target error propagation failed'' h)
   }"

definition test12 :: "platform \<Rightarrow> u32 \<Rightarrow> harness_state \<Rightarrow> harness_state option" where
  "test12 pl cap_cam_disp h = do {
     let h = say [puts ''\<newline>--- Test 12: Nested EL0 Context Restoration ---\<newline>''] h;
     let (cap_disp_storage, h) = with_kernel (capability_create_kernel SERVICE_DISPLAY SERVICE_STORAGE OP_SAVE LETTUCE_CAP_CALL RES_DISK) h;
     h \<leftarrow> shared_word pl 0 cap_cam_disp h;
     h \<leftarrow> shared_word pl 1 cap_disp_storage h;
     let h = register_entry pl SERVICE_DISPLAY OP_DRAW (svc_display_call_storage (el0_syms pl)) h;
     let h = register_entry pl SERVICE_STORAGE OP_SAVE (svc_storage_entry (el0_syms pl)) h;
     (t12_status, h) \<leftarrow> run_camera pl (svc_camera_call_display (el0_syms pl)) h;
     Some (log_test (is_status t12_status LETTUCE_STATUS_OK \<and> at_camera h)
       ''Test 12: Nested 3-level EL0 service call and unwinding succeeded'' ''Test 12: Nested EL0 service call failed'' h)
   }"

definition test13 :: "platform \<Rightarrow> harness_state \<Rightarrow> harness_state option" where
  "test13 pl h = do {
     let h = say [puts ''\<newline>--- Test 13: Stale-TLB Cross-Domain Isolation ---\<newline>''] h;
     (t13_s1, h) \<leftarrow> run_camera pl (svc_camera_entry (el0_syms pl)) h;
     let s1_ok = is_status t13_s1 LETTUCE_STATUS_OK;
     let asid_a_ok = (lettuce_mmu_active_asid (ew_mmu h) = 1);
     let h = on_trap (on_mmu (lettuce_mmu_expect_fault PRIVATE_A_VA)) h;
     (t13_s2, h) \<leftarrow> run_display pl (svc_test_foreign_mem_b_to_a (el0_syms pl)) h;
     let s2_ok = (is_status t13_s2 LETTUCE_STATUS_ABORTED \<and> lettuce_mmu_expected_fault_observed (ew_mmu h) \<and>
       lettuce_mmu_last_fault_far (ew_mmu h) = PRIVATE_A_VA \<and> lettuce_mmu_last_fault_esr (ew_mmu h) AND 0x3f = 0x07);
     let asid_b_ok = (lettuce_mmu_active_asid (ew_mmu h) = 2);
     (t13_s3, h) \<leftarrow> run_display pl (svc_display_entry (el0_syms pl)) h;
     let s3_ok = is_status t13_s3 LETTUCE_STATUS_OK;
     let h = on_trap (on_mmu (lettuce_mmu_expect_fault PRIVATE_B_VA)) h;
     (t13_s4, h) \<leftarrow> run_camera pl (svc_test_foreign_mem_a_to_b (el0_syms pl)) h;
     let s4_ok = (is_status t13_s4 LETTUCE_STATUS_ABORTED \<and> lettuce_mmu_expected_fault_observed (ew_mmu h) \<and>
       lettuce_mmu_last_fault_far (ew_mmu h) = PRIVATE_B_VA \<and> lettuce_mmu_last_fault_esr (ew_mmu h) AND 0x3f = 0x07);
     Some (log_test (s1_ok \<and> asid_a_ok \<and> s2_ok \<and> asid_b_ok \<and> s3_ok \<and> s4_ok)
       ''Test 13: Stale-TLB isolation verified bidirectionally across ASIDs'' ''Test 13: Stale-TLB isolation failed'' h)
   }"

definition test14 :: "harness_state \<Rightarrow> harness_state" where
  "test14 h =
     (let h = say [puts ''\<newline>--- Test 14: ASID-Targeted Invalidation Helper ---\<newline>''] h;
          h = on_trap (on_mmu (lettuce_mmu_invalidate_domain DOMAIN_B)) h;
          h = on_trap (on_mmu (lettuce_mmu_invalidate_asid 3)) h;
          h = on_trap (on_mmu (\<lambda>mmu. snd (lettuce_mmu_enter DOMAIN_A mmu))) h
      in log_test (lettuce_mmu_active_asid (ew_mmu h) = 1 \<and> h_domain h = DOMAIN_A)
           ''Test 14: ASID-targeted TLBI executed cleanly with proper barriers'' ''Test 14: ASID-targeted TLBI failed'' h)"

definition test15 :: "platform \<Rightarrow> harness_state \<Rightarrow> harness_state option" where
  "test15 pl h = do {
     let h = say [puts ''\<newline>--- Test 15: Invalid Capability Rejection Before Domain Switch ---\<newline>''] h;
     (t15_status, h) \<leftarrow> run_camera pl (svc_camera_invalid_cap_call (el0_syms pl)) h;
     Some (log_test (is_status t15_status LETTUCE_STATUS_CAPABILITY_DENIED \<and> at_camera h)
       ''Test 15: Invalid capability rejected before domain switch; caller domain preserved'' ''Test 15: Invalid capability rejection failed'' h)
   }"

definition test16 :: "platform \<Rightarrow> harness_state \<Rightarrow> (u32 \<times> harness_state) option" where
  "test16 pl h = do {
     let h = say [puts ''\<newline>--- Test 16: Cross-Layer Protected EL0 Call ---\<newline>''] h;
     let (cap_cam_sensor, h) = with_kernel (capability_create_kernel SERVICE_CAMERA SERVICE_SENSOR OP_SAVE LETTUCE_CAP_CALL RES_DISK) h;
     h \<leftarrow> shared_word pl 2 cap_cam_sensor h;
     (t16_status, h) \<leftarrow> run_camera pl (svc_camera_cross_layer_call (el0_syms pl)) h;
     Some (cap_cam_sensor, log_test (is_status t16_status LETTUCE_STATUS_OK \<and> at_camera h)
       ''Test 16: Cross-Layer L3 -> L2 EL0 mediated call succeeded'' ''Test 16: Cross-Layer EL0 call failed'' h)
   }"

definition test17 :: "platform \<Rightarrow> harness_state \<Rightarrow> (u32 \<times> harness_state) option" where
  "test17 pl h = do {
     let h = say [puts ''\<newline>--- Test 17: Elevator Protected Call ---\<newline>''] h;
     let (cap_cam_elev, h) = with_kernel (capability_create_kernel SERVICE_CAMERA SERVICE_SENSOR OP_SAVE
       (LETTUCE_CAP_CALL OR LETTUCE_CAP_CRITICAL) RES_DISK) h;
     h \<leftarrow> shared_word pl 3 cap_cam_elev h;
     (t17_status, h) \<leftarrow> run_camera pl (svc_camera_elevator_call (el0_syms pl)) h;
     Some (cap_cam_elev, log_test (is_status t17_status LETTUCE_STATUS_OK \<and> at_camera h)
       ''Test 17: Elevator protected call with critical capability succeeded'' ''Test 17: Elevator protected call failed'' h)
   }"

section \<open>Pointer authentication and features\<close>

text \<open>
  A pop at EL1. The processor may raise an exception of class 0x1c at the instruction that authenticates a
  pointer; whether it does so for a pointer and a modifier is a parameter, and so is the frame it saves.
\<close>

definition ESR_PAC_FAIL :: u64 where "ESR_PAC_FAIL = 0x72000000"

definition context_pop_el1 :: "pac_unit \<Rightarrow> (u64 \<Rightarrow> u64 \<Rightarrow> bool) \<Rightarrow> LettuceTrapFrame \<Rightarrow> trap_state \<Rightarrow> trap_state option" where
  "context_pop_el1 pac auth_faults el1_frame st =
     (let (popped_frame, st1) = lettuce_arch_context_pop pac st;
          top = g_context_stack st ! unat (g_context_stack_depth st - 1) in
      if g_context_stack_depth st > 0 \<and> g_pac_enabled st \<and> auth_faults (cf_elr top) (ucast (cf_service_id top))
      then (case lettuce_arch_sync_el1_handler ESR_PAC_FAIL 0 el1_frame st1 of (TrapReturn _, st2) \<Rightarrow> Some st2 | _ \<Rightarrow> None)
      else Some st1)"

definition test18 :: "platform \<Rightarrow> (u64 \<Rightarrow> u64 \<Rightarrow> bool) \<Rightarrow> LettuceTrapFrame \<Rightarrow> u32 \<Rightarrow> harness_state \<Rightarrow> harness_state option" where
  "test18 pl auth_faults el1_frame cap_cam_disp h = do {
     let h = say [puts ''\<newline>--- Test 18: Pointer Authentication (PAC) Verification ---\<newline>''] h;
     let h = on_trap (lettuce_pac_enable True) h;
     h \<leftarrow> shared_word pl 0 cap_cam_disp h;
     let h = register_entry pl SERVICE_DISPLAY OP_DRAW (svc_display_entry (el0_syms pl)) h;
     (t18_valid, h) \<leftarrow> run_camera pl (svc_camera_call_display (el0_syms pl)) h;
     let t18_valid_pass = (is_status t18_valid LETTUCE_STATUS_OK \<and> at_camera h);
     let h = on_trap (\<lambda>st. snd (lettuce_arch_context_push (pl_pac pl) SERVICE_CAMERA DOMAIN_A 0x40081000 0 0x41002000 st)) h;
     let h = on_trap (lettuce_arch_context_corrupt_top_elr 0x10) h;
     let h = on_trap lettuce_pac_expect_trap h;
     st \<leftarrow> context_pop_el1 (pl_pac pl) auth_faults el1_frame (ew_trap h);
     let h = on_trap (\<lambda>_. st) h;
     let t18_trap_pass = lettuce_pac_trap_observed (ew_trap h);
     let h = on_trap (lettuce_pac_enable False) h;
     Some (log_test (t18_valid_pass \<and> t18_trap_pass)
       ''Test 18: PAC continuation signing valid and corrupted pointer trapped (EC=0x1c)'' ''Test 18: PAC continuation verification failed'' h)
   }"

text \<open>The identification registers of the processor.\<close>

record id_registers =
  id_aa64isar1 :: u64
  id_aa64pfr1 :: u64
  id_aa64mmfr3 :: u64

definition test19 :: "id_registers \<Rightarrow> harness_state \<Rightarrow> harness_state" where
  "test19 ids h =
     (let h = say [puts ''\<newline>--- Test 19: Hardware Architecture Feature Probing ---\<newline>''] h;
          h = say [lettuce_arch_features_probe_and_print (id_aa64isar1 ids) (id_aa64pfr1 ids) (id_aa64mmfr3 ids)] h
      in log_test (lettuce_arch_has_pac (id_aa64isar1 ids))
           ''Test 19: Architecture feature probing completed; accurate feature matrix reported'' ''Test 19: Architecture feature probing failed'' h)"

section \<open>Elevator paths and system calls\<close>

definition test23 :: "platform \<Rightarrow> u32 \<Rightarrow> harness_state \<Rightarrow> harness_state option" where
  "test23 pl cap_cam_elev h = do {
     let h = say [puts ''\<newline>--- Test 23: Elevator Assembly Fast Path vs Reference Path ---\<newline>''] h;
     h \<leftarrow> shared_word pl 3 cap_cam_elev h;
     let h = on_trap (lettuce_elevator_set_use_asm False) h;
     (t23_ref, h) \<leftarrow> run_camera pl (svc_camera_elevator_call (el0_syms pl)) h;
     h \<leftarrow> shared_word pl 3 cap_cam_elev h;
     let h = on_trap (lettuce_elevator_set_use_asm True) h;
     (t23_asm, h) \<leftarrow> run_camera pl (svc_camera_elevator_call (el0_syms pl)) h;
     Some (log_test (is_status t23_ref LETTUCE_STATUS_OK \<and> is_status t23_asm LETTUCE_STATUS_OK \<and> at_camera h)
       ''Test 23: Elevator Assembly path and C reference path match identical authorization semantics''
       ''Test 23: Elevator Assembly vs Reference comparison failed'' h)
   }"

text \<open>The bytes that the kernel writes for the system call lie in the memory of the POSIX layer.\<close>

definition posix_msg :: string where
  "posix_msg = ''POSIX EL0\<newline>''"

definition store_posix_msg :: "trap_state \<Rightarrow> trap_state" where
  "store_posix_msg st = st\<lparr>tr_posix := (tr_posix st)\<lparr>ps_io := (ps_io (tr_posix st))
     \<lparr>io_memory := fold (\<lambda>i mem. mem(0x411c0020 + of_nat i := of_char (posix_msg ! i))) [0..<10] (io_memory (ps_io (tr_posix st)))\<rparr>\<rparr>\<rparr>"

definition test24 :: "platform \<Rightarrow> harness_state \<Rightarrow> harness_state option" where
  "test24 pl h = do {
     let h = say [puts ''\<newline>--- Test 24: POSIX-Lite Syscall Layer ---\<newline>''] h;
     let h = on_trap (\<lambda>st. st\<lparr>tr_posix := lettuce_fd_table_init (tr_posix st)\<rparr>) h;
     let h = on_trap store_posix_msg h;
     (t24_res, h) \<leftarrow> run_camera pl (task_posix_runner (el0_syms pl)) h;
     let (fault_res, ps) = lettuce_kernel_sys_write 1 0x40082000 10 (tr_posix (ew_trap h));
     let h = on_trap (\<lambda>st. st\<lparr>tr_posix := ps\<rparr>) h;
     Some (log_test (is_status t24_res LETTUCE_STATUS_OK \<and> fault_res = - EFAULT)
       ''Test 24: POSIX-Lite syscalls (write/getpid/clock_gettime) and kernel memory rejection verified''
       ''Test 24: POSIX-Lite syscall verification failed'' h)
   }"

section \<open>The sequence\<close>

text \<open>Tests 1 to 19 in the order of \<^verbatim>\<open>lettuce_arm64_main\<close>, with the handles that later tests use again.\<close>

definition foundation_tests ::
  "platform \<Rightarrow> (u64 \<Rightarrow> u64 \<Rightarrow> bool) \<Rightarrow> LettuceTrapFrame \<Rightarrow> id_registers \<Rightarrow> harness_state \<Rightarrow> (u32 \<times> u32 \<times> u32 \<times> harness_state) option" where
  "foundation_tests pl auth_faults el1_frame ids h = do {
     h \<leftarrow> test1 pl h;
     h \<leftarrow> test2 pl h;
     h \<leftarrow> test3 pl h;
     h \<leftarrow> test4 pl h;
     h \<leftarrow> test5 pl h;
     h \<leftarrow> test6 pl h;
     h \<leftarrow> test7 pl h;
     h \<leftarrow> test8 pl h;
     h \<leftarrow> test9 pl h;
     (cap_cam_disp, h) \<leftarrow> test10 pl h;
     h \<leftarrow> test11 pl h;
     h \<leftarrow> test12 pl cap_cam_disp h;
     h \<leftarrow> test13 pl h;
     let h = test14 h;
     h \<leftarrow> test15 pl h;
     (cap_cam_sensor, h) \<leftarrow> test16 pl h;
     (cap_cam_elev, h) \<leftarrow> test17 pl h;
     h \<leftarrow> test18 pl auth_faults el1_frame cap_cam_disp h;
     Some (cap_cam_disp, cap_cam_sensor, cap_cam_elev, test19 ids h)
   }"

end
