(* ===== verification/Harness_Results.thy ===== *)
theory Harness_Results
  imports Harness_Tests
begin

text \<open>
  That the on-target tests pass: every service a test runs returns, with the status the test expects, and leaves behind
  what the next test relies on. The runs of the services are those of the theory of service runs; what is left is the kernel's
  part, the entry into a domain, the answers to protected calls and the bookkeeping of the harness.
\<close>

section \<open>What the tests rely on and keep\<close>

definition harness_ok :: "platform \<Rightarrow> u64 \<Rightarrow> harness_state \<Rightarrow> bool" where
  "harness_ok pl el h \<longleftrightarrow> world_ok (pl_layout pl) el (ew_trap h) \<and> g_context_stack_depth (ew_trap h) = 0 \<and>
     ks_services (tr_kernel (ew_trap h)) = boot_services (el0_syms pl)"

abbreviation h_caps :: "harness_state \<Rightarrow> capability_state" where "h_caps h \<equiv> ks_capabilities (tr_kernel (ew_trap h))"

definition holds :: "platform \<Rightarrow> u64 \<Rightarrow> harness_state \<Rightarrow> harness_state \<Rightarrow> bool" where
  "holds pl el h h' \<longleftrightarrow> harness_ok pl el h' \<and> h_caps h' = h_caps h \<and> g_pac_enabled (ew_trap h') = g_pac_enabled (ew_trap h) \<and>
     g_elevator_use_asm (ew_trap h') = g_elevator_use_asm (ew_trap h) \<and>
     g_tests_passed h' = g_tests_passed h \<and> g_tests_failed h' = g_tests_failed h"

text \<open>Most tests do not schedule: of the machine they change the address space and the kernel tables only.\<close>

definition sched_part :: "machine \<Rightarrow> timer_state \<times> policy_state \<times> LettuceSchedPolicyOps \<times> LettuceSchedPolicyType \<times> bool" where
  "sched_part m = (mc_timer m, mc_policy m, g_policy_ops m, g_current_policy_type m, g_scheduler_active m)"

lemma sched_part_upd [simp]: "sched_part (m\<lparr>mc_mmu := mmu\<rparr>) = sched_part m" "sched_part (m\<lparr>mc_kernel := ks\<rparr>) = sched_part m"
  "sched_part (m\<lparr>mc_gic := g\<rparr>) = sched_part m"
  by (simp_all add: sched_part_def)

definition quiet :: "harness_state \<Rightarrow> harness_state \<Rightarrow> bool" where
  "quiet h h' \<longleftrightarrow> sched_part (tr_machine (ew_trap h')) = sched_part (tr_machine (ew_trap h)) \<and>
     g_preempt_disable_count (ew_trap h') = g_preempt_disable_count (ew_trap h)"

definition keeps :: "platform \<Rightarrow> u64 \<Rightarrow> harness_state \<Rightarrow> harness_state \<Rightarrow> bool" where
  "keeps pl el h h' \<longleftrightarrow> holds pl el h h' \<and> quiet h h'"

lemmas keeps_defs = keeps_def holds_def quiet_def

text \<open>A test that passes: counted once, and nothing else of what the tests rely on is changed.\<close>

definition passes :: "platform \<Rightarrow> u64 \<Rightarrow> harness_state \<Rightarrow> harness_state \<Rightarrow> bool" where
  "passes pl el h h' \<longleftrightarrow> keeps pl el (h\<lparr>g_tests_passed := g_tests_passed h + 1\<rparr>) h'"

definition ran :: "platform \<Rightarrow> u64 \<Rightarrow> domain_id \<Rightarrow> service_id \<Rightarrow> harness_state \<Rightarrow> harness_state \<Rightarrow> bool" where
  "ran pl el domain service h h' \<longleftrightarrow> keeps pl el h h' \<and> h_service h' = service \<and> h_domain h' = domain"

lemma keeps_trans: "keeps pl el h h1 \<Longrightarrow> keeps pl el h1 h2 \<Longrightarrow> keeps pl el h h2"
  by (simp add: keeps_defs)

lemma keeps_refl: "harness_ok pl el h \<Longrightarrow> keeps pl el h h"
  by (simp add: keeps_defs)

lemma keeps_ok: "keeps pl el h h' \<Longrightarrow> harness_ok pl el h'"
  by (simp add: keeps_defs)

lemma kernel_console [simp]: "tr_machine (on_console ps st) = tr_machine st" "g_context_stack_depth (on_console ps st) = g_context_stack_depth st"
  "g_context_stack (on_console ps st) = g_context_stack st"
  "g_pac_enabled (on_console ps st) = g_pac_enabled st" "g_elevator_use_asm (on_console ps st) = g_elevator_use_asm st"
  "g_preempt_disable_count (on_console ps st) = g_preempt_disable_count st"
  by (simp_all add: on_console_def)

lemma keeps_say [simp]: "keeps pl el h (say ps h') = keeps pl el h h'"
  by (simp add: keeps_defs harness_ok_def say_def)

lemma say_facts [simp]: "ew_mmu (say ps h) = ew_mmu h" "h_service (say ps h) = h_service h" "h_caps (say ps h) = h_caps h" "ew_mem (say ps h) = ew_mem h"
  "g_context_stack (ew_trap (say ps h)) = g_context_stack (ew_trap h)"
  by (simp_all add: say_def)

lemma harness_ok_say [simp]: "harness_ok pl el (say ps h) = harness_ok pl el h"
  by (simp add: harness_ok_def say_def)

lemma passes_log: "keeps pl el h h1 \<Longrightarrow> passes pl el h (log_test True pass_name fail_name h1)"
  by (simp add: passes_def log_test_def log_pass_def Let_def) (simp add: keeps_defs harness_ok_def)

text \<open>Changes of the translation state that leave tables, root and current domain alone.\<close>

definition mmu_notes :: "mmu_state \<Rightarrow> mmu_state \<Rightarrow> bool" where
  "mmu_notes mmu mmu' \<longleftrightarrow> kernel_l2_device mmu' = kernel_l2_device mmu \<and> domain_l1 mmu' = domain_l1 mmu \<and> domain_l2 mmu' = domain_l2 mmu \<and>
     domain_l3 mmu' = domain_l3 mmu \<and> arch_domains mmu' = arch_domains mmu \<and> ttbr0 mmu' = ttbr0 mmu \<and> current_domain mmu' = current_domain mmu"

lemma mmu_notes_intros:
  "mmu_notes mmu (lettuce_mmu_expect_fault far mmu)" "mmu_notes mmu (lettuce_arch_expect_sysreg_trap mmu)"
  "mmu_notes mmu (fault_seen esr far elr mmu)" "mmu_notes mmu (sysreg_trap_seen esr elr mmu)"
  "mmu_notes mmu (lettuce_mmu_invalidate_asid a mmu)" "mmu_notes mmu (lettuce_mmu_invalidate_domain d mmu)"
  by (simp_all add: mmu_notes_def lettuce_mmu_expect_fault_def lettuce_arch_expect_sysreg_trap_def fault_seen_def sysreg_trap_seen_def
      lettuce_mmu_invalidate_asid_def lettuce_mmu_invalidate_domain_def split: option.split)

lemma world_ok_notes:
  assumes "world_ok lay el st" "mmu_notes (tr_mmu st) (f (tr_mmu st))"
  shows "world_ok lay el (on_mmu f st)"
  using assms by (simp add: world_ok_def trap_ok_def mmu_ok_def tables_ok_def mmu_notes_def on_mmu_def Let_def)

lemma keeps_notes:
  assumes "keeps pl el h h'" "mmu_notes (ew_mmu h') (f (ew_mmu h'))"
  shows "keeps pl el h (on_trap (on_mmu f) h')"
  using assms world_ok_notes [of _ _ "ew_trap h'" f] by (simp add: keeps_defs harness_ok_def on_trap_def) (simp add: on_mmu_def)

section \<open>Running a service\<close>

definition entering :: "domain_id \<Rightarrow> service_id \<Rightarrow> harness_state \<Rightarrow> harness_state" where
  "entering domain service h =
     on_trap (\<lambda>st. on_mmu (\<lambda>mmu. snd (lettuce_mmu_enter domain mmu)) (on_kernel (kernel_set_current_service_id service) st)) h"

lemma symbol_va:
  "el0_service_va (image_symbols s) (svc_display_entry (image_symbols s)) = code_at 0 0"
  "el0_service_va (image_symbols s) (svc_camera_entry (image_symbols s)) = code_at 1 0"
  "el0_service_va (image_symbols s) (svc_storage_entry (image_symbols s)) = code_at 2 0"
  "el0_service_va (image_symbols s) (svc_failing_entry (image_symbols s)) = code_at 3 0"
  "el0_service_va (image_symbols s) (svc_camera_call_display (image_symbols s)) = code_at 4 0"
  "el0_service_va (image_symbols s) (svc_display_call_storage (image_symbols s)) = code_at 5 0"
  "el0_service_va (image_symbols s) (svc_test_sysreg (image_symbols s)) = code_at 6 0"
  "el0_service_va (image_symbols s) (svc_test_kernel_mem (image_symbols s)) = code_at 7 0"
  "el0_service_va (image_symbols s) (svc_test_foreign_mem_a_to_b (image_symbols s)) = code_at 8 0"
  "el0_service_va (image_symbols s) (svc_test_foreign_mem_b_to_a (image_symbols s)) = code_at 9 0"
  "el0_service_va (image_symbols s) (svc_test_shared_write_a (image_symbols s)) = code_at 10 0"
  "el0_service_va (image_symbols s) (svc_test_shared_read_modify_b (image_symbols s)) = code_at 11 0"
  "el0_service_va (image_symbols s) (svc_test_shared_verify_a (image_symbols s)) = code_at 12 0"
  "el0_service_va (image_symbols s) (svc_minimal_return_entry (image_symbols s)) = code_at 13 0"
  "el0_service_va (image_symbols s) (svc_camera_cross_layer_call (image_symbols s)) = code_at 14 0"
  "el0_service_va (image_symbols s) (svc_camera_elevator_call (image_symbols s)) = code_at 15 0"
  "el0_service_va (image_symbols s) (svc_camera_invalid_cap_call (image_symbols s)) = code_at 16 0"
  "el0_service_va (image_symbols s) (task_posix_runner (image_symbols s)) = code_at 20 0"
  by (simp_all add: el0_service_va_def image_symbols_def code_at_def Let_def)

lemma image_mapped: "entries_mapped (image_symbols s)"
  by (simp add: entries_mapped_def symbol_va code_at_nonzero)

lemma run_entering:
  "run_el0_service pl symbol domain service h =
     lettuce_el0_enter pl (el0_service_va (el0_syms pl) symbol) (lettuce_arch_domain_stack_top domain) (entering domain service h)"
  by (simp add: run_el0_service_def entering_def on_trap_def Let_def)

lemma entering_ran:
  assumes "keeps pl el h h1" "domain_number domain = Some k"
  shows "ready_in pl el k (entering domain service h1)" "ran pl el domain service h (entering domain service h1)"
    "ew_mem (entering domain service h1) = ew_mem h1"
    "ew_mmu (entering domain service h1) = snd (lettuce_mmu_enter domain (ew_mmu h1))"
    "tr_kernel (ew_trap (entering domain service h1)) = kernel_set_current_service_id service (tr_kernel (ew_trap h1))"
    "lettuce_mmu_active_asid (ew_mmu (entering domain service h1)) = of_nat (Suc k)"
proof -
  let ?st = "ew_trap h1" and ?w = "entering domain service h1"
  have ok: "world_ok (pl_layout pl) el ?st" "g_context_stack_depth ?st = 0" "ks_services (tr_kernel ?st) = boot_services (el0_syms pl)"
    using assms(1) by (simp_all add: keeps_defs harness_ok_def)
  then have m: "mmu_ok (pl_layout pl) el (tr_mmu ?st)" "tables_ok (pl_layout pl) el (tr_mmu ?st)" by (simp_all add: world_ok_def trap_ok_def)
  show mm: "ew_mmu ?w = snd (lettuce_mmu_enter domain (ew_mmu h1))" "ew_mem ?w = ew_mem h1"
      "tr_kernel (ew_trap ?w) = kernel_set_current_service_id service (tr_kernel ?st)"
    by (simp_all add: entering_def on_trap_def on_mmu_def on_kernel_def)
  note e = mmu_enter_facts [OF m(1), of domain "fst (lettuce_mmu_enter domain (ew_mmu h1))" "snd (lettuce_mmu_enter domain (ew_mmu h1))"]
  have d: "in_domain (pl_layout pl) el k (ew_mmu ?w)" unfolding mm by (rule in_domain_enter [OF m assms(2)])
  have dn: "current_domain (ew_mmu ?w) = domain" using e assms(2) by (simp add: mm)
  have w: "world_ok (pl_layout pl) el (ew_trap ?w)"
    by (rule world_ok_cong [OF ok(1)])
      (use d mm in \<open>simp_all add: in_domain_def\<close>, simp_all add: entering_def on_trap_def on_mmu_def on_kernel_def kernel_set_current_service_id_def set_current_service_id_def)
  show "ready_in pl el k ?w" using w d ok(2) by (simp add: ready_in_def) (simp add: entering_def on_trap_def on_mmu_def on_kernel_def)
  show "lettuce_mmu_active_asid (ew_mmu ?w) = of_nat (Suc k)" using e assms(2) by (simp add: mm)
  show "ran pl el domain service h ?w"
    using assms(1) w ok dn
    by (simp add: ran_def keeps_defs harness_ok_def lettuce_mmu_current_domain_def)
      (simp add: entering_def on_trap_def on_mmu_def on_kernel_def kernel_set_current_service_id_def set_current_service_id_def current_service_id_def)
qed

lemma ran_mem: "ran pl el d s h (h'\<lparr>ew_mem := m\<rparr>) = ran pl el d s h h'"
  by (simp add: ran_def keeps_defs harness_ok_def)

lemma ran_notes:
  assumes "ran pl el d s h h'" "mmu_notes (ew_mmu h') (f (ew_mmu h'))"
  shows "ran pl el d s h (h'\<lparr>ew_trap := on_mmu f (on_console ps (ew_trap h'))\<rparr>)"
  using assms world_ok_notes [of _ _ "on_console ps (ew_trap h')" f]
  by (simp add: ran_def keeps_defs harness_ok_def lettuce_mmu_current_domain_def mmu_notes_def) (simp add: on_mmu_def)

lemma ran_callers:
  assumes "ran pl el d s h h'" "length cs = 8"
  shows "ran pl el d s h (h'\<lparr>ew_trap := (ew_trap h')\<lparr>g_context_stack := cs\<rparr>, ew_mem := m\<rparr>)"
  using assms boot_reg_inv by (simp add: ran_def keeps_defs harness_ok_def world_ok_def trap_ok_def LETTUCE_ARCH_CONTEXT_MAX_def)

lemma ran_keeps: "ran pl el d s h h' \<Longrightarrow> keeps pl el h h'"
  by (simp add: ran_def)

lemma domain_numbers: "domain_number DOMAIN_A = Some 0" "domain_number DOMAIN_B = Some 1" "domain_number DOMAIN_C = Some 2"
  by (simp_all add: domain_number_def)

lemma run_minimal:
  assumes "platform_ok pl" "keeps pl el h0 h" "domain_number d = Some k"
  shows "\<exists>h'. run_el0_service pl (svc_minimal_return_entry (el0_syms pl)) d s h = Some (0, h') \<and> ran pl el d s h0 h'"
  using enter_minimal [OF assms(1) entering_ran(1) [OF assms(2,3)]] entering_ran(2) [OF assms(2,3)]
  by (simp add: run_entering symbol_va)

lemma run_own_page:
  assumes pl: "platform_ok pl" and h: "keeps pl el h0 h" and d: "domain_number d = Some k" and n: "(n, k, magic) \<in> set own_page_services"
    and va: "el0_service_va (el0_syms pl) symbol = code_at n 0"
  shows "\<exists>h'. run_el0_service pl symbol d s h = Some (0, h') \<and> ran pl el d s h0 h' \<and> lettuce_mmu_active_asid (ew_mmu h') = of_nat (Suc k)"
  using enter_own_page [OF pl entering_ran(1) [OF h d] n] entering_ran(2,6) [OF h d]
  by (simp add: run_entering va ran_mem)

text \<open>The fault bookkeeping after a service that touched a page it may not touch.\<close>

definition fault_noted :: "u64 \<Rightarrow> u64 \<Rightarrow> mmu_state \<Rightarrow> bool" where
  "fault_noted far fsc mmu \<longleftrightarrow> lettuce_mmu_expected_fault_observed mmu \<and> lettuce_mmu_last_fault_far mmu = far \<and>
     lettuce_mmu_last_fault_esr mmu AND 0x3f = fsc"

lemma enter_expects [simp]:
  "g_expecting_fault (snd (lettuce_mmu_enter d mmu)) = g_expecting_fault mmu"
  "g_expecting_sysreg_trap (snd (lettuce_mmu_enter d mmu)) = g_expecting_sysreg_trap mmu"
  by (simp_all add: lettuce_mmu_enter_def write_ttbr_def Let_def split: option.split)

lemma active_asid_fault [simp]: "lettuce_mmu_active_asid (fault_seen esr far elr mmu) = lettuce_mmu_active_asid mmu"
  by (simp add: lettuce_mmu_active_asid_def fault_seen_def)

lemma expecting_fault_set [simp]: "g_expecting_fault (ew_mmu (on_trap (on_mmu (lettuce_mmu_expect_fault far)) h))"
  by (simp add: on_trap_def on_mmu_def lettuce_mmu_expect_fault_def)

lemma run_foreign:
  assumes pl: "platform_ok pl" and h: "keeps pl el h0 h" and d: "domain_number d = Some k" and n: "(n, k, j) \<in> {(8, 0, 1), (9, 1, 0)}"
    and va: "el0_service_va (el0_syms pl) symbol = code_at n 0"
  shows "\<exists>h'. run_el0_service pl symbol d s (on_trap (on_mmu (lettuce_mmu_expect_fault far)) h) = Some (ucast (status_code LETTUCE_STATUS_ABORTED), h') \<and>
    ran pl el d s h0 h' \<and> fault_noted (private_va j) 7 (ew_mmu h') \<and> lettuce_mmu_active_asid (ew_mmu h') = of_nat (Suc k)"
proof -
  let ?h = "on_trap (on_mmu (lettuce_mmu_expect_fault far)) h" and ?f = "fault_seen (ESR_DATA_ABORT 7 False) (private_va j) (code_at n 1)"
  have k: "keeps pl el h0 ?h" by (rule keeps_notes [OF h]) (rule mmu_notes_intros)
  note e = entering_ran [OF k d, of s]
  obtain ps where "lettuce_el0_enter pl (code_at n 0) (lettuce_arch_domain_stack_top d) (entering d s ?h) =
      Some (ucast (status_code LETTUCE_STATUS_ABORTED), (entering d s ?h)\<lparr>ew_trap := on_mmu ?f (on_console ps (ew_trap (entering d s ?h)))\<rparr>)"
    using enter_foreign [OF pl e(1) n] by (auto simp: e(4))
  then show ?thesis
    using ran_notes [OF e(2), of ?f ps] e(6) mmu_notes_intros(3) esr_classes
    by (simp add: run_entering va) (simp add: on_mmu_def fault_noted_def fault_seen_def lettuce_mmu_expected_fault_observed_def
        lettuce_mmu_last_fault_far_def lettuce_mmu_last_fault_esr_def lettuce_mmu_active_asid_def)
qed

lemma run_kernel_probe:
  assumes pl: "platform_ok pl" and h: "keeps pl el h0 h" and d: "domain_number d = Some k"
  shows "\<exists>h'. run_el0_service pl (svc_test_kernel_mem (el0_syms pl)) d s (on_trap (on_mmu (lettuce_mmu_expect_fault far)) h) =
      Some (ucast (status_code LETTUCE_STATUS_ABORTED), h') \<and> ran pl el d s h0 h' \<and> fault_noted 0x40082000 14 (ew_mmu h')"
proof -
  let ?h = "on_trap (on_mmu (lettuce_mmu_expect_fault far)) h" and ?f = "fault_seen (ESR_DATA_ABORT 14 False) 0x40082000 (code_at 7 1)"
  have k: "keeps pl el h0 ?h" by (rule keeps_notes [OF h]) (rule mmu_notes_intros)
  note e = entering_ran [OF k d, of s]
  obtain ps where "lettuce_el0_enter pl (code_at 7 0) (lettuce_arch_domain_stack_top d) (entering d s ?h) =
      Some (ucast (status_code LETTUCE_STATUS_ABORTED), (entering d s ?h)\<lparr>ew_trap := on_mmu ?f (on_console ps (ew_trap (entering d s ?h)))\<rparr>)"
    using enter_kernel_probe [OF pl e(1)] by (auto simp: e(4))
  then show ?thesis
    using ran_notes [OF e(2), of ?f ps] mmu_notes_intros(3) esr_classes
    by (simp add: run_entering symbol_va) (simp add: on_mmu_def fault_noted_def fault_seen_def lettuce_mmu_expected_fault_observed_def
        lettuce_mmu_last_fault_far_def lettuce_mmu_last_fault_esr_def)
qed

lemma run_sysreg:
  assumes pl: "platform_ok pl" and h: "keeps pl el h0 h" and d: "domain_number d = Some k"
  shows "\<exists>h'. run_el0_service pl (svc_test_sysreg (el0_syms pl)) d s (on_trap (on_mmu lettuce_arch_expect_sysreg_trap) h) =
      Some (ucast (status_code LETTUCE_STATUS_DENIED), h') \<and> ran pl el d s h0 h' \<and> lettuce_arch_sysreg_trap_observed (ew_mmu h') \<and>
      drop_bit 26 (lettuce_mmu_last_fault_esr (ew_mmu h')) AND 0x3f = 0"
proof -
  let ?h = "on_trap (on_mmu lettuce_arch_expect_sysreg_trap) h" and ?f = "sysreg_trap_seen ESR_UNDEFINED (code_at 6 0)"
  have k: "keeps pl el h0 ?h" by (rule keeps_notes [OF h]) (rule mmu_notes_intros)
  have x: "g_expecting_sysreg_trap (ew_mmu ?h)" by (simp add: on_trap_def on_mmu_def lettuce_arch_expect_sysreg_trap_def)
  note e = entering_ran [OF k d, of s]
  obtain ps where "lettuce_el0_enter pl (code_at 6 0) (lettuce_arch_domain_stack_top d) (entering d s ?h) =
      Some (ucast (status_code LETTUCE_STATUS_DENIED), (entering d s ?h)\<lparr>ew_trap := on_mmu ?f (on_console ps (ew_trap (entering d s ?h)))\<rparr>)"
    using enter_sysreg [OF pl e(1)] x by (auto simp: e(4))
  then show ?thesis
    using ran_notes [OF e(2), of ?f ps] mmu_notes_intros(4) esr_classes
    by (simp add: run_entering symbol_va) (simp add: on_mmu_def sysreg_trap_seen_def lettuce_arch_sysreg_trap_observed_def lettuce_mmu_last_fault_esr_def)
qed

lemma run_shared:
  assumes pl: "platform_ok pl" and h: "keeps pl el h0 h" and d: "domain_number d = Some k"
  shows "\<exists>h'. run_el0_service pl (svc_test_shared_write_a (el0_syms pl)) d s h = Some (0, h') \<and> ran pl el d s h0 h' \<and>
      ew_mem h' (lay_shared (pl_layout pl)) = 0xcafebabe00000001"
    and "ew_mem h (lay_shared (pl_layout pl)) = 0xcafebabe00000001 \<Longrightarrow>
      \<exists>h'. run_el0_service pl (svc_test_shared_read_modify_b (el0_syms pl)) d s h = Some (0, h') \<and> ran pl el d s h0 h' \<and>
      ew_mem h' (lay_shared (pl_layout pl)) = 0xfeedface00000002"
    and "ew_mem h (lay_shared (pl_layout pl)) = 0xfeedface00000002 \<Longrightarrow>
      \<exists>h'. run_el0_service pl (svc_test_shared_verify_a (el0_syms pl)) d s h = Some (0, h') \<and> ran pl el d s h0 h'"
  using enter_shared [OF pl entering_ran(1) [OF h d]] entering_ran(2,3) [OF h d]
  by (simp_all add: run_entering symbol_va ran_mem)

section \<open>Tests 1 to 9 and 13 to 15\<close>

lemma status_ok: "is_status 0 LETTUCE_STATUS_OK" "is_status 1 LETTUCE_STATUS_ERROR" "is_status (ucast (status_code s)) s"
  by (simp_all add: is_status_def)

lemma test1_passes:
  assumes "platform_ok pl" "harness_ok pl el h"
  shows "\<exists>h'. test1 pl h = Some h' \<and> passes pl el h h'"
proof -
  have k: "keeps pl el h (say [puts ''\<newline>--- Test 1: EL1 -> EL0 Entry ---\<newline>''] h)" by (simp add: keeps_refl assms(2))
  obtain h1 where "run_camera pl (svc_minimal_return_entry (el0_syms pl)) (say [puts ''\<newline>--- Test 1: EL1 -> EL0 Entry ---\<newline>''] h) = Some (0, h1)"
      "ran pl el DOMAIN_A SERVICE_CAMERA h h1"
    using run_minimal [OF assms(1) k domain_numbers(1)] by blast
  then show ?thesis using passes_log [OF ran_keeps] by (simp add: test1_def Let_def status_ok)
qed

lemma test2_passes:
  assumes "platform_ok pl" "harness_ok pl el h"
  shows "\<exists>h'. test2 pl h = Some h' \<and> passes pl el h h'"
proof -
  define h0 where "h0 = say [puts ''\<newline>--- Test 2: EL0 -> EL1 SVC Return ---\<newline>''] h"
  have k: "keeps pl el h h0" by (simp add: keeps_refl assms(2) h0_def)
  obtain h1 where "run_display pl (svc_minimal_return_entry (el0_syms pl)) h0 = Some (0, h1)" "ran pl el DOMAIN_B SERVICE_DISPLAY h h1"
    using run_minimal [OF assms(1) k domain_numbers(2)] by blast
  then show ?thesis using passes_log [OF ran_keeps] by (simp add: test2_def h0_def Let_def status_ok)
qed

lemma keeps_enter:
  assumes "keeps pl el h h1" "domain_number d = Some k"
  shows "keeps pl el h (on_trap (on_mmu (\<lambda>mmu. snd (lettuce_mmu_enter d mmu))) h1)"
    "lettuce_mmu_active_asid (ew_mmu (on_trap (on_mmu (\<lambda>mmu. snd (lettuce_mmu_enter d mmu))) h1)) = of_nat (Suc k)"
    "h_domain (on_trap (on_mmu (\<lambda>mmu. snd (lettuce_mmu_enter d mmu))) h1) = d"
proof -
  have e: "on_trap (on_mmu (\<lambda>mmu. snd (lettuce_mmu_enter d mmu))) h1 = entering d (h_service h1) h1"
    by (simp add: entering_def on_trap_def on_mmu_def on_kernel_def kernel_set_current_service_id_def set_current_service_id_def current_service_id_def)
  show "keeps pl el h (on_trap (on_mmu (\<lambda>mmu. snd (lettuce_mmu_enter d mmu))) h1)"
    "lettuce_mmu_active_asid (ew_mmu (on_trap (on_mmu (\<lambda>mmu. snd (lettuce_mmu_enter d mmu))) h1)) = of_nat (Suc k)"
    "h_domain (on_trap (on_mmu (\<lambda>mmu. snd (lettuce_mmu_enter d mmu))) h1) = d"
    using entering_ran(2,6) [OF assms, of "h_service h1"] unfolding e by (simp_all add: ran_def)
qed

lemma world_ok_kernel:
  "ks_services (f (tr_kernel st)) = ks_services (tr_kernel st) \<Longrightarrow> world_ok lay el (on_kernel f st) = world_ok lay el st"
  by (simp add: world_ok_def trap_ok_def services_placed_def on_kernel_def)

lemma set_service_services [simp]:
  "ks_services (kernel_set_current_service_id s ks) = ks_services ks" "ks_capabilities (kernel_set_current_service_id s ks) = ks_capabilities ks"
  "current_service_id (kernel_set_current_service_id s ks) = s"
  by (simp_all add: kernel_set_current_service_id_def set_current_service_id_def current_service_id_def)

lemma keeps_service: "keeps pl el h h1 \<Longrightarrow> keeps pl el h (on_trap (on_kernel (kernel_set_current_service_id s)) h1)"
  by (simp add: keeps_defs harness_ok_def on_trap_def world_ok_kernel) (simp add: on_kernel_def)

lemma test3_passes:
  assumes "platform_ok pl" "harness_ok pl el h"
  shows "\<exists>h'. test3 pl h = Some h' \<and> passes pl el h h'"
proof -
  define h0 where "h0 = on_trap (on_kernel (kernel_set_current_service_id SERVICE_CAMERA))
      (say [puts ''\<newline>--- Test 3: Kernel Authoritative ServiceId Preserved ---\<newline>''] h)"
  have k: "keeps pl el h h0" unfolding h0_def by (rule keeps_service) (simp add: keeps_refl assms(2))
  obtain h1 where "run_camera pl (svc_minimal_return_entry (el0_syms pl)) h0 = Some (0, h1)" "ran pl el DOMAIN_A SERVICE_CAMERA h h1"
    using run_minimal [OF assms(1) k domain_numbers(1)] by blast
  then show ?thesis using passes_log [OF ran_keeps] by (auto simp: test3_def h0_def Let_def ran_def)
qed

lemma test4_passes:
  assumes "platform_ok pl" "harness_ok pl el h"
  shows "\<exists>h'. test4 pl h = Some h' \<and> passes pl el h h'"
proof -
  define h0 where "h0 = on_trap (on_mmu (\<lambda>mmu. snd (lettuce_mmu_enter DOMAIN_B mmu)))
      (say [puts ''\<newline>--- Test 4: Kernel Authoritative DomainId Preserved ---\<newline>''] h)"
  have k: "keeps pl el h h0" unfolding h0_def by (rule keeps_enter [OF _ domain_numbers(2)]) (simp add: keeps_refl assms(2))
  obtain h1 where "run_display pl (svc_minimal_return_entry (el0_syms pl)) h0 = Some (0, h1)" "ran pl el DOMAIN_B SERVICE_DISPLAY h h1"
    using run_minimal [OF assms(1) k domain_numbers(2)] by blast
  then show ?thesis using passes_log [OF ran_keeps] by (auto simp: test4_def h0_def Let_def ran_def)
qed

lemma test5_passes:
  assumes pl: "platform_ok pl" and h: "harness_ok pl el h"
  shows "\<exists>h'. test5 pl h = Some h' \<and> passes pl el h h'"
proof -
  define h0 where "h0 = say [puts ''\<newline>--- Test 5: Own Private Page Accessible from EL0 ---\<newline>''] h"
  have k: "keeps pl el h h0" by (simp add: keeps_refl h h0_def)
  have own: "(1, 0, 0x100a0001100a0001) \<in> set own_page_services" "(0, 1, 0x200b0001200b0001) \<in> set own_page_services"
    "(2, 2, 0x300c0001300c0001) \<in> set own_page_services" by (simp_all add: own_page_services_def)
  obtain h1 where r1: "run_camera pl (svc_camera_entry (el0_syms pl)) h0 = Some (0, h1)" "ran pl el DOMAIN_A SERVICE_CAMERA h h1"
    using run_own_page [OF pl k domain_numbers(1) own(1) symbol_va(2)] by blast
  obtain h2 where r2: "run_display pl (svc_display_entry (el0_syms pl)) h1 = Some (0, h2)" "ran pl el DOMAIN_B SERVICE_DISPLAY h h2"
    using run_own_page [OF pl ran_keeps [OF r1(2)] domain_numbers(2) own(2) symbol_va(1)] by blast
  obtain h3 where r3: "run_el0_service pl (svc_storage_entry (el0_syms pl)) DOMAIN_C SERVICE_STORAGE h2 = Some (0, h3)"
      "ran pl el DOMAIN_C SERVICE_STORAGE h h3"
    using run_own_page [OF pl ran_keeps [OF r2(2)] domain_numbers(3) own(3) symbol_va(3)] by blast
  show ?thesis using passes_log [OF ran_keeps [OF r3(2)]] r1(1) r2(1) r3(1) by (simp add: test5_def h0_def [symmetric] Let_def status_ok)
qed

lemma test6_passes:
  assumes pl: "platform_ok pl" and h: "harness_ok pl el h"
  shows "\<exists>h'. test6 pl h = Some h' \<and> passes pl el h h'"
proof -
  define h0 where "h0 = say [puts ''\<newline>--- Test 6: Foreign Private Page Faults from EL0 ---\<newline>''] h"
  have k: "keeps pl el h h0" by (simp add: keeps_refl h h0_def)
  have n: "(8, 0, 1) \<in> {(8 :: nat, 0 :: nat, 1 :: nat), (9, 1, 0)}" "(9, 1, 0) \<in> {(8 :: nat, 0 :: nat, 1 :: nat), (9, 1, 0)}" by simp_all
  obtain h1 where r1: "run_camera pl (svc_test_foreign_mem_a_to_b (el0_syms pl)) (on_trap (on_mmu (lettuce_mmu_expect_fault PRIVATE_B_VA)) h0) =
      Some (ucast (status_code LETTUCE_STATUS_ABORTED), h1)" "ran pl el DOMAIN_A SERVICE_CAMERA h h1" "fault_noted (private_va 1) 7 (ew_mmu h1)"
    using run_foreign [OF pl k domain_numbers(1) n(1) symbol_va(9)] by blast
  obtain h2 where r2: "run_display pl (svc_test_foreign_mem_b_to_a (el0_syms pl)) (on_trap (on_mmu (lettuce_mmu_expect_fault PRIVATE_A_VA)) h1) =
      Some (ucast (status_code LETTUCE_STATUS_ABORTED), h2)" "ran pl el DOMAIN_B SERVICE_DISPLAY h h2" "fault_noted (private_va 0) 7 (ew_mmu h2)"
    using run_foreign [OF pl ran_keeps [OF r1(2)] domain_numbers(2) n(2) symbol_va(10)] by blast
  show ?thesis using passes_log [OF ran_keeps [OF r2(2)]] r1(1,3) r2(1,3)
    by (simp add: test6_def h0_def [symmetric] Let_def is_status_def fault_noted_def private_va_def)
qed

lemma test7_passes:
  assumes pl: "platform_ok pl" and h: "harness_ok pl el h"
  shows "\<exists>h'. test7 pl h = Some h' \<and> passes pl el h h'"
proof -
  define h0 where "h0 = say [puts ''\<newline>--- Test 7: EL0 Cannot Access Kernel Memory ---\<newline>''] h"
  have k: "keeps pl el h h0" by (simp add: keeps_refl h h0_def)
  obtain h1 where r1: "run_camera pl (svc_test_kernel_mem (el0_syms pl)) (on_trap (on_mmu (lettuce_mmu_expect_fault 0x40082000)) h0) =
      Some (ucast (status_code LETTUCE_STATUS_ABORTED), h1)" "ran pl el DOMAIN_A SERVICE_CAMERA h h1" "fault_noted 0x40082000 14 (ew_mmu h1)"
    using run_kernel_probe [OF pl k domain_numbers(1)] by blast
  show ?thesis using passes_log [OF ran_keeps [OF r1(2)]] r1(1,3)
    by (simp add: test7_def h0_def [symmetric] Let_def is_status_def fault_noted_def)
qed

lemma test8_passes:
  assumes pl: "platform_ok pl" and h: "harness_ok pl el h"
  shows "\<exists>h'. test8 pl h = Some h' \<and> passes pl el h h'"
proof -
  define h0 where "h0 = say [puts ''\<newline>--- Test 8: EL0 Traps on Privileged Register Access ---\<newline>''] h"
  have k: "keeps pl el h h0" by (simp add: keeps_refl h h0_def)
  obtain h1 where r1: "run_camera pl (svc_test_sysreg (el0_syms pl)) (on_trap (on_mmu lettuce_arch_expect_sysreg_trap) h0) =
      Some (ucast (status_code LETTUCE_STATUS_DENIED), h1)" "ran pl el DOMAIN_A SERVICE_CAMERA h h1" "lettuce_arch_sysreg_trap_observed (ew_mmu h1)"
      "drop_bit 26 (lettuce_mmu_last_fault_esr (ew_mmu h1)) AND 0x3f = 0"
    using run_sysreg [OF pl k domain_numbers(1)] by blast
  show ?thesis using passes_log [OF ran_keeps [OF r1(2)]] r1(1,3,4)
    by (simp add: test8_def h0_def [symmetric] Let_def is_status_def)
qed

lemma test9_passes:
  assumes pl: "platform_ok pl" and h: "harness_ok pl el h"
  shows "\<exists>h'. test9 pl h = Some h' \<and> passes pl el h h'"
proof -
  define h0 where "h0 = say [puts ''\<newline>--- Test 9: Controlled Shared Page Across EL0 Domains ---\<newline>''] h"
  have k: "keeps pl el h h0" by (simp add: keeps_refl h h0_def)
  obtain h1 where r1: "run_camera pl (svc_test_shared_write_a (el0_syms pl)) h0 = Some (0, h1)" "ran pl el DOMAIN_A SERVICE_CAMERA h h1"
      "ew_mem h1 (lay_shared (pl_layout pl)) = 0xcafebabe00000001"
    using run_shared(1) [OF pl k domain_numbers(1)] by blast
  obtain h2 where r2: "run_display pl (svc_test_shared_read_modify_b (el0_syms pl)) h1 = Some (0, h2)" "ran pl el DOMAIN_B SERVICE_DISPLAY h h2"
      "ew_mem h2 (lay_shared (pl_layout pl)) = 0xfeedface00000002"
    using run_shared(2) [OF pl ran_keeps [OF r1(2)] domain_numbers(2) r1(3)] by blast
  obtain h3 where r3: "run_camera pl (svc_test_shared_verify_a (el0_syms pl)) h2 = Some (0, h3)" "ran pl el DOMAIN_A SERVICE_CAMERA h h3"
    using run_shared(3) [OF pl ran_keeps [OF r2(2)] domain_numbers(1) r2(3)] by blast
  show ?thesis using passes_log [OF ran_keeps [OF r3(2)]] r1(1) r2(1) r3(1) by (simp add: test9_def h0_def [symmetric] Let_def status_ok)
qed

lemma test13_passes:
  assumes pl: "platform_ok pl" and h: "harness_ok pl el h"
  shows "\<exists>h'. test13 pl h = Some h' \<and> passes pl el h h'"
proof -
  define h0 where "h0 = say [puts ''\<newline>--- Test 13: Stale-TLB Cross-Domain Isolation ---\<newline>''] h"
  have k: "keeps pl el h h0" by (simp add: keeps_refl h h0_def)
  have own: "(1, 0, 0x100a0001100a0001) \<in> set own_page_services" "(0, 1, 0x200b0001200b0001) \<in> set own_page_services"
    by (simp_all add: own_page_services_def)
  have n: "(8, 0, 1) \<in> {(8 :: nat, 0 :: nat, 1 :: nat), (9, 1, 0)}" "(9, 1, 0) \<in> {(8 :: nat, 0 :: nat, 1 :: nat), (9, 1, 0)}" by simp_all
  obtain h1 where r1: "run_camera pl (svc_camera_entry (el0_syms pl)) h0 = Some (0, h1)" "ran pl el DOMAIN_A SERVICE_CAMERA h h1"
      "lettuce_mmu_active_asid (ew_mmu h1) = of_nat (Suc 0)"
    using run_own_page [OF pl k domain_numbers(1) own(1) symbol_va(2)] by blast
  obtain h2 where r2: "run_display pl (svc_test_foreign_mem_b_to_a (el0_syms pl)) (on_trap (on_mmu (lettuce_mmu_expect_fault PRIVATE_A_VA)) h1) =
      Some (ucast (status_code LETTUCE_STATUS_ABORTED), h2)" "ran pl el DOMAIN_B SERVICE_DISPLAY h h2" "fault_noted (private_va 0) 7 (ew_mmu h2)"
      "lettuce_mmu_active_asid (ew_mmu h2) = of_nat (Suc 1)"
    using run_foreign [OF pl ran_keeps [OF r1(2)] domain_numbers(2) n(2) symbol_va(10)] by blast
  obtain h3 where r3: "run_display pl (svc_display_entry (el0_syms pl)) h2 = Some (0, h3)" "ran pl el DOMAIN_B SERVICE_DISPLAY h h3"
    using run_own_page [OF pl ran_keeps [OF r2(2)] domain_numbers(2) own(2) symbol_va(1)] by blast
  obtain h4 where r4: "run_camera pl (svc_test_foreign_mem_a_to_b (el0_syms pl)) (on_trap (on_mmu (lettuce_mmu_expect_fault PRIVATE_B_VA)) h3) =
      Some (ucast (status_code LETTUCE_STATUS_ABORTED), h4)" "ran pl el DOMAIN_A SERVICE_CAMERA h h4" "fault_noted (private_va 1) 7 (ew_mmu h4)"
    using run_foreign [OF pl ran_keeps [OF r3(2)] domain_numbers(1) n(1) symbol_va(9)] by blast
  show ?thesis using passes_log [OF ran_keeps [OF r4(2)]] r1(1,3) r2(1,3,4) r3(1) r4(1,3)
    by (simp add: test13_def h0_def [symmetric] Let_def is_status_def fault_noted_def private_va_def)
qed

lemma test14_passes:
  assumes h: "harness_ok pl el h"
  shows "passes pl el h (test14 h)"
proof -
  define h0 where "h0 = say [puts ''\<newline>--- Test 14: ASID-Targeted Invalidation Helper ---\<newline>''] h"
  define h1 where "h1 = on_trap (on_mmu (lettuce_mmu_invalidate_asid 3)) (on_trap (on_mmu (lettuce_mmu_invalidate_domain DOMAIN_B)) h0)"
  have "keeps pl el h (on_trap (on_mmu (lettuce_mmu_invalidate_domain DOMAIN_B)) h0)"
    by (rule keeps_notes) (simp add: keeps_refl h h0_def, rule mmu_notes_intros)
  then have k: "keeps pl el h h1" unfolding h1_def by (rule keeps_notes) (rule mmu_notes_intros)
  show ?thesis using passes_log [OF keeps_enter(1) [OF k domain_numbers(1)]] keeps_enter(2,3) [OF k domain_numbers(1)]
    by (simp add: test14_def h0_def [symmetric] h1_def [symmetric] Let_def)
qed

section \<open>Protected calls of the camera\<close>

lemma shared_word_store:
  assumes pl: "platform_ok pl" and h: "keeps pl el h0 h" and i: "i < 512"
  shows "shared_word pl i handle h = Some (h\<lparr>ew_mem := (ew_mem h)(lay_shared (pl_layout pl) OR of_nat (8 * i) := ucast handle)\<rparr>)"
proof -
  have "world_ok (pl_layout pl) el (ew_trap h)" using h by (simp add: keeps_defs harness_ok_def)
  then obtain k where d: "in_domain (pl_layout pl) el k (ew_mmu h)" using world_ok_domain by blast
  have "translate (pl_layout pl) (ew_mmu h) Store (SHARED_PAGE_VA + of_nat (8 * i)) = Inr (lay_shared (pl_layout pl) OR of_nat (8 * i))"
    by (rule translate_data(3) [OF platform_facts(1) [OF pl] d]) (use i in simp_all)
  then obtain e where "walk (pl_layout pl) (ew_mmu h) (ttbr0 (ew_mmu h)) (SHARED_PAGE_VA + of_nat (8 * i)) = Some (e, lay_shared (pl_layout pl) OR of_nat (8 * i))"
      "permits Store e"
    by (auto simp: translate_def split: option.splits if_splits)
  then show ?thesis by (simp add: shared_word_def el1_store_def permits_def el0_write_def)
qed

lemma keeps_mem [simp]: "keeps pl el h0 (h\<lparr>ew_mem := m\<rparr>) = keeps pl el h0 h"
  by (simp add: keeps_defs harness_ok_def)

definition with_caps :: "capability_state \<Rightarrow> harness_state \<Rightarrow> harness_state" where
  "with_caps cs h = on_trap (on_kernel (\<lambda>ks. ks\<lparr>ks_capabilities := cs\<rparr>)) h"

lemma with_caps_facts [simp]:
  "h_caps (with_caps cs h) = cs" "ew_mem (with_caps cs h) = ew_mem h" "g_pac_enabled (ew_trap (with_caps cs h)) = g_pac_enabled (ew_trap h)"
  "g_elevator_use_asm (ew_trap (with_caps cs h)) = g_elevator_use_asm (ew_trap h)"
  "g_tests_passed (with_caps cs h) = g_tests_passed h" "g_tests_failed (with_caps cs h) = g_tests_failed h"
  "sched_part (tr_machine (ew_trap (with_caps cs h))) = sched_part (tr_machine (ew_trap h))"
  "g_preempt_disable_count (ew_trap (with_caps cs h)) = g_preempt_disable_count (ew_trap h)"
  by (simp_all add: with_caps_def on_trap_def on_kernel_def)

lemma harness_ok_caps [simp]: "harness_ok pl el (with_caps cs h) = harness_ok pl el h"
  by (simp add: harness_ok_def with_caps_def on_trap_def world_ok_kernel) (simp add: on_kernel_def)

lemma keeps_caps: "keeps pl el h h1 \<Longrightarrow> keeps pl el (with_caps cs h) (with_caps cs h1)"
  by (simp add: keeps_defs)

lemma create_with_caps:
  assumes "lettuce_capability_create ow t op p r (h_caps h) = (handle, cs)"
  shows "with_kernel (capability_create_kernel ow t op p r) h = (handle, with_caps cs h)"
  using assms by (simp add: with_kernel_def capability_create_kernel_def with_caps_def on_trap_def on_kernel_def)

text \<open>The kernel's answers to the calls of the camera, by the handle that lies in the shared page.\<close>

abbreviation check_call :: "capability_state \<Rightarrow> u32 \<Rightarrow> service_id \<Rightarrow> u32 \<Rightarrow> resource_id \<Rightarrow> bool" where
  "check_call cs handle target perm res \<equiv> lettuce_capability_check cs SERVICE_CAMERA handle target 1 perm res"

lemma handle_word [simp]: "ucast (ucast (handle :: u32) :: u64) = handle"
  by (rule bit_word_eqI) (simp add: bit_simps)

definition booted_camera :: "platform \<Rightarrow> kernel_state \<Rightarrow> bool" where
  "booted_camera pl ks \<longleftrightarrow> ks_services ks = boot_services (el0_syms pl) \<and> current_service_id ks = SERVICE_CAMERA"

definition camera_resolution :: "nat \<Rightarrow> nat \<Rightarrow> LettuceCallResolution" where
  "camera_resolution t m = \<lparr>cr_caller = boot_descriptors ! 0, cr_target = boot_descriptors ! t,
     cr_entry = \<lparr>de_entry = code_at m 0, de_active = True\<rparr>\<rparr>"

lemma validate_display:
  assumes "booted_camera pl ks" "frame_message fr = call_message 20 1 1 (ucast handle)"
  shows "svc_validate LETTUCE_SVC_CALL fr ks =
    (if check_call (ks_capabilities ks) handle SERVICE_DISPLAY LETTUCE_CAP_CALL RES_FRAMEBUFFER
     then Inr (camera_resolution 1 0) else Inl LETTUCE_STATUS_CAPABILITY_DENIED)"
  using assms camera_call_display [OF image_mapped, of ks] 
  by (simp add: svc_validate_def booted_camera_def call_message_def symbol_va camera_resolution_def Let_def)

lemma validate_sensor:
  assumes ks: "booted_camera pl ks" and fr: "frame_message fr = call_message 40 1 2 (ucast handle)" and imm: "imm \<in> {LETTUCE_SVC_CROSS_LAYER, LETTUCE_SVC_ELEVATOR}"
    and chk: "check_call (ks_capabilities ks) handle SERVICE_SENSOR (svc_permission imm) RES_DISK"
  shows "svc_validate imm fr ks = Inr (camera_resolution 3 2)"
proof -
  have s: "ks_services ks = boot_services (el0_syms pl)" "current_service_id ks = 10" using ks by (simp_all add: booted_camera_def)
  have "reg_inv (ks_services ks)" by (simp add: s(1) boot_reg_inv)
  moreover have "imm \<in> {LETTUCE_SVC_CALL, LETTUCE_SVC_CROSS_LAYER, LETTUCE_SVC_ELEVATOR}" using imm by auto
  moreover have "call_authorised (svc_permission imm) ks (frame_message fr) (camera_resolution 3 2)"
    using chk boot_lookup [OF image_mapped] boot_dispatch(3) [OF image_mapped]
    by (auto simp: call_authorised_def fr call_message_def s camera_resolution_def boot_descriptors_def service_active_def check_eq_view symbol_va)
  moreover have "svc_layers imm (sd_layer (cr_caller (camera_resolution 3 2))) (sd_layer (cr_target (camera_resolution 3 2)))"
    using imm by (auto simp: svc_layers_def camera_resolution_def boot_descriptors_def)
  ultimately show ?thesis using svc_validate_iff by blast
qed

lemma entering_booted:
  assumes "keeps pl el h0 h"
  shows "booted_camera pl (tr_kernel (ew_trap (entering DOMAIN_A SERVICE_CAMERA h)))"
  using assms unfolding booted_camera_def entering_ran(5) [OF assms domain_numbers(1)] by (simp add: keeps_defs harness_ok_def)

lemma entering_pac [simp]: "g_pac_enabled (ew_trap (entering d s h)) = g_pac_enabled (ew_trap h)"
  by (simp add: entering_def on_trap_def on_mmu_def on_kernel_def)

lemma resolution_target: "domain_number (sd_domain (cr_target (camera_resolution 1 m))) = Some 1"
  "domain_number (sd_domain (cr_target (camera_resolution 3 m))) = Some 2" "de_entry (cr_entry (camera_resolution t m)) = code_at m 0"
  by (simp_all add: camera_resolution_def boot_descriptors_def domain_number_def)

text \<open>A call that is accepted runs the target and returns OK; only the two private pages change.\<close>

definition only_changes :: "u64 set \<Rightarrow> harness_state \<Rightarrow> harness_state \<Rightarrow> bool" where
  "only_changes A h h' \<longleftrightarrow> (\<forall>pa. pa \<notin> A \<longrightarrow> ew_mem h' pa = ew_mem h pa)"

lemma run_call:
  assumes pl: "platform_ok pl" and h: "keeps pl el h0 h" and pac: "g_pac_enabled (ew_trap h) \<Longrightarrow> pac_sound (pl_pac pl)"
    and n: "(n, off, target, op, res, imm) \<in> set camera_calls" and m: "(m, j, magic) \<in> set own_page_services" "j \<noteq> 0"
    and va: "el0_service_va (el0_syms pl) symbol = code_at n 0"
    and valid: "\<And>fr ks. booted_camera pl ks \<Longrightarrow> ks_capabilities ks = h_caps h \<Longrightarrow>
      frame_message fr = call_message target op res (ew_mem h (lay_shared (pl_layout pl) OR of_nat off)) \<Longrightarrow> svc_validate (ucast imm) fr ks = Inr r"
    and r: "de_entry (cr_entry r) = code_at m 0" "domain_number (sd_domain (cr_target r)) = Some j"
  shows "\<exists>h'. run_camera pl symbol h = Some (0, h') \<and> ran pl el DOMAIN_A SERVICE_CAMERA h0 h' \<and>
    only_changes {private_frame (pl_layout pl) 0, private_frame (pl_layout pl) j} h h'"
proof -
  let ?w = "entering DOMAIN_A SERVICE_CAMERA h"
  note e = entering_ran [OF h domain_numbers(1), of SERVICE_CAMERA]
  have v: "svc_validate (ucast imm) fr (tr_kernel (ew_trap ?w)) = Inr r"
    if "frame_message fr = call_message target op res (ew_mem ?w (lay_shared (pl_layout pl) OR of_nat off))" for fr
    using valid [OF entering_booted [OF h]] that by (simp add: e(3) e(5))
  obtain cs where cs: "length cs = 8" "lettuce_el0_enter pl (code_at n 0) (lettuce_arch_domain_stack_top DOMAIN_A) ?w =
      Some (0, ?w\<lparr>ew_trap := (ew_trap ?w)\<lparr>g_context_stack := cs\<rparr>,
        ew_mem := (ew_mem ?w)(private_frame (pl_layout pl) 0 := CAMERA_MAGIC, private_frame (pl_layout pl) j := magic)\<rparr>)"
    using enter_call [OF pl e(1) _ n m v r] pac by auto
  show ?thesis using cs(2) ran_callers [OF e(2) cs(1)] by (simp add: run_entering va only_changes_def e(3))
qed

text \<open>A run in which no protected call was accepted: the stack of callers is as it was, used slots and unused ones.\<close>

definition no_call :: "u64 set \<Rightarrow> harness_state \<Rightarrow> harness_state \<Rightarrow> bool" where
  "no_call A h h' \<longleftrightarrow> only_changes A h h' \<and> g_context_stack (ew_trap h') = g_context_stack (ew_trap h)"

lemma entering_callers [simp]: "g_context_stack (ew_trap (entering d s h)) = g_context_stack (ew_trap h)"
  by (simp add: entering_def on_trap_def on_mmu_def on_kernel_def)

lemma run_call_refused:
  assumes pl: "platform_ok pl" and h: "keeps pl el h0 h" and n: "(n, off, target, op, res, imm) \<in> set camera_calls"
    and va: "el0_service_va (el0_syms pl) symbol = code_at n 0"
    and refused: "\<And>fr ks. booted_camera pl ks \<Longrightarrow> ks_capabilities ks = h_caps h \<Longrightarrow>
      frame_message fr = call_message target op res (ew_mem h (lay_shared (pl_layout pl) OR of_nat off)) \<Longrightarrow> svc_validate (ucast imm) fr ks = Inl s"
  shows "\<exists>h'. run_camera pl symbol h = Some (1, h') \<and> ran pl el DOMAIN_A SERVICE_CAMERA h0 h' \<and> no_call {private_frame (pl_layout pl) 0} h h'"
proof -
  let ?w = "entering DOMAIN_A SERVICE_CAMERA h"
  note e = entering_ran [OF h domain_numbers(1), of SERVICE_CAMERA]
  have v: "svc_validate (ucast imm) fr (tr_kernel (ew_trap ?w)) = Inl s"
    if "frame_message fr = call_message target op res (ew_mem ?w (lay_shared (pl_layout pl) OR of_nat off))" for fr
    using refused [OF entering_booted [OF h]] that by (simp add: e(3) e(5))
  show ?thesis using enter_call_refused [OF pl e(1) n v] e(2) by (simp add: run_entering va no_call_def only_changes_def e(3) ran_mem)
qed

section \<open>Tests 10 to 12 and 15 to 17\<close>

lemma test15_passes:
  assumes pl: "platform_ok pl" and h: "harness_ok pl el h"
    and dead: "\<not> check_call (h_caps h) 0xdeadbeef SERVICE_DISPLAY LETTUCE_CAP_CALL RES_FRAMEBUFFER"
  shows "\<exists>h'. test15 pl h = Some h' \<and> passes pl el h h'"
proof -
  define h0 where "h0 = say [puts ''\<newline>--- Test 15: Invalid Capability Rejection Before Domain Switch ---\<newline>''] h"
  have k: "keeps pl el h h0" by (simp add: keeps_refl h h0_def)
  let ?w = "entering DOMAIN_A SERVICE_CAMERA h0"
  note e = entering_ran [OF k domain_numbers(1), of SERVICE_CAMERA]
  have caps: "ks_capabilities (tr_kernel (ew_trap ?w)) = h_caps h" using e(2) by (simp add: ran_def keeps_defs)
  have "svc_validate LETTUCE_SVC_CALL fr (tr_kernel (ew_trap ?w)) = Inl LETTUCE_STATUS_CAPABILITY_DENIED"
    if "frame_message fr = \<lparr>msg_target_service_id = 20, msg_operation_id = 1, msg_resource_id = 1, msg_capability_handle = 0xdeadbeef\<rparr>" for fr
    using validate_display [OF entering_booted [OF k], of fr "0xdeadbeef"] that dead by (simp add: call_message_def caps)
  then have "run_camera pl (svc_camera_invalid_cap_call (el0_syms pl)) h0 = Some (ucast (status_code LETTUCE_STATUS_CAPABILITY_DENIED), ?w)"
    using enter_invalid_cap [OF pl e(1)] by (simp add: run_entering symbol_va)
  then show ?thesis using passes_log [OF ran_keeps [OF e(2)]] e(2)
    by (simp add: test15_def h0_def [symmetric] Let_def is_status_def at_camera_def ran_def)
qed

lemma register_entry_refused:
  assumes "keeps pl el h0 h" "sid \<in> {20, 30}"
  shows "register_entry pl sid 1 symbol h = h"
proof -
  have "dispatch_register_kernel sid 1 entry (tr_kernel (ew_trap h)) = tr_kernel (ew_trap h)" for entry
    by (rule booted_register_refused [OF image_mapped assms(2)]) (use assms(1) in \<open>simp add: keeps_defs harness_ok_def\<close>)
  then show ?thesis by (simp add: register_entry_def on_trap_def on_kernel_def)
qed

lemma camera_calls_display: "(4, 0, 20, 1, 1, 1) \<in> set camera_calls" "(14, 16, 40, 1, 2, 2) \<in> set camera_calls" "(15, 24, 40, 1, 2, 3) \<in> set camera_calls"
  and own_page_targets: "(0, 1, 0x200b0001200b0001) \<in> set own_page_services" "(2, 2, 0x300c0001300c0001) \<in> set own_page_services"
  by (simp_all add: camera_calls_def own_page_services_def)

text \<open>The run of the camera that calls the display, with the handle in the first word of the shared page.\<close>

lemma run_display_call:
  assumes pl: "platform_ok pl" and h: "keeps pl el h0 h" and pac: "g_pac_enabled (ew_trap h) \<Longrightarrow> pac_sound (pl_pac pl)"
    and hd: "ew_mem h (lay_shared (pl_layout pl)) = ucast handle"
  shows "check_call (h_caps h) handle SERVICE_DISPLAY LETTUCE_CAP_CALL RES_FRAMEBUFFER \<Longrightarrow>
      \<exists>h'. run_camera pl (svc_camera_call_display (el0_syms pl)) h = Some (0, h') \<and> ran pl el DOMAIN_A SERVICE_CAMERA h0 h' \<and>
        only_changes {private_frame (pl_layout pl) 0, private_frame (pl_layout pl) 1} h h'"
    and "\<not> check_call (h_caps h) handle SERVICE_DISPLAY LETTUCE_CAP_CALL RES_FRAMEBUFFER \<Longrightarrow>
      \<exists>h'. run_camera pl (svc_camera_call_display (el0_syms pl)) h = Some (1, h') \<and> ran pl el DOMAIN_A SERVICE_CAMERA h0 h' \<and>
        no_call {private_frame (pl_layout pl) 0} h h'"
proof -
  show "\<exists>h'. run_camera pl (svc_camera_call_display (el0_syms pl)) h = Some (0, h') \<and> ran pl el DOMAIN_A SERVICE_CAMERA h0 h' \<and>
        only_changes {private_frame (pl_layout pl) 0, private_frame (pl_layout pl) 1} h h'"
    if "check_call (h_caps h) handle SERVICE_DISPLAY LETTUCE_CAP_CALL RES_FRAMEBUFFER"
    by (rule run_call [OF pl h pac camera_calls_display(1) own_page_targets(1) _ symbol_va(5), of "camera_resolution 1 0"])
      (use that hd validate_display [of pl] resolution_target in simp_all)
  show "\<exists>h'. run_camera pl (svc_camera_call_display (el0_syms pl)) h = Some (1, h') \<and> ran pl el DOMAIN_A SERVICE_CAMERA h0 h' \<and>
        no_call {private_frame (pl_layout pl) 0} h h'"
    if "\<not> check_call (h_caps h) handle SERVICE_DISPLAY LETTUCE_CAP_CALL RES_FRAMEBUFFER"
    by (rule run_call_refused [OF pl h camera_calls_display(1) symbol_va(5), of "LETTUCE_STATUS_CAPABILITY_DENIED"])
      (use that hd validate_display [of pl] in simp_all)
qed

lemma created_check:
  assumes "cap_inv cs" "lettuce_capability_create SERVICE_CAMERA t 1 p r cs = (handle, cs')" "handle \<noteq> 0" "p \<noteq> 0"
  shows "check_call cs' handle t p r"
  using cap_store.create_then_check [OF assms(1-3)] assms(4) by simp

lemma with_caps_callers: "g_context_stack (ew_trap (with_caps cs h)) = g_context_stack (ew_trap h)"
  by (simp add: with_caps_def on_trap_def on_kernel_def)

text \<open>A test creates a capability and puts its handle into a word of the shared page.\<close>

lemma create_and_store:
  assumes pl: "platform_ok pl" and h: "harness_ok pl el h" and i: "i < 512"
    and c: "lettuce_capability_create ow t op p r (h_caps h) = (handle, cs)"
  shows "\<exists>h1 h2. with_kernel (capability_create_kernel ow t op p r) (say ps h) = (handle, h1) \<and> shared_word pl i handle h1 = Some h2 \<and>
    keeps pl el (with_caps cs h) h2 \<and> ew_mem h2 = (ew_mem h)(lay_shared (pl_layout pl) OR of_nat (8 * i) := ucast handle) \<and>
    g_context_stack (ew_trap h2) = g_context_stack (ew_trap h)"
proof -
  have k: "keeps pl el (with_caps cs h) (with_caps cs (say ps h))" by (rule keeps_caps) (simp add: keeps_refl h)
  show ?thesis using create_with_caps [of ow t op p r "say ps h" handle cs] c shared_word_store [OF pl k i] k by (simp add: with_caps_callers)
qed

lemma keeps_caps_facts: "keeps pl el (with_caps cs h) h2 \<Longrightarrow> h_caps h2 = cs \<and> g_pac_enabled (ew_trap h2) = g_pac_enabled (ew_trap h)"
  by (simp add: keeps_defs)

lemma test10_passes:
  assumes pl: "platform_ok pl" and h: "harness_ok pl el h" and pac: "g_pac_enabled (ew_trap h) \<Longrightarrow> pac_sound (pl_pac pl)"
    and caps: "cap_inv (h_caps h)" "lettuce_capability_create SERVICE_CAMERA SERVICE_DISPLAY OP_DRAW LETTUCE_CAP_CALL RES_FRAMEBUFFER (h_caps h) = (handle, cs)" "handle \<noteq> 0"
  shows "\<exists>h'. test10 pl h = Some (handle, h') \<and> passes pl el (with_caps cs h) h'"
proof -
  have i: "(0 :: nat) < 512" by simp
  obtain h1 h2 where c: "with_kernel (capability_create_kernel SERVICE_CAMERA SERVICE_DISPLAY OP_DRAW LETTUCE_CAP_CALL RES_FRAMEBUFFER)
        (say [puts ''\<newline>--- Test 10: Same-Layer EL0 Service Call ---\<newline>''] h) = (handle, h1)" "shared_word pl 0 handle h1 = Some h2"
      and k2: "keeps pl el (with_caps cs h) h2" and m: "ew_mem h2 = (ew_mem h)(lay_shared (pl_layout pl) OR of_nat (8 * 0) := ucast handle)"
    using create_and_store [OF pl h i caps(2)] by blast
  obtain h3 where r: "run_camera pl (svc_camera_call_display (el0_syms pl)) h2 = Some (0, h3)" "ran pl el DOMAIN_A SERVICE_CAMERA (with_caps cs h) h3"
    using run_display_call(1) [OF pl k2, of handle] created_check [OF caps] keeps_caps_facts [OF k2] pac by (auto simp: m)
  then show ?thesis using passes_log [OF ran_keeps [OF r(2)]]
    by (simp add: test10_def c Let_def status_ok at_camera_def ran_def)
qed

lemma test11_passes:
  assumes pl: "platform_ok pl" and h: "harness_ok pl el h" and pac: "g_pac_enabled (ew_trap h) \<Longrightarrow> pac_sound (pl_pac pl)"
    and caps: "cap_inv (h_caps h)" "lettuce_capability_create SERVICE_CAMERA SERVICE_FAILING OP_FAIL LETTUCE_CAP_CALL RES_FRAMEBUFFER (h_caps h) = (handle, cs)"
  shows "\<exists>h'. test11 pl h = Some h' \<and> passes pl el (with_caps cs h) h' \<and>
    no_call {private_frame (pl_layout pl) 0, lay_shared (pl_layout pl)} h h'"
proof -
  have i: "(0 :: nat) < 512" by simp
  obtain h1 h2 where c: "with_kernel (capability_create_kernel SERVICE_CAMERA SERVICE_FAILING OP_FAIL LETTUCE_CAP_CALL RES_FRAMEBUFFER)
        (say [puts ''\<newline>--- Test 11: Target Error Status Propagation ---\<newline>''] h) = (handle, h1)" "shared_word pl 0 handle h1 = Some h2"
      and k2: "keeps pl el (with_caps cs h) h2" and m: "ew_mem h2 = (ew_mem h)(lay_shared (pl_layout pl) OR of_nat (8 * 0) := ucast handle)"
      and cs: "g_context_stack (ew_trap h2) = g_context_stack (ew_trap h)"
    using create_and_store [OF pl h i caps(2)] by blast
  have "\<not> check_call cs handle SERVICE_DISPLAY LETTUCE_CAP_CALL RES_FRAMEBUFFER"
  proof (cases "handle = 0")
    case False
    show ?thesis using cap_store.create_then_check [OF caps False] by simp
  qed (simp add: check_eq_view cap_view_zero)
  then obtain h3 where r: "run_camera pl (svc_camera_call_display (el0_syms pl)) h2 = Some (1, h3)"
      "ran pl el DOMAIN_A SERVICE_CAMERA (with_caps cs h) h3" "no_call {private_frame (pl_layout pl) 0} h2 h3"
    using run_display_call(2) [OF pl k2, of handle] keeps_caps_facts [OF k2] pac by (auto simp: m)
  have reg: "register_entry pl SERVICE_DISPLAY OP_DRAW symbol h2 = h2" "register_entry pl SERVICE_DISPLAY OP_DRAW symbol h3 = h3" for symbol
    using register_entry_refused [OF k2] register_entry_refused [OF ran_keeps [OF r(2)]] by simp_all
  show ?thesis using passes_log [OF ran_keeps [OF r(2)]] r
    by (simp add: test11_def c reg Let_def status_ok at_camera_def ran_def)
      (simp add: no_call_def only_changes_def log_test_def log_pass_def Let_def m cs)
qed

lemma test12_passes:
  assumes pl: "platform_ok pl" and h: "harness_ok pl el h" and pac: "g_pac_enabled (ew_trap h) \<Longrightarrow> pac_sound (pl_pac pl)"
    and caps: "cap_inv (h_caps h)" "lettuce_capability_create SERVICE_DISPLAY SERVICE_STORAGE OP_SAVE LETTUCE_CAP_CALL RES_DISK (h_caps h) = (handle, cs)"
    and cap: "check_call (h_caps h) cap_cam_disp SERVICE_DISPLAY LETTUCE_CAP_CALL RES_FRAMEBUFFER" "cap_view (h_caps h) cap_cam_disp \<noteq> None"
  shows "\<exists>h'. test12 pl cap_cam_disp h = Some h' \<and> passes pl el (with_caps cs h) h' \<and>
    only_changes {private_frame (pl_layout pl) 0, private_frame (pl_layout pl) 1, lay_shared (pl_layout pl), lay_shared (pl_layout pl) OR 8} h h'"
proof -
  define h0 where "h0 = say [puts ''\<newline>--- Test 12: Nested EL0 Context Restoration ---\<newline>''] h"
  define h2 where "h2 = (with_caps cs h0)\<lparr>ew_mem := (ew_mem h)(lay_shared (pl_layout pl) := ucast cap_cam_disp)\<rparr>"
  define h3 where "h3 = h2\<lparr>ew_mem := (ew_mem h2)(lay_shared (pl_layout pl) OR 8 := ucast handle)\<rparr>"
  have k1: "keeps pl el (with_caps cs h) (with_caps cs h0)" by (rule keeps_caps) (simp add: keeps_refl h h0_def)
  have c: "with_kernel (capability_create_kernel SERVICE_DISPLAY SERVICE_STORAGE OP_SAVE LETTUCE_CAP_CALL RES_DISK) h0 = (handle, with_caps cs h0)"
    by (rule create_with_caps) (simp add: h0_def caps(2))
  have st: "shared_word pl 0 cap_cam_disp (with_caps cs h0) = Some h2" using shared_word_store [OF pl k1, of 0] by (simp add: h2_def h0_def)
  have k2: "keeps pl el (with_caps cs h) h2" by (simp add: h2_def k1)
  have st': "shared_word pl 1 handle h2 = Some h3" using shared_word_store [OF pl k2, of 1] by (simp add: h3_def)
  have k3: "keeps pl el (with_caps cs h) h3" by (simp add: h3_def k2)
  have reg: "register_entry pl SERVICE_DISPLAY OP_DRAW symbol h3 = h3" "register_entry pl SERVICE_STORAGE OP_SAVE symbol h3 = h3" for symbol
    using register_entry_refused [OF k3] by simp_all
  have "lay_shared (pl_layout pl) OR 8 \<noteq> lay_shared (pl_layout pl)"
    using frame_or_add [OF lay_frames(7) [OF platform_facts(1) [OF pl], of 0], of 8] by simp
  then have m: "ew_mem h3 (lay_shared (pl_layout pl)) = ucast cap_cam_disp" by (simp add: h3_def h2_def)
  obtain h4 where r: "run_camera pl (svc_camera_call_display (el0_syms pl)) h3 = Some (0, h4)"
      "ran pl el DOMAIN_A SERVICE_CAMERA (with_caps cs h) h4" "only_changes {private_frame (pl_layout pl) 0, private_frame (pl_layout pl) 1} h3 h4"
    using run_display_call(1) [OF pl k3 _ m] create_keeps_check(1) [OF caps(1) cap(2) caps(2)] cap(1) keeps_caps_facts [OF k3] pac by auto
  show ?thesis using passes_log [OF ran_keeps [OF r(2)]] r
    by (simp add: test12_def h0_def [symmetric] c st st' reg Let_def status_ok at_camera_def ran_def del: One_nat_def)
      (simp add: only_changes_def log_test_def log_pass_def Let_def h3_def h2_def h0_def)
qed

text \<open>The calls to the sensor, across layers and through the Elevator.\<close>

lemma run_sensor_call:
  assumes pl: "platform_ok pl" and h: "keeps pl el h0 h" and pac: "g_pac_enabled (ew_trap h) \<Longrightarrow> pac_sound (pl_pac pl)"
  shows "ew_mem h (lay_shared (pl_layout pl) OR 16) = ucast handle \<Longrightarrow> check_call (h_caps h) handle SERVICE_SENSOR LETTUCE_CAP_CALL RES_DISK \<Longrightarrow>
      \<exists>h'. run_camera pl (svc_camera_cross_layer_call (el0_syms pl)) h = Some (0, h') \<and> ran pl el DOMAIN_A SERVICE_CAMERA h0 h' \<and>
        only_changes {private_frame (pl_layout pl) 0, private_frame (pl_layout pl) 2} h h'"
    and "ew_mem h (lay_shared (pl_layout pl) OR 24) = ucast handle \<Longrightarrow>
      check_call (h_caps h) handle SERVICE_SENSOR (LETTUCE_CAP_CALL OR LETTUCE_CAP_CRITICAL) RES_DISK \<Longrightarrow>
      \<exists>h'. run_camera pl (svc_camera_elevator_call (el0_syms pl)) h = Some (0, h') \<and> ran pl el DOMAIN_A SERVICE_CAMERA h0 h' \<and>
        only_changes {private_frame (pl_layout pl) 0, private_frame (pl_layout pl) 2} h h'"
proof -
  have perm: "svc_permission LETTUCE_SVC_CROSS_LAYER = LETTUCE_CAP_CALL" "svc_permission LETTUCE_SVC_ELEVATOR = LETTUCE_CAP_CALL OR LETTUCE_CAP_CRITICAL"
    by (simp_all add: svc_permission_def)
  show "\<exists>h'. run_camera pl (svc_camera_cross_layer_call (el0_syms pl)) h = Some (0, h') \<and> ran pl el DOMAIN_A SERVICE_CAMERA h0 h' \<and>
        only_changes {private_frame (pl_layout pl) 0, private_frame (pl_layout pl) 2} h h'"
    if "ew_mem h (lay_shared (pl_layout pl) OR 16) = ucast handle" "check_call (h_caps h) handle SERVICE_SENSOR LETTUCE_CAP_CALL RES_DISK"
    using run_call [OF pl h pac camera_calls_display(2) own_page_targets(2) _ symbol_va(15), of "camera_resolution 3 2"] that
      validate_sensor [of pl _ _ handle LETTUCE_SVC_CROSS_LAYER] resolution_target by (auto simp: perm)
  show "\<exists>h'. run_camera pl (svc_camera_elevator_call (el0_syms pl)) h = Some (0, h') \<and> ran pl el DOMAIN_A SERVICE_CAMERA h0 h' \<and>
        only_changes {private_frame (pl_layout pl) 0, private_frame (pl_layout pl) 2} h h'"
    if "ew_mem h (lay_shared (pl_layout pl) OR 24) = ucast handle"
      "check_call (h_caps h) handle SERVICE_SENSOR (LETTUCE_CAP_CALL OR LETTUCE_CAP_CRITICAL) RES_DISK"
    using run_call [OF pl h pac camera_calls_display(3) own_page_targets(2) _ symbol_va(16), of "camera_resolution 3 2"] that
      validate_sensor [of pl _ _ handle LETTUCE_SVC_ELEVATOR] resolution_target by (auto simp: perm)
qed

lemma test16_passes:
  assumes pl: "platform_ok pl" and h: "harness_ok pl el h" and pac: "g_pac_enabled (ew_trap h) \<Longrightarrow> pac_sound (pl_pac pl)"
    and caps: "cap_inv (h_caps h)" "lettuce_capability_create SERVICE_CAMERA SERVICE_SENSOR OP_SAVE LETTUCE_CAP_CALL RES_DISK (h_caps h) = (handle, cs)" "handle \<noteq> 0"
  shows "\<exists>h'. test16 pl h = Some (handle, h') \<and> passes pl el (with_caps cs h) h'"
proof -
  have i: "(2 :: nat) < 512" by simp
  obtain h1 h2 where c: "with_kernel (capability_create_kernel SERVICE_CAMERA SERVICE_SENSOR OP_SAVE LETTUCE_CAP_CALL RES_DISK)
        (say [puts ''\<newline>--- Test 16: Cross-Layer Protected EL0 Call ---\<newline>''] h) = (handle, h1)" "shared_word pl 2 handle h1 = Some h2"
      and k2: "keeps pl el (with_caps cs h) h2" and m: "ew_mem h2 = (ew_mem h)(lay_shared (pl_layout pl) OR of_nat (8 * 2) := ucast handle)"
    using create_and_store [OF pl h i caps(2)] by blast
  obtain h3 where r: "run_camera pl (svc_camera_cross_layer_call (el0_syms pl)) h2 = Some (0, h3)" "ran pl el DOMAIN_A SERVICE_CAMERA (with_caps cs h) h3"
    using run_sensor_call(1) [OF pl k2, of handle] created_check [OF caps] keeps_caps_facts [OF k2] pac by (auto simp: m)
  then show ?thesis using passes_log [OF ran_keeps [OF r(2)]]
    by (simp add: test16_def c Let_def status_ok at_camera_def ran_def)
qed

lemma test17_passes:
  assumes pl: "platform_ok pl" and h: "harness_ok pl el h" and pac: "g_pac_enabled (ew_trap h) \<Longrightarrow> pac_sound (pl_pac pl)"
    and caps: "cap_inv (h_caps h)" "lettuce_capability_create SERVICE_CAMERA SERVICE_SENSOR OP_SAVE (LETTUCE_CAP_CALL OR LETTUCE_CAP_CRITICAL) RES_DISK (h_caps h) = (handle, cs)"
      "handle \<noteq> 0"
  shows "\<exists>h'. test17 pl h = Some (handle, h') \<and> passes pl el (with_caps cs h) h'"
proof -
  have i: "(3 :: nat) < 512" by simp
  obtain h1 h2 where c: "with_kernel (capability_create_kernel SERVICE_CAMERA SERVICE_SENSOR OP_SAVE (LETTUCE_CAP_CALL OR LETTUCE_CAP_CRITICAL) RES_DISK)
        (say [puts ''\<newline>--- Test 17: Elevator Protected Call ---\<newline>''] h) = (handle, h1)" "shared_word pl 3 handle h1 = Some h2"
      and k2: "keeps pl el (with_caps cs h) h2" and m: "ew_mem h2 = (ew_mem h)(lay_shared (pl_layout pl) OR of_nat (8 * 3) := ucast handle)"
    using create_and_store [OF pl h i caps(2)] by blast
  have p: "LETTUCE_CAP_CALL OR LETTUCE_CAP_CRITICAL \<noteq> (0 :: u32)" by simp
  obtain h3 where r: "run_camera pl (svc_camera_elevator_call (el0_syms pl)) h2 = Some (0, h3)" "ran pl el DOMAIN_A SERVICE_CAMERA (with_caps cs h) h3"
    using run_sensor_call(2) [OF pl k2, of handle] created_check [OF caps p] keeps_caps_facts [OF k2] pac by (auto simp: m)
  then show ?thesis using passes_log [OF ran_keeps [OF r(2)]] c
    by (simp add: test17_def Let_def status_ok at_camera_def ran_def)
qed

end
