(* ===== verification/El0_Isolation.thy ===== *)
theory El0_Isolation
  imports El0
begin

text \<open>
  Isolation of the protection domains while arbitrary code runs at EL0. A run is a sequence of instructions,
  of the exceptions they cause and of interrupts, any of which may change the current domain through a
  protected call, a return or the scheduler. The memory of this theory is what the instructions
  themselves load and store; the buffers of system calls, which the kernel accesses, are those of the theory of the POSIX layer.
\<close>

section \<open>Runs\<close>

inductive el0_runs ::
  "platform \<Rightarrow> domain_id list \<Rightarrow> LettuceTrapFrame \<Rightarrow> 'a el0_world_scheme \<Rightarrow> LettuceTrapFrame \<Rightarrow> 'a el0_world_scheme \<Rightarrow> bool"
  for pl :: platform where
  runs_end: "el0_runs pl [] fr w fr w"
| runs_step: "el0_step pl fr w = Running fr1 w1 \<Longrightarrow> el0_runs pl ds fr1 w1 fr' w' \<Longrightarrow>
    el0_runs pl (lettuce_mmu_current_domain (ew_mmu w) # ds) fr w fr' w'"
| runs_irq: "lettuce_arch_irq_lower_el_handler iar fr (ew_trap w) = (TrapReturn fr1, st) \<Longrightarrow>
    el0_runs pl ds fr1 (w\<lparr>ew_trap := st\<rparr>) fr' w' \<Longrightarrow> el0_runs pl ds fr w fr' w'"

inductive_cases el0_runs_endE: "el0_runs pl [] fr w fr' w'"
inductive_cases el0_runs_consE: "el0_runs pl (d # ds) fr w fr' w'"

fun outcome_world :: "'w el0_outcome \<Rightarrow> 'w" where
  "outcome_world (Running fr w) = w"
| "outcome_world (Resumed s w) = w"
| "outcome_world (Halted w) = w"

lemma irq_world:
  assumes "world_ok lay el st" "lettuce_arch_irq_lower_el_handler iar fr st = (e, st')"
  shows "world_ok lay el st'"
proof -
  have tick: "tr_mmu (timer_tick st) = tr_mmu st" "tr_kernel (timer_tick st) = tr_kernel st" by (simp_all add: timer_tick_def)
  have "(tr_mmu st' = tr_mmu st \<or> (\<exists>d. tr_mmu st' = snd (lettuce_mmu_enter d (tr_mmu st)))) \<and> ks_services (tr_kernel st') = ks_services (tr_kernel st)"
    using assms(2) tick
    by (auto simp: lettuce_arch_irq_lower_el_handler_def end_of_interrupt_def lettuce_scheduler_tick_def Let_def
        split: if_splits prod.splits trap_flow.splits dest!: do_schedule_world)
  moreover obtain m where "st' = st\<lparr>tr_machine := m\<rparr>" using irq_keeps_callers [OF assms(2)] by blast
  ultimately show ?thesis using machine_world [OF assms(1)] by simp
qed

section \<open>One instruction\<close>

lemma exception_outcome:
  assumes "world_ok lay el (ew_trap w)"
  shows "world_ok lay el (ew_trap (outcome_world (el0_exception pl esr far fr w)))"
    and "ew_mem (outcome_world (el0_exception pl esr far fr w)) = ew_mem w"
proof -
  obtain e st where h: "lettuce_arch_sync_lower_el_handler (pl_pac pl) (pl_counter pl) (pl_freq pl) esr far fr (ew_trap w) = (e, st)"
    by fastforce
  show "world_ok lay el (ew_trap (outcome_world (el0_exception pl esr far fr w)))"
    and "ew_mem (outcome_world (el0_exception pl esr far fr w)) = ew_mem w"
    using handler_world [OF assms h] by (cases e; simp add: el0_exception_def h)+
qed

lemma exec_outcome:
  assumes ok: "lay_ok (pl_layout pl)" and w: "world_ok (pl_layout pl) el (ew_trap w)" and d: "in_domain (pl_layout pl) el k (ew_mmu w)"
  shows "world_ok (pl_layout pl) el (ew_trap (outcome_world (el0_exec_instr pl i fr w))) \<and>
    (\<forall>pa. pa AND ADDR_MASK \<notin> set (writable_frames (pl_layout pl) k) \<longrightarrow> ew_mem (outcome_world (el0_exec_instr pl i fr w)) pa = ew_mem w pa)"
  using w exception_outcome [OF w] translate_frames(2) [OF ok d]
  by (cases i) (auto split: sum.split)

lemma step_outcome:
  assumes "lay_ok (pl_layout pl)" "world_ok (pl_layout pl) el (ew_trap w)" "in_domain (pl_layout pl) el k (ew_mmu w)"
  shows "world_ok (pl_layout pl) el (ew_trap (outcome_world (el0_step pl fr w))) \<and>
    (\<forall>pa. pa AND ADDR_MASK \<notin> set (writable_frames (pl_layout pl) k) \<longrightarrow> ew_mem (outcome_world (el0_step pl fr w)) pa = ew_mem w pa)"
  using exception_outcome [OF assms(2)] exec_outcome [OF assms]
  by (simp add: el0_step_def Let_def split: sum.split)

section \<open>Integrity\<close>

definition visited :: "domain_id list \<Rightarrow> nat set" where
  "visited ds = {k. \<exists>d \<in> set ds. domain_number d = Some k}"

lemma visited_Cons: "domain_number d = Some k \<Longrightarrow> visited (d # ds) = insert k (visited ds)"
  by (auto simp: visited_def)

lemma runs_frames:
  assumes "el0_runs pl ds fr w fr' w'" "lay_ok (pl_layout pl)" "world_ok (pl_layout pl) el (ew_trap w)"
  shows "world_ok (pl_layout pl) el (ew_trap w') \<and>
    (\<forall>pa. (\<forall>k \<in> visited ds. pa AND ADDR_MASK \<notin> set (writable_frames (pl_layout pl) k)) \<longrightarrow> ew_mem w' pa = ew_mem w pa)"
  using assms
proof (induction rule: el0_runs.induct)
  case (runs_step fr w fr1 w1 ds fr' w')
  obtain k where k: "in_domain (pl_layout pl) el k (ew_mmu w)" using world_ok_domain [OF runs_step.prems(2)] by blast
  then have v: "visited (lettuce_mmu_current_domain (ew_mmu w) # ds) = insert k (visited ds)"
    by (simp add: visited_Cons in_domain_def lettuce_mmu_current_domain_def)
  show ?case using step_outcome [OF runs_step.prems k, of fr] runs_step.IH [OF runs_step.prems(1)] runs_step.hyps(1) by (simp add: v)
next
  case (runs_irq iar fr w fr1 st ds fr' w')
  have "world_ok (pl_layout pl) el (ew_trap (w\<lparr>ew_trap := st\<rparr>))" using irq_world [OF runs_irq.prems(2) runs_irq.hyps(1)] by simp
  then show ?case using runs_irq.IH [OF runs_irq.prems(1)] by simp
qed simp

lemma writable_rights: "f \<in> set (writable_frames lay k) \<Longrightarrow> (f, True, False) \<in> set (el0_rights lay k)"
  by (auto simp: writable_frames_def el0_rights_def)

lemma private_not_writable:
  assumes "lay_ok lay" "j < 3" "k < 3" "j \<noteq> k"
  shows "private_frame lay j \<notin> set (writable_frames lay k)" "lay_stack lay j \<notin> set (writable_frames lay k)"
  using rights_apart(1) [OF assms(1,3) writable_rights assms(2,4)] by blast+

lemma kernel_not_writable:
  assumes "lay_ok lay" "k < 3" "f \<in> {lay_code lay, lay_ro lay} \<or> (\<exists>j < 3. f \<in> {lay_dev lay, lay_l1 lay j, lay_l2 lay j, lay_l3 lay j})"
  shows "f \<notin> set (writable_frames lay k)"
proof -
  have "f \<notin> set (writable_frames lay k)" if "j < 3" "f \<in> {lay_dev lay, lay_l1 lay j, lay_l2 lay j, lay_l3 lay j}" for j
    using rights_apart(2) [OF assms(1,2) writable_rights that(1)] that(2) by blast
  moreover have "f \<notin> set (writable_frames lay k)" if "f \<in> {lay_code lay, lay_ro lay}"
    using that page_eq_iff [OF assms(1)] page_not_literal [OF assms(1)] assms(2)
    by (auto simp: writable_frames_def private_frame_def lay_index split: if_splits)
  ultimately show ?thesis using assms(3) by blast
qed


section \<open>Confidentiality\<close>

definition agree :: "u64 set \<Rightarrow> (u64 \<Rightarrow> u64) \<Rightarrow> (u64 \<Rightarrow> u64) \<Rightarrow> bool" where
  "agree F m1 m2 \<longleftrightarrow> (\<forall>pa. pa AND ADDR_MASK \<in> F \<longrightarrow> m1 pa = m2 pa)"

lemma agree_update: "agree F m1 m2 \<Longrightarrow> agree F (m1(pa := v)) (m2(pa := v))"
  by (simp add: agree_def)

fun with_mem :: "'a el0_world_scheme el0_outcome \<Rightarrow> (u64 \<Rightarrow> u64) \<Rightarrow> 'a el0_world_scheme el0_outcome" where
  "with_mem (Running fr w) m = Running fr (w\<lparr>ew_mem := m\<rparr>)"
| "with_mem (Resumed s w) m = Resumed s (w\<lparr>ew_mem := m\<rparr>)"
| "with_mem (Halted w) m = Halted (w\<lparr>ew_mem := m\<rparr>)"

lemma exception_with_mem: "el0_exception pl esr far fr (w\<lparr>ew_mem := m\<rparr>) = with_mem (el0_exception pl esr far fr w) m"
  by (simp add: el0_exception_def split: prod.split trap_end.split)

lemma exec_agree:
  assumes ok: "lay_ok (pl_layout pl)" and w: "world_ok (pl_layout pl) el (ew_trap w)" and d: "in_domain (pl_layout pl) el k (ew_mmu w)"
    and F: "set (readable_frames (pl_layout pl) k) \<subseteq> F" and m: "agree F (ew_mem w) m"
  shows "\<exists>m'. el0_exec_instr pl i fr (w\<lparr>ew_mem := m\<rparr>) = with_mem (el0_exec_instr pl i fr w) m' \<and>
    agree F (ew_mem (outcome_world (el0_exec_instr pl i fr w))) m'"
proof -
  have rd: "m pa = ew_mem w pa" if "translate (pl_layout pl) (ew_mmu w) acc va = Inr pa" for acc va pa
    using translate_frames(1) [OF ok d that] F m by (auto simp: agree_def)
  have ex: "\<exists>m'. el0_exception pl esr far fr' (w\<lparr>ew_mem := m\<rparr>) = with_mem (el0_exception pl esr far fr' w) m' \<and>
      agree F (ew_mem (outcome_world (el0_exception pl esr far fr' w))) m'" for esr far fr'
    using m by (intro exI [of _ m]) (simp add: exception_with_mem exception_outcome(2) [OF w])
  note exI [of _ m, intro]
  show ?thesis
  proof (cases i)
    case (Ldr r a)
    then show ?thesis using ex rd m by (cases "translate (pl_layout pl) (ew_mmu w) Load (tf_x fr ! a)") auto
  next
    case (Str r a)
    then show ?thesis using ex agree_update [OF m]
      by (cases "translate (pl_layout pl) (ew_mmu w) Store (tf_x fr ! a)") auto
  qed (use ex m in auto)
qed

lemma step_agree:
  assumes ok: "lay_ok (pl_layout pl)" and w: "world_ok (pl_layout pl) el (ew_trap w)" and d: "in_domain (pl_layout pl) el k (ew_mmu w)"
    and F: "set (readable_frames (pl_layout pl) k) \<subseteq> F" and m: "agree F (ew_mem w) m"
  shows "\<exists>m'. el0_step pl fr (w\<lparr>ew_mem := m\<rparr>) = with_mem (el0_step pl fr w) m' \<and> agree F (ew_mem (outcome_world (el0_step pl fr w))) m'"
proof -
  have ex: "\<exists>m'. el0_exception pl esr far fr' (w\<lparr>ew_mem := m\<rparr>) = with_mem (el0_exception pl esr far fr' w) m' \<and>
      agree F (ew_mem (outcome_world (el0_exception pl esr far fr' w))) m'" for esr far fr'
    using m by (intro exI [of _ m]) (simp add: exception_with_mem exception_outcome(2) [OF w])
  show ?thesis
    using ex exec_agree [OF assms] by (cases "translate (pl_layout pl) (ew_mmu w) Fetch (tf_elr fr)") (simp_all add: el0_step_def Let_def)
qed


section \<open>A concrete run\<close>

text \<open>Domain A stores a word into its private page.\<close>

definition demo_start :: LettuceTrapFrame where
  "demo_start = \<lparr>tf_x = (replicate 30 0)[0 := 0x2a, 1 := region_va (private_page 0) 8], tf_lr = 0, tf_elr = region_va 80 0, tf_spsr = 0, tf_sp_el0 = 0\<rparr>"

lemma demo_run:
  "el0_runs (demo_platform [Str 0 1]) [DOMAIN_A] demo_start demo_world (next_pc demo_start) (demo_world\<lparr>ew_mem := (\<lambda>_. 0)(0x41000008 := 0x2a)\<rparr>)"
proof -
  have d: "lettuce_mmu_current_domain (ew_mmu demo_world) = DOMAIN_A"
    by (simp add: demo_world_def lettuce_mmu_current_domain_def lettuce_mmu_init_def mmu_boot_def Let_def)
  have pa: "private_frame demo_layout 0 OR of_nat 8 = 0x41000008" "lay_code demo_layout OR of_nat 0 = lay_code demo_layout" by code_simp+
  have t: "translate demo_layout (ew_mmu demo_world) Fetch (region_va 80 0) = Inr (lay_code demo_layout)"
      "translate demo_layout (ew_mmu demo_world) Store (region_va (private_page 0) 8) = Inr 0x41000008"
    using translate_pages(1) [OF demo_layout_ok demo_world_ok(2), of 0] translate_pages(3) [OF demo_layout_ok demo_world_ok(2), of 8 Store]
    by (simp_all add: pa [unfolded of_nat_numeral])
  have "el0_step (demo_platform [Str 0 1]) demo_start demo_world = Running (next_pc demo_start) (demo_world\<lparr>ew_mem := (\<lambda>_. 0)(0x41000008 := 0x2a)\<rparr>)"
    by (simp add: el0_step_def demo_start_def t Let_def del: One_nat_def) (simp add: demo_world_def)
  then show ?thesis using runs_step [OF _ runs_end] d by metis
qed



end
