(* ===== verification/Harness_Sequence.thy ===== *)
theory Harness_Sequence
  imports Harness_Results El0_Isolation
begin

text \<open>
  The on-target tests of the image as a sequence: tests 18, 19 and 23, the capabilities that the tests create and what each
  authorises, the run of tests 1 to 19 from a booted state, and the system calls of test 24 with what they print.
\<close>

section \<open>Tests 18, 19 and 23\<close>

lemma keeps_flag:
  assumes "keeps pl el h h1"
  shows "keeps pl el (on_trap (lettuce_pac_enable b) h) (on_trap (lettuce_pac_enable b) h1)"
    "keeps pl el (on_trap (lettuce_elevator_set_use_asm b) h) (on_trap (lettuce_elevator_set_use_asm b) h1)"
  using assms boot_reg_inv by (simp_all add: keeps_defs harness_ok_def on_trap_def lettuce_pac_enable_def lettuce_elevator_set_use_asm_def world_ok_def trap_ok_def)

lemma expected_trap_console [simp]: "g_pac_expected_trap (on_console ps st) = g_pac_expected_trap st"
  by (simp add: on_console_def)

lemma el1_pac_trap:
  assumes "g_pac_expected_trap st"
  shows "\<exists>fr ps qs. lettuce_arch_sync_el1_handler ESR_PAC_FAIL far frame st =
    (TrapReturn fr, (on_console qs (on_console ps st))\<lparr>g_pac_trap_observed := True, g_pac_expected_trap := False\<rparr>)"
proof -
  have ec: "drop_bit 26 ESR_PAC_FAIL AND 0x3f = 0x1c" by code_simp
  show ?thesis using assms by (simp add: lettuce_arch_sync_el1_handler_def ec Let_def) blast
qed

text \<open>A frame pushed and popped leaves the stack of callers empty again; the pop traps when authentication does.\<close>

lemma pac_trap_keeps:
  assumes h: "keeps pl el h0 h" and en: "g_pac_enabled (ew_trap h)"
    and f: "auth_faults (lettuce_pac_sign (pl_pac pl) 0x40081000 10 XOR 0x10) 10"
  defines "h3 \<equiv> on_trap lettuce_pac_expect_trap (on_trap (lettuce_arch_context_corrupt_top_elr 0x10)
      (on_trap (\<lambda>st. snd (lettuce_arch_context_push (pl_pac pl) SERVICE_CAMERA DOMAIN_A 0x40081000 0 0x41002000 st)) h))"
  shows "\<exists>st. context_pop_el1 (pl_pac pl) auth_faults el1_frame (ew_trap h3) = Some st \<and> keeps pl el h0 (on_trap (\<lambda>_. st) h3) \<and>
    lettuce_pac_trap_observed st"
proof -
  let ?st = "ew_trap h"
  define fr where "fr = \<lparr>cf_service_id = SERVICE_CAMERA, cf_domain_id = DOMAIN_A,
      cf_elr = lettuce_pac_sign (pl_pac pl) 0x40081000 10 XOR 0x10, cf_spsr = 0, cf_sp_el0 = 0x41002000\<rparr>"
  have dep: "g_context_stack_depth ?st = 0" and len: "length (g_context_stack ?st) = 8"
    using h by (simp_all add: keeps_defs harness_ok_def world_ok_def trap_ok_def LETTUCE_ARCH_CONTEXT_MAX_def)
  have st3: "ew_trap h3 = ?st\<lparr>g_context_stack := (g_context_stack ?st)[0 := fr], g_context_stack_depth := 1,
      g_pac_expected_trap := True, g_pac_trap_observed := False\<rparr>"
    using dep len en by (simp add: h3_def on_trap_def lettuce_arch_context_push_def LETTUCE_ARCH_CONTEXT_MAX_def lettuce_arch_context_corrupt_top_elr_def
        lettuce_pac_expect_trap_def Let_def fr_def)
  define st1 where "st1 = ?st\<lparr>g_context_stack := (g_context_stack ?st)[0 := fr], g_context_stack_depth := 0,
      g_pac_expected_trap := True, g_pac_trap_observed := False\<rparr>"
  have pop: "snd (lettuce_arch_context_pop (pl_pac pl) (ew_trap h3)) = st1" unfolding st3 st1_def by (simp add: lettuce_arch_context_pop_def Let_def)
  obtain frt ps qs where tr: "lettuce_arch_sync_el1_handler ESR_PAC_FAIL 0 el1_frame st1 =
      (TrapReturn frt, (on_console qs (on_console ps st1))\<lparr>g_pac_trap_observed := True, g_pac_expected_trap := False\<rparr>)"
    using el1_pac_trap [of st1 0 el1_frame] by (auto simp: st1_def)
  let ?st2 = "(on_console qs (on_console ps st1))\<lparr>g_pac_trap_observed := True, g_pac_expected_trap := False\<rparr>"
  have "context_pop_el1 (pl_pac pl) auth_faults el1_frame (ew_trap h3) = Some ?st2"
    unfolding context_pop_el1_def case_prod_unfold Let_def pop using tr f en len by (simp add: st3 fr_def)
  moreover have "keeps pl el h0 (on_trap (\<lambda>_. ?st2) h3)"
    using h dep boot_reg_inv by (simp add: keeps_defs harness_ok_def on_trap_def world_ok_def trap_ok_def h3_def st1_def)
  ultimately show ?thesis by (simp add: lettuce_pac_trap_observed_def)
qed

lemma test18_passes:
  assumes pl: "platform_ok pl" and h: "harness_ok pl el h" and off: "\<not> g_pac_enabled (ew_trap h)" and pac: "pac_sound (pl_pac pl)"
    and f: "auth_faults (lettuce_pac_sign (pl_pac pl) 0x40081000 10 XOR 0x10) 10"
    and cap: "check_call (h_caps h) cap_cam_disp SERVICE_DISPLAY LETTUCE_CAP_CALL RES_FRAMEBUFFER"
  shows "\<exists>h'. test18 pl auth_faults el1_frame cap_cam_disp h = Some h' \<and> passes pl el h h'"
proof -
  define h0 where "h0 = on_trap (lettuce_pac_enable True) (say [puts ''\<newline>--- Test 18: Pointer Authentication (PAC) Verification ---\<newline>''] h)"
  define hp where "hp = on_trap (lettuce_pac_enable True) h"
  define h1 where "h1 = h0\<lparr>ew_mem := (ew_mem h0)(lay_shared (pl_layout pl) := ucast cap_cam_disp)\<rparr>"
  have k0: "keeps pl el hp h0" unfolding h0_def hp_def by (rule keeps_flag) (simp add: keeps_refl h)
  have st: "shared_word pl 0 cap_cam_disp h0 = Some h1" using shared_word_store [OF pl k0, of 0] by (simp add: h1_def)
  have k1: "keeps pl el hp h1" by (simp add: h1_def k0)
  have reg: "register_entry pl SERVICE_DISPLAY OP_DRAW symbol h1 = h1" for symbol using register_entry_refused [OF k1] by simp
  have c: "h_caps h1 = h_caps h" using k1 by (simp add: keeps_defs hp_def on_trap_def lettuce_pac_enable_def)
  obtain h2 where r: "run_camera pl (svc_camera_call_display (el0_syms pl)) h1 = Some (0, h2)" "ran pl el DOMAIN_A SERVICE_CAMERA hp h2"
    using run_display_call(1) [OF pl k1 pac, of cap_cam_disp] cap by (auto simp: h1_def [symmetric] c) (auto simp: h1_def)
  let ?h3 = "on_trap lettuce_pac_expect_trap (on_trap (lettuce_arch_context_corrupt_top_elr 0x10)
      (on_trap (\<lambda>st. snd (lettuce_arch_context_push (pl_pac pl) SERVICE_CAMERA DOMAIN_A 0x40081000 0 0x41002000 st)) h2))"
  have en: "g_pac_enabled (ew_trap h2)" using r(2) by (simp add: ran_def keeps_defs hp_def on_trap_def lettuce_pac_enable_def)
  obtain st where t: "context_pop_el1 (pl_pac pl) auth_faults el1_frame (ew_trap ?h3) = Some st" "keeps pl el hp (on_trap (\<lambda>_. st) ?h3)"
      "lettuce_pac_trap_observed st"
    using pac_trap_keeps [OF ran_keeps [OF r(2)] en, where auth_faults = auth_faults] f by blast
  have "keeps pl el h (on_trap (lettuce_pac_enable False) (on_trap (\<lambda>_. st) ?h3))"
    using keeps_flag(1) [OF t(2), of False] off by (simp add: hp_def on_trap_def lettuce_pac_enable_def keeps_defs)
  from passes_log [OF this] show ?thesis using t(1,3) r
    by (simp add: test18_def h0_def [symmetric] st reg Let_def status_ok at_camera_def ran_def) (simp add: on_trap_def)
qed

lemma test19_passes:
  assumes "harness_ok pl el h" "lettuce_arch_has_pac (id_aa64isar1 ids)"
  shows "passes pl el h (test19 ids h)"
  using passes_log [of pl el h "say _ (say _ h)"] assms by (simp add: test19_def Let_def keeps_refl)

lemma test23_passes:
  assumes pl: "platform_ok pl" and h: "harness_ok pl el h" and pac: "g_pac_enabled (ew_trap h) \<Longrightarrow> pac_sound (pl_pac pl)"
    and cap: "check_call (h_caps h) cap_cam_elev SERVICE_SENSOR (LETTUCE_CAP_CALL OR LETTUCE_CAP_CRITICAL) RES_DISK"
  shows "\<exists>h'. test23 pl cap_cam_elev h = Some h' \<and> passes pl el (on_trap (lettuce_elevator_set_use_asm True) h) h'"
proof -
  define put where "put h = h\<lparr>ew_mem := (ew_mem h)(lay_shared (pl_layout pl) OR 24 := ucast cap_cam_elev)\<rparr>" for h :: harness_state
  define asm where "asm b = on_trap (lettuce_elevator_set_use_asm b)" for b
  define h0 where "h0 = say [puts ''\<newline>--- Test 23: Elevator Assembly Fast Path vs Reference Path ---\<newline>''] h"
  have store: "shared_word pl 3 cap_cam_elev h1 = Some (put h1)" if "keeps pl el g h1" for g h1
    using shared_word_store [OF pl that, of 3] by (simp add: put_def)
  have asm: "h_caps (asm b h1) = h_caps h1" "g_pac_enabled (ew_trap (asm b h1)) = g_pac_enabled (ew_trap h1)" "ew_mem (asm b h1) = ew_mem h1"
      "asm b (asm c h1) = asm b h1" for b c h1
    by (simp_all add: asm_def on_trap_def lettuce_elevator_set_use_asm_def)
  have run: "\<exists>h2. run_camera pl (svc_camera_elevator_call (el0_syms pl)) (asm b (put h1)) = Some (0, h2) \<and> ran pl el DOMAIN_A SERVICE_CAMERA (asm b h) h2"
    if "keeps pl el (asm c h) h1" for b c h1
  proof -
    have "keeps pl el (asm c h) (put h1)" using that by (simp add: put_def)
    then have k: "keeps pl el (asm b h) (asm b (put h1))" using keeps_flag(2) [of pl el "asm c h" "put h1" b] asm(4) by (simp add: asm_def)
    have "h_caps (asm b (put h1)) = h_caps h" "g_pac_enabled (ew_trap (asm b (put h1))) = g_pac_enabled (ew_trap h)"
      using k by (simp_all add: keeps_defs asm)
    then show ?thesis using run_sensor_call(2) [OF pl k, of cap_cam_elev] pac cap by (simp add: asm) (auto simp: put_def)
  qed
  have k0: "keeps pl el (asm (g_elevator_use_asm (ew_trap h)) h) h0" 
    by (simp add: h0_def keeps_refl h asm_def on_trap_def lettuce_elevator_set_use_asm_def)
  obtain h1 where r1: "run_camera pl (svc_camera_elevator_call (el0_syms pl)) (asm False (put h0)) = Some (0, h1)" "ran pl el DOMAIN_A SERVICE_CAMERA (asm False h) h1"
    using run [OF k0] by blast
  obtain h2 where r2: "run_camera pl (svc_camera_elevator_call (el0_syms pl)) (asm True (put h1)) = Some (0, h2)" "ran pl el DOMAIN_A SERVICE_CAMERA (asm True h) h2"
    using run [OF ran_keeps [OF r1(2)]] by blast
  have st: "shared_word pl 3 cap_cam_elev h0 = Some (put h0)" "shared_word pl 3 cap_cam_elev h1 = Some (put h1)"
    using store [OF k0] store [OF ran_keeps [OF r1(2)]] by simp_all
  show ?thesis using passes_log [OF ran_keeps [OF r2(2)]] r1(1) r2 st
    by (simp add: test23_def h0_def [symmetric] asm_def [symmetric] Let_def status_ok at_camera_def ran_def)
qed

section \<open>The sequence\<close>

text \<open>Creating succeeds while slots are free, and a handle outside the table never authorises.\<close>

lemma create_next:
  assumes "cap_inv cs" "Suc n \<le> unat (free_slot_count cs)"
    "cap_valid \<lparr>cap_owner = ow, cap_target = t, cap_operation = op, cap_resource = r, cap_permissions = p\<rparr>"
  shows "\<exists>handle cs'. lettuce_capability_create ow t op p r cs = (handle, cs') \<and> handle \<noteq> 0 \<and> cap_inv cs' \<and> n \<le> unat (free_slot_count cs')"
proof -
  have nz: "free_slot_count cs \<noteq> 0" using assms(2) by auto
  have "free_slot_count (snd (lettuce_capability_create ow t op p r cs)) = free_slot_count cs - 1"
    using nz assms(3) by (simp add: lettuce_capability_create_def cap_valid_def Let_def)
  then have "n \<le> unat (free_slot_count (snd (lettuce_capability_create ow t op p r cs)))"
    using assms(2) nz by (simp add: unat_minus_one)
  then show ?thesis using create_handle_nonzero [OF assms(1) nz assms(3)] cap_inv_create [OF assms(1), of ow t op p r] by (metis prod.collapse)
qed

lemma dead_handle: "\<not> lettuce_capability_check cs cur 0xdeadbeef t op p r"
proof -
  have "handle_slot 0xdeadbeef = 0xbeef" by code_simp
  then have "decode_handle 0xdeadbeef = None" by (simp add: decode_handle_def LETTUCE_CAPABILITY_TABLE_SIZE_def Let_def)
  then show ?thesis by (simp add: lettuce_capability_check_def)
qed

lemma passes_facts:
  assumes "passes pl el h h'"
  shows "harness_ok pl el h'" "h_caps h' = h_caps h" "g_pac_enabled (ew_trap h') = g_pac_enabled (ew_trap h)"
    "g_tests_passed h' = g_tests_passed h + 1" "g_tests_failed h' = g_tests_failed h"
  using assms by (simp_all add: passes_def keeps_defs)

text \<open>Tests that leave the capabilities alone, one after the other.\<close>

definition passes_n :: "platform \<Rightarrow> u64 \<Rightarrow> u32 \<Rightarrow> harness_state \<Rightarrow> harness_state \<Rightarrow> bool" where
  "passes_n pl el n h h' \<longleftrightarrow> keeps pl el (h\<lparr>g_tests_passed := g_tests_passed h + n\<rparr>) h'"

lemma passes_n_Suc:
  assumes "passes_n pl el n h h1" "passes pl el h1 h2"
  shows "passes_n pl el (n + 1) h h2"
  using assms by (simp add: passes_n_def passes_def keeps_defs add.assoc)

lemma passes_n_0: "harness_ok pl el h \<Longrightarrow> passes_n pl el 0 h h"
  by (simp add: passes_n_def keeps_refl)

lemma passes_n_ok: "passes_n pl el n h h1 \<Longrightarrow> harness_ok pl el h1"
  by (simp add: passes_n_def keeps_defs)

lemma passes_n_facts:
  assumes "passes_n pl el n h h'"
  shows "harness_ok pl el h'" "h_caps h' = h_caps h" "g_pac_enabled (ew_trap h') = g_pac_enabled (ew_trap h)"
    "g_tests_passed h' = g_tests_passed h + n" "g_tests_failed h' = g_tests_failed h"
  using assms by (simp_all add: passes_n_def keeps_defs)

lemma passes_n_next:
  assumes "passes_n pl el n h h1" "harness_ok pl el h1 \<Longrightarrow> \<exists>h2. r = Some h2 \<and> passes pl el h1 h2"
  shows "\<exists>h2. r = Some h2 \<and> passes_n pl el (n + 1) h h2"
  using assms(2) [OF passes_n_ok [OF assms(1)]] passes_n_Suc [OF assms(1)] by blast

lemma tests_1_to_9:
  assumes pl: "platform_ok pl" and h: "harness_ok pl el h"
  shows "\<exists>h'. do { h \<leftarrow> test1 pl h; h \<leftarrow> test2 pl h; h \<leftarrow> test3 pl h; h \<leftarrow> test4 pl h; h \<leftarrow> test5 pl h; h \<leftarrow> test6 pl h; h \<leftarrow> test7 pl h;
      h \<leftarrow> test8 pl h; test9 pl h } = Some h' \<and> passes_n pl el 9 h h'"
proof -
  obtain h1 where 1: "test1 pl h = Some h1" "passes_n pl el (0 + 1) h h1"
    using passes_n_next [OF passes_n_0 [OF h] test1_passes [OF pl]] by blast
  obtain h2 where 2: "test2 pl h1 = Some h2" "passes_n pl el (0 + 1 + 1) h h2"
    using passes_n_next [OF 1(2) test2_passes [OF pl]] by blast
  obtain h3 where 3: "test3 pl h2 = Some h3" "passes_n pl el (0 + 1 + 1 + 1) h h3"
    using passes_n_next [OF 2(2) test3_passes [OF pl]] by blast
  obtain h4 where 4: "test4 pl h3 = Some h4" "passes_n pl el (0 + 1 + 1 + 1 + 1) h h4"
    using passes_n_next [OF 3(2) test4_passes [OF pl]] by blast
  obtain h5 where 5: "test5 pl h4 = Some h5" "passes_n pl el (0 + 1 + 1 + 1 + 1 + 1) h h5"
    using passes_n_next [OF 4(2) test5_passes [OF pl]] by blast
  obtain h6 where 6: "test6 pl h5 = Some h6" "passes_n pl el (0 + 1 + 1 + 1 + 1 + 1 + 1) h h6"
    using passes_n_next [OF 5(2) test6_passes [OF pl]] by blast
  obtain h7 where 7: "test7 pl h6 = Some h7" "passes_n pl el (0 + 1 + 1 + 1 + 1 + 1 + 1 + 1) h h7"
    using passes_n_next [OF 6(2) test7_passes [OF pl]] by blast
  obtain h8 where 8: "test8 pl h7 = Some h8" "passes_n pl el (0 + 1 + 1 + 1 + 1 + 1 + 1 + 1 + 1) h h8"
    using passes_n_next [OF 7(2) test8_passes [OF pl]] by blast
  obtain h9 where 9: "test9 pl h8 = Some h9" "passes_n pl el (0 + 1 + 1 + 1 + 1 + 1 + 1 + 1 + 1 + 1) h h9"
    using passes_n_next [OF 8(2) test9_passes [OF pl]] by blast
  have nine: "(0 + 1 + 1 + 1 + 1 + 1 + 1 + 1 + 1 + 1 :: u32) = 9" by simp
  show ?thesis using 1(1) 2(1) 3(1) 4(1) 5(1) 6(1) 7(1) 8(1) 9 unfolding nine by simp
qed

text \<open>The five capabilities that tests 10, 11, 12, 16 and 17 create, and what their handles authorise.\<close>

definition test_caps :: "capability_state \<Rightarrow> (u32 \<times> capability_state) list" where
  "test_caps s0 =
     (let r1 = lettuce_capability_create SERVICE_CAMERA SERVICE_DISPLAY OP_DRAW LETTUCE_CAP_CALL RES_FRAMEBUFFER s0;
          r2 = lettuce_capability_create SERVICE_CAMERA SERVICE_FAILING OP_FAIL LETTUCE_CAP_CALL RES_FRAMEBUFFER (snd r1);
          r3 = lettuce_capability_create SERVICE_DISPLAY SERVICE_STORAGE OP_SAVE LETTUCE_CAP_CALL RES_DISK (snd r2);
          r4 = lettuce_capability_create SERVICE_CAMERA SERVICE_SENSOR OP_SAVE LETTUCE_CAP_CALL RES_DISK (snd r3);
          r5 = lettuce_capability_create SERVICE_CAMERA SERVICE_SENSOR OP_SAVE (LETTUCE_CAP_CALL OR LETTUCE_CAP_CRITICAL) RES_DISK (snd r4)
      in [r1, r2, r3, r4, r5])"

lemma test_caps_facts:
  assumes inv: "cap_inv s0" and free: "5 \<le> unat (free_slot_count s0)" and r: "test_caps s0 = [(c1, s1), (c2, s2), (c3, s3), (c4, s4), (c5, s5)]"
  shows "c1 \<noteq> 0" "c4 \<noteq> 0" "c5 \<noteq> 0" "cap_inv s1" "cap_inv s2" "cap_inv s3" "cap_inv s4"
    "check_call s2 c1 SERVICE_DISPLAY LETTUCE_CAP_CALL RES_FRAMEBUFFER" "cap_view s2 c1 \<noteq> None"
    "check_call s5 c1 SERVICE_DISPLAY LETTUCE_CAP_CALL RES_FRAMEBUFFER"
    "check_call s5 c5 SERVICE_SENSOR (LETTUCE_CAP_CALL OR LETTUCE_CAP_CRITICAL) RES_DISK"
    "check_call s5 c4 SERVICE_SENSOR LETTUCE_CAP_CALL RES_DISK"
proof -
  have c: "lettuce_capability_create 10 20 1 LETTUCE_CAP_CALL 1 s0 = (c1, s1)" "lettuce_capability_create 10 99 1 LETTUCE_CAP_CALL 1 s1 = (c2, s2)"
      "lettuce_capability_create 20 30 1 LETTUCE_CAP_CALL 2 s2 = (c3, s3)" "lettuce_capability_create 10 40 1 LETTUCE_CAP_CALL 2 s3 = (c4, s4)"
      "lettuce_capability_create 10 40 1 (LETTUCE_CAP_CALL OR LETTUCE_CAP_CRITICAL) 2 s4 = (c5, s5)"
    using r by (auto simp: test_caps_def Let_def)
  have valid: "cap_valid \<lparr>cap_owner = ow, cap_target = t, cap_operation = 1, cap_resource = r, cap_permissions = p\<rparr>"
    if "ow \<in> {10, 20}" "t \<in> {20, 99, 30, 40}" "r \<in> {1, 2}" "p \<in> {LETTUCE_CAP_CALL, LETTUCE_CAP_CALL OR LETTUCE_CAP_CRITICAL}" for ow t r p
    using that by (auto simp: cap_valid_def LETTUCE_CAPABILITY_KNOWN_PERMISSIONS_def)
  have 1: "c1 \<noteq> 0 \<and> cap_inv s1 \<and> 4 \<le> unat (free_slot_count s1)"
    using create_next [OF inv, of 4 10 20 1 1 LETTUCE_CAP_CALL] free valid c(1) by auto
  have 2: "c2 \<noteq> 0 \<and> cap_inv s2 \<and> 3 \<le> unat (free_slot_count s2)"
    using create_next [of s1 3 10 99 1 1 LETTUCE_CAP_CALL] 1 valid c(2) by auto
  have 3: "c3 \<noteq> 0 \<and> cap_inv s3 \<and> 2 \<le> unat (free_slot_count s3)"
    using create_next [of s2 2 20 30 1 2 LETTUCE_CAP_CALL] 2 valid c(3) by auto
  have 4: "c4 \<noteq> 0 \<and> cap_inv s4 \<and> 1 \<le> unat (free_slot_count s4)"
    using create_next [of s3 1 10 40 1 2 LETTUCE_CAP_CALL] 3 valid c(4) by auto
  have 5: "c5 \<noteq> 0" using create_next [of s4 0 10 40 1 2 "LETTUCE_CAP_CALL OR LETTUCE_CAP_CRITICAL"] 4 valid c(5) by auto
  show "c1 \<noteq> 0" "c4 \<noteq> 0" "c5 \<noteq> 0" "cap_inv s1" "cap_inv s2" "cap_inv s3" "cap_inv s4" using 1 2 3 4 5 by simp_all
  have live: "cap_view s1 c1 \<noteq> None" using cap_view_create(2) [OF c(1) _ inv] 1 by simp
  note k2 = create_keeps_check [OF \<open>cap_inv s1\<close> live c(2)]
  note k3 = create_keeps_check [OF \<open>cap_inv s2\<close> k2(2) c(3)]
  note k4 = create_keeps_check [OF \<open>cap_inv s3\<close> k3(2) c(4)]
  note k5 = create_keeps_check [OF \<open>cap_inv s4\<close> k4(2) c(5)]
  have chk: "check_call s1 c1 20 LETTUCE_CAP_CALL 1" by (rule created_check [OF inv c(1)]) (use 1 in simp_all)
  show "check_call s2 c1 SERVICE_DISPLAY LETTUCE_CAP_CALL RES_FRAMEBUFFER" "cap_view s2 c1 \<noteq> None"
    "check_call s5 c1 SERVICE_DISPLAY LETTUCE_CAP_CALL RES_FRAMEBUFFER"
    using chk k2 k3(1) k4(1) k5(1) by simp_all
  show "check_call s5 c5 SERVICE_SENSOR (LETTUCE_CAP_CALL OR LETTUCE_CAP_CRITICAL) RES_DISK"
    by (rule created_check [OF \<open>cap_inv s4\<close> c(5) \<open>c5 \<noteq> 0\<close>]) simp
  have live4: "cap_view s4 c4 \<noteq> None" using cap_view_create(2) [OF c(4) _ \<open>cap_inv s3\<close>] 4 by simp
  have "check_call s4 c4 40 LETTUCE_CAP_CALL 2" by (rule created_check [OF \<open>cap_inv s3\<close> c(4)]) (use 4 in simp_all)
  then show "check_call s5 c4 SERVICE_SENSOR LETTUCE_CAP_CALL RES_DISK" using create_keeps_check(1) [OF \<open>cap_inv s4\<close> live4 c(5)] by simp
qed

text \<open>The handles that are used again: for the display, for the sensor and for the Elevator.\<close>

definition handles_ok :: "capability_state \<Rightarrow> u32 \<Rightarrow> u32 \<Rightarrow> u32 \<Rightarrow> bool" where
  "handles_ok cs cap_cam_disp cap_cam_sensor cap_cam_elev \<longleftrightarrow> check_call cs cap_cam_disp SERVICE_DISPLAY LETTUCE_CAP_CALL RES_FRAMEBUFFER \<and>
     check_call cs cap_cam_sensor SERVICE_SENSOR LETTUCE_CAP_CALL RES_DISK \<and>
     check_call cs cap_cam_elev SERVICE_SENSOR (LETTUCE_CAP_CALL OR LETTUCE_CAP_CRITICAL) RES_DISK"

lemma passes_n_caps:
  assumes "passes_n pl el n (with_caps s h) h1" "passes pl el (with_caps s' h1) h2"
  shows "passes_n pl el (n + 1) (with_caps s' h) h2"
  using assms by (simp add: passes_n_def passes_def keeps_defs add.assoc)

lemma tests_10_to_17:
  assumes pl: "platform_ok pl" and h: "harness_ok pl el h" and pac: "pac_sound (pl_pac pl)"
    and inv: "cap_inv (h_caps h)" and free: "5 \<le> unat (free_slot_count (h_caps h))"
    and r: "test_caps (h_caps h) = [(c1, s1), (c2, s2), (c3, s3), (c4, s4), (c5, s5)]"
  shows "\<exists>h'. do { (cap_cam_disp, h) \<leftarrow> test10 pl h; h \<leftarrow> test11 pl h; h \<leftarrow> test12 pl cap_cam_disp h; h \<leftarrow> test13 pl h; let h = test14 h;
      h \<leftarrow> test15 pl h; (cap_cam_sensor, h) \<leftarrow> test16 pl h; (cap_cam_elev, h) \<leftarrow> test17 pl h;
      Some (cap_cam_disp, cap_cam_sensor, cap_cam_elev, h) } = Some (c1, c4, c5, h') \<and>
    passes_n pl el 8 (with_caps s5 h) h'"
proof -
  note f = test_caps_facts [OF inv free r]
  have c: "lettuce_capability_create 10 20 1 LETTUCE_CAP_CALL 1 (h_caps h) = (c1, s1)" "lettuce_capability_create 10 99 1 LETTUCE_CAP_CALL 1 s1 = (c2, s2)"
      "lettuce_capability_create 20 30 1 LETTUCE_CAP_CALL 2 s2 = (c3, s3)" "lettuce_capability_create 10 40 1 LETTUCE_CAP_CALL 2 s3 = (c4, s4)"
      "lettuce_capability_create 10 40 1 (LETTUCE_CAP_CALL OR LETTUCE_CAP_CRITICAL) 2 s4 = (c5, s5)"
    using r by (auto simp: test_caps_def Let_def)
  have p0: "passes_n pl el 0 (with_caps (h_caps h) h) h" using h by (simp add: passes_n_def keeps_defs)
  obtain h1 where h1: "test10 pl h = Some (c1, h1)" "passes pl el (with_caps s1 h) h1" using test10_passes [OF pl h pac inv c(1) f(1)] by blast
  note p1 = passes_n_caps [OF p0 h1(2)] and g1 = passes_facts [OF h1(2)]
  obtain h2 where h2: "test11 pl h1 = Some h2" "passes pl el (with_caps s2 h1) h2" using test11_passes [OF pl g1(1) pac, of c2 s2] c(2) f(4) g1(2) by auto
  note p2 = passes_n_caps [OF p1 h2(2)] and g2 = passes_facts [OF h2(2)]
  obtain h3 where h3: "test12 pl c1 h2 = Some h3" "passes pl el (with_caps s3 h2) h3"
    using test12_passes [OF pl g2(1) pac, of c3 s3 c1] c(3) f(5,8,9) g2(2) by auto
  note p3 = passes_n_caps [OF p2 h3(2)] and g3 = passes_facts [OF h3(2)]
  obtain h4 where h4: "test13 pl h3 = Some h4" "passes pl el h3 h4" using test13_passes [OF pl g3(1)] by blast
  note p4 = passes_n_Suc [OF p3 h4(2)] and g4 = passes_facts [OF h4(2)]
  have h5: "passes pl el h4 (test14 h4)" by (rule test14_passes [OF g4(1)])
  note p5 = passes_n_Suc [OF p4 h5] and g5 = passes_facts [OF h5]
  obtain h6 where h6: "test15 pl (test14 h4) = Some h6" "passes pl el (test14 h4) h6" using test15_passes [OF pl g5(1) dead_handle] by blast
  note p6 = passes_n_Suc [OF p5 h6(2)] and g6 = passes_facts [OF h6(2)]
  have caps6: "h_caps h6 = s3" using g3(2) g4(2) g5(2) g6(2) by simp
  obtain h7 where h7: "test16 pl h6 = Some (c4, h7)" "passes pl el (with_caps s4 h6) h7"
    using test16_passes [OF pl g6(1) pac, of c4 s4] c(4) f(2,6) by (auto simp: caps6)
  note p7 = passes_n_caps [OF p6 h7(2)] and g7 = passes_facts [OF h7(2)]
  obtain h8 where h8: "test17 pl h7 = Some (c5, h8)" "passes pl el (with_caps s5 h7) h8"
    using test17_passes [OF pl g7(1) pac, of c5 s5] c(5) f(3,7) g7(2) by auto
  have eight: "(0 + 1 + 1 + 1 + 1 + 1 + 1 + 1 + 1 :: u32) = 8" by simp
  show ?thesis using h1(1) h2(1) h3(1) h4(1) h6(1) h7(1) h8(1) passes_n_caps [OF p7 h8(2)] unfolding eight by simp
qed

lemma foundation_tests_split:
  "foundation_tests pl auth_faults el1_frame ids h = do {
     h \<leftarrow> do { h \<leftarrow> test1 pl h; h \<leftarrow> test2 pl h; h \<leftarrow> test3 pl h; h \<leftarrow> test4 pl h; h \<leftarrow> test5 pl h; h \<leftarrow> test6 pl h; h \<leftarrow> test7 pl h;
       h \<leftarrow> test8 pl h; test9 pl h };
     (c, s, e, h) \<leftarrow> do { (cap_cam_disp, h) \<leftarrow> test10 pl h; h \<leftarrow> test11 pl h; h \<leftarrow> test12 pl cap_cam_disp h; h \<leftarrow> test13 pl h; let h = test14 h;
       h \<leftarrow> test15 pl h; (cap_cam_sensor, h) \<leftarrow> test16 pl h; (cap_cam_elev, h) \<leftarrow> test17 pl h;
      Some (cap_cam_disp, cap_cam_sensor, cap_cam_elev, h) };
     h \<leftarrow> test18 pl auth_faults el1_frame c h;
     Some (c, s, e, test19 ids h) }"
  by (simp add: foundation_tests_def Let_def case_prod_unfold bind_assoc)

text \<open>Tests 1 to 19, from any state in which the kernel is booted, no protected call is open and five capability slots are free.\<close>

lemma foundation_tests_run:
  assumes pl: "platform_ok pl" and h: "harness_ok pl el h" and off: "\<not> lettuce_pac_is_enabled (ew_trap h)" and pac: "pac_sound (pl_pac pl)"
    and f: "auth_faults (lettuce_pac_sign (pl_pac pl) 0x40081000 10 XOR 0x10) 10"
    and inv: "cap_inv (h_caps h)" and free: "5 \<le> unat (free_slot_count (h_caps h))" and isar: "lettuce_arch_has_pac (id_aa64isar1 ids)"
  shows "\<exists>cap_cam_disp cap_cam_sensor cap_cam_elev h'. foundation_tests pl auth_faults el1_frame ids h = Some (cap_cam_disp, cap_cam_sensor, cap_cam_elev, h') \<and>
    g_tests_passed h' = g_tests_passed h + 19 \<and> g_tests_failed h' = g_tests_failed h \<and> harness_ok pl el h' \<and> quiet h h' \<and>
    g_pac_enabled (ew_trap h') = g_pac_enabled (ew_trap h) \<and> handles_ok (h_caps h') cap_cam_disp cap_cam_sensor cap_cam_elev"
proof -
  obtain h9 where 9: "do { h \<leftarrow> test1 pl h; h \<leftarrow> test2 pl h; h \<leftarrow> test3 pl h; h \<leftarrow> test4 pl h; h \<leftarrow> test5 pl h; h \<leftarrow> test6 pl h; h \<leftarrow> test7 pl h;
       h \<leftarrow> test8 pl h; test9 pl h } = Some h9" "passes_n pl el 9 h h9"
    using tests_1_to_9 [OF pl h] by blast
  note g9 = passes_n_facts [OF 9(2)]
  obtain c1 s1 c2 s2 c3 s3 c4 s4 c5 s5 where r: "test_caps (h_caps h9) = [(c1, s1), (c2, s2), (c3, s3), (c4, s4), (c5, s5)]"
    unfolding test_caps_def Let_def by (metis prod.collapse)
  have inv9: "cap_inv (h_caps h9)" and free9: "5 \<le> unat (free_slot_count (h_caps h9))" using inv free g9(2) by simp_all
  obtain h17 where 17: "do { (cap_cam_disp, h) \<leftarrow> test10 pl h9; h \<leftarrow> test11 pl h; h \<leftarrow> test12 pl cap_cam_disp h; h \<leftarrow> test13 pl h; let h = test14 h;
      h \<leftarrow> test15 pl h; (cap_cam_sensor, h) \<leftarrow> test16 pl h; (cap_cam_elev, h) \<leftarrow> test17 pl h;
      Some (cap_cam_disp, cap_cam_sensor, cap_cam_elev, h) } = Some (c1, c4, c5, h17)"
      "passes_n pl el 8 (with_caps s5 h9) h17"
    using tests_10_to_17 [OF pl g9(1) pac inv9 free9 r] by blast
  note g17 = passes_n_facts [OF 17(2)]
  have off17: "\<not> g_pac_enabled (ew_trap h17)" using off g9(3) g17(3) by (simp add: lettuce_pac_is_enabled_def)
  obtain h18 where 18: "test18 pl auth_faults el1_frame c1 h17 = Some h18" "passes pl el h17 h18"
    using test18_passes [OF pl g17(1) off17 pac, where auth_faults = auth_faults] f test_caps_facts(10) [OF inv9 free9 r] g17(2) by auto
  note g18 = passes_facts [OF 18(2)]
  note g19 = passes_facts [OF test19_passes [OF g18(1) isar]]
  have "g_tests_passed (test19 ids h18) = g_tests_passed h + 19" "g_tests_failed (test19 ids h18) = g_tests_failed h"
    using g9(4,5) g17(4,5) g18(4,5) g19(4,5) by simp_all
  moreover have "foundation_tests pl auth_faults el1_frame ids h = Some (c1, c4, c5, test19 ids h18)"
    by (simp only: foundation_tests_split 9(1) 17(1) 18(1) bind.simps prod.case)
  moreover have "quiet h (test19 ids h18)"
    using 9(2) 17(2) 18(2) test19_passes [OF g18(1) isar] by (simp add: passes_n_def passes_def keeps_def quiet_def)
  moreover have "handles_ok (h_caps (test19 ids h18)) c1 c4 c5"
    using test_caps_facts(10-12) [OF inv9 free9 r] g17(2) g18(2) g19(2) by (simp add: handles_ok_def)
  moreover have "g_pac_enabled (ew_trap (test19 ids h18)) = g_pac_enabled (ew_trap h)" using g9(3) g17(3) g18(3) g19(3) by simp
  ultimately show ?thesis using g19(1) by blast
qed

section \<open>From boot\<close>

lemma harness_ok_boot:
  assumes mmu: "mc_mmu m = mmu_boot (pl_layout pl) el" and st: "tr_machine (ew_trap h) = boot_machine (pl_layout pl) (el0_syms pl) m"
    and callers: "length (g_context_stack (ew_trap h)) = 8" "g_context_stack_depth (ew_trap h) = 0"
  shows "harness_ok pl el h" "h_caps h = lettuce_capability_init"
proof -
  have k: "ks_services (tr_kernel (ew_trap h)) = boot_services (el0_syms pl)"
    using st by (simp add: boot_machine_def boot_kernel_services)
  have m: "ew_mmu h = lettuce_mmu_init (pl_layout pl) (mmu_boot (pl_layout pl) el)" using st mmu by (simp add: boot_machine_def)
  have "services_placed (tr_kernel (ew_trap h))"
    by (auto simp: services_placed_def k boot_lookup [OF image_mapped] find_Some_iff boot_descriptors_def domain_number_def less_Suc_eq nth_Cons'
        split: if_splits)
  then show "harness_ok pl el h"
    using callers boot_reg_inv mmu_ok_init tables_ok_init by (simp add: harness_ok_def world_ok_def trap_ok_def k m LETTUCE_ARCH_CONTEXT_MAX_def)
  show "h_caps h = lettuce_capability_init" using st by (simp add: boot_machine_def boot_kernel_services)
qed

lemma init_free: "5 \<le> unat (free_slot_count lettuce_capability_init)"
  by (simp add: lettuce_capability_init_def LETTUCE_CAPABILITY_TABLE_SIZE_def)

text \<open>
  The on-target tests pass, from boot. On a machine whose page of service code holds the services of \<^verbatim>\<open>entry.S\<close>, from the state
  that initialisation produces with pointer authentication off and the counters at zero, tests 1 to 19 run to the end: every service they enter at EL0
  returns to the kernel, nineteen tests are counted as passed and none as failed, and the state the next tests rely on
  is intact. The processor is assumed to authenticate what it signed, to trap on the corrupted pointer of test 18, and to
  report pointer authentication.
\<close>

theorem foundation_tests_pass:
  assumes pl: "platform_ok pl" and mmu: "mc_mmu m = mmu_boot (pl_layout pl) el"
    and st: "tr_machine (ew_trap h) = boot_machine (pl_layout pl) (el0_syms pl) m"
    and callers: "length (g_context_stack (ew_trap h)) = 8" "lettuce_arch_context_depth (ew_trap h) = 0"
    and off: "\<not> lettuce_pac_is_enabled (ew_trap h)" and counts: "g_tests_passed h = 0" "g_tests_failed h = 0"
    and pac: "pac_sound (pl_pac pl)" and f: "auth_faults (lettuce_pac_sign (pl_pac pl) 0x40081000 10 XOR 0x10) 10"
    and isar: "lettuce_arch_has_pac (id_aa64isar1 ids)"
  shows "\<exists>cap_cam_disp cap_cam_sensor cap_cam_elev h'. foundation_tests pl auth_faults el1_frame ids h = Some (cap_cam_disp, cap_cam_sensor, cap_cam_elev, h') \<and>
    g_tests_passed h' = 19 \<and> g_tests_failed h' = 0 \<and> harness_ok pl el h'"
proof -
  note b = harness_ok_boot [OF mmu st callers [unfolded lettuce_arch_context_depth_def]]
  show ?thesis using foundation_tests_run [OF pl b(1) off pac, where auth_faults = auth_faults and el1_frame = el1_frame and ids = ids] f isar cap_inv_init init_free counts
    by (simp add: b(2)) blast
qed

definition demo_harness :: harness_state where
  "demo_harness = \<lparr>ew_trap = (demo_trap demo_kernel)\<lparr>g_pac_enabled := False,
       tr_machine := boot_machine demo_layout demo_symbols (demo_machine\<lparr>mc_mmu := mmu_boot demo_layout 1\<rparr>)\<rparr>,
     ew_mem = (\<lambda>_. 0), g_tests_passed = 0, g_tests_failed = 0\<rparr>"

lemma demo_platform_ok: "platform_ok (demo_platform service_image)"
  by (simp add: platform_ok_def demo_layout_ok) (simp add: demo_platform_def)

lemma demo_boot:
  "tr_machine (ew_trap demo_harness) = boot_machine (pl_layout (demo_platform service_image)) (el0_syms (demo_platform service_image))
     (demo_machine\<lparr>mc_mmu := mmu_boot demo_layout 1\<rparr>)"
  "length (g_context_stack (ew_trap demo_harness)) = 8" "lettuce_arch_context_depth (ew_trap demo_harness) = 0"
  by (simp_all add: demo_harness_def demo_symbols_def demo_layout_def demo_trap_def lettuce_arch_context_depth_def)

lemma demo_harness_ok: "harness_ok (demo_platform service_image) 1 demo_harness" "h_caps demo_harness = lettuce_capability_init"
  using harness_ok_boot [OF _ demo_boot(1,2) demo_boot(3) [unfolded lettuce_arch_context_depth_def], of 1] by simp_all

lemma foundation_tests_pass_witness:
  "\<exists>c s e h'. foundation_tests (demo_platform service_image) (\<lambda>_ _. True) demo_start
     \<lparr>id_aa64isar1 = 0x10, id_aa64pfr1 = 0, id_aa64mmfr3 = 0\<rparr> demo_harness = Some (c, s, e, h') \<and> g_tests_passed h' = 19"
proof -
  have "\<not> lettuce_pac_is_enabled (ew_trap demo_harness)" "g_tests_passed demo_harness = 0" "g_tests_failed demo_harness = 0"
    by (simp_all add: demo_harness_def lettuce_pac_is_enabled_def)
  moreover have "lettuce_arch_has_pac (id_aa64isar1 \<lparr>id_aa64isar1 = 0x10, id_aa64pfr1 = 0, id_aa64mmfr3 = 0\<rparr>)" by code_simp
  moreover have "pac_sound (pl_pac (demo_platform service_image))" using demo_pac_sound by (simp add: demo_platform_def)
  ultimately show ?thesis using foundation_tests_pass [OF demo_platform_ok _ demo_boot, of 1, where auth_faults = "\<lambda>_ _. True"] by fastforce
qed

section \<open>What tests 11 and 12 do not test\<close>

lemma storage_page_apart:
  assumes ok: "lay_ok lay"
  shows "private_frame lay 2 \<notin> {private_frame lay 0, private_frame lay 1, lay_shared lay, lay_shared lay OR 8}"
proof -
  have lt: "(0 :: nat) < 3" "(1 :: nat) < 3" "(2 :: nat) < 3" by simp_all
  have r: "(private_frame lay 0, True, False) \<in> set (el0_rights lay 0)" "(lay_shared lay, True, False) \<in> set (el0_rights lay 0)"
      "(private_frame lay 1, True, False) \<in> set (el0_rights lay 1)"
    by (simp_all add: el0_rights_def)
  note d = rights_apart(1) [OF ok lt(1) r(1) lt(3)] rights_apart(1) [OF ok lt(1) r(2) lt(3)] rights_apart(1) [OF ok lt(2) r(3) lt(3)]
  note fr = lay_frames [OF ok lt(3)]
  have e: "(8 :: u64) AND 0xfff = 8" "(0 :: u64) AND 0xfff = 0" by simp_all
  have "(lay_shared lay OR 8) AND ADDR_MASK = lay_shared lay" "private_frame lay 2 AND ADDR_MASK = private_frame lay 2"
    using frame_offset [OF fr(7), of 8] frame_offset [OF fr(5), of 0] by (simp_all only: e or.right_neutral)
  then show ?thesis using d by auto
qed

text \<open>
  C38: Tests 11 and 12 pass without running their targets. The second registration of an entry is refused, so the test of error
  propagation never reaches the failing service: it passes because its call is denied, before any caller is saved, whatever the stack
  of callers held. The test of the nested call passes on the plain call to the display: the word that the storage service writes
  whenever it runs is left as it was.
\<close>

theorem tests_11_12_targets_not_run:
  assumes pl: "platform_ok pl" and h: "harness_ok pl el h" and pac: "pac_sound (pl_pac pl)" and inv: "cap_inv (h_caps h)"
  shows "(\<exists>h'. test11 pl h = Some h' \<and> g_tests_passed h' = g_tests_passed h + 1 \<and> g_tests_failed h' = g_tests_failed h \<and>
      g_context_stack (ew_trap h') = g_context_stack (ew_trap h)) \<and>
    (check_call (h_caps h) c SERVICE_DISPLAY LETTUCE_CAP_CALL RES_FRAMEBUFFER \<longrightarrow>
      (\<exists>h'. test12 pl c h = Some h' \<and> g_tests_passed h' = g_tests_passed h + 1 \<and> g_tests_failed h' = g_tests_failed h \<and>
        ew_mem h' (private_frame (pl_layout pl) 2) = ew_mem h (private_frame (pl_layout pl) 2))) \<and>
    (\<exists>h'. run_el0_service pl (svc_storage_entry (el0_syms pl)) DOMAIN_C SERVICE_STORAGE h = Some (0, h') \<and>
      ew_mem h' (private_frame (pl_layout pl) 2) = 0x300c0001300c0001)"
proof (intro conjI impI)
  obtain h1 cs1 where c1: "lettuce_capability_create SERVICE_CAMERA SERVICE_FAILING OP_FAIL LETTUCE_CAP_CALL RES_FRAMEBUFFER (h_caps h) = (h1, cs1)" by fastforce
  show "\<exists>h'. test11 pl h = Some h' \<and> g_tests_passed h' = g_tests_passed h + 1 \<and> g_tests_failed h' = g_tests_failed h \<and>
      g_context_stack (ew_trap h') = g_context_stack (ew_trap h)"
    using test11_passes [OF pl h pac inv c1] by (auto simp: passes_def keeps_defs no_call_def)
  have "cap_view (h_caps h) c \<noteq> None" if "check_call (h_caps h) c SERVICE_DISPLAY LETTUCE_CAP_CALL RES_FRAMEBUFFER"
    using that by (auto simp: check_eq_view)
  moreover obtain h2 cs2 where c2: "lettuce_capability_create SERVICE_DISPLAY SERVICE_STORAGE OP_SAVE LETTUCE_CAP_CALL RES_DISK (h_caps h) = (h2, cs2)" by fastforce
  moreover have "lay_ok (pl_layout pl)" using pl by (simp add: platform_ok_def)
  ultimately show "\<exists>h'. test12 pl c h = Some h' \<and> g_tests_passed h' = g_tests_passed h + 1 \<and> g_tests_failed h' = g_tests_failed h \<and>
      ew_mem h' (private_frame (pl_layout pl) 2) = ew_mem h (private_frame (pl_layout pl) 2)"
    if "check_call (h_caps h) c SERVICE_DISPLAY LETTUCE_CAP_CALL RES_FRAMEBUFFER"
    using that test12_passes [OF pl h pac inv c2, of c] storage_page_apart [of "pl_layout pl"] by (fastforce simp: passes_def keeps_defs only_changes_def)
  have n: "(2, 2, 0x300c0001300c0001) \<in> set own_page_services" by (simp add: own_page_services_def)
  show "\<exists>h'. run_el0_service pl (svc_storage_entry (el0_syms pl)) DOMAIN_C SERVICE_STORAGE h = Some (0, h') \<and>
      ew_mem h' (private_frame (pl_layout pl) 2) = 0x300c0001300c0001"
    using enter_own_page [OF pl entering_ran(1) [OF keeps_refl [OF h] domain_numbers(3)] n] by (simp add: run_entering symbol_va)
qed

lemma tests_11_12_targets_not_run_witness:
  "\<exists>h'. test11 (demo_platform service_image) demo_harness = Some h' \<and> g_tests_passed h' = 1 \<and>
     g_context_stack (ew_trap h') = g_context_stack (ew_trap demo_harness)"
proof -
  have "pac_sound (pl_pac (demo_platform service_image))" using demo_pac_sound by (simp add: demo_platform_def)
  moreover have "cap_inv (h_caps demo_harness)" using cap_inv_init by (simp add: demo_harness_ok(2))
  moreover have "g_tests_passed demo_harness = 0" by (simp add: demo_harness_def)
  ultimately show ?thesis using tests_11_12_targets_not_run [OF demo_platform_ok demo_harness_ok(1)] by force
qed

section \<open>Test 24\<close>

lemma continue_syscall:
  assumes "svc_syscall (pl_counter pl) (pl_freq pl) fr (ew_trap w) = (TrapReturn fr', st)"
  shows "svc_continue pl 5 fr w = el0_loop pl fr' (w\<lparr>ew_trap := st\<rparr>)"
  using assms by (simp add: svc_continue_def el0_exception_def lettuce_arch_sync_lower_el_handler_def esr_svc Let_def)

text \<open>The three system calls of the runner, with the descriptor table as initialised.\<close>

definition console_ready :: "posix_state \<Rightarrow> bool" where
  "console_ready ps \<longleftrightarrow> g_fd_table ps = g_fd_table (lettuce_fd_table_init ps)"

lemma console_fd:
  assumes "console_ready ps"
  shows "lettuce_fd_get ps 1 = Some (unused_fd\<lparr>fd_type := LETTUCE_FD_TYPE_CONSOLE_OUT, fd_ops := Some g_console_out_ops\<rparr>)"
  using assms by (simp add: console_ready_def lettuce_fd_get_def lettuce_fd_table_init_def LETTUCE_MAX_FDS_def)

definition printed :: "io_state \<Rightarrow> string" where
  "printed io = fold (\<lambda>i. lettuce_arch_console_putc (char_of (unat (io_memory io (0x411c0020 + of_nat i))))) [0..<10] (io_console io)"

lemma runner_write:
  assumes "console_ready ps"
  shows "lettuce_kernel_sys_write 1 0x411c0020 10 ps = (10, ps\<lparr>ps_io := (ps_io ps)\<lparr>io_console := printed (ps_io ps)\<rparr>\<rparr>)"
  using console_fd [OF assms]
  by (simp add: lettuce_kernel_sys_write_def in_kernel_range_def g_console_out_ops_def console_write_op_def printed_def)

lemma enter_posix_runner:
  assumes pl: "platform_ok pl" and w: "ready_in pl el k w" and fd: "console_ready (tr_posix (ew_trap w))" and freq: "pl_freq pl \<noteq> 0"
    and pid: "lettuce_kernel_sys_getpid (ps_tasks (mc_policy (tr_machine (ew_trap w)))) \<noteq> 0"
  shows "\<exists>io. lettuce_el0_enter pl (code_at 20 0) sp w = Some (0, w\<lparr>ew_trap := (ew_trap w)\<lparr>tr_posix := (tr_posix (ew_trap w))\<lparr>ps_io := io\<rparr>\<rparr>\<rparr>) \<and>
    io_console io = printed (ps_io (tr_posix (ew_trap w)))"
proof -
  let ?st = "ew_trap w" and ?ps = "tr_posix (ew_trap w)" and ?lk = "pl_link pl (ew_trap w)"
  let ?pid = "lettuce_kernel_sys_getpid (ps_tasks (mc_policy (tr_machine ?st)))"
  define upd where "upd io = w\<lparr>ew_trap := ?st\<lparr>tr_posix := ?ps\<lparr>ps_io := io\<rparr>\<rparr>\<rparr>" for io
  note facts = ready_facts(2,3) [OF w] platform_facts [OF pl]
  let ?x1 = "(pl_regs pl ?st)[0 := code_at 20 0, 1 := sp, 0 := 1, 1 := 0x411c0020, 2 := 10, 8 := 1]"
  let ?x2 = "?x1[0 := 10, 8 := 4]" and ?s1 = "compared 10 10 0"
  let ?x3 = "?x2[0 := ?pid, 0 := 1, 1 := 0x411c0040, 8 := 5]"
  obtain io1 where w1: "lettuce_kernel_sys_write 1 0x411c0020 10 ?ps = (10, ?ps\<lparr>ps_io := io1\<rparr>)" "io_console io1 = printed (ps_io ?ps)"
    using runner_write [OF fd] by simp
  obtain io2 where w2: "lettuce_kernel_sys_clock_gettime 1 0x411c0040 (pl_counter pl) (pl_freq pl) (?ps\<lparr>ps_io := io1\<rparr>) = (0, ?ps\<lparr>ps_io := io2\<rparr>)"
      "io_console io2 = io_console io1"
    using freq by (simp add: lettuce_kernel_sys_clock_gettime_def in_kernel_range_def)
  have d: "in_domain (pl_layout pl) el k (ew_mmu (upd io))" "ew_trap (upd io) = ?st\<lparr>tr_posix := ?ps\<lparr>ps_io := io\<rparr>\<rparr>" for io
    using facts by (simp_all add: upd_def)
  note run = enter_simps loop_service [where el = el and k = k] service_text_nth task_posix_runner_code_def run_simps(1-5,7,8) svc_continue_def [symmetric]
  have 1: "lettuce_el0_enter pl (code_at 20 0) sp w =
      svc_continue pl 5 \<lparr>tf_x = ?x1, tf_lr = ?lk, tf_elr = code_at 20 5, tf_spsr = 0, tf_sp_el0 = sp\<rparr> w"
    using facts by (simp add: run del: One_nat_def)
  have 2: "svc_continue pl 5 \<lparr>tf_x = ?x1, tf_lr = ?lk, tf_elr = code_at 20 5, tf_spsr = 0, tf_sp_el0 = sp\<rparr> w =
      el0_loop pl \<lparr>tf_x = ?x1[0 := 10], tf_lr = ?lk, tf_elr = code_at 20 5, tf_spsr = 0, tf_sp_el0 = sp\<rparr> (upd io1)"
    unfolding upd_def by (rule continue_syscall) (use w1(1) facts in \<open>simp add: svc_syscall_def set_x0_def Let_def del: One_nat_def\<close>)
  have 3: "el0_loop pl \<lparr>tf_x = ?x1[0 := 10], tf_lr = ?lk, tf_elr = code_at 20 5, tf_spsr = 0, tf_sp_el0 = sp\<rparr> (upd io1) =
      svc_continue pl 5 \<lparr>tf_x = ?x2, tf_lr = ?lk, tf_elr = code_at 20 9, tf_spsr = ?s1, tf_sp_el0 = sp\<rparr> (upd io1)"
    using facts d by (simp add: run del: One_nat_def)
  have 4: "svc_continue pl 5 \<lparr>tf_x = ?x2, tf_lr = ?lk, tf_elr = code_at 20 9, tf_spsr = ?s1, tf_sp_el0 = sp\<rparr> (upd io1) =
      el0_loop pl \<lparr>tf_x = ?x2[0 := ?pid], tf_lr = ?lk, tf_elr = code_at 20 9, tf_spsr = ?s1, tf_sp_el0 = sp\<rparr> (upd io1)"
    using continue_syscall [of pl "\<lparr>tf_x = ?x2, tf_lr = ?lk, tf_elr = code_at 20 9, tf_spsr = ?s1, tf_sp_el0 = sp\<rparr>" "upd io1"] facts
    by (simp add: svc_syscall_def set_x0_def Let_def d(2) del: One_nat_def) (simp add: upd_def)
  have 5: "el0_loop pl \<lparr>tf_x = ?x2[0 := ?pid], tf_lr = ?lk, tf_elr = code_at 20 9, tf_spsr = ?s1, tf_sp_el0 = sp\<rparr> (upd io1) =
      svc_continue pl 5 \<lparr>tf_x = ?x3, tf_lr = ?lk, tf_elr = code_at 20 14, tf_spsr = ?s1, tf_sp_el0 = sp\<rparr> (upd io1)"
    using facts d pid by (simp add: run del: One_nat_def)
  have 6: "svc_continue pl 5 \<lparr>tf_x = ?x3, tf_lr = ?lk, tf_elr = code_at 20 14, tf_spsr = ?s1, tf_sp_el0 = sp\<rparr> (upd io1) =
      el0_loop pl \<lparr>tf_x = ?x3[0 := 0], tf_lr = ?lk, tf_elr = code_at 20 14, tf_spsr = ?s1, tf_sp_el0 = sp\<rparr> (upd io2)"
    using continue_syscall [of pl "\<lparr>tf_x = ?x3, tf_lr = ?lk, tf_elr = code_at 20 14, tf_spsr = ?s1, tf_sp_el0 = sp\<rparr>" "upd io1"] facts w2(1)
    by (simp add: svc_syscall_def set_x0_def Let_def d(2) del: One_nat_def) (simp add: upd_def)
  have 7: "el0_loop pl \<lparr>tf_x = ?x3[0 := 0], tf_lr = ?lk, tf_elr = code_at 20 14, tf_spsr = ?s1, tf_sp_el0 = sp\<rparr> (upd io2) = Some (0, upd io2)"
    using facts d by (simp add: run del: One_nat_def)
  show ?thesis using 1 2 3 4 5 6 7 w1(2) w2(2) by (auto simp: upd_def)
qed

abbreviation h_console :: "harness_state \<Rightarrow> string" where "h_console h \<equiv> io_console (ps_io (tr_posix (ew_trap h)))"

lemma console_say [simp]: "h_console (say ps h) = fold (\<lambda>p out. p out) ps (h_console h)"
  by (simp add: say_def on_console_def)

lemma console_counts [simp]: "h_console (h\<lparr>g_tests_passed := n\<rparr>) = h_console h"
  by simp

lemma console_log_pass: "h_console h1 = h_console h2 \<Longrightarrow> h_console (log_pass name h1) = h_console (log_pass name h2)"
  by (simp add: log_pass_def Let_def)

lemma stored_bytes:
  assumes "n < 2 ^ 64" "i < n"
  shows "fold (\<lambda>i mem. mem(a + of_nat i := f i)) [0..<n] (mem :: memory) (a + of_nat i) = f i"
  using assms
proof (induction n)
  case (Suc n)
  have "(of_nat n :: u64) = of_nat i \<longleftrightarrow> n = i"
    using Suc.prems by (simp add: word_of_nat_eq_iff take_bit_nat_eq_self)
  then show ?case using Suc by (cases "i = n") auto
qed simp

lemma char_of_byte: "char_of (unat (of_char c :: u8)) = c"
proof -
  have "(of_char c :: u8) = of_nat (of_char c)" by (simp add: of_nat_of_char)
  moreover have "(of_char c :: nat) < 256" by (rule nat_of_char_less_256)
  ultimately have "unat (of_char c :: u8) = of_char c" by (simp only: unsigned_of_nat) (simp add: take_bit_nat_eq_self)
  then show ?thesis by simp
qed

lemma printed_msg:
  "printed (ps_io (tr_posix (store_posix_msg st))) = fold lettuce_arch_console_putc posix_msg (io_console (ps_io (tr_posix st)))"
proof -
  have "printed (ps_io (tr_posix (store_posix_msg st))) =
      fold (\<lambda>i. lettuce_arch_console_putc (posix_msg ! i)) [0..<10] (io_console (ps_io (tr_posix st)))"
    unfolding printed_def by (rule fold_cong) (simp_all add: store_posix_msg_def stored_bytes char_of_byte)
  also have "10 = length posix_msg" by (simp add: posix_msg_def)
  also have "fold (\<lambda>i. lettuce_arch_console_putc (posix_msg ! i)) [0..<length posix_msg] out = fold lettuce_arch_console_putc posix_msg out" for out
    using fold_map [of lettuce_arch_console_putc "(!) posix_msg" "[0..<length posix_msg]"] by (simp add: map_nth comp_def)
  finally show ?thesis .
qed

lemma keeps_posix [simp]: "keeps pl el h0 (h\<lparr>ew_trap := (ew_trap h)\<lparr>tr_posix := ps\<rparr>\<rparr>) = keeps pl el h0 h"
  by (simp add: keeps_defs harness_ok_def)

text \<open>
  The system calls of a service, end to end. With a running counter and a task identifier other than zero, test 24 passes: the
  service enters the kernel three times, write, getpid and clock_gettime succeed, it returns OK, and the console shows the heading,
  exactly the ten bytes that lie in the service's buffer, and the report of the test; writing from kernel memory is refused.
\<close>

theorem posix_test_passes:
  assumes pl: "platform_ok pl" and h: "harness_ok pl el h" and freq: "pl_freq pl \<noteq> 0"
    and pid: "lettuce_kernel_sys_getpid (ps_tasks (mc_policy (tr_machine (ew_trap h)))) \<noteq> 0"
  shows "\<exists>h'. test24 pl h = Some h' \<and> passes pl el h h' \<and>
    h_console h' = h_console (log_pass ''Test 24: POSIX-Lite syscalls (write/getpid/clock_gettime) and kernel memory rejection verified''
      (say [puts ''\<newline>--- Test 24: POSIX-Lite Syscall Layer ---\<newline>'', fold lettuce_arch_console_putc ''POSIX EL0\<newline>''] h))"
proof -
  define h0 where "h0 = say [puts ''\<newline>--- Test 24: POSIX-Lite Syscall Layer ---\<newline>''] h"
  define h1 where "h1 = on_trap store_posix_msg (on_trap (\<lambda>st. st\<lparr>tr_posix := lettuce_fd_table_init (tr_posix st)\<rparr>) h0)"
  let ?w = "entering DOMAIN_A SERVICE_CAMERA h1"
  have k1: "keeps pl el h h1" using keeps_refl [OF h] by (simp add: h1_def h0_def on_trap_def store_posix_msg_def)
  note e = entering_ran [OF k1 domain_numbers(1), of SERVICE_CAMERA]
  have px: "tr_posix (ew_trap ?w) = tr_posix (ew_trap h1)" "mc_policy (tr_machine (ew_trap ?w)) = mc_policy (tr_machine (ew_trap h))"
    by (simp_all add: entering_def on_trap_def on_mmu_def on_kernel_def h1_def h0_def store_posix_msg_def say_def)
  have "console_ready (tr_posix (ew_trap ?w))"
    unfolding px by (simp add: h1_def on_trap_def store_posix_msg_def console_ready_def lettuce_fd_table_init_def)
  then obtain io where io: "lettuce_el0_enter pl (code_at 20 0) (lettuce_arch_domain_stack_top DOMAIN_A) ?w =
      Some (0, ?w\<lparr>ew_trap := (ew_trap ?w)\<lparr>tr_posix := (tr_posix (ew_trap ?w))\<lparr>ps_io := io\<rparr>\<rparr>\<rparr>)" "io_console io = printed (ps_io (tr_posix (ew_trap h1)))"
    using enter_posix_runner [OF pl e(1) _ freq] pid px by auto
  define h2 where "h2 = ?w\<lparr>ew_trap := (ew_trap ?w)\<lparr>tr_posix := (tr_posix (ew_trap ?w))\<lparr>ps_io := io\<rparr>\<rparr>\<rparr>"
  have r: "run_camera pl (task_posix_runner (el0_syms pl)) h1 = Some (0, h2)" using io(1) by (simp add: run_entering symbol_va h2_def)
  have k2: "keeps pl el h h2" using ran_keeps [OF e(2)] by (simp add: h2_def)
  have wr: "lettuce_kernel_sys_write 1 0x40082000 10 ps = (- EFAULT, ps)" for ps by (simp add: lettuce_kernel_sys_write_def in_kernel_range_def)
  have "h_console h2 = fold lettuce_arch_console_putc posix_msg (h_console h0)"
    using io(2) printed_msg [of "(ew_trap h0)\<lparr>tr_posix := lettuce_fd_table_init (tr_posix (ew_trap h0))\<rparr>"]
    by (simp add: h2_def h1_def on_trap_def lettuce_fd_table_init_def)
  then have "h_console (log_pass name h2) = h_console (log_pass name
      (say [puts ''\<newline>--- Test 24: POSIX-Lite Syscall Layer ---\<newline>'', fold lettuce_arch_console_putc ''POSIX EL0\<newline>''] h))" for name
    by (intro console_log_pass) (simp add: h0_def posix_msg_def)
  moreover have "h2\<lparr>ew_trap := (ew_trap h2)\<lparr>tr_posix := tr_posix (ew_trap h2)\<rparr>\<rparr> = h2" by simp
  ultimately show ?thesis using passes_log [OF k2] r
    by (simp add: test24_def h0_def [symmetric] h1_def [symmetric] Let_def status_ok wr on_trap_def [of _ h2] log_test_def)
qed

lemma posix_test_passes_witness:
  "\<exists>h'. test24 (demo_platform service_image) demo_harness = Some h' \<and> g_tests_passed h' = 1"
proof -
  have "pl_freq (demo_platform service_image) \<noteq> 0" by (simp add: demo_platform_def)
  moreover have "lettuce_kernel_sys_getpid (ps_tasks (mc_policy (tr_machine (ew_trap demo_harness)))) \<noteq> 0"
    by (simp add: demo_harness_def boot_machine_def) code_simp
  moreover have "g_tests_passed demo_harness = 0" by (simp add: demo_harness_def)
  ultimately show ?thesis using posix_test_passes [OF demo_platform_ok demo_harness_ok(1)] by (force simp: passes_def keeps_defs)
qed

end
