(* ===== verification/Harness_Timer.thy ===== *)
theory Harness_Timer
  imports Harness_Sequence
begin

text \<open>
  Tests 20 and 22 of \<^verbatim>\<open>kernel/arch/arm64/main.c\<close>: waiting for timer interrupts in the kernel, with the interrupts and the readings of the
  counter as an environment, and waking a sleeping task at its deadline.
\<close>

section \<open>Test 20\<close>

definition on_machine :: "(machine \<Rightarrow> machine) \<Rightarrow> harness_state \<Rightarrow> harness_state" where
  "on_machine f = on_trap (\<lambda>st. st\<lparr>tr_machine := f (tr_machine st)\<rparr>)"

text \<open>
  What the hardware does during the wait: before pass \<^verbatim>\<open>i\<close> of the loop the processor takes the interrupts listed, by the value the
  interrupt controller gives for each, and in pass \<^verbatim>\<open>i\<close> the counter has the value given.
\<close>

type_synonym wait_env = "nat \<Rightarrow> u32 list \<times> u64"

definition take_irqs :: "LettuceTrapFrame \<Rightarrow> u32 list \<Rightarrow> trap_state \<Rightarrow> trap_state" where
  "take_irqs el1_frame iars st = fold (\<lambda>iar st. snd (lettuce_arch_irq_el1_handler iar el1_frame st)) iars st"

partial_function (option) wait_ticks ::
  "wait_env \<Rightarrow> LettuceTrapFrame \<Rightarrow> u64 \<Rightarrow> u64 \<Rightarrow> nat \<Rightarrow> trap_state \<Rightarrow> trap_state option" where
  "wait_ticks env el1_frame target deadline i st =
     (let st1 = take_irqs el1_frame (fst (env i)) st in
      if lettuce_timer_get_ticks (mc_timer (tr_machine st1)) < target
      then if snd (env i) \<ge> deadline then Some st1 else wait_ticks env el1_frame target deadline (Suc i) st1
      else Some st1)"

definition t20_timeout :: "u64 \<Rightarrow> u64" where
  "t20_timeout freq = (if freq > 0 then freq div 4 else 15625000)"

abbreviation h_ticks :: "harness_state \<Rightarrow> u64" where "h_ticks h \<equiv> lettuce_timer_get_ticks (mc_timer (tr_machine (ew_trap h)))"

definition test20 :: "platform \<Rightarrow> wait_env \<Rightarrow> LettuceTrapFrame \<Rightarrow> harness_state \<Rightarrow> harness_state option" where
  "test20 pl env el1_frame h = do {
     let h = say [puts ''\<newline>--- Test 20: GICv2 and Generic Timer Interrupts ---\<newline>''] h;
     let h = on_machine (\<lambda>m. m\<lparr>mc_gic := lettuce_gic_init (mc_gic m)\<rparr>) h;
     let h = on_machine (\<lambda>m. m\<lparr>mc_timer := lettuce_timer_init (pl_freq pl) 100 (mc_timer m)\<rparr>) h;
     let h = on_machine (\<lambda>m. m\<lparr>mc_gic := lettuce_gic_enable_interrupt GIC_INTID_VTIMER (mc_gic m)\<rparr>) h;
     let t20_start = h_ticks h;
     let t20_deadline = pl_counter pl + t20_timeout (pl_freq pl);
     st \<leftarrow> wait_ticks env el1_frame (t20_start + 3) t20_deadline 0 (ew_trap h);
     let h = on_trap (\<lambda>_. st) h;
     let t20_ticks = h_ticks h - t20_start;
     Some (log_test (t20_ticks \<ge> 2)
       ''Test 20: GICv2 distributor/CPU interface initialized; timer IRQs received'' ''Test 20: Timer interrupts failed to fire'' h)
   }"

section \<open>Test 22\<close>

definition with_tasks :: "(task_state \<Rightarrow> 'b \<times> task_state) \<Rightarrow> harness_state \<Rightarrow> 'b \<times> harness_state" where
  "with_tasks f h =
     (let (r, ts) = f (ps_tasks (mc_policy (tr_machine (ew_trap h))))
      in (r, on_machine (\<lambda>m. m\<lparr>mc_policy := (mc_policy m)\<lparr>ps_tasks := ts\<rparr>\<rparr>) h))"

abbreviation h_task :: "harness_state \<Rightarrow> nat \<Rightarrow> LettuceTask" where "h_task h i \<equiv> ptask (mc_policy (tr_machine (ew_trap h))) i"

definition upd_htask :: "nat \<Rightarrow> (LettuceTask \<Rightarrow> LettuceTask) \<Rightarrow> harness_state \<Rightarrow> harness_state" where
  "upd_htask i f = on_machine (\<lambda>m. m\<lparr>mc_policy := upd_ptask i f (mc_policy m)\<rparr>)"

definition create_task ::
  "platform \<Rightarrow> service_id \<Rightarrow> domain_id \<Rightarrow> u64 \<Rightarrow> u64 \<Rightarrow> harness_state \<Rightarrow> task_ptr \<times> harness_state" where
  "create_task pl service domain symbol name =
     with_tasks (lettuce_task_create service domain (el0_service_va (el0_syms pl) symbol) (lettuce_arch_domain_stack_top domain) name)"

definition dummy_frame :: LettuceTrapFrame where
  "dummy_frame = \<lparr>tf_x = replicate 30 0, tf_lr = 0, tf_elr = 0, tf_spsr = 0, tf_sp_el0 = 0\<rparr>"

text \<open>
  The name of a task is the address of a string. A task that could not be created is a null pointer, which the test
  dereferences, and a tick that reaches the preemption limit abandons the test: neither has a result.
\<close>

definition test22 :: "platform \<Rightarrow> u64 \<Rightarrow> harness_state \<Rightarrow> harness_state option" where
  "test22 pl name h = do {
     let h = say [puts ''\<newline>--- Test 22: Sleeping Task & Deadline Wakeup ---\<newline>''] h;
     let h = on_machine lettuce_scheduler_init h;
     let (task, h) = create_task pl SERVICE_CAMERA DOMAIN_A (task_counter_a (el0_syms pl)) name h;
     tsleep \<leftarrow> task;
     let h = upd_htask tsleep (\<lambda>t. t\<lparr>t_sleep_deadline_ticks := h_ticks h + 5\<rparr>) h;
     let h = upd_htask tsleep (\<lambda>t. t\<lparr>t_state := LETTUCE_TASK_STATE_SLEEPING\<rparr>) h;
     let sleep_init_ok = (t_state (h_task h tsleep) = LETTUCE_TASK_STATE_SLEEPING);
     let h = ((on_machine (\<lambda>m. m\<lparr>mc_timer := lettuce_timer_irq_handler (mc_timer m)\<rparr>)) ^^ 6) h;
     let h = on_machine lettuce_scheduler_start h;
     let (flow, m) = lettuce_scheduler_tick (Some dummy_frame) (tr_machine (ew_trap h));
     h \<leftarrow> (case flow of ResumeKernel s \<Rightarrow> None | Continue tf \<Rightarrow> Some (on_machine (\<lambda>_. m) h));
     let h = on_machine lettuce_scheduler_stop h;
     Some (log_test (sleep_init_ok \<and>
         (t_state (h_task h tsleep) = LETTUCE_TASK_STATE_READY \<or> t_state (h_task h tsleep) = LETTUCE_TASK_STATE_RUNNING))
       ''Test 22: Task sleeping state and timer deadline wakeup verified'' ''Test 22: Sleeping task deadline wakeup failed'' h)
   }"

section \<open>Tests that schedule\<close>

text \<open>These tests change the state of the scheduler or of the timer, and leave the rest of what the tests rely on.\<close>

definition succeeds :: "platform \<Rightarrow> u64 \<Rightarrow> harness_state \<Rightarrow> harness_state \<Rightarrow> bool" where
  "succeeds pl el h h' \<longleftrightarrow> holds pl el (h\<lparr>g_tests_passed := g_tests_passed h + 1\<rparr>) h'"

lemma holds_facts:
  "harness_ok pl el h \<Longrightarrow> holds pl el h h" "holds pl el h h1 \<Longrightarrow> harness_ok pl el h1" "holds pl el h h1 \<Longrightarrow> holds pl el h1 h2 \<Longrightarrow> holds pl el h h2"
  "keeps pl el h h1 \<Longrightarrow> holds pl el h h1" "passes pl el h h1 \<Longrightarrow> succeeds pl el h h1"
  by (simp_all add: holds_def keeps_def passes_def succeeds_def)

lemmas holds_refl = holds_facts(1) and holds_ok = holds_facts(2) and holds_trans = holds_facts(3)

lemma holds_say [simp]: "holds pl el h (say ps h') = holds pl el h h'"
  by (simp add: holds_def harness_ok_def say_def)

lemma holds_mem [simp]: "holds pl el h0 (h\<lparr>ew_mem := m\<rparr>) = holds pl el h0 h"
  by (simp add: holds_def harness_ok_def)

lemma succeeds_log: "holds pl el h h1 \<Longrightarrow> succeeds pl el h (log_test True pass_name fail_name h1)"
  by (simp add: succeeds_def log_test_def log_pass_def Let_def) (simp add: holds_def harness_ok_def)

section \<open>What the wait does\<close>

definition timer_count :: "wait_env \<Rightarrow> nat \<Rightarrow> nat" where
  "timer_count env n = length (filter (\<lambda>iar. lettuce_gic_acknowledge iar = GIC_INTID_VTIMER) (concat (map (fst \<circ> env) [0..<n])))"

lemma timer_count_0 [simp]: "timer_count env 0 = 0"
  by (simp add: timer_count_def)

lemma timer_count_Suc:
  "timer_count env (Suc n) = timer_count env n + length (filter (\<lambda>iar. lettuce_gic_acknowledge iar = GIC_INTID_VTIMER) (fst (env n)))"
  by (simp add: timer_count_def)

text \<open>Only timer and interrupt controller change, and the ticks count the timer interrupts.\<close>

definition timer_only :: "trap_state \<Rightarrow> trap_state \<Rightarrow> bool" where
  "timer_only st st' \<longleftrightarrow> (\<exists>t g. st' = st\<lparr>tr_machine := (tr_machine st)\<lparr>mc_timer := t, mc_gic := g\<rparr>\<rparr>)"

abbreviation st_ticks :: "trap_state \<Rightarrow> u64" where "st_ticks st \<equiv> lettuce_timer_get_ticks (mc_timer (tr_machine st))"

lemma timer_only_trans: "timer_only st st1 \<Longrightarrow> timer_only st1 st2 \<Longrightarrow> timer_only st st2"
  by (force simp: timer_only_def)

lemma timer_only_refl: "timer_only st st"
  unfolding timer_only_def by (rule exI [of _ "mc_timer (tr_machine st)"], rule exI [of _ "mc_gic (tr_machine st)"]) simp

lemma timer_onlyI:
  "timer_only st (st\<lparr>tr_machine := (tr_machine st)\<lparr>mc_timer := t\<rparr>\<rparr>)" "timer_only st (st\<lparr>tr_machine := (tr_machine st)\<lparr>mc_gic := g\<rparr>\<rparr>)"
  unfolding timer_only_def
  by (rule exI [of _ t], rule exI [of _ "mc_gic (tr_machine st)"], simp)
    (rule exI [of _ "mc_timer (tr_machine st)"], rule exI [of _ g], simp)

lemma ticks_handler: "g_timer_ticks (lettuce_timer_irq_handler t) = g_timer_ticks t + 1"
  by (simp add: lettuce_timer_irq_handler_def lettuce_timer_rearm_def)

lemma irq_el1_step:
  "timer_only st (snd (lettuce_arch_irq_el1_handler iar fr st))"
  "st_ticks (snd (lettuce_arch_irq_el1_handler iar fr st)) = st_ticks st + (if lettuce_gic_acknowledge iar = GIC_INTID_VTIMER then 1 else 0)"
proof -
  let ?st1 = "if lettuce_gic_acknowledge iar = GIC_INTID_VTIMER then timer_tick st else st"
  have "timer_only st ?st1" using timer_only_refl timer_onlyI(1) by (simp add: timer_tick_def)
  moreover have "timer_only ?st1 (end_of_interrupt (lettuce_gic_acknowledge iar) ?st1)"
    using timer_only_refl timer_onlyI(2) by (simp add: end_of_interrupt_def)
  ultimately show "timer_only st (snd (lettuce_arch_irq_el1_handler iar fr st))"
    using timer_only_trans unfolding lettuce_arch_irq_el1_handler_def Let_def snd_conv by blast
  show "st_ticks (snd (lettuce_arch_irq_el1_handler iar fr st)) = st_ticks st + (if lettuce_gic_acknowledge iar = GIC_INTID_VTIMER then 1 else 0)"
    by (simp add: lettuce_arch_irq_el1_handler_def Let_def end_of_interrupt_def timer_tick_def ticks_handler lettuce_timer_get_ticks_def)
qed

lemma take_irqs_step:
  "timer_only st (take_irqs fr iars st) \<and>
   st_ticks (take_irqs fr iars st) = st_ticks st + of_nat (length (filter (\<lambda>iar. lettuce_gic_acknowledge iar = GIC_INTID_VTIMER) iars))"
proof (induction iars arbitrary: st)
  case (Cons iar iars)
  show ?case
    using Cons [of "snd (lettuce_arch_irq_el1_handler iar fr st)"] irq_el1_step(1) [of st iar fr] irq_el1_step(2) [of iar fr st] timer_only_trans
    by (auto simp: take_irqs_def)
qed (simp add: take_irqs_def timer_only_refl)

text \<open>The wait ends at the first pass at which three ticks have been seen or the deadline has passed.\<close>

definition wait_over :: "wait_env \<Rightarrow> u64 \<Rightarrow> nat \<Rightarrow> bool" where
  "wait_over env deadline i \<longleftrightarrow> 3 \<le> timer_count env (Suc i) \<or> deadline \<le> snd (env i)"

lemma few_ticks:
  assumes "n < 2 ^ 33"
  shows "(of_nat n :: u64) < 3 \<longleftrightarrow> n < 3" "2 \<le> (of_nat n :: u64) \<longleftrightarrow> 2 \<le> n"
proof -
  have "unat (of_nat n :: u64) = n" using assms by (simp add: unat_of_nat)
  then show "(of_nat n :: u64) < 3 \<longleftrightarrow> n < 3" "2 \<le> (of_nat n :: u64) \<longleftrightarrow> 2 \<le> n" by (simp_all add: word_less_nat_alt word_le_nat_alt)
qed

lemma timer_count_bound:
  assumes "\<forall>i. length (fst (env i)) < 2 ^ 32" "timer_count env i < 3"
  shows "timer_count env (Suc i) < 2 ^ 33"
proof -
  have "length (filter P (fst (env i))) < 2 ^ 32" for P using assms(1) length_filter_le le_less_trans by blast
  note this [of "\<lambda>iar. lettuce_gic_acknowledge iar = GIC_INTID_VTIMER"]
  then show ?thesis using assms(2) unfolding timer_count_Suc by simp
qed

lemma wait_ticks_ends:
  assumes few: "\<forall>i. length (fst (env i)) < 2 ^ 32" and over: "wait_over env deadline (i + k)" and ticks: "st_ticks st = of_nat (timer_count env i)"
    and small: "timer_count env i < 3"
  shows "\<exists>n st'. wait_ticks env fr 3 deadline i st = Some st' \<and> i \<le> n \<and> wait_over env deadline n \<and> (\<forall>j. i \<le> j \<and> j < n \<longrightarrow> \<not> wait_over env deadline j) \<and>
    timer_only st st' \<and> st_ticks st' = of_nat (timer_count env (Suc n)) \<and> timer_count env (Suc n) < 2 ^ 33"
  using over ticks small
proof (induction k arbitrary: i st)
  case (0 i st)
  let ?st = "take_irqs fr (fst (env i)) st"
  have t: "timer_only st ?st" "st_ticks ?st = of_nat (timer_count env (Suc i))"
    using take_irqs_step [of st fr "fst (env i)"] 0 by (simp_all add: timer_count_Suc)
  note b = timer_count_bound [OF few 0(3)]
  have "wait_ticks env fr 3 deadline i st = Some ?st"
    using 0(1) few_ticks(1) [OF b] t(2) by (subst wait_ticks.simps) (auto simp: Let_def wait_over_def)
  then show ?case using 0(1) t b by (intro exI [of _ i] exI [of _ ?st]) auto
next
  case (Suc k i st)
  let ?st = "take_irqs fr (fst (env i)) st"
  have t: "timer_only st ?st" "st_ticks ?st = of_nat (timer_count env (Suc i))"
    using take_irqs_step [of st fr "fst (env i)"] Suc by (simp_all add: timer_count_Suc)
  note b = timer_count_bound [OF few Suc(4)]
  show ?case
  proof (cases "wait_over env deadline i")
    case True
    then have "wait_ticks env fr 3 deadline i st = Some ?st"
      using few_ticks(1) [OF b] t(2) by (subst wait_ticks.simps) (auto simp: Let_def wait_over_def)
    then show ?thesis using True t b by (intro exI [of _ i] exI [of _ ?st]) auto
  next
    case False
    have go: "wait_ticks env fr 3 deadline i st = wait_ticks env fr 3 deadline (Suc i) ?st"
      using False few_ticks(1) [OF b] t(2) by (subst wait_ticks.simps) (simp add: Let_def wait_over_def)
    have "timer_count env (Suc i) < 3" using False by (simp add: wait_over_def)
    then obtain n st' where n: "wait_ticks env fr 3 deadline (Suc i) ?st = Some st'" "Suc i \<le> n" "wait_over env deadline n"
        "\<forall>j. Suc i \<le> j \<and> j < n \<longrightarrow> \<not> wait_over env deadline j" "timer_only ?st st'" "st_ticks st' = of_nat (timer_count env (Suc n))"
        "timer_count env (Suc n) < 2 ^ 33"
      using Suc.IH [of "Suc i" ?st] Suc.prems(1) t(2) by auto
    have "\<not> wait_over env deadline j" if "i \<le> j \<and> j < n" for j using n(4) False that by (cases "j = i") auto
    then show ?thesis using n timer_only_trans [OF t(1) n(5)] by (intro exI [of _ n] exI [of _ st']) (simp add: go)
  qed
qed

lemma holds_timer:
  assumes "holds pl el h0 h" "timer_only (ew_trap h) st"
  shows "holds pl el h0 (on_trap (\<lambda>_. st) h)"
proof -
  obtain t g where st: "st = (ew_trap h)\<lparr>tr_machine := (tr_machine (ew_trap h))\<lparr>mc_timer := t, mc_gic := g\<rparr>\<rparr>"
    using assms(2) by (auto simp: timer_only_def)
  show ?thesis using assms(1) boot_reg_inv by (simp add: holds_def harness_ok_def on_trap_def st world_ok_def trap_ok_def)
qed

lemma fails_log: "holds pl el h h1 \<Longrightarrow> holds pl el (h\<lparr>g_tests_failed := g_tests_failed h + 1\<rparr>) (log_test False pass_name fail_name h1)"
  by (simp add: log_test_def log_fail_def Let_def) (simp add: holds_def harness_ok_def)

text \<open>The scheduling policy and the preemption counter are left alone.\<close>

definition same_sched :: "harness_state \<Rightarrow> harness_state \<Rightarrow> bool" where
  "same_sched h h' \<longleftrightarrow> g_policy_ops (tr_machine (ew_trap h')) = g_policy_ops (tr_machine (ew_trap h)) \<and>
     lettuce_preempt_is_enabled (ew_trap h') = lettuce_preempt_is_enabled (ew_trap h)"

lemma same_sched_trans: "same_sched h h1 \<Longrightarrow> same_sched h1 h2 \<Longrightarrow> same_sched h h2"
  by (simp add: same_sched_def)

lemma quiet_sched: "quiet h h' \<Longrightarrow> same_sched h h' \<and> mc_policy (tr_machine (ew_trap h')) = mc_policy (tr_machine (ew_trap h)) \<and> h_ticks h' = h_ticks h"
  by (simp add: quiet_def same_sched_def sched_part_def lettuce_preempt_is_enabled_def)

lemma log_facts:
  "tr_machine (ew_trap (log_test b pn fn h)) = tr_machine (ew_trap h)"
  "g_preempt_disable_count (ew_trap (log_test b pn fn h)) = g_preempt_disable_count (ew_trap h)"
  "lettuce_preempt_is_enabled (ew_trap (log_test b pn fn h)) = lettuce_preempt_is_enabled (ew_trap h)"
  by (simp_all add: log_test_def log_pass_def log_fail_def Let_def say_def lettuce_preempt_is_enabled_def)

lemma test20_runs:
  assumes h: "harness_ok pl el h" and few: "\<forall>i. length (fst (env i)) < 2 ^ 32"
    and d: "deadline = pl_counter pl + t20_timeout (pl_freq pl)" and over: "wait_over env deadline k"
  shows "\<exists>n h'. test20 pl env el1_frame h = Some h' \<and> wait_over env deadline n \<and> (\<forall>j < n. \<not> wait_over env deadline j) \<and>
    holds pl el (if 2 \<le> timer_count env (Suc n) then h\<lparr>g_tests_passed := g_tests_passed h + 1\<rparr> else h\<lparr>g_tests_failed := g_tests_failed h + 1\<rparr>) h' \<and>
    same_sched h h' \<and> st_ticks (ew_trap h') = of_nat (timer_count env (Suc n)) \<and> timer_count env (Suc n) < 2 ^ 33"
proof -
  let ?t = "lettuce_timer_init (pl_freq pl) 100 (mc_timer (tr_machine (ew_trap h)))"
  let ?g = "lettuce_gic_enable_interrupt GIC_INTID_VTIMER (lettuce_gic_init (mc_gic (tr_machine (ew_trap h))))"
  define h1 where "h1 = on_trap (\<lambda>st. st\<lparr>tr_machine := (tr_machine st)\<lparr>mc_timer := ?t, mc_gic := ?g\<rparr>\<rparr>)
      (say [puts ''\<newline>--- Test 20: GICv2 and Generic Timer Interrupts ---\<newline>''] h)"
  have ticks: "h_ticks h1 = 0" by (simp add: h1_def on_trap_def lettuce_timer_init_def lettuce_timer_get_ticks_def Let_def)
  have k1: "holds pl el h h1"
    using holds_timer [of pl el h "say _ h"] holds_refl [OF h] by (auto simp: h1_def on_trap_def timer_only_def)
  obtain n st where n: "wait_ticks env el1_frame 3 deadline 0 (ew_trap h1) = Some st" "wait_over env deadline n" "\<forall>j < n. \<not> wait_over env deadline j"
      "timer_only (ew_trap h1) st" "st_ticks st = of_nat (timer_count env (Suc n))" "timer_count env (Suc n) < 2 ^ 33"
    using wait_ticks_ends [OF few, of deadline 0 k "ew_trap h1" el1_frame] over ticks by auto
  note k2 = holds_timer [OF k1 n(4)]
  have eq: "test20 pl env el1_frame h = Some (log_test (2 \<le> st_ticks st)
       ''Test 20: GICv2 distributor/CPU interface initialized; timer IRQs received'' ''Test 20: Timer interrupts failed to fire'' (on_trap (\<lambda>_. st) h1))"
  proof -
    have "on_machine (\<lambda>m. m\<lparr>mc_gic := lettuce_gic_enable_interrupt GIC_INTID_VTIMER (mc_gic m)\<rparr>)
        (on_machine (\<lambda>m. m\<lparr>mc_timer := lettuce_timer_init (pl_freq pl) 100 (mc_timer m)\<rparr>)
          (on_machine (\<lambda>m. m\<lparr>mc_gic := lettuce_gic_init (mc_gic m)\<rparr>)
            (say [puts ''\<newline>--- Test 20: GICv2 and Generic Timer Interrupts ---\<newline>''] h))) = h1"
      by (simp add: h1_def on_machine_def on_trap_def say_def on_console_def)
    then show ?thesis using n(1) ticks by (simp add: test20_def Let_def d on_trap_def)
  qed
  have "holds pl el (if 2 \<le> timer_count env (Suc n) then h\<lparr>g_tests_passed := g_tests_passed h + 1\<rparr> else h\<lparr>g_tests_failed := g_tests_failed h + 1\<rparr>)
      (log_test (2 \<le> st_ticks st) pn fn (on_trap (\<lambda>_. st) h1))" for pn fn
    using few_ticks(2) [OF n(6)] n(5) succeeds_log [OF k2, of pn fn] fails_log [OF k2, of pn fn] by (simp add: succeeds_def)
  moreover have "same_sched h (log_test b pn fn (on_trap (\<lambda>_. st) h1))" "st_ticks (ew_trap (log_test b pn fn (on_trap (\<lambda>_. st) h1))) = st_ticks st" for b pn fn
    using n(4) by (auto simp: log_facts same_sched_def timer_only_def h1_def on_trap_def say_def lettuce_preempt_is_enabled_def)
  ultimately show ?thesis using eq n(2,3,5,6) by auto
qed

text \<open>
  C39: Waiting for timer interrupts ends and reports what happened. If the counter at some time reaches the deadline or three timer
  interrupts arrive, test 20 ends, at the first pass of its loop at which one of the two is the case; it is counted as
  passed if at least two timer interrupts were taken until then and as failed otherwise, whatever other interrupts arrived,
  and it leaves what the next tests rely on as it was.
\<close>

theorem timer_test_outcome:
  assumes h: "harness_ok pl el h" and few: "\<forall>i. length (fst (env i)) < 2 ^ 32"
    and d: "deadline = pl_counter pl + t20_timeout (pl_freq pl)" and over: "wait_over env deadline k"
  shows "\<exists>n h'. test20 pl env el1_frame h = Some h' \<and> wait_over env deadline n \<and> (\<forall>j < n. \<not> wait_over env deadline j) \<and>
    holds pl el (if 2 \<le> timer_count env (Suc n) then h\<lparr>g_tests_passed := g_tests_passed h + 1\<rparr> else h\<lparr>g_tests_failed := g_tests_failed h + 1\<rparr>) h'"
  using test20_runs [OF assms] by blast

lemma timer_test_outcome_witness:
  "\<exists>h'. test20 (demo_platform service_image) (\<lambda>i. ([27], 0)) demo_start demo_harness = Some h' \<and> g_tests_passed h' = 1"
proof -
  let ?env = "\<lambda>i. ([27 :: u32], 0 :: u64)"
  have ack: "lettuce_gic_acknowledge 27 = GIC_INTID_VTIMER" by code_simp
  have c: "timer_count ?env n = n" for n by (induction n) (simp_all add: timer_count_Suc ack)
  have d: "pl_counter (demo_platform service_image) + t20_timeout (pl_freq (demo_platform service_image)) = 15625000"
    by (simp add: demo_platform_def t20_timeout_def)
  have over: "wait_over ?env 15625000 n \<longleftrightarrow> 2 \<le> n" for n by (auto simp: wait_over_def c)
  have p: "g_tests_passed demo_harness = 0" by (simp add: demo_harness_def)
  show ?thesis using timer_test_outcome [OF demo_harness_ok(1), of ?env 15625000 2 demo_start] d p by (auto simp: over c holds_def)
qed

section \<open>The sleeping task wakes up\<close>

definition known_policy :: "LettuceSchedPolicyOps \<Rightarrow> bool" where
  "known_policy ops \<longleftrightarrow> ops = g_lettuce_sched_rr_ops \<or> ops = g_lettuce_sched_eevdf_ops"

lemma known_policy_contract: "known_policy ops \<Longrightarrow> sched_policy ops"
  using round_robin.sched_policy_axioms eevdf.sched_policy_axioms by (auto simp: known_policy_def)

abbreviation h_machine :: "harness_state \<Rightarrow> machine" where "h_machine h \<equiv> tr_machine (ew_trap h)"

lemma do_schedule_keeps:
  assumes "do_schedule tf pre m = (flow, m')"
  shows "ks_capabilities (mc_kernel m') = ks_capabilities (mc_kernel m) \<and> g_policy_ops m' = g_policy_ops m \<and> mc_timer m' = mc_timer m"
  using assms
  by (auto simp: do_schedule_def switch_to_def kernel_set_current_service_id_def set_current_service_id_def Let_def
      split: if_splits option.splits prod.splits)

text \<open>The tick that finds one task, asleep past its deadline, and none current: the task is ready or running afterwards.\<close>

lemma one_task_tick:
  assumes ops: "known_policy (g_policy_ops m)" "g_scheduler_active m" "g_preempt_limit m = 0" "pcur (mc_policy m) = None"
    and len: "length (g_task_table (ps_tasks (mc_policy m))) = LETTUCE_MAX_TASKS"
    and t: "t_state (ptask (mc_policy m) 0) = LETTUCE_TASK_STATE_SLEEPING" "t_sleep_deadline_ticks (ptask (mc_policy m) 0) \<le> g_timer_ticks (mc_timer m)"
      "t_generation (ptask (mc_policy m) 0) = 1" "t_id (ptask (mc_policy m) 0) \<noteq> 0"
    and unused: "\<And>i. 0 < i \<Longrightarrow> i < LETTUCE_MAX_TASKS \<Longrightarrow> t_state (ptask (mc_policy m) i) = LETTUCE_TASK_STATE_UNUSED"
    and run: "do_schedule (Some tf) True m = (flow, m')"
  shows "\<exists>tf'. flow = Continue tf'" "t_state (ptask (mc_policy m') 0) \<in> {LETTUCE_TASK_STATE_READY, LETTUCE_TASK_STATE_RUNNING}"
    "lettuce_kernel_sys_getpid (ps_tasks (mc_policy m')) \<noteq> 0"
proof -
  define ts where "ts = map (wake_task (g_timer_ticks (mc_timer m))) (erased (mc_policy m))"
  have n16: "0 < LETTUCE_MAX_TASKS" by (rule max_tasks_pos)
  have lts: "length ts = LETTUCE_MAX_TASKS" using len by (simp add: ts_def)
  have nth: "ts ! i = wake_task (g_timer_ticks (mc_timer m)) (erase_accounting (ptask (mc_policy m) i))" if "i < LETTUCE_MAX_TASKS" for i
    using that len by (simp add: ts_def erased_nth)
  have 0: "t_state (ts ! 0) = LETTUCE_TASK_STATE_READY" "t_id (ts ! 0) \<noteq> 0" using t nth [OF n16] by (simp_all add: wake_task_def)
  have un: "t_state (ts ! i) \<noteq> LETTUCE_TASK_STATE_READY" if "0 < i" "i < LETTUCE_MAX_TASKS" for i
    using nth [OF that(2)] unused [OF that] by (simp add: wake_task_def)
  have sv: "saved tf (ts, None) = ts" by (simp add: saved_def)
  have elen: "length (erased (mc_policy m)) = LETTUCE_MAX_TASKS" using len by simp
  have st0: "t_state (ptask s 0) = t_state (erased s ! 0)" "t_id (ptask s 0) = t_id (erased s ! 0)" if "length (erased s) = LETTUCE_MAX_TASKS" for s
    using that n16 by (simp_all add: erased_nth)
  note cs = sched_policy.do_schedule_cases [OF known_policy_contract [OF ops(1)] refl ops(2) elen _ run, of "(ts, None)"]
  then consider (stay) s' where "flow = Continue (Some tf)" "m' = m\<lparr>mc_policy := s'\<rparr>" "pcur s' = None" "dispatch tf (ts, None) tf (erased s', None)"
    | (switch) n s3 where "n < LETTUCE_MAX_TASKS" "erased s3 = ts" "t_state (ts ! n) = LETTUCE_TASK_STATE_READY"
        "switch_to None n True (m\<lparr>mc_policy := s3\<rparr>) = (flow, m')"
    unfolding ops(4) sv by (auto simp: ts_def)
  then have "(\<exists>tf'. flow = Continue tf') \<and> t_state (ptask (mc_policy m') 0) \<in> {LETTUCE_TASK_STATE_READY, LETTUCE_TASK_STATE_RUNNING} \<and>
      lettuce_kernel_sys_getpid (ps_tasks (mc_policy m')) \<noteq> 0"
  proof cases
    case stay
    have e: "erased s' = ts" using stay(4) by (auto simp: renewed_def sv elim: dispatchE)
    then show ?thesis using stay(1-3) 0 st0 [of s'] lts by (simp add: lettuce_kernel_sys_getpid_def lettuce_task_current_def pcur_def)
  next
    case switch
    have "n = 0" using un [of n] switch(1,3) by (cases n) auto
    have v: "erased (mc_policy m') = ts[0 := (ts ! 0)\<lparr>t_state := LETTUCE_TASK_STATE_RUNNING\<rparr>]" "pcur (mc_policy m') = Some 0"
      using switch_to_effect(1) [OF switch(4)] switch(2) lts n16 \<open>n = 0\<close> by (simp_all add: sched_view_of_def)
    have fl: "flow = Continue (Some (context_frame (t_context (ts ! 0))))"
      using switch_to_effect(8) [OF switch(4)] switch(2) lts n16 \<open>n = 0\<close> ops(3) by simp
    have id: "t_id (ptask (mc_policy m') 0) = t_id (ts ! 0)" "t_state (ptask (mc_policy m') 0) = LETTUCE_TASK_STATE_RUNNING"
      using st0 [of "mc_policy m'"] v(1) lts n16 by simp_all
    then have "(ucast (t_id (ptask (mc_policy m') 0)) :: u64) \<noteq> 0" using 0(2) by (simp add: word_unat_eq_iff unsigned_ucast_eq)
    then show ?thesis using fl id v(2) by (simp add: lettuce_kernel_sys_getpid_def lettuce_task_current_def pcur_def)
  qed
  then show "\<exists>tf'. flow = Continue tf'" "t_state (ptask (mc_policy m') 0) \<in> {LETTUCE_TASK_STATE_READY, LETTUCE_TASK_STATE_RUNNING}"
    "lettuce_kernel_sys_getpid (ps_tasks (mc_policy m')) \<noteq> 0"
    by blast+
qed

lemma say_machine [simp]: "h_machine (say ps h) = h_machine h"
  by (simp add: say_def on_console_def)

lemma on_machine_facts [simp]:
  "h_machine (on_machine f h) = f (h_machine h)" "on_machine f (on_machine g h) = on_machine (\<lambda>m. f (g m)) h"
  by (simp_all add: on_machine_def on_trap_def)

lemma on_machine_const: "on_machine f h = on_machine (\<lambda>_. f (h_machine h)) h"
  by (simp add: on_machine_def on_trap_def)

lemma holds_machine:
  assumes "holds pl el h0 h" "mc_mmu m = ew_mmu h \<or> (\<exists>d. mc_mmu m = snd (lettuce_mmu_enter d (ew_mmu h)))"
    "ks_services (mc_kernel m) = ks_services (mc_kernel (h_machine h))" "ks_capabilities (mc_kernel m) = ks_capabilities (mc_kernel (h_machine h))"
  shows "holds pl el h0 (on_machine (\<lambda>_. m) h)"
  using assms machine_world [of "pl_layout pl" el "ew_trap h" m] by (simp add: holds_def harness_ok_def on_machine_def on_trap_def)

lemma timer_ticks_pow:
  "((\<lambda>m. m\<lparr>mc_timer := lettuce_timer_irq_handler (mc_timer m)\<rparr>) ^^ n) m = m\<lparr>mc_timer := (lettuce_timer_irq_handler ^^ n) (mc_timer m)\<rparr>"
  by (induction n) simp_all

lemma ticks_pow: "g_timer_ticks ((lettuce_timer_irq_handler ^^ n) t) = g_timer_ticks t + of_nat n"
  by (induction n) (simp_all add: ticks_handler)

lemma on_machine_pow: "((on_machine f) ^^ n) h = on_machine (f ^^ n) h"
  by (induction n) (simp_all add: on_machine_def on_trap_def)

lemma init_tables:
  "length (g_task_table lettuce_task_init_subsystem) = LETTUCE_MAX_TASKS" "g_current_task lettuce_task_init_subsystem = None"
  "i < LETTUCE_MAX_TASKS \<Longrightarrow> task_at lettuce_task_init_subsystem i = task_slot_init"
  "find_task_slot (g_task_table lettuce_task_init_subsystem) 0 = Some 0"
proof -
  show "find_task_slot (g_task_table lettuce_task_init_subsystem) 0 = Some 0" by code_simp
qed (simp_all add: lettuce_task_init_subsystem_def)

text \<open>
  A sleeping task wakes at its deadline. Under either scheduling policy, test 22 passes: the task that was put to sleep for five ticks
  is ready or running after six timer ticks and one decision of the scheduler, and system calls see it, or no task at all, as the
  current one. The tick counter must not overflow meanwhile.
\<close>

theorem sleep_test_passes:
  assumes h: "harness_ok pl el h" and ops: "known_policy (g_policy_ops (h_machine h))" and ticks: "unat (h_ticks h) + 6 < 2 ^ 64"
  shows "\<exists>h'. test22 pl name h = Some h' \<and> succeeds pl el h h' \<and> same_sched h h' \<and>
    lettuce_kernel_sys_getpid (ps_tasks (mc_policy (h_machine h'))) \<noteq> 0"
proof -
  let ?h0 = "say [puts ''\<newline>--- Test 22: Sleeping Task & Deadline Wakeup ---\<newline>''] h"
  let ?pc = "el0_service_va (el0_syms pl) (task_counter_a (el0_syms pl))" and ?sp = "lettuce_arch_domain_stack_top DOMAIN_A"
  define T where "T = (fresh_task 0 SERVICE_CAMERA DOMAIN_A ?pc ?sp name task_slot_init)
      \<lparr>t_sleep_deadline_ticks := h_ticks h + 5, t_state := LETTUCE_TASK_STATE_SLEEPING\<rparr>"
  let ?ts = "lettuce_task_init_subsystem\<lparr>g_task_table := (g_task_table lettuce_task_init_subsystem)[0 := T]\<rparr>"
  define p0 where "p0 = po_init (g_policy_ops (h_machine h)) ((mc_policy (h_machine h))\<lparr>ps_tasks := lettuce_task_init_subsystem\<rparr>)"
  have p0: "ps_tasks p0 = lettuce_task_init_subsystem"
    using sched_policy.init_mech [OF known_policy_contract [OF ops]] by (simp add: p0_def)
  define m where "m = (h_machine h)\<lparr>mc_policy := p0\<lparr>ps_tasks := ?ts\<rparr>, g_scheduler_active := True, g_switch_count := 0, g_preempt_count := 0,
      g_same_domain_switches := 0, g_cross_domain_switches := 0, g_preempt_limit := 0,
      mc_timer := (lettuce_timer_irq_handler ^^ 6) (mc_timer (h_machine h))\<rparr>"
  obtain flow m' where tick: "do_schedule (Some dummy_frame) True m = (flow, m')" by fastforce
  have T: "t_state T = LETTUCE_TASK_STATE_SLEEPING" "t_generation T = 1" "t_id T \<noteq> 0" "t_sleep_deadline_ticks T = h_ticks h + 5"
    by (simp_all add: T_def fresh_task_def task_slot_init_def task_id_pack_def Let_def)
  have late: "h_ticks h + 5 \<le> h_ticks h + 6"
    using ticks by (simp add: word_le_nat_alt unat_word_ariths)
  have p: "mc_policy m = p0\<lparr>ps_tasks := ?ts\<rparr>" "g_policy_ops m = g_policy_ops (h_machine h)" "g_scheduler_active m" "g_preempt_limit m = 0"
      "mc_timer m = (lettuce_timer_irq_handler ^^ 6) (mc_timer (h_machine h))"
    by (simp_all add: m_def)
  note one = one_task_tick [OF _ p(3,4) _ _ _ _ _ _ _ tick]
  have facts: "\<exists>tf'. flow = Continue tf'" "t_state (ptask (mc_policy m') 0) \<in> {LETTUCE_TASK_STATE_READY, LETTUCE_TASK_STATE_RUNNING}"
      "lettuce_kernel_sys_getpid (ps_tasks (mc_policy m')) \<noteq> 0"
    by (rule one; use ops T late max_tasks_pos in \<open>simp add: p init_tables pcur_def ticks_pow lettuce_timer_get_ticks_def task_slot_init_def\<close>)+
  have mk: "mc_mmu m = ew_mmu h" "mc_kernel m = mc_kernel (h_machine h)" by (simp_all add: m_def)
  note w = do_schedule_world [OF tick] do_schedule_keeps [OF tick]
  define h1 where "h1 = on_machine (\<lambda>_. m'\<lparr>g_scheduler_active := False\<rparr>) ?h0"
  have k: "holds pl el h h1"
    unfolding h1_def by (rule holds_machine) (use w mk holds_refl [OF h] in simp_all)
  have init: "lettuce_scheduler_init (h_machine h) = (h_machine h)\<lparr>mc_policy := p0, g_scheduler_active := False, g_switch_count := 0, g_preempt_count := 0,
      g_same_domain_switches := 0, g_cross_domain_switches := 0, g_preempt_limit := 0\<rparr>"
    by (simp add: lettuce_scheduler_init_def p0_def Let_def)
  define m1 where "m1 = (lettuce_scheduler_init (h_machine h))\<lparr>mc_policy :=
      p0\<lparr>ps_tasks := upd_task 0 (fresh_task 0 SERVICE_CAMERA DOMAIN_A ?pc ?sp name) lettuce_task_init_subsystem\<rparr>\<rparr>"
  have c: "create_task pl SERVICE_CAMERA DOMAIN_A (task_counter_a (el0_syms pl)) name (on_machine lettuce_scheduler_init ?h0) = (Some 0, on_machine (\<lambda>_. m1) ?h0)"
  proof -
    have ps: "ps_tasks (mc_policy (lettuce_scheduler_init (h_machine h))) = lettuce_task_init_subsystem" by (simp add: init p0)
    show ?thesis
      unfolding create_task_def with_tasks_def on_machine_facts say_machine ps lettuce_task_create_def init_tables(4)
      by (subst on_machine_const) (simp add: m1_def init)
  qed
  have ticks1: "mc_timer m1 = mc_timer (h_machine h)" by (simp add: m1_def init)
  have up: "upd_ptask 0 (\<lambda>t. t\<lparr>t_state := LETTUCE_TASK_STATE_SLEEPING\<rparr>) (upd_ptask 0 (\<lambda>t. t\<lparr>t_sleep_deadline_ticks := h_ticks h + 5\<rparr>) (mc_policy m1)) = mc_policy m"
    by (simp add: m1_def p upd_ptask_def upd_task_def T_def init_tables max_tasks_pos)
  have eq: "lettuce_scheduler_start (m1\<lparr>mc_policy := mc_policy m, mc_timer := (lettuce_timer_irq_handler ^^ 6) (mc_timer (h_machine h))\<rparr>) = m"
    by (simp add: lettuce_scheduler_start_def m1_def init m_def)
  have T0: "t_state (ptask (mc_policy m) 0) = LETTUCE_TASK_STATE_SLEEPING" using T(1) max_tasks_pos by (simp add: p init_tables)
  obtain tf' where "flow = Continue tf'" using facts(1) by blast
  then have "test22 pl name h = Some (log_test True ''Test 22: Task sleeping state and timer deadline wakeup verified''
      ''Test 22: Sleeping task deadline wakeup failed'' h1)"
    unfolding test22_def Let_def c prod.case bind.simps upd_htask_def on_machine_facts on_machine_pow timer_ticks_pow ticks1 up
    using facts(2) T0 tick eq 
    by (simp add: lettuce_scheduler_tick_def up h1_def lettuce_scheduler_stop_def ticks1)
  moreover have "lettuce_preempt_is_enabled (ew_trap h1) = lettuce_preempt_is_enabled (ew_trap h)"
    by (simp add: h1_def on_machine_def on_trap_def say_def lettuce_preempt_is_enabled_def)
  ultimately show ?thesis using succeeds_log [OF k] facts(3) w p(2) by (simp add: h1_def log_facts same_sched_def)
qed

lemma sleep_test_passes_witness:
  "\<exists>h'. test22 (demo_platform service_image) 0x40090000 demo_harness = Some h' \<and> g_tests_passed h' = 1"
proof -
  have "known_policy (g_policy_ops (h_machine demo_harness))" "unat (h_ticks demo_harness) + 6 < 2 ^ 64"
    by (simp_all add: demo_harness_def boot_machine_def demo_machine_def demo_machine_with_def demo_machine0_def known_policy_def lettuce_timer_get_ticks_def)
  moreover have "g_tests_passed demo_harness = 0" by (simp add: demo_harness_def)
  ultimately show ?thesis using sleep_test_passes [OF demo_harness_ok(1), of "0x40090000"] by (force simp: succeeds_def holds_def)
qed

end
