(* ===== verification/Sched_Trace.thy ===== *)
theory Sched_Trace
  imports Sched_Events
begin

text \<open>
  Decisions of the scheduler as a function of the accounting alone. What either policy decides at a tick does not depend on the
  saved contexts of the tasks, so a sequence of decisions can be computed once, with the contexts forgotten, and then holds for every
  run in which tasks of that accounting are preempted, whatever they execute.
\<close>

section \<open>Forgetting contexts\<close>

text \<open>Saved registers and the name of a task are forgotten.\<close>

definition forget_task :: "LettuceTask \<Rightarrow> LettuceTask" where
  "forget_task t = t\<lparr>t_context := zero_context 0 0, t_name := 0\<rparr>"

definition forget_tasks :: "task_state \<Rightarrow> task_state" where
  "forget_tasks ts = ts\<lparr>g_task_table := map forget_task (g_task_table ts)\<rparr>"

definition forget :: "policy_state \<Rightarrow> policy_state" where
  "forget s = s\<lparr>ps_tasks := forget_tasks (ps_tasks s)\<rparr>"

lemma forget_task_fields [simp]:
  "t_id (forget_task t) = t_id t" "t_generation (forget_task t) = t_generation t" "t_state (forget_task t) = t_state t"
  "t_service_id (forget_task t) = t_service_id t" "t_domain_id (forget_task t) = t_domain_id t" "t_weight (forget_task t) = t_weight t"
  "t_requested_slice_ticks (forget_task t) = t_requested_slice_ticks t" "t_time_slice_ticks (forget_task t) = t_time_slice_ticks t"
  "t_quantum_ticks (forget_task t) = t_quantum_ticks t" "t_vruntime (forget_task t) = t_vruntime t" "t_vdeadline (forget_task t) = t_vdeadline t"
  "t_sleep_deadline_ticks (forget_task t) = t_sleep_deadline_ticks t" "t_total_ticks_run (forget_task t) = t_total_ticks_run t"
  by (simp_all add: forget_task_def)

lemma forget_fields [simp]:
  "length (g_task_table (forget_tasks ts)) = length (g_task_table ts)" "g_current_task (forget_tasks ts) = g_current_task ts"
  "ps_tasks (forget s) = forget_tasks (ps_tasks s)" "g_rr_last_idx (forget s) = g_rr_last_idx s" "g_eevdf_vsys (forget s) = g_eevdf_vsys s"
  "pcur (forget s) = pcur s"
  by (simp_all add: forget_tasks_def forget_def pcur_def)

lemma task_at_forget [simp]: "i < length (g_task_table ts) \<Longrightarrow> task_at (forget_tasks ts) i = forget_task (task_at ts i)"
  by (simp add: forget_tasks_def)

lemma forget_upd:
  assumes "\<And>t. f (forget_task t) = forget_task (f t)"
  shows "upd_task i f (forget_tasks ts) = forget_tasks (upd_task i f ts)" "upd_ptask i f (forget s) = forget (upd_ptask i f s)"
proof -
  show *: "upd_task i f (forget_tasks ts) = forget_tasks (upd_task i f ts)" for ts
    using assms by (cases "i < length (g_task_table ts)") (simp_all add: upd_task_def forget_tasks_def map_update list_update_beyond)
  show "upd_ptask i f (forget s) = forget (upd_ptask i f s)" by (simp add: upd_ptask_def forget_def *)
qed

lemma probed_forget: "length (g_task_table ts) = LETTUCE_MAX_TASKS \<Longrightarrow> probed (forget_tasks ts) i = probed ts i"
  by (auto simp: probed_def)

lemma probe_slot_forget:
  "length (g_task_table ts) = LETTUCE_MAX_TASKS \<Longrightarrow> i < LETTUCE_MAX_TASKS \<Longrightarrow> probe_slot (forget_tasks ts) i = probe_slot ts i"
  by (simp add: probe_slot_eq probed_forget)

lemma probe_slot_range: "i < LETTUCE_MAX_TASKS \<Longrightarrow> probe_slot ts i = Some t \<Longrightarrow> t = i"
  by (simp add: probe_slot_eq split: if_splits)

section \<open>The policies\<close>

text \<open>A policy that decides without looking at contexts.\<close>

locale context_free_policy = sched_policy +
  assumes tick_forget: "length (g_task_table (ps_tasks s)) = LETTUCE_MAX_TASKS \<Longrightarrow> c < LETTUCE_MAX_TASKS \<Longrightarrow>
      po_on_tick ops (Some c) d (forget s) = forget (po_on_tick ops (Some c) d s)"
    and ready_forget: "length (g_task_table (ps_tasks s)) = LETTUCE_MAX_TASKS \<Longrightarrow> c < LETTUCE_MAX_TASKS \<Longrightarrow>
      po_on_task_ready ops (Some c) (forget s) = forget (po_on_task_ready ops (Some c) s)"
    and pick_forget: "length (g_task_table (ps_tasks s)) = LETTUCE_MAX_TASKS \<Longrightarrow> c < LETTUCE_MAX_TASKS \<Longrightarrow>
      po_pick_next ops (Some c) (forget s) = (fst (po_pick_next ops (Some c) s), forget (snd (po_pick_next ops (Some c) s)))"

lemma rr_scan_forget: "length (g_task_table ts) = LETTUCE_MAX_TASKS \<Longrightarrow> rr_scan (forget_tasks ts) l i n = rr_scan ts l i n"
proof (induction n arbitrary: i)
  case (Suc n)
  have "rr_ready (forget_tasks ts) j = rr_ready ts j" for j
    using Suc.prems by (auto simp: rr_ready_def probed_forget probed_def)
  then show ?case using Suc unfolding rr_scan_step by simp
qed simp

interpretation rr_free: context_free_policy g_lettuce_sched_rr_ops
proof
  fix s :: policy_state and c :: nat and d :: u64
  assume len: "length (g_task_table (ps_tasks s)) = LETTUCE_MAX_TASKS" and c: "c < LETTUCE_MAX_TASKS"
  show "po_on_tick g_lettuce_sched_rr_ops (Some c) d (forget s) = forget (po_on_tick g_lettuce_sched_rr_ops (Some c) d s)"
    using len c by (simp add: g_lettuce_sched_rr_ops_def rr_on_tick_def) (intro impI forget_upd, simp add: forget_task_def)
  show "po_on_task_ready g_lettuce_sched_rr_ops (Some c) (forget s) = forget (po_on_task_ready g_lettuce_sched_rr_ops (Some c) s)"
    by (simp add: g_lettuce_sched_rr_ops_def rr_on_task_ready_def)
  have q: "upd_ptask t (\<lambda>x. x\<lparr>t_time_slice_ticks := t_quantum_ticks x\<rparr>) (forget s') = forget (upd_ptask t (\<lambda>x. x\<lparr>t_time_slice_ticks := t_quantum_ticks x\<rparr>) s')" for t s'
    by (rule forget_upd) (simp add: forget_task_def)
  have idx: "(forget s)\<lparr>g_rr_last_idx := x\<rparr> = forget (s\<lparr>g_rr_last_idx := x\<rparr>)" for x by (simp add: forget_def)
  show "po_pick_next g_lettuce_sched_rr_ops (Some c) (forget s) =
      (fst (po_pick_next g_lettuce_sched_rr_ops (Some c) s), forget (snd (po_pick_next g_lettuce_sched_rr_ops (Some c) s)))"
    using len c by (simp add: g_lettuce_sched_rr_ops_def rr_pick_next_def rr_scan_forget idx q split: option.split)
qed

text \<open>For EEVDF, the sum of weights and the scan over the slots.\<close>

lemma weight_sum_forget:
  assumes "length (g_task_table ts) = LETTUCE_MAX_TASKS"
  shows "get_active_weight_sum (forget_tasks ts) = get_active_weight_sum ts"
proof -
  have "fold (\<lambda>slot total. case probe_slot (forget_tasks ts) slot of None \<Rightarrow> total
          | Some t \<Rightarrow> if t_state (task_at (forget_tasks ts) t) = LETTUCE_TASK_STATE_READY \<or> t_state (task_at (forget_tasks ts) t) = LETTUCE_TASK_STATE_RUNNING
              then total + effective_weight (task_at (forget_tasks ts) t) else total) [0..<LETTUCE_MAX_TASKS] a =
      fold (\<lambda>slot total. case probe_slot ts slot of None \<Rightarrow> total
          | Some t \<Rightarrow> if t_state (task_at ts t) = LETTUCE_TASK_STATE_READY \<or> t_state (task_at ts t) = LETTUCE_TASK_STATE_RUNNING
              then total + effective_weight (task_at ts t) else total) [0..<LETTUCE_MAX_TASKS] a" for a
    by (rule fold_cong [OF refl refl])
      (use assms in \<open>auto simp: fun_eq_iff probe_slot_eq probed_forget effective_weight_def split: option.split if_splits\<close>)
  then show ?thesis by (simp add: get_active_weight_sum_def)
qed

definition forget_scan :: "eevdf_scan \<Rightarrow> eevdf_scan" where
  "forget_scan acc = acc\<lparr>es_tasks := forget_tasks (es_tasks acc)\<rparr>"

lemma deadline_forget: "lettuce_eevdf_calc_deadline (Some (forget_task t)) = lettuce_eevdf_calc_deadline (Some t)"
  by (simp add: lettuce_eevdf_calc_deadline_def calc_vslice_def Let_def)

lemma scan_step_length: "length (g_task_table (es_tasks (eevdf_scan_step v i acc))) = length (g_task_table (es_tasks acc))"
  by (simp add: eevdf_scan_step_def Let_def upd_task_def split: option.split)

lemma scan_step_forget:
  assumes "length (g_task_table (es_tasks acc)) = LETTUCE_MAX_TASKS" "i < LETTUCE_MAX_TASKS"
  shows "eevdf_scan_step v i (forget_scan acc) = forget_scan (eevdf_scan_step v i acc)"
proof (cases "probe_slot (es_tasks acc) i")
  case None
  then show ?thesis using assms by (simp add: eevdf_scan_step_def forget_scan_def probe_slot_forget)
next
  case (Some t)
  then have t: "t = i" using probe_slot_range assms(2) by blast
  have u: "upd_task i (\<lambda>t. t\<lparr>t_vdeadline := lettuce_eevdf_calc_deadline (Some t)\<rparr>) (forget_tasks ts) =
      forget_tasks (upd_task i (\<lambda>t. t\<lparr>t_vdeadline := lettuce_eevdf_calc_deadline (Some t)\<rparr>) ts)" for ts
    by (rule forget_upd) (simp add: deadline_forget, simp add: forget_task_def)
  have l: "length (g_task_table (upd_task i f (es_tasks acc))) = LETTUCE_MAX_TASKS" for f using assms(1) by (simp add: upd_task_def)
  show ?thesis using Some assms l by (simp add: eevdf_scan_step_def forget_scan_def probe_slot_forget Let_def u t deadline_forget)
qed

lemma scan_forget:
  assumes "length (g_task_table (es_tasks acc)) = LETTUCE_MAX_TASKS" "\<forall>i \<in> set is. i < LETTUCE_MAX_TASKS"
  shows "fold (eevdf_scan_step v) is (forget_scan acc) = forget_scan (fold (eevdf_scan_step v) is acc)"
  using assms by (induction "is" arbitrary: acc) (simp_all add: scan_step_forget scan_step_length)

interpretation eevdf_free: context_free_policy g_lettuce_sched_eevdf_ops
proof
  fix s :: policy_state and c :: nat and d :: u64
  assume len: "length (g_task_table (ps_tasks s)) = LETTUCE_MAX_TASKS" and c: "c < LETTUCE_MAX_TASKS"
  have vs: "(forget s')\<lparr>g_eevdf_vsys := x\<rparr> = forget (s'\<lparr>g_eevdf_vsys := x\<rparr>)" for s' x by (simp add: forget_def)
  have u1: "upd_ptask c (\<lambda>t. t\<lparr>t_total_ticks_run := t_total_ticks_run t + d, t_vruntime := t_vruntime t + x\<rparr>) (forget s') =
      forget (upd_ptask c (\<lambda>t. t\<lparr>t_total_ticks_run := t_total_ticks_run t + d, t_vruntime := t_vruntime t + x\<rparr>) s')" for s' x
    by (rule forget_upd) (simp add: forget_task_def)
  have u2: "upd_ptask c (\<lambda>t. t\<lparr>t_time_slice_ticks := (if t_time_slice_ticks t \<ge> d then t_time_slice_ticks t - d else 0)\<rparr>) (forget s') =
      forget (upd_ptask c (\<lambda>t. t\<lparr>t_time_slice_ticks := (if t_time_slice_ticks t \<ge> d then t_time_slice_ticks t - d else 0)\<rparr>) s')" for s'
    by (rule forget_upd) (simp add: forget_task_def)
  have l: "length (g_task_table (ps_tasks (upd_ptask c f s'))) = length (g_task_table (ps_tasks s'))" for f s' by simp
  have w: "effective_weight (forget_task t) = effective_weight t" for t by (simp add: effective_weight_def)
  show "po_on_tick g_lettuce_sched_eevdf_ops (Some c) d (forget s) = forget (po_on_tick g_lettuce_sched_eevdf_ops (Some c) d s)"
    using len c by (simp add: g_lettuce_sched_eevdf_ops_def eevdf_on_tick_def Let_def w u1 u2 vs weight_sum_forget l)
  have u3: "upd_ptask c (\<lambda>t. let t' = (if t_vruntime t < x then t\<lparr>t_vruntime := x\<rparr> else t) in t'\<lparr>t_vdeadline := lettuce_eevdf_calc_deadline (Some t')\<rparr>) (forget s') =
      forget (upd_ptask c (\<lambda>t. let t' = (if t_vruntime t < x then t\<lparr>t_vruntime := x\<rparr> else t) in t'\<lparr>t_vdeadline := lettuce_eevdf_calc_deadline (Some t')\<rparr>) s')" for s' x
    by (rule forget_upd) (simp add: forget_task_def Let_def lettuce_eevdf_calc_deadline_def calc_vslice_def)
  show "po_on_task_ready g_lettuce_sched_eevdf_ops (Some c) (forget s) = forget (po_on_task_ready g_lettuce_sched_eevdf_ops (Some c) s)"
    unfolding g_lettuce_sched_eevdf_ops_def LettuceSchedPolicyOps.simps eevdf_on_task_ready_def option.case forget_fields by (rule u3)
  have g: "eevdf_grant i (forget s') = forget (eevdf_grant i s')" for i s'
    unfolding eevdf_grant_def by (rule forget_upd) (simp add: deadline_forget, simp add: forget_task_def)
  define acc where "acc = fold (eevdf_scan_step (g_eevdf_vsys s)) [0..<LETTUCE_MAX_TASKS] (eevdf_scan_start (ps_tasks s))"
  have st: "eevdf_scan_start (forget_tasks (ps_tasks s)) = forget_scan (eevdf_scan_start (ps_tasks s))" by (simp add: eevdf_scan_start_def forget_scan_def)
  have sc: "fold (eevdf_scan_step (g_eevdf_vsys s)) [0..<LETTUCE_MAX_TASKS] (eevdf_scan_start (forget_tasks (ps_tasks s))) = forget_scan acc"
    unfolding st acc_def by (rule scan_forget) (use len in \<open>simp_all add: eevdf_scan_start_def\<close>)
  have lacc: "length (g_task_table (es_tasks acc)) = LETTUCE_MAX_TASKS"
  proof -
    have "length (g_task_table (es_tasks (fold (eevdf_scan_step v) is a))) = length (g_task_table (es_tasks a))" for v "is" a
      by (induction "is" arbitrary: a) (simp_all add: scan_step_length)
    then show ?thesis using len by (simp add: acc_def eevdf_scan_start_def)
  qed
  have s1: "(forget s)\<lparr>ps_tasks := forget_tasks (es_tasks acc)\<rparr> = forget (s\<lparr>ps_tasks := es_tasks acc\<rparr>)" by (simp add: forget_def)
  show "po_pick_next g_lettuce_sched_eevdf_ops (Some c) (forget s) =
      (fst (po_pick_next g_lettuce_sched_eevdf_ops (Some c) s), forget (snd (po_pick_next g_lettuce_sched_eevdf_ops (Some c) s)))"
    using c lacc unfolding g_lettuce_sched_eevdf_ops_def LettuceSchedPolicyOps.simps eevdf_pick_next_def forget_fields sc acc_def [symmetric] Let_def
    by (simp add: forget_scan_def s1 g vs eevdf_keep_def split: option.split)
qed

section \<open>A tick, on tasks and policy\<close>

text \<open>What a timer tick does to the tasks and the policy when no task is asleep, and the task it hands over to, if any.\<close>

fun after_pick :: "task_ptr \<Rightarrow> task_ptr \<times> policy_state \<Rightarrow> task_ptr \<times> policy_state" where
  "after_pick cur (None, s3) = (None, case cur of
       Some c \<Rightarrow> if t_state (ptask s3 c) = LETTUCE_TASK_STATE_READY then renew_quantum c s3 else s3
     | None \<Rightarrow> s3)"
| "after_pick cur (Some n, s3) = (if cur = Some n then (None, renew_quantum n s3) else (Some n, policy_switched n s3))"

fun after_account :: "LettuceSchedPolicyOps \<Rightarrow> task_ptr \<Rightarrow> bool \<times> policy_state \<Rightarrow> task_ptr \<times> policy_state" where
  "after_account ops cur (True, s2) = (None, s2)"
| "after_account ops cur (False, s2) = after_pick cur (po_pick_next ops cur s2)"

definition sched_tick :: "LettuceSchedPolicyOps \<Rightarrow> LettuceTrapFrame \<Rightarrow> policy_state \<Rightarrow> task_ptr \<times> policy_state" where
  "sched_tick ops tf s = after_account ops (pcur s) (account_current ops (pcur s) tf True s)"

definition same_accounting :: "policy_state \<Rightarrow> policy_state \<Rightarrow> bool" where
  "same_accounting s s' \<longleftrightarrow> forget s = forget s'"

lemma same_fields:
  assumes "same_accounting s s'"
  shows "length (g_task_table (ps_tasks s)) = length (g_task_table (ps_tasks s'))" "pcur s = pcur s'"
    "i < length (g_task_table (ps_tasks s)) \<Longrightarrow> forget_task (ptask s i) = forget_task (ptask s' i)"
proof -
  note eq = assms [unfolded same_accounting_def]
  show len: "length (g_task_table (ps_tasks s)) = length (g_task_table (ps_tasks s'))" using arg_cong [OF eq, of "\<lambda>s. length (g_task_table (ps_tasks s))"] by simp
  show "pcur s = pcur s'" using arg_cong [OF eq, of pcur] by simp
  show "i < length (g_task_table (ps_tasks s)) \<Longrightarrow> forget_task (ptask s i) = forget_task (ptask s' i)"
    using arg_cong [OF eq, of "\<lambda>s. ptask s i"] len by simp
qed

lemma same_task:
  assumes "same_accounting s s'" "i < length (g_task_table (ps_tasks s))"
  shows "t_state (ptask s i) = t_state (ptask s' i)" "t_time_slice_ticks (ptask s i) = t_time_slice_ticks (ptask s' i)"
    "t_domain_id (ptask s i) = t_domain_id (ptask s' i)" "t_service_id (ptask s i) = t_service_id (ptask s' i)"
  using same_fields(3) [OF assms] forget_task_fields by metis+

lemma same_upd:
  assumes "\<And>t. f (forget_task t) = forget_task (f t)" "same_accounting s s'"
  shows "same_accounting (upd_ptask i f s) (upd_ptask i f s')"
proof -
  have "forget (upd_ptask i f s) = upd_ptask i f (forget s)" for s by (rule forget_upd(2) [symmetric]) (rule assms(1))
  then show ?thesis using assms(2) by (simp add: same_accounting_def)
qed

lemma forget_save:
  "forget (upd_ptask c (\<lambda>t. t\<lparr>t_context := x, t_state := v\<rparr>) s) = upd_ptask c (\<lambda>t. t\<lparr>t_state := v\<rparr>) (forget s)"
proof -
  have t: "forget_task (t\<lparr>t_context := x, t_state := v\<rparr>) = (forget_task t)\<lparr>t_state := v\<rparr>" for t by (cases t) (simp add: forget_task_def)
  show ?thesis
    by (cases "c < length (g_task_table (ps_tasks s))")
      (simp_all add: forget_def upd_ptask_def upd_task_def forget_tasks_def map_update t list_update_beyond)
qed

lemma same_save:
  "same_accounting s s' \<Longrightarrow> same_accounting (upd_ptask c (\<lambda>t. t\<lparr>t_context := x, t_state := v\<rparr>) s) (upd_ptask c (\<lambda>t. t\<lparr>t_context := y, t_state := v\<rparr>) s')"
  by (simp add: same_accounting_def forget_save)

lemma same_renew: "same_accounting s s' \<Longrightarrow> same_accounting (renew_quantum n s) (renew_quantum n s')"
  unfolding renew_quantum_def by (rule same_upd) (simp_all add: forget_task_def)

lemma same_switched: "same_accounting s s' \<Longrightarrow> same_accounting (policy_switched n s) (policy_switched n s')"
proof -
  assume "same_accounting s s'"
  then have "same_accounting (upd_ptask n (\<lambda>t. t\<lparr>t_state := LETTUCE_TASK_STATE_RUNNING\<rparr>) s) (upd_ptask n (\<lambda>t. t\<lparr>t_state := LETTUCE_TASK_STATE_RUNNING\<rparr>) s')"
    by (rule same_upd [rotated]) (simp add: forget_task_def)
  moreover have "forget (s\<lparr>ps_tasks := lettuce_task_set_current p (ps_tasks s)\<rparr>) =
      (forget s)\<lparr>ps_tasks := lettuce_task_set_current p (ps_tasks (forget s))\<rparr>" for p s
    by (simp add: forget_def forget_tasks_def lettuce_task_set_current_def)
  ultimately show ?thesis by (simp only: policy_switched_def Let_def same_accounting_def)
qed

context context_free_policy
begin

lemma same_hooks:
  assumes s: "same_accounting s s'" and len: "length (g_task_table (ps_tasks s)) = LETTUCE_MAX_TASKS" and c: "c < LETTUCE_MAX_TASKS"
  shows "same_accounting (po_on_tick ops (Some c) d s) (po_on_tick ops (Some c) d s')"
    "same_accounting (po_on_task_ready ops (Some c) s) (po_on_task_ready ops (Some c) s')"
    "fst (po_pick_next ops (Some c) s) = fst (po_pick_next ops (Some c) s')"
    "same_accounting (snd (po_pick_next ops (Some c) s)) (snd (po_pick_next ops (Some c) s'))"
proof -
  have len': "length (g_task_table (ps_tasks s')) = LETTUCE_MAX_TASKS" using len same_fields(1) [OF s] by simp
  note f = s [unfolded same_accounting_def]
  show "same_accounting (po_on_tick ops (Some c) d s) (po_on_tick ops (Some c) d s')"
    unfolding same_accounting_def tick_forget [OF len c, symmetric] tick_forget [OF len' c, symmetric] f ..
  show "same_accounting (po_on_task_ready ops (Some c) s) (po_on_task_ready ops (Some c) s')"
    unfolding same_accounting_def ready_forget [OF len c, symmetric] ready_forget [OF len' c, symmetric] f ..
  show "fst (po_pick_next ops (Some c) s) = fst (po_pick_next ops (Some c) s')"
    "same_accounting (snd (po_pick_next ops (Some c) s)) (snd (po_pick_next ops (Some c) s'))"
    using pick_forget [OF len c] pick_forget [OF len' c] f by (simp_all add: same_accounting_def)
qed

lemma account_same:
  assumes s: "same_accounting s s'" and len: "length (g_task_table (ps_tasks s)) = LETTUCE_MAX_TASKS" and c: "c < LETTUCE_MAX_TASKS"
  shows "fst (account_current ops (Some c) tf True s) = fst (account_current ops (Some c) tf' True s') \<and>
    same_accounting (snd (account_current ops (Some c) tf True s)) (snd (account_current ops (Some c) tf' True s'))"
proof -
  note t = same_hooks(1) [OF s len c, of 1]
  have lt: "length (g_task_table (ps_tasks (po_on_tick ops (Some c) 1 s))) = LETTUCE_MAX_TASKS"
    using tick_mech [of s "Some c" 1] len by (simp add: mech_eq_def)
  have lu: "length (g_task_table (ps_tasks (upd_ptask c f (po_on_tick ops (Some c) 1 s)))) = LETTUCE_MAX_TASKS" for f using lt by simp
  have st: "t_state (ptask s c) = t_state (ptask s' c)"
      "t_time_slice_ticks (ptask (po_on_tick ops (Some c) 1 s) c) = t_time_slice_ticks (ptask (po_on_tick ops (Some c) 1 s') c)"
    using same_task(1) [OF s] same_task(2) [OF t] len lt c by simp_all
  show ?thesis
    using t s same_hooks(2) [OF same_save [OF t, where c = c and x = "frame_context tf" and v = LETTUCE_TASK_STATE_READY and y = "frame_context tf'"] lu c]
    by (simp add: account_current_def st Let_def)
qed

lemma sched_tick_same:
  assumes s: "same_accounting s s'" and len: "length (g_task_table (ps_tasks s)) = LETTUCE_MAX_TASKS" and c: "pcur s = Some c" "c < LETTUCE_MAX_TASKS"
  shows "fst (sched_tick ops tf s) = fst (sched_tick ops tf' s') \<and> same_accounting (snd (sched_tick ops tf s)) (snd (sched_tick ops tf' s'))"
proof -
  obtain g s2 g' s2' where a: "account_current ops (Some c) tf True s = (g, s2)" "account_current ops (Some c) tf' True s' = (g', s2')" by fastforce
  have s2: "g' = g" "same_accounting s2 s2'" using account_same [OF s len c(2), of tf tf'] a by simp_all
  have elen: "length (erased s) = LETTUCE_MAX_TASKS" using len by simp
  have len2: "length (g_task_table (ps_tasks s2)) = LETTUCE_MAX_TASKS"
  proof (cases g)
    case True
    then have "erased s2 = erased s" using account_view(2) [OF a(1) elen] c(2) by simp
    then show ?thesis using len by (metis length_erased)
  next
    case False
    then have "erased s2 = saved tf (erased s, Some c)" using account_view(3) [OF a(1) elen] c(2) by simp
    then have "length (erased s2) = length (erased s)" by (simp add: saved_def)
    then show ?thesis using len by simp
  qed
  obtain p s3 p' s3' where pk: "po_pick_next ops (Some c) s2 = (p, s3)" "po_pick_next ops (Some c) s2' = (p', s3')" by fastforce
  have s3: "p' = p" "same_accounting s3 s3'" using same_hooks(3,4) [OF s2(2) len2 c(2)] pk by simp_all
  have len3: "length (g_task_table (ps_tasks s3)) = LETTUCE_MAX_TASKS" using pick_mech [of s2 "Some c"] pk(1) len2 by (simp add: mech_eq_def)
  have st: "t_state (ptask s3 c) = t_state (ptask s3' c)" using same_task(1) [OF s3(2)] len3 c(2) by simp
  have cur: "pcur s' = Some c" using same_fields(2) [OF s] c(1) by simp
  show ?thesis
    using s2(2) s3(2) same_renew [OF s3(2)] same_switched [OF s3(2)]
    by (cases g; cases p) (simp_all add: sched_tick_def c(1) cur a s2(1) pk s3(1) st)
qed

end

section \<open>A tick, on the machine\<close>

definition awake :: "policy_state \<Rightarrow> bool" where
  "awake s \<longleftrightarrow> (\<forall>i < LETTUCE_MAX_TASKS. t_state (ptask s i) \<noteq> LETTUCE_TASK_STATE_SLEEPING)"

lemma wake_sleepers_awake:
  assumes "awake s"
  shows "wake_sleepers ops now s = s"
proof -
  have "wake_slot ops now i s = s" if "i < LETTUCE_MAX_TASKS" for i
    using that assms probe_slot_range by (auto simp: wake_slot_def awake_def split: option.split)
  then have "fold (wake_slot ops now) is s = s" if "\<forall>i \<in> set is. i < LETTUCE_MAX_TASKS" for "is"
    using that by (induction "is") simp_all
  then show ?thesis by (simp add: wake_sleepers_def)
qed

lemma same_awake:
  "same_accounting s s' \<Longrightarrow> length (g_task_table (ps_tasks s)) = LETTUCE_MAX_TASKS \<Longrightarrow> awake s = awake s'"
  using same_task(1) by (simp add: awake_def)

lemma wake_task_awake: "awake s \<Longrightarrow> length (erased s) = LETTUCE_MAX_TASKS \<Longrightarrow> map (wake_task now) (erased s) = erased s"
  by (rule nth_equalityI) (simp_all add: erased_nth wake_task_def awake_def)

context context_free_policy
begin

lemma do_schedule_tick:
  assumes ops: "g_policy_ops m = ops" and act: "g_scheduler_active m" and awake: "awake (mc_policy m)" and c: "pcur (mc_policy m) = Some c"
    and run: "do_schedule (Some tf) True m = (flow, m')" and tick: "sched_tick ops tf (mc_policy m) = (d, s')"
  shows "d = None \<Longrightarrow> flow = Continue (Some tf) \<and> m' = m\<lparr>mc_policy := s'\<rparr>"
    "d = Some n \<Longrightarrow> n \<noteq> c \<and> (\<exists>s3. switch_to (Some c) n True (m\<lparr>mc_policy := s3\<rparr>) = (flow, m') \<and> s' = policy_switched n s3)"
proof -
  let ?s = "mc_policy m"
  obtain g s2 where a: "account_current ops (Some c) tf True ?s = (g, s2)" by fastforce
  obtain p s3 where pk: "po_pick_next ops (Some c) s2 = (p, s3)" by fastforce
  note eq = run [unfolded do_schedule_def wake_sleepers_awake [OF awake] lettuce_task_current_def pcur_def [symmetric] ops c(1) Let_def a]
    and t = tick [unfolded sched_tick_def c(1) a]
  show "d = None \<Longrightarrow> flow = Continue (Some tf) \<and> m' = m\<lparr>mc_policy := s'\<rparr>"
    "d = Some n \<Longrightarrow> n \<noteq> c \<and> (\<exists>s3. switch_to (Some c) n True (m\<lparr>mc_policy := s3\<rparr>) = (flow, m') \<and> s' = policy_switched n s3)"
    using eq t act pk by (cases g; cases p; auto simp: wake_sleepers_awake [OF awake] a split: if_splits)+
qed

text \<open>The effect of a tick whose decision is known for tasks of the same accounting.\<close>

lemma tick_effect:
  assumes ops: "g_policy_ops m = ops" and act: "g_scheduler_active m" and awake: "awake (mc_policy m)" and c: "pcur (mc_policy m) = Some c" "c < LETTUCE_MAX_TASKS"
    and len: "length (g_task_table (ps_tasks (mc_policy m))) = LETTUCE_MAX_TASKS"
    and run: "do_schedule (Some tf) True m = (flow, m')" and s0: "same_accounting (mc_policy m) s0" and tick: "sched_tick ops tf0 s0 = (d, s0')"
  shows "same_accounting (mc_policy m') s0'"
    "i < LETTUCE_MAX_TASKS \<Longrightarrow> i \<noteq> c \<Longrightarrow> t_context (ptask (mc_policy m') i) = t_context (ptask (mc_policy m) i)"
    "d = None \<Longrightarrow> flow = Continue (Some tf) \<and> m' = m\<lparr>mc_policy := mc_policy m'\<rparr> \<and> pcur (mc_policy m') = Some c"
    "d = Some n \<Longrightarrow> n \<noteq> c \<and> n < LETTUCE_MAX_TASKS \<and> pcur (mc_policy m') = Some n \<and>
      (t_state (ptask (mc_policy m) c) = LETTUCE_TASK_STATE_RUNNING \<longrightarrow> t_context (ptask (mc_policy m') c) = frame_context tf) \<and>
      (\<exists>s3. switch_to (Some c) n True (m\<lparr>mc_policy := s3\<rparr>) = (flow, m') \<and> erased s3 = saved tf (erased (mc_policy m), Some c))"
proof -
  let ?s = "mc_policy m"
  obtain d' s' where t: "sched_tick ops tf ?s = (d', s')" by fastforce
  have d: "d' = d" "same_accounting s' s0'" using sched_tick_same [OF s0 len c, of tf tf0] t tick by simp_all
  note dst = do_schedule_tick [OF ops act awake c(1) run t]
  have elen: "length (erased ?s) = LETTUCE_MAX_TASKS" using len by simp
  define v where "v = (erased ?s, Some c)"
  have v: "v = (map (wake_task (g_timer_ticks (mc_timer m))) (erased ?s), pcur ?s)" by (simp only: v_def wake_task_awake [OF awake elen] c(1))
  have cur: "\<And>c. pcur ?s = Some c \<Longrightarrow> c < LETTUCE_MAX_TASKS" using c by simp
  note cases = do_schedule_cases [OF ops act elen cur run v]
  have lsv: "length (saved tf v) = LETTUCE_MAX_TASKS" using elen by (simp add: saved_def v_def del: length_erased)
  have sv: "i \<noteq> c \<Longrightarrow> saved tf v ! i = erased ?s ! i" for i by (simp add: saved_def v_def)
  have cx: "t_context (erased s ! i) = t_context (ptask s i)" if "length (erased s) = LETTUCE_MAX_TASKS" "i < LETTUCE_MAX_TASKS" for s i
    using that by (simp add: erased_nth)
  show "same_accounting (mc_policy m') s0'"
  proof (cases d)
    case None
    then show ?thesis using dst(1) d by simp
  next
    case (Some n)
    then obtain s3 where s3: "switch_to (Some c) n True (m\<lparr>mc_policy := s3\<rparr>) = (flow, m')" "s' = policy_switched n s3" using dst(2) d(1) by blast
    have "mc_policy m' = policy_switched n s3" using switch_to_policy(1) [of "Some c" n True "m\<lparr>mc_policy := s3\<rparr>"] s3(1) by simp
    then show ?thesis using s3(2) d(2) by simp
  qed
  have handed: "g_switch_count m' = g_switch_count m + 1 \<and> pcur (mc_policy m') = Some n \<and>
      erased (mc_policy m') = (saved tf v)[n := (saved tf v ! n)\<lparr>t_state := LETTUCE_TASK_STATE_RUNNING\<rparr>]"
    if "switch_to (Some c) n True (m\<lparr>mc_policy := s3\<rparr>) = (flow, m')" "erased s3 = saved tf v" "n < LETTUCE_MAX_TASKS" for n s3
    using switch_to_effect(1,4) [OF that(1)] that(2,3) lsv c(2) by (simp add: sched_view_of_def)
  have counted: "g_switch_count m' = g_switch_count m + 1" if "d = Some n" for n
    using dst(2) [of n] d(1) that by (auto simp: switch_to_def Let_def split: if_splits)
  have not: "g_switch_count m + 1 \<noteq> g_switch_count m" by simp
  consider (stay) "d = None" "m' = m\<lparr>mc_policy := mc_policy m'\<rparr>" "flow = Continue (Some tf)" "pcur (mc_policy m') = Some c"
      "dispatch tf v tf (erased (mc_policy m'), Some c)"
    | (switch) n s3 where "d = Some n" "n \<noteq> c" "n < LETTUCE_MAX_TASKS" "erased s3 = saved tf v" "switch_to (Some c) n True (m\<lparr>mc_policy := s3\<rparr>) = (flow, m')"
    using cases
  proof
    assume "\<exists>s'. flow = Continue (Some tf) \<and> m' = m\<lparr>mc_policy := s'\<rparr> \<and> pcur s' = pcur ?s \<and> dispatch tf v tf (erased s', pcur s')"
    then have e: "flow = Continue (Some tf)" "m' = m\<lparr>mc_policy := mc_policy m'\<rparr>" "pcur (mc_policy m') = Some c" "dispatch tf v tf (erased (mc_policy m'), Some c)"
      using c(1) by auto
    have "g_switch_count m' = g_switch_count m" by (subst e(2)) simp
    then have "d = None" using counted not by (cases d) auto
    then show ?thesis using that(1) e by blast
  next
    assume "\<exists>n s3. pcur ?s \<noteq> Some n \<and> n < LETTUCE_MAX_TASKS \<and> erased s3 = saved tf v \<and> pcur s3 = pcur ?s \<and>
        t_state (saved tf v ! n) = LETTUCE_TASK_STATE_READY \<and> reachable_by_scan (saved tf v ! n) \<and> (flow, m') = switch_to (pcur ?s) n True (m\<lparr>mc_policy := s3\<rparr>)"
    then obtain n s3 where n: "n \<noteq> c" "n < LETTUCE_MAX_TASKS" "erased s3 = saved tf v" "switch_to (Some c) n True (m\<lparr>mc_policy := s3\<rparr>) = (flow, m')"
      unfolding c(1) by (metis (no_types, lifting))
    note sw = handed [OF n(4,3,2)]
    have "d \<noteq> None"
    proof
      assume "d = None"
      then have "m' = m\<lparr>mc_policy := s'\<rparr>" using dst(1) d(1) by blast
      then show False using sw not by simp
    qed
    then obtain n' where n': "d = Some n'" by blast
    have "pcur (mc_policy m') = Some n'"
      using dst(2) [of n'] d(1) n' switch_to_policy(1) [of "Some c" n' True "m\<lparr>mc_policy := _\<rparr>"]
      by (auto simp: policy_switched_def Let_def pcur_def lettuce_task_set_current_def dest!: arg_cong [of _ _ snd])
    then have "n' = n" using sw by simp
    then show ?thesis using that(2) n n' by blast
  qed
  note outcome = this
  show "d = None \<Longrightarrow> flow = Continue (Some tf) \<and> m' = m\<lparr>mc_policy := mc_policy m'\<rparr> \<and> pcur (mc_policy m') = Some c"
    using outcome by cases auto
  show "i < LETTUCE_MAX_TASKS \<Longrightarrow> i \<noteq> c \<Longrightarrow> t_context (ptask (mc_policy m') i) = t_context (ptask (mc_policy m) i)"
    using outcome
  proof cases
    case stay
    assume i: "i < LETTUCE_MAX_TASKS" "i \<noteq> c"
    have "length (erased (mc_policy m')) = LETTUCE_MAX_TASKS \<and> erased (mc_policy m') ! i = erased ?s ! i"
      using stay(5) i sv [OF i(2)] lsv elen unfolding v_def by (auto simp: renewed_def simp del: length_erased elim!: dispatchE)
    then show ?thesis using cx [of "mc_policy m'" i] cx [of ?s i] i elen by metis
  next
    case (switch n s3)
    assume i: "i < LETTUCE_MAX_TASKS" "i \<noteq> c"
    have e: "erased (mc_policy m') = (saved tf v)[n := (saved tf v ! n)\<lparr>t_state := LETTUCE_TASK_STATE_RUNNING\<rparr>]"
      using handed [OF switch(5,4,3)] by simp
    then show ?thesis using cx [of "mc_policy m'" i] cx [of ?s i] i elen lsv sv [OF i(2)] by (cases "i = n") auto
  qed
  show "d = Some n \<Longrightarrow> n \<noteq> c \<and> n < LETTUCE_MAX_TASKS \<and> pcur (mc_policy m') = Some n \<and>
      (t_state (ptask (mc_policy m) c) = LETTUCE_TASK_STATE_RUNNING \<longrightarrow> t_context (ptask (mc_policy m') c) = frame_context tf) \<and>
      (\<exists>s3. switch_to (Some c) n True (m\<lparr>mc_policy := s3\<rparr>) = (flow, m') \<and> erased s3 = saved tf (erased (mc_policy m), Some c))"
    using outcome
  proof cases
    case (switch n' s3)
    assume "d = Some n"
    then have n: "n' = n" using switch(1) by simp
    note hd = handed [OF switch(5,4,3)]
    have "t_context (ptask (mc_policy m') c) = frame_context tf" if r: "t_state (ptask ?s c) = LETTUCE_TASK_STATE_RUNNING"
    proof -
      have "t_state (erased ?s ! c) = LETTUCE_TASK_STATE_RUNNING" using r c(2) len by (simp add: erased_nth)
      then have "t_context (saved tf v ! c) = frame_context tf" using c(2) elen by (simp add: saved_def v_def del: length_erased)
      then show ?thesis using cx [of "mc_policy m'" c] hd lsv c(2) switch(2) by simp
    qed
    then show ?thesis using switch(2-5) hd n v_def by blast
  qed simp
qed

end

section \<open>Computed decisions\<close>

text \<open>Evaluation looks a slot up at once instead of trying ten identifiers.\<close>

lemma probe_slot_code [code]:
  "probe_slot st i = (if i < LETTUCE_MAX_TASKS then if probed st i then Some i else None else probe_slot_from st i 1)"
  by (cases "i < LETTUCE_MAX_TASKS") (simp_all only: probe_slot_eq if_True if_False, simp add: probe_slot_def)

definition no_frame :: LettuceTrapFrame where
  "no_frame = \<lparr>tf_x = [], tf_lr = 0, tf_elr = 0, tf_spsr = 0, tf_sp_el0 = 0\<rparr>"

text \<open>From the result of a decision on, the next ticks decide as listed, and a check holds all the time.\<close>

fun decides :: "LettuceSchedPolicyOps \<Rightarrow> (policy_state \<Rightarrow> bool) \<Rightarrow> task_ptr \<Rightarrow> task_ptr \<times> policy_state \<Rightarrow> task_ptr list \<Rightarrow> bool" where
  "decides ops good d (d', s) [] = (d = d' \<and> good s)"
| "decides ops good d (d', s) (d1 # ds) = (d = d' \<and> good s \<and> decides ops good d1 (sched_tick ops no_frame s) ds)"

end
