(* ===== verification/Harness_Preempt.thy ===== *)
theory Harness_Preempt
  imports Harness_Timer Sched_Trace
begin

text \<open>
  Tests 21 and 25 of \<^verbatim>\<open>kernel/arch/arm64/main.c\<close>: three tasks that count in three domains, preempted by timer interrupts under round robin and
  under EEVDF. Between interrupts the tasks execute their instructions; at an interrupt the handler and the scheduler run. The
  decisions of the policies are computed once, without the registers of the tasks.
\<close>

section \<open>Running with interrupts\<close>

text \<open>Before instruction \<^verbatim>\<open>n\<close> of the run an interrupt may be taken, with the value that the interrupt controller gives for it.\<close>

type_synonym irq_env = "nat \<Rightarrow> u32 option"

partial_function (option) el0_loop_irq ::
  "platform \<Rightarrow> irq_env \<Rightarrow> nat \<Rightarrow> LettuceTrapFrame \<Rightarrow> 'a el0_world_scheme \<Rightarrow> (s64 \<times> 'a el0_world_scheme) option" where
  "el0_loop_irq pl irq n fr w =
     (case irq n of
        None \<Rightarrow> (case el0_step pl fr w of
            Running fr' w' \<Rightarrow> el0_loop_irq pl irq (Suc n) fr' w' | Resumed s w' \<Rightarrow> Some (s, w') | Halted w' \<Rightarrow> None)
      | Some iar \<Rightarrow> (case lettuce_arch_irq_lower_el_handler iar fr (ew_trap w) of
            (TrapReturn fr', st) \<Rightarrow> el0_loop_irq pl irq (Suc n) fr' (w\<lparr>ew_trap := st\<rparr>)
          | (TrapResume s, st) \<Rightarrow> Some (s, w\<lparr>ew_trap := st\<rparr>)
          | (TrapHalt, st) \<Rightarrow> None))"

definition lettuce_el0_enter_irq ::
  "platform \<Rightarrow> irq_env \<Rightarrow> u64 \<Rightarrow> u64 \<Rightarrow> 'a el0_world_scheme \<Rightarrow> (s64 \<times> 'a el0_world_scheme) option" where
  "lettuce_el0_enter_irq pl irq entry_pc el0_sp w =
     el0_loop_irq pl irq 0 (el0_start (pl_regs pl (ew_trap w)) (pl_link pl (ew_trap w)) entry_pc el0_sp) w"

definition el1_load :: "platform \<Rightarrow> u64 \<Rightarrow> harness_state \<Rightarrow> u64 option" where
  "el1_load pl va h = map_option (\<lambda>(e, pa). ew_mem h pa) (walk (pl_layout pl) (ew_mmu h) (ttbr0 (ew_mmu h)) va)"

section \<open>The tests\<close>

definition counter_va :: "nat \<Rightarrow> u64" where "counter_va c = [0x411c0050, 0x411c0058, 0x411c0060] ! c"

definition clear_counters :: "platform \<Rightarrow> harness_state \<Rightarrow> harness_state option" where
  "clear_counters pl h = do {
     h \<leftarrow> el1_store pl (counter_va 0) 0 h;
     h \<leftarrow> el1_store pl (counter_va 1) 0 h;
     el1_store pl (counter_va 2) 0 h
   }"

definition create_counters :: "platform \<Rightarrow> u64 \<times> u64 \<times> u64 \<Rightarrow> harness_state \<Rightarrow> task_ptr \<times> task_ptr \<times> task_ptr \<times> harness_state" where
  "create_counters pl names h =
     (let (name_a, name_b, name_c) = names;
          (t1, h) = create_task pl SERVICE_CAMERA DOMAIN_A (task_counter_a (el0_syms pl)) name_a h;
          (t2, h) = create_task pl SERVICE_DISPLAY DOMAIN_B (task_counter_b (el0_syms pl)) name_b h;
          (t3, h) = create_task pl SERVICE_SENSOR DOMAIN_C (task_counter_c (el0_syms pl)) name_c h
      in (t1, t2, t3, h))"

definition set_current :: "task_ptr \<Rightarrow> harness_state \<Rightarrow> harness_state" where
  "set_current task h = snd (with_tasks (\<lambda>ts. ((), lettuce_task_set_current task ts)) h)"

definition test21 :: "platform \<Rightarrow> irq_env \<Rightarrow> u64 \<times> u64 \<times> u64 \<Rightarrow> harness_state \<Rightarrow> harness_state option" where
  "test21 pl irq names h = do {
     let h = say [puts ''\<newline>--- Test 21: Preemptive Multitasking Across 3 Isolated Domains ---\<newline>''] h;
     let h = on_machine lettuce_scheduler_init h;
     h \<leftarrow> clear_counters pl h;
     let (t1, t2, t3, h) = create_counters pl names h;
     let h = set_current t1 h;
     i1 \<leftarrow> t1;
     let h = upd_htask i1 (\<lambda>t. t\<lparr>t_state := LETTUCE_TASK_STATE_RUNNING\<rparr>) h;
     let h = on_machine (lettuce_scheduler_set_preempt_limit 6) h;
     let h = on_machine lettuce_scheduler_start h;
     let h = on_trap (on_mmu (\<lambda>mmu. snd (lettuce_mmu_enter DOMAIN_A mmu))) h;
     let h = on_trap (on_kernel (kernel_set_current_service_id SERVICE_CAMERA)) h;
     (t21_res, h) \<leftarrow> lettuce_el0_enter_irq pl irq (el0_service_va (el0_syms pl) (task_counter_a (el0_syms pl)))
       (lettuce_arch_domain_stack_top DOMAIN_A) h;
     let h = on_machine lettuce_scheduler_stop h;
     cnt_a \<leftarrow> el1_load pl (counter_va 0) h;
     cnt_b \<leftarrow> el1_load pl (counter_va 1) h;
     cnt_c \<leftarrow> el1_load pl (counter_va 2) h;
     Some (log_test (is_status t21_res LETTUCE_STATUS_OK \<and> cnt_a > 0 \<and> cnt_b > 0 \<and> cnt_c > 0 \<and>
         lettuce_scheduler_preempt_count (h_machine h) \<ge> 5 \<and> lettuce_scheduler_cross_domain_switches (h_machine h) \<ge> 4)
       ''Test 21: Preemptive round-robin context switching verified across 3 MMU domains''
       ''Test 21: Preemptive context switching across domains failed'' h)
   }"

definition set_weight :: "task_ptr \<Rightarrow> u32 \<Rightarrow> harness_state \<Rightarrow> harness_state" where
  "set_weight task weight h = snd (with_tasks (\<lambda>ts. ((), lettuce_task_set_weight task weight ts)) h)"

definition test25 :: "platform \<Rightarrow> irq_env \<Rightarrow> u64 \<times> u64 \<times> u64 \<Rightarrow> harness_state \<Rightarrow> harness_state option" where
  "test25 pl irq names h = do {
     let h = say [puts ''\<newline>--- Test 25: EEVDF Preemptive Scheduling Across 3 MMU Domains ---\<newline>''] h;
     let h = on_machine lettuce_scheduler_init h;
     let h = on_machine (lettuce_scheduler_set_policy LETTUCE_SCHED_POLICY_EEVDF) h;
     h \<leftarrow> clear_counters pl h;
     let (t1, t2, t3, h) = create_counters pl names h;
     let h = set_weight t1 2048 h;
     let h = set_weight t2 1024 h;
     let h = set_weight t3 1024 h;
     let h = set_current t1 h;
     i1 \<leftarrow> t1;
     let h = upd_htask i1 (\<lambda>t. t\<lparr>t_state := LETTUCE_TASK_STATE_RUNNING\<rparr>) h;
     let h = on_machine (lettuce_scheduler_set_preempt_limit 6) h;
     let h = on_machine lettuce_scheduler_start h;
     let h = on_machine (\<lambda>m. m\<lparr>mc_timer := lettuce_timer_init (pl_freq pl) 100 (mc_timer m)\<rparr>) h;
     let h = on_trap (on_mmu (\<lambda>mmu. snd (lettuce_mmu_enter DOMAIN_A mmu))) h;
     let h = on_trap (on_kernel (kernel_set_current_service_id SERVICE_CAMERA)) h;
     (t25_res, h) \<leftarrow> lettuce_el0_enter_irq pl irq (el0_service_va (el0_syms pl) (task_counter_a (el0_syms pl)))
       (lettuce_arch_domain_stack_top DOMAIN_A) h;
     let h = on_machine lettuce_scheduler_stop h;
     cnt_a \<leftarrow> el1_load pl (counter_va 0) h;
     cnt_b \<leftarrow> el1_load pl (counter_va 1) h;
     cnt_c \<leftarrow> el1_load pl (counter_va 2) h;
     Some (log_test (is_status t25_res LETTUCE_STATUS_OK \<and> cnt_a > 0 \<and> cnt_b > 0 \<and> cnt_c > 0 \<and>
         lettuce_scheduler_preempt_count (h_machine h) \<ge> 5 \<and> lettuce_scheduler_cross_domain_switches (h_machine h) \<ge> 4 \<and>
         lettuce_scheduler_get_policy (h_machine h) = LETTUCE_SCHED_POLICY_EEVDF)
       ''Test 25: EEVDF preemptive scheduling and MMU domain isolation verified under hardware timer IRQs''
       ''Test 25: EEVDF preemptive context switching across domains failed'' h)
   }"

section \<open>The counting tasks\<close>

definition counter_pa :: "platform \<Rightarrow> nat \<Rightarrow> u64" where
  "counter_pa pl c = lay_shared (pl_layout pl) OR of_nat (0x50 + 8 * c)"

lemma counter_address:
  assumes "c < 3"
  shows "counter_va c = 0x411c0000 + of_nat (0x50 + 8 * c)"
    "service_text ! (17 + c) = [Ldr_lit 0 (private_va c), Ldr_lit 1 (counter_va c), Ldr 3 0, Ldr 2 1, Add_imm 2 2 1, Str 2 1, B (- 16)]"
    "17 + c < length service_text"
proof -
  have "c = 0 \<or> c = 1 \<or> c = 2" using assms by linarith
  then show "counter_va c = 0x411c0000 + of_nat (0x50 + 8 * c)"
    "service_text ! (17 + c) = [Ldr_lit 0 (private_va c), Ldr_lit 1 (counter_va c), Ldr 3 0, Ldr 2 1, Add_imm 2 2 1, Str 2 1, B (- 16)]"
    "17 + c < length service_text"
    by (auto simp: counter_va_def private_va_def service_text_def task_counter_a_code_def task_counter_b_code_def task_counter_c_code_def)
qed

lemma counters_apart:
  assumes "platform_ok pl" "c < 3" "i < 3" "c \<noteq> i"
  shows "counter_pa pl c \<noteq> counter_pa pl i"
proof -
  have f: "page_frame (lay_shared (pl_layout pl))" using lay_frames [OF platform_facts(1) [OF assms(1)] assms(2)] by simp
  have "counter_pa pl j = lay_shared (pl_layout pl) + of_nat (0x50 + 8 * j)" if "j < 3" for j
    unfolding counter_pa_def by (rule frame_or_add [OF f]) (use that in simp)
  moreover have "c = 0 \<or> c = 1 \<or> c = 2" "i = 0 \<or> i = 1 \<or> i = 2" using assms by linarith+
  ultimately show ?thesis using assms(4) by auto
qed

text \<open>Where a task is in its loop, with what its registers hold there when its counter has value \<^verbatim>\<open>v\<close>.\<close>

definition counting_at :: "nat \<Rightarrow> nat \<Rightarrow> u64 \<Rightarrow> LettuceTrapFrame \<Rightarrow> bool" where
  "counting_at c j v fr \<longleftrightarrow> j < 7 \<and> length (tf_x fr) = 30 \<and> tf_elr fr = code_at (17 + c) j \<and> (1 \<le> j \<longrightarrow> tf_x fr ! 0 = private_va c) \<and>
     (2 \<le> j \<longrightarrow> tf_x fr ! 1 = counter_va c) \<and> (j = 4 \<longrightarrow> tf_x fr ! 2 = v) \<and> (j = 5 \<longrightarrow> tf_x fr ! 2 = v + 1)"

definition next_at :: "nat \<Rightarrow> nat" where "next_at j = (if j = 6 then 2 else j + 1)"

definition steps_to_store :: "nat \<Rightarrow> nat" where "steps_to_store j = (if j = 6 then 5 else 6 - j)"

lemma counter_step:
  assumes pl: "platform_ok pl" and d: "in_domain (pl_layout pl) el c (ew_mmu w)" and fr: "counting_at c j (ew_mem w (counter_pa pl c)) fr"
  shows "\<exists>fr'. el0_step pl fr w = Running fr' (w\<lparr>ew_mem := (ew_mem w)(counter_pa pl c := ew_mem w (counter_pa pl c) + (if j = 5 then 1 else 0))\<rparr>) \<and>
    counting_at c (next_at j) (ew_mem w (counter_pa pl c) + (if j = 5 then 1 else 0)) fr'"
proof -
  have c: "c < 3" using in_domain_lt [OF d] .
  note ok = platform_facts(1,2) [OF pl] and code = counter_address [OF c]
  have j: "j < 7" "tf_elr fr = code_at (17 + c) j" "length (tf_x fr) = 30" using fr by (simp_all add: counting_at_def)
  have len: "j < length (service_text ! (17 + c))" using j(1) by (simp add: code(2))
  note st = step_service [OF ok d code(3) len j(2), unfolded code(2)]
  have pa: "translate (pl_layout pl) (ew_mmu w) acc (counter_va c) = Inr (counter_pa pl c)" if "acc \<noteq> Fetch" for acc
    unfolding code(1) counter_pa_def by (rule translate_data(3) [OF ok(1) d that]) (use c in simp)
  note tr = pa [of Load] pa [of Store] translate_data(1) [OF ok(1) d, of Load]
  have back16: "code_at (17 + c) 6 + (- 16) = code_at (17 + c) 2" by (simp add: code_at_def algebra_simps)
  have "j = 0 \<or> j = 1 \<or> j = 2 \<or> j = 3 \<or> j = 4 \<or> j = 5 \<or> j = 6" using j(1) by linarith
  then show ?thesis
    using fr back16 unfolding st
    by (elim disjE) (simp_all add: counting_at_def next_at_def tr next_pc_def set_x_def jump_def code_at_next del: One_nat_def)
qed

text \<open>Between two interrupts the current task counts in its own counter, at least once if it executes six instructions.\<close>

lemma counter_segment:
  assumes pl: "platform_ok pl" and d: "in_domain (pl_layout pl) el c (ew_mmu w)" and fr: "counting_at c j (ew_mem w (counter_pa pl c)) fr"
    and quiet: "\<forall>i < g. irq (n + i) = None"
  shows "\<exists>k j' fr'. el0_loop_irq pl irq n fr w =
      el0_loop_irq pl irq (n + g) fr' (w\<lparr>ew_mem := (ew_mem w)(counter_pa pl c := ew_mem w (counter_pa pl c) + of_nat k)\<rparr>) \<and>
    counting_at c j' (ew_mem w (counter_pa pl c) + of_nat k) fr' \<and> k \<le> g \<and> (steps_to_store j \<le> g \<longrightarrow> 1 \<le> k)"
  using d fr quiet
proof (induction g arbitrary: n j fr w)
  case 0
  have "0 < steps_to_store j" using 0 by (auto simp: counting_at_def steps_to_store_def)
  then show ?case using 0 by - (rule exI [of _ 0], rule exI [of _ j], rule exI [of _ fr], simp)
next
  case (Suc g)
  let ?v = "ew_mem w (counter_pa pl c) + (if j = 5 then 1 else 0)"
  let ?w = "w\<lparr>ew_mem := (ew_mem w)(counter_pa pl c := ?v)\<rparr>"
  obtain fr1 where fr1: "el0_step pl fr w = Running fr1 ?w" "counting_at c (next_at j) ?v fr1"
    using counter_step [OF pl Suc.prems(1,2)] by blast
  have q: "irq n = None" "\<forall>i < g. irq (Suc n + i) = None" using Suc.prems(3) by (force, auto)
  have go: "el0_loop_irq pl irq n fr w = el0_loop_irq pl irq (Suc n) fr1 ?w" by (subst el0_loop_irq.simps) (simp add: q(1) fr1(1))
  have d1: "in_domain (pl_layout pl) el c (ew_mmu ?w)" "counting_at c (next_at j) (ew_mem ?w (counter_pa pl c)) fr1"
    using Suc.prems(1) fr1(2) by simp_all
  note ih = Suc.IH [OF d1 q(2)]
  then obtain k j' fr' where k: "el0_loop_irq pl irq (Suc n) fr1 ?w =
      el0_loop_irq pl irq (Suc n + g) fr' (?w\<lparr>ew_mem := (ew_mem ?w)(counter_pa pl c := ew_mem ?w (counter_pa pl c) + of_nat k)\<rparr>)"
      "counting_at c j' (ew_mem ?w (counter_pa pl c) + of_nat k) fr'" "k \<le> g" "steps_to_store (next_at j) \<le> g \<longrightarrow> 1 \<le> k"
    by (elim exE conjE) (rule that)
  have upd: "?w\<lparr>ew_mem := (ew_mem ?w)(counter_pa pl c := x)\<rparr> = w\<lparr>ew_mem := (ew_mem w)(counter_pa pl c := x)\<rparr>" for x by simp
  have n: "Suc n + g = n + Suc g" by simp
  define k' where "k' = k + (if j = 5 then 1 else 0)"
  have v: "ew_mem ?w (counter_pa pl c) + of_nat k = ew_mem w (counter_pa pl c) + of_nat k'" by (simp add: k'_def)
  have "k' \<le> Suc g" using k(3) by (simp add: k'_def)
  moreover have "steps_to_store j \<le> Suc g \<longrightarrow> 1 \<le> k'"
    using Suc.prems(2) k(4) by (auto simp: k'_def counting_at_def steps_to_store_def next_at_def)
  ultimately show ?case using go k(1,2) unfolding v upd n by - (rule exI [of _ k'], rule exI [of _ j'], rule exI [of _ fr'], intro conjI, simp_all only:)
qed

section \<open>Timer interrupts\<close>

text \<open>Tasks in the first three slots, one in each domain, none asleep and one of them running.\<close>

definition counter_tasks :: "policy_state \<Rightarrow> bool" where
  "counter_tasks s \<longleftrightarrow> length (g_task_table (ps_tasks s)) = LETTUCE_MAX_TASKS \<and>
     map t_domain_id (take 3 (g_task_table (ps_tasks s))) = [DOMAIN_A, DOMAIN_B, DOMAIN_C] \<and>
     list_all (\<lambda>t. t_state t \<noteq> LETTUCE_TASK_STATE_SLEEPING) (g_task_table (ps_tasks s)) \<and>
     (case g_current_task (ps_tasks s) of None \<Rightarrow> False | Some c \<Rightarrow> c < 3 \<and> t_state (task_at (ps_tasks s) c) = LETTUCE_TASK_STATE_RUNNING)"

lemma counter_tasks_domains:
  assumes "counter_tasks s" "i < 3"
  shows "domain_number (t_domain_id (ptask s i)) = Some i"
proof -
  have "i < length (g_task_table (ps_tasks s))" using assms by (simp add: counter_tasks_def LETTUCE_MAX_TASKS_def)
  then have "t_domain_id (ptask s i) = map t_domain_id (take 3 (g_task_table (ps_tasks s))) ! i" using assms(2) by simp
  also have "\<dots> = [DOMAIN_A, DOMAIN_B, DOMAIN_C] ! i" using assms(1) by (simp add: counter_tasks_def)
  finally have d: "t_domain_id (ptask s i) = [DOMAIN_A, DOMAIN_B, DOMAIN_C] ! i" .
  have "i = 0 \<or> i = 1 \<or> i = 2" using assms(2) by linarith
  then show ?thesis unfolding d using domain_numbers by auto
qed

lemma counter_tasks_facts:
  assumes s: "same_accounting s s0" and t: "counter_tasks s0"
  shows "length (g_task_table (ps_tasks s)) = LETTUCE_MAX_TASKS" "awake s" "i < 3 \<Longrightarrow> domain_number (t_domain_id (ptask s i)) = Some i"
    "\<exists>c < 3. pcur s = Some c \<and> pcur s0 = Some c \<and> t_state (ptask s c) = LETTUCE_TASK_STATE_RUNNING"
proof -
  have three: "i < LETTUCE_MAX_TASKS" if "i < 3" for i using that by (simp add: LETTUCE_MAX_TASKS_def)
  show len: "length (g_task_table (ps_tasks s)) = LETTUCE_MAX_TASKS" using same_fields(1) [OF s] t by (simp add: counter_tasks_def)
  have "awake s0" using t by (auto simp: awake_def counter_tasks_def list_all_length)
  then show "awake s" using same_awake [OF s len] by simp
  show "i < 3 \<Longrightarrow> domain_number (t_domain_id (ptask s i)) = Some i"
    using same_task(3) [OF s, of i] counter_tasks_domains [OF t, of i] len three by simp
  obtain c where c: "pcur s0 = Some c" "c < 3" "t_state (ptask s0 c) = LETTUCE_TASK_STATE_RUNNING"
    using t by (auto simp: counter_tasks_def pcur_def split: option.splits)
  then have "t_state (ptask s c) = LETTUCE_TASK_STATE_RUNNING" using same_task(1) [OF s, of c] len three by simp
  then show "\<exists>c < 3. pcur s = Some c \<and> pcur s0 = Some c \<and> t_state (ptask s c) = LETTUCE_TASK_STATE_RUNNING"
    using c same_fields(2) [OF s] by auto
qed

text \<open>
  The state while the tasks run: \<^verbatim>\<open>s\<close> is the accounting of the tasks, \<^verbatim>\<open>p\<close> the number of preemptions, \<^verbatim>\<open>q\<close> that of
  timer interrupts, \<^verbatim>\<open>K\<close> the values of the counters and \<^verbatim>\<open>fr\<close> the registers of the running task.
\<close>

definition preempting ::
  "platform \<Rightarrow> u64 \<Rightarrow> harness_state \<Rightarrow> policy_state \<Rightarrow> nat \<Rightarrow> nat \<Rightarrow> (nat \<Rightarrow> nat) \<Rightarrow> LettuceTrapFrame \<Rightarrow> harness_state \<Rightarrow> bool" where
  "preempting pl el h0 s p q K fr h \<longleftrightarrow>
     (let m = h_machine h in
      holds pl el h0 h \<and> lettuce_preempt_is_enabled (ew_trap h) \<and> g_policy_ops m = g_policy_ops (h_machine h0) \<and>
      g_current_policy_type m = g_current_policy_type (h_machine h0) \<and> g_scheduler_active m \<and> g_preempt_limit m = 6 \<and>
      g_preempt_count m = of_nat p \<and> g_cross_domain_switches m = of_nat p \<and> h_ticks h = h_ticks h0 + of_nat q \<and> same_accounting (mc_policy m) s \<and> counter_tasks s \<and>
      in_domain (pl_layout pl) el (the (pcur s)) (ew_mmu h) \<and>
      (\<forall>i < 3. ew_mem h (counter_pa pl i) = of_nat (K i) \<and>
        (\<exists>j. counting_at i j (of_nat (K i)) (if pcur s = Some i then fr else context_frame (t_context (ptask (mc_policy m) i))))))"

text \<open>The kernel goes on after the last preemption, with the counters the tasks have left.\<close>

definition switched_out :: "platform \<Rightarrow> u64 \<Rightarrow> harness_state \<Rightarrow> nat \<Rightarrow> nat \<Rightarrow> (nat \<Rightarrow> nat) \<Rightarrow> harness_state \<Rightarrow> bool" where
  "switched_out pl el h0 p q K h \<longleftrightarrow> holds pl el h0 h \<and> lettuce_preempt_is_enabled (ew_trap h) \<and> g_policy_ops (h_machine h) = g_policy_ops (h_machine h0) \<and>
     g_current_policy_type (h_machine h) = g_current_policy_type (h_machine h0) \<and> g_preempt_count (h_machine h) = of_nat p \<and>
     g_cross_domain_switches (h_machine h) = of_nat p \<and> h_ticks h = h_ticks h0 + of_nat q \<and> (\<forall>i < 3. ew_mem h (counter_pa pl i) = of_nat (K i))"

lemma preempting_frames:
  assumes "preempting pl el h0 s p q K fr h" "pcur s = Some c" "i < 3"
  shows "i = c \<Longrightarrow> \<exists>j. counting_at c j (of_nat (K c)) fr"
    "i \<noteq> c \<Longrightarrow> \<exists>j. counting_at i j (of_nat (K i)) (context_frame (t_context (h_task h i)))" "ew_mem h (counter_pa pl i) = of_nat (K i)"
proof -
  have "ew_mem h (counter_pa pl i) = of_nat (K i) \<and>
      (\<exists>j. counting_at i j (of_nat (K i)) (if pcur s = Some i then fr else context_frame (t_context (h_task h i))))"
    using assms(1,3) unfolding preempting_def Let_def by blast
  then show "i = c \<Longrightarrow> \<exists>j. counting_at c j (of_nat (K c)) fr"
    "i \<noteq> c \<Longrightarrow> \<exists>j. counting_at i j (of_nat (K i)) (context_frame (t_context (h_task h i)))" "ew_mem h (counter_pa pl i) = of_nat (K i)"
    using assms(2) by simp_all
qed

lemma preemptingI:
  assumes k: "holds pl el h0 h" "lettuce_preempt_is_enabled (ew_trap h)" and m: "h_machine h = m"
    and facts: "g_policy_ops m = g_policy_ops (h_machine h0)" "g_current_policy_type m = g_current_policy_type (h_machine h0)" "g_scheduler_active m"
      "g_preempt_limit m = 6" "g_preempt_count m = of_nat p" "g_cross_domain_switches m = of_nat p" "same_accounting (mc_policy m) s" "counter_tasks s"
      "lettuce_timer_get_ticks (mc_timer m) = h_ticks h0 + of_nat q"
    and c: "pcur s = Some c" "in_domain (pl_layout pl) el c (mc_mmu m)" "\<And>i. i < 3 \<Longrightarrow> ew_mem h (counter_pa pl i) = of_nat (K i)"
      "\<exists>j. counting_at c j (of_nat (K c)) fr" "\<And>i. i < 3 \<Longrightarrow> i \<noteq> c \<Longrightarrow> \<exists>j. counting_at i j (of_nat (K i)) (context_frame (t_context (ptask (mc_policy m) i)))"
  shows "preempting pl el h0 s p q K fr h"
proof -
  have "\<exists>j. counting_at i j (of_nat (K i)) (if pcur s = Some i then fr else context_frame (t_context (ptask (mc_policy m) i)))" if "i < 3" for i
    using c(1,4) c(5) [OF that] by (cases "i = c") auto
  moreover have "in_domain (pl_layout pl) el (the (pcur s)) (mc_mmu m)" using c(1,2) by simp
  ultimately show ?thesis unfolding preempting_def Let_def m using k facts c(3) m by blast
qed

lemma timer_irq:
  assumes "lettuce_gic_acknowledge iar = GIC_INTID_VTIMER" "g_scheduler_active (h_machine h)" "lettuce_preempt_is_enabled (ew_trap h)"
    "do_schedule (Some fr) True ((h_machine h)\<lparr>mc_timer := lettuce_timer_irq_handler (mc_timer (h_machine h))\<rparr>) = (flow, m)"
  shows "flow = ResumeKernel s \<Longrightarrow> lettuce_arch_irq_lower_el_handler iar fr (ew_trap h) = (TrapResume s, ew_trap (on_machine (\<lambda>_. m) h))"
    "flow = Continue (Some fr') \<Longrightarrow> lettuce_arch_irq_lower_el_handler iar fr (ew_trap h) =
       (TrapReturn fr', ew_trap (on_machine (\<lambda>_. m\<lparr>mc_gic := lettuce_gic_end_of_interrupt GIC_INTID_VTIMER (mc_gic m)\<rparr>) h))"
  using assms
  by (simp_all add: lettuce_arch_irq_lower_el_handler_def Let_def timer_tick_def lettuce_scheduler_is_active_def lettuce_preempt_is_enabled_def
      lettuce_scheduler_tick_def on_machine_def on_trap_def flow_end_def end_of_interrupt_def)

lemma on_machine_trap: "h\<lparr>ew_trap := ew_trap (on_machine f h)\<rparr> = on_machine f h"
  by (simp add: on_machine_def on_trap_def)

lemma on_machine_more [simp]:
  "ew_mem (on_machine f h) = ew_mem h" "lettuce_preempt_is_enabled (ew_trap (on_machine f h)) = lettuce_preempt_is_enabled (ew_trap h)"
  by (simp_all add: on_machine_def on_trap_def lettuce_preempt_is_enabled_def)

lemma do_schedule_limits:
  assumes "do_schedule tf pre m = (flow, m')"
  shows "g_preempt_limit m' = g_preempt_limit m \<and> g_current_policy_type m' = g_current_policy_type m"
  using assms by (auto simp: do_schedule_def switch_to_def Let_def split: if_splits option.splits prod.splits)

text \<open>The part of the invariant that a decision of the scheduler does not touch, and the state after the interrupt.\<close>

lemma preempting_schedule:
  assumes pre: "preempting pl el h0 s p q K fr h"
    and run: "do_schedule (Some fr) True ((h_machine h)\<lparr>mc_timer := t\<rparr>) = (flow, m)"
  shows "holds pl el h0 (on_machine (\<lambda>_. m\<lparr>mc_gic := g\<rparr>) h)" "g_policy_ops m = g_policy_ops (h_machine h0)"
    "g_current_policy_type m = g_current_policy_type (h_machine h0)" "g_preempt_limit m = 6"
    "t = lettuce_timer_irq_handler (mc_timer (h_machine h)) \<Longrightarrow> lettuce_timer_get_ticks (mc_timer m) = h_ticks h0 + of_nat (Suc q)"
proof -
  let ?m = "(h_machine h)\<lparr>mc_timer := t\<rparr>"
  note p = pre [unfolded preempting_def Let_def]
  note w = do_schedule_world [OF run] do_schedule_keeps [OF run] do_schedule_limits [OF run]
  show "holds pl el h0 (on_machine (\<lambda>_. m\<lparr>mc_gic := g\<rparr>) h)" by (rule holds_machine) (use p w in simp_all)
  show "g_policy_ops m = g_policy_ops (h_machine h0)" "g_current_policy_type m = g_current_policy_type (h_machine h0)" "g_preempt_limit m = 6"
    "t = lettuce_timer_irq_handler (mc_timer (h_machine h)) \<Longrightarrow> lettuce_timer_get_ticks (mc_timer m) = h_ticks h0 + of_nat (Suc q)"
    using p w by (simp_all add: lettuce_timer_get_ticks_def ticks_handler)
qed

lemma switch_between_domains:
  assumes sw: "switch_to (Some c) n True (m\<lparr>mc_policy := s3\<rparr>) = (flow, m')" and sv: "erased s3 = saved fr (erased (mc_policy m), Some c)"
    and len: "length (g_task_table (ps_tasks (mc_policy m))) = LETTUCE_MAX_TASKS" and c: "c < 3" "n < 3" "n \<noteq> c"
    and dom: "\<forall>i < 3. domain_number (t_domain_id (ptask (mc_policy m) i)) = Some i"
    and cnt: "g_preempt_limit m = 6" "g_preempt_count m = of_nat p" "p < 6"
  shows "g_preempt_count m' = of_nat (Suc p)" "g_cross_domain_switches m' = g_cross_domain_switches m + 1"
    "mc_mmu m' = snd (lettuce_mmu_enter (t_domain_id (ptask (mc_policy m) n)) (mc_mmu m))"
    "flow = (if p = 5 then ResumeKernel 0 else Continue (Some (context_frame (t_context (ptask (mc_policy m) n)))))"
    "g_scheduler_active m' = (g_scheduler_active m \<and> p \<noteq> 5)"
proof -
  have three: "i < LETTUCE_MAX_TASKS" if "i < 3" for i using that by (simp add: LETTUCE_MAX_TASKS_def)
  have lsv: "length (erased s3) = LETTUCE_MAX_TASKS" using len by (simp add: sv saved_def del: length_erased) (simp add: length_erased)
  have dm: "t_domain_id (erased s3 ! i) = t_domain_id (ptask (mc_policy m) i)" if "i < 3" for i
    using that len three [OF that] three [OF c(1)] by (cases "i = c") (simp_all add: sv saved_def erased_nth)
  have cx: "t_context (erased s3 ! n) = t_context (ptask (mc_policy m) n)" using len three [OF c(2)] c(3) by (simp add: sv saved_def erased_nth)
  have "\<not> same_domain (erased s3, Some c) n" using dm c dom [rule_format, OF c(1)] dom [rule_format, OF c(2)] by (auto simp: same_domain_def)
  moreover have "(6 :: u64) \<le> of_nat p + 1 \<longleftrightarrow> p = 5"
  proof -
    have "p = 0 \<or> p = 1 \<or> p = 2 \<or> p = 3 \<or> p = 4 \<or> p = 5" using cnt(3) by linarith
    then show ?thesis by (elim disjE) (simp_all add: word_le_nat_alt)
  qed
  ultimately show "g_preempt_count m' = of_nat (Suc p)" "g_cross_domain_switches m' = g_cross_domain_switches m + 1"
    "mc_mmu m' = snd (lettuce_mmu_enter (t_domain_id (ptask (mc_policy m) n)) (mc_mmu m))"
    "flow = (if p = 5 then ResumeKernel 0 else Continue (Some (context_frame (t_context (ptask (mc_policy m) n)))))"
    "g_scheduler_active m' = (g_scheduler_active m \<and> p \<noteq> 5)"
    using switch_to_effect(3,6,7,8,11) [OF sw] lsv three [OF c(1)] three [OF c(2)] dm [OF c(2)] cx cnt(1,2) by simp_all
qed

lemma segment_preempting:
  assumes pl: "platform_ok pl" and pre: "preempting pl el h0 s p q K fr h" and c: "pcur s = Some c" and g: "7 \<le> g" "\<forall>i < g. irq (n + i) = None"
  shows "\<exists>k fr' h'. el0_loop_irq pl irq n fr h = el0_loop_irq pl irq (n + g) fr' h' \<and> preempting pl el h0 s p q (K(c := K c + k)) fr' h' \<and> 1 \<le> k \<and> k \<le> g"
proof -
  note p = pre [unfolded preempting_def Let_def]
  have d: "in_domain (pl_layout pl) el c (ew_mmu h)" using p c by simp
  have c3: "c < 3" using in_domain_lt [OF d] .
  note fr = preempting_frames [OF pre c]
  obtain j where j: "counting_at c j (ew_mem h (counter_pa pl c)) fr" using fr(1,3) [OF c3] by auto
  obtain k j' fr' where k: "el0_loop_irq pl irq n fr h =
      el0_loop_irq pl irq (n + g) fr' (h\<lparr>ew_mem := (ew_mem h)(counter_pa pl c := ew_mem h (counter_pa pl c) + of_nat k)\<rparr>)"
      "counting_at c j' (ew_mem h (counter_pa pl c) + of_nat k) fr'" "k \<le> g" "steps_to_store j \<le> g \<longrightarrow> 1 \<le> k"
    using counter_segment [OF pl d j g(2)] by (elim exE conjE) (rule that)
  let ?h = "h\<lparr>ew_mem := (ew_mem h)(counter_pa pl c := ew_mem h (counter_pa pl c) + of_nat k)\<rparr>"
  have "1 \<le> k" using k(4) g(1) by (simp add: steps_to_store_def split: if_splits)
  moreover have "preempting pl el h0 s p q (K(c := K c + k)) fr' ?h"
    by (rule preemptingI [where m = "h_machine h" and c = c])
      (use p c d k(2) fr(3) [OF c3] fr(2,3) counters_apart [OF pl _ c3] c3 in \<open>auto simp: add.commute\<close>)
  ultimately show ?thesis using k(1,3) by blast
qed

text \<open>Timer interrupts at least seven and fewer than $2^{32}$ instructions apart.\<close>

fun timer_gaps :: "irq_env \<Rightarrow> nat \<Rightarrow> nat list \<Rightarrow> bool" where
  "timer_gaps irq n [] = True"
| "timer_gaps irq n (g # gs) = (7 \<le> g \<and> g < 2 ^ 32 \<and> (\<forall>i < g. irq (n + i) = None) \<and>
     (case irq (n + g) of None \<Rightarrow> False | Some iar \<Rightarrow> lettuce_gic_acknowledge iar = GIC_INTID_VTIMER) \<and> timer_gaps irq (Suc (n + g)) gs)"

definition switches :: "task_ptr list \<Rightarrow> nat" where "switches ds = length (filter (\<lambda>d. d \<noteq> None) ds)"

lemma decides_from: "decides ops good d (d, s) ds = decides ops good None (None, s) ds"
  by (cases ds) simp_all

lemma decides_good: "decides ops good d (d', s) ds \<Longrightarrow> good s \<and> d = d'"
  by (cases ds) simp_all

lemma switches_last: "ds \<noteq> [] \<Longrightarrow> last ds \<noteq> None \<Longrightarrow> 1 \<le> switches ds"
  by (induction ds) (auto simp: switches_def split: if_splits)

lemma counted_step:
  fixes K :: "nat \<Rightarrow> nat"
  assumes k: "1 \<le> k" "k \<le> g" "g < 2 ^ 32" and sub: "\<forall>i. Some i \<in> Y \<longrightarrow> i = c \<or> Some i \<in> X"
    and le: "\<forall>i < 3. (K(c := K c + k)) i \<le> K' i \<and> K' i \<le> (K(c := K c + k)) i + l * 2 ^ 32 \<and> (Some i \<in> X \<longrightarrow> 1 \<le> K' i)"
  shows "\<forall>i < 3. K i \<le> K' i \<and> K' i \<le> K i + Suc l * 2 ^ 32 \<and> (Some i \<in> Y \<longrightarrow> 1 \<le> K' i)"
proof (intro allI impI)
  fix i :: nat
  assume "i < 3"
  note l = le [rule_format, OF this]
  show "K i \<le> K' i \<and> K' i \<le> K i + Suc l * 2 ^ 32 \<and> (Some i \<in> Y \<longrightarrow> 1 \<le> K' i)"
    using l k sub by (cases "i = c") auto
qed

context context_free_policy
begin

lemma interrupt_stays:
  assumes pre: "preempting pl el h0 s p q K fr h" and ops: "g_policy_ops (h_machine h0) = ops" and ack: "lettuce_gic_acknowledge iar = GIC_INTID_VTIMER"
    and tick: "sched_tick ops tf0 s = (None, s')" and tasks: "counter_tasks s'"
  shows "\<exists>h'. lettuce_arch_irq_lower_el_handler iar fr (ew_trap h) = (TrapReturn fr, ew_trap h') \<and> h\<lparr>ew_trap := ew_trap h'\<rparr> = h' \<and>
    preempting pl el h0 s' p (Suc q) K fr h'"
proof -
  let ?m = "(h_machine h)\<lparr>mc_timer := lettuce_timer_irq_handler (mc_timer (h_machine h))\<rparr>"
  note p = pre [unfolded preempting_def Let_def]
  obtain flow m where run: "do_schedule (Some fr) True ?m = (flow, m)" by fastforce
  have s: "same_accounting (mc_policy (h_machine h)) s" "counter_tasks s" using p by simp_all
  note facts = counter_tasks_facts [OF s]
  obtain c where c: "c < 3" "pcur (mc_policy (h_machine h)) = Some c" "pcur s = Some c" using facts(4) by blast
  have c16: "c < LETTUCE_MAX_TASKS" using c(1) by (simp add: LETTUCE_MAX_TASKS_def)
  have m1: "g_policy_ops ?m = ops" "g_scheduler_active ?m" "awake (mc_policy ?m)" "pcur (mc_policy ?m) = Some c"
      "length (g_task_table (ps_tasks (mc_policy ?m))) = LETTUCE_MAX_TASKS" "same_accounting (mc_policy ?m) s"
    using p ops facts(1,2) c(2) s(1) by simp_all
  note te = tick_effect [OF m1(1-4) c16 m1(5) run m1(6) tick]
  have e: "same_accounting (mc_policy m) s'" "flow = Continue (Some fr)" "m = ?m\<lparr>mc_policy := mc_policy m\<rparr>" "pcur (mc_policy m) = Some c"
    using te(1,3) by blast+
  have cx: "t_context (ptask (mc_policy m) i) = t_context (ptask (mc_policy (h_machine h)) i)" if "i < 3" "i \<noteq> c" for i
    using te(2) [of i] that by (simp add: LETTUCE_MAX_TASKS_def)
  let ?g = "lettuce_gic_end_of_interrupt GIC_INTID_VTIMER (mc_gic m)"
  define h' where "h' = on_machine (\<lambda>_. m\<lparr>mc_gic := ?g\<rparr>) h"
  have hd: "lettuce_arch_irq_lower_el_handler iar fr (ew_trap h) = (TrapReturn fr, ew_trap h')"
    unfolding h'_def by (rule timer_irq(2) [OF ack _ _ run e(2)]) (use p in simp_all)
  have m: "g_scheduler_active m" "g_preempt_count m = of_nat p" "g_cross_domain_switches m = of_nat p" "mc_mmu m = ew_mmu h"
    by (subst e(3), use p in simp)+
  have cur: "pcur s' = Some c" using same_fields(2) [OF e(1)] e(4) by simp
  have "preempting pl el h0 s' p (Suc q) K fr h'"
    by (rule preemptingI [where m = "m\<lparr>mc_gic := ?g\<rparr>" and c = c])
      (use p preempting_schedule(1) [OF pre run, of ?g] preempting_schedule(2-4) [OF pre run] preempting_schedule(5) [OF pre run refl] e(1) m cur tasks c(1,3) cx
         preempting_frames [OF pre c(3)] in \<open>simp_all add: h'_def\<close>)
  then show ?thesis using hd on_machine_trap unfolding h'_def by blast
qed

text \<open>A switch: the next task goes on where it was, in its own domain, and the sixth one ends the run.\<close>

lemma interrupt_switches:
  assumes pre: "preempting pl el h0 s p q K fr h" and ops: "g_policy_ops (h_machine h0) = ops" and ack: "lettuce_gic_acknowledge iar = GIC_INTID_VTIMER"
    and tick: "sched_tick ops tf0 s = (Some n, s')" and tasks: "counter_tasks s'" and p6: "p < 6"
  shows "\<exists>h' fr'. lettuce_arch_irq_lower_el_handler iar fr (ew_trap h) = (if p = 5 then TrapResume 0 else TrapReturn fr', ew_trap h') \<and>
    h\<lparr>ew_trap := ew_trap h'\<rparr> = h' \<and> pcur s' = Some n \<and> (if p = 5 then switched_out pl el h0 6 (Suc q) K h' else preempting pl el h0 s' (Suc p) (Suc q) K fr' h')"
proof -
  let ?m = "(h_machine h)\<lparr>mc_timer := lettuce_timer_irq_handler (mc_timer (h_machine h))\<rparr>"
  note p = pre [unfolded preempting_def Let_def]
  obtain flow m where run: "do_schedule (Some fr) True ?m = (flow, m)" by fastforce
  have s: "same_accounting (mc_policy (h_machine h)) s" "counter_tasks s" using p by simp_all
  note facts = counter_tasks_facts [OF s]
  obtain c where c: "c < 3" "pcur (mc_policy (h_machine h)) = Some c" "pcur s = Some c" "t_state (h_task h c) = LETTUCE_TASK_STATE_RUNNING"
    using facts(4) by blast
  have three: "i < LETTUCE_MAX_TASKS" if "i < 3" for i using that by (simp add: LETTUCE_MAX_TASKS_def)
  have m1: "g_policy_ops ?m = ops" "g_scheduler_active ?m" "awake (mc_policy ?m)" "pcur (mc_policy ?m) = Some c"
      "length (g_task_table (ps_tasks (mc_policy ?m))) = LETTUCE_MAX_TASKS" "same_accounting (mc_policy ?m) s"
    using p ops facts(1,2) c(2) s(1) by simp_all
  note te = tick_effect [OF m1(1-4) three [OF c(1)] m1(5) run m1(6) tick]
  obtain s3 where e: "same_accounting (mc_policy m) s'" "n \<noteq> c" "pcur (mc_policy m) = Some n" "t_context (ptask (mc_policy m) c) = frame_context fr"
      and sw: "switch_to (Some c) n True (?m\<lparr>mc_policy := s3\<rparr>) = (flow, m)" "erased s3 = saved fr (erased (mc_policy ?m), Some c)"
    using te(1) te(4) [OF refl] c(4) by auto
  have cur: "pcur s' = Some n" using same_fields(2) [OF e(1)] e(3) by simp
  then have n: "n < 3" using counter_tasks_facts(4) [OF e(1) tasks] e(3) by auto
  have m1c: "g_preempt_limit ?m = 6" "g_preempt_count ?m = of_nat p" "\<forall>i < 3. domain_number (t_domain_id (ptask (mc_policy ?m) i)) = Some i"
    using p facts(3) by simp_all
  note x = switch_between_domains [OF sw m1(5) c(1) n e(2) m1c(3,1,2) p6]
  have cx: "t_context (ptask (mc_policy m) i) = t_context (h_task h i)" if "i < 3" "i \<noteq> c" for i using te(2) [of i] that three by simp
  have w: "world_ok (pl_layout pl) el (ew_trap h)" using p by (simp add: holds_def harness_ok_def)
  have d: "in_domain (pl_layout pl) el n (mc_mmu m)"
    unfolding x(3) by (rule in_domain_enter) (use w facts(3) [OF n] in \<open>simp_all add: world_ok_def trap_ok_def\<close>)
  let ?g = "lettuce_gic_end_of_interrupt GIC_INTID_VTIMER (mc_gic m)"
  note k = preempting_schedule(1) [OF pre run] preempting_schedule(2-4) [OF pre run] preempting_schedule(5) [OF pre run refl]
  show ?thesis
  proof (cases "p = 5")
    case True
    let ?h = "on_machine (\<lambda>_. m) h"
    have "lettuce_arch_irq_lower_el_handler iar fr (ew_trap h) = (TrapResume 0, ew_trap ?h)"
      by (rule timer_irq(1) [OF ack _ _ run]) (use p x(4) True in simp_all)
    moreover have "switched_out pl el h0 6 (Suc q) K ?h"
      using k(1) [of "mc_gic m"] k(2,3,5) x(1,2) True p preempting_frames(3) [OF pre c(3)] by (simp add: switched_out_def)
    ultimately show ?thesis using True on_machine_trap cur by auto
  next
    case False
    let ?h = "on_machine (\<lambda>_. m\<lparr>mc_gic := ?g\<rparr>) h" and ?fr = "context_frame (t_context (h_task h n))"
    have "lettuce_arch_irq_lower_el_handler iar fr (ew_trap h) = (TrapReturn ?fr, ew_trap ?h)"
      by (rule timer_irq(2) [OF ack _ _ run]) (use p x(4) False in simp_all)
    moreover have "\<exists>j. counting_at i j (of_nat (K i)) (context_frame (t_context (ptask (mc_policy m) i)))" if "i < 3" "i \<noteq> n" for i
    proof (cases "i = c")
      case True
      obtain j where j: "counting_at c j (of_nat (K c)) fr" using preempting_frames(1) [OF pre c(3,1)] by blast
      then have "context_frame (frame_context fr) = fr" using context_roundtrip [of fr] by (simp add: counting_at_def frame_ok_def)
      then show ?thesis using j e(4) True by auto
    next
      case False
      then show ?thesis using preempting_frames(2) [OF pre c(3) that(1)] cx [OF that(1)] by simp
    qed
    then have "preempting pl el h0 s' (Suc p) (Suc q) K ?fr ?h"
      by (intro preemptingI [where m = "m\<lparr>mc_gic := ?g\<rparr>" and c = n])
        (use p k(1) [of ?g] k(2-5) e(1) cur tasks x(1,2,5) d False n preempting_frames(3) [OF pre c(3)] preempting_frames(2) [OF pre c(3) n e(2)] in simp_all)
    ultimately show ?thesis using False on_machine_trap cur by auto
  qed
qed

text \<open>A whole run: the tasks that get the processor before the sixth switch have counted.\<close>

lemma preempting_run:
  assumes pl: "platform_ok pl" and ops: "g_policy_ops (h_machine h0) = ops"
  shows "preempting pl el h0 s p q K fr h \<Longrightarrow> decides ops counter_tasks None (None, s) ds \<Longrightarrow> timer_gaps irq n gs \<Longrightarrow> length ds \<le> length gs \<Longrightarrow>
    p < 6 \<Longrightarrow> p + switches ds = 6 \<Longrightarrow> last ds \<noteq> None \<Longrightarrow>
    \<exists>h' K'. el0_loop_irq pl irq n fr h = Some (0, h') \<and> switched_out pl el h0 6 (q + length ds) K' h' \<and>
      (\<forall>i < 3. K i \<le> K' i \<and> K' i \<le> K i + length ds * 2 ^ 32 \<and> (Some i \<in> insert (pcur s) (set (butlast ds)) \<longrightarrow> 1 \<le> K' i))"
proof (induction ds arbitrary: s p q K fr h n gs)
  case Nil
  then show ?case by (simp add: switches_def)
next
  case (Cons d ds)
  obtain g gs' where gs: "gs = g # gs'" using Cons.prems(4) by (cases gs) auto
  obtain iar where iar: "irq (n + g) = Some iar" "lettuce_gic_acknowledge iar = GIC_INTID_VTIMER"
    using Cons.prems(3) by (auto simp: gs split: option.splits)
  have gaps: "7 \<le> g" "g < 2 ^ 32" "\<forall>i < g. irq (n + i) = None" "timer_gaps irq (Suc (n + g)) gs'" using Cons.prems(3) by (simp_all add: gs)
  have "counter_tasks s" "same_accounting (mc_policy (h_machine h)) s" using Cons.prems(1) by (simp_all add: preempting_def Let_def)
  then obtain c where c: "pcur s = Some c" "c < 3" using counter_tasks_facts(4) by blast
  obtain k fr1 h1 where seg: "el0_loop_irq pl irq n fr h = el0_loop_irq pl irq (n + g) fr1 h1" "preempting pl el h0 s p q (K(c := K c + k)) fr1 h1" "1 \<le> k" "k \<le> g"
    using segment_preempting [OF pl Cons.prems(1) c(1) gaps(1,3)] by blast
  obtain d' s' where tick: "sched_tick ops no_frame s = (d', s')" by fastforce
  have dec: "d' = d" "counter_tasks s'" "decides ops counter_tasks None (None, s') ds"
    using Cons.prems(2) tick decides_good [of ops counter_tasks d d' s' ds] decides_from [of ops counter_tasks d s' ds] by auto
  let ?K = "K(c := K c + k)"
  have len: "length ds \<le> length gs'" using Cons.prems(4) by (simp add: gs)
  show ?case
  proof (cases d)
    case None
    then have ds: "ds \<noteq> []" "last ds \<noteq> None" "p + switches ds = 6" using Cons.prems(6,7) by (cases "ds = []"; auto simp: switches_def)+
    obtain h2 where h2: "lettuce_arch_irq_lower_el_handler iar fr1 (ew_trap h1) = (TrapReturn fr1, ew_trap h2)" "h1\<lparr>ew_trap := ew_trap h2\<rparr> = h2"
        "preempting pl el h0 s' p (Suc q) ?K fr1 h2"
      using interrupt_stays [OF seg(2) ops iar(2)] tick dec(1,2) None by blast
    have go: "el0_loop_irq pl irq n fr h = el0_loop_irq pl irq (Suc (n + g)) fr1 h2"
      unfolding seg(1) by (subst el0_loop_irq.simps) (simp add: iar(1) h2(1,2))
    obtain h' K' where r: "el0_loop_irq pl irq (Suc (n + g)) fr1 h2 = Some (0, h')" "switched_out pl el h0 6 (Suc q + length ds) K' h'"
        "\<forall>i < 3. ?K i \<le> K' i \<and> K' i \<le> ?K i + length ds * 2 ^ 32 \<and> (Some i \<in> insert (pcur s') (set (butlast ds)) \<longrightarrow> 1 \<le> K' i)"
      using Cons.IH [OF h2(3) dec(3) gaps(4) len Cons.prems(5) ds(3,2)] by blast
    have "\<forall>i. Some i \<in> insert (Some c) (set (butlast (d # ds))) \<longrightarrow> i = c \<or> Some i \<in> insert (pcur s') (set (butlast ds))" using None ds(1) by auto
    note ks = counted_step [OF seg(3,4) gaps(2) this r(3)]
    show ?thesis by (rule exI [of _ h'], rule exI [of _ K']) (use go r(1,2) ks c(1) in simp)
  next
    case (Some m)
    obtain h2 fr2 where h2: "lettuce_arch_irq_lower_el_handler iar fr1 (ew_trap h1) = (if p = 5 then TrapResume 0 else TrapReturn fr2, ew_trap h2)"
        "h1\<lparr>ew_trap := ew_trap h2\<rparr> = h2" "pcur s' = Some m" "if p = 5 then switched_out pl el h0 6 (Suc q) ?K h2 else preempting pl el h0 s' (Suc p) (Suc q) ?K fr2 h2"
      using interrupt_switches [OF seg(2) ops iar(2)] tick dec(1,2) Some Cons.prems(5) by blast
    show ?thesis
    proof (cases "p = 5")
      case True
      then have "switches ds = 0" using Cons.prems(6) Some by (simp add: switches_def)
      then have ds: "ds = []" using switches_last [of ds] Cons.prems(7) by (cases "ds = []") auto
      have e: "el0_loop_irq pl irq n fr h = Some (0, h2)"
        unfolding seg(1) by (subst el0_loop_irq.simps) (simp add: iar(1) h2(1,2) True)
      obtain K' where K': "K' = ?K" by blast
      then have so: "switched_out pl el h0 6 (Suc q) K' h2" using h2(4) True by simp
      have "\<forall>i < 3. K i \<le> K' i \<and> K' i \<le> K i + Suc 0 * 2 ^ 32 \<and> (Some i \<in> {Some c} \<longrightarrow> 1 \<le> K' i)"
        using seg(3,4) gaps(2) by (auto simp: K')
      then show ?thesis using e so c(1) ds by (intro exI [of _ h2] exI [of _ K']) simp
    next
      case False
      then have "p + 1 + switches ds = 6" "p < 5" using Cons.prems(5,6) Some by (simp_all add: switches_def)
      then have ds: "ds \<noteq> []" "Suc p + switches ds = 6" "Suc p < 6" by (auto simp: switches_def)
      then have l: "last ds \<noteq> None" using Cons.prems(7) by simp
      have go: "el0_loop_irq pl irq n fr h = el0_loop_irq pl irq (Suc (n + g)) fr2 h2"
        unfolding seg(1) by (subst el0_loop_irq.simps) (simp add: iar(1) h2(1,2) False)
      have p2: "preempting pl el h0 s' (Suc p) (Suc q) ?K fr2 h2" using h2(4) False by simp
      obtain h' K' where r: "el0_loop_irq pl irq (Suc (n + g)) fr2 h2 = Some (0, h')" "switched_out pl el h0 6 (Suc q + length ds) K' h'"
          "\<forall>i < 3. ?K i \<le> K' i \<and> K' i \<le> ?K i + length ds * 2 ^ 32 \<and> (Some i \<in> insert (pcur s') (set (butlast ds)) \<longrightarrow> 1 \<le> K' i)"
        using Cons.IH [OF p2 dec(3) gaps(4) len ds(3,2) l] by blast
      have "\<forall>i. Some i \<in> insert (Some c) (set (butlast (d # ds))) \<longrightarrow> i = c \<or> Some i \<in> insert (pcur s') (set (butlast ds))"
        using Some ds(1) h2(3) by auto
      note ks = counted_step [OF seg(3,4) gaps(2) this r(3)]
      show ?thesis by (rule exI [of _ h'], rule exI [of _ K']) (use go r(1,2) ks c(1) in simp)
    qed
  qed
qed

end

section \<open>The decisions of the policies\<close>

definition counter_task :: "nat \<Rightarrow> service_id \<Rightarrow> domain_id \<Rightarrow> LettuceTask" where
  "counter_task i service domain = forget_task (fresh_task i service domain 0 0 0 task_slot_init)"

text \<open>Three new tasks, the first of them running with weight \<^verbatim>\<open>w\<close>.\<close>

definition three_tasks :: "u32 \<Rightarrow> u32 \<Rightarrow> u64 \<Rightarrow> policy_state" where
  "three_tasks w l v =
     \<lparr>ps_tasks = \<lparr>g_task_table = [(counter_task 0 SERVICE_CAMERA DOMAIN_A)\<lparr>t_state := LETTUCE_TASK_STATE_RUNNING, t_weight := w\<rparr>,
         counter_task 1 SERVICE_DISPLAY DOMAIN_B, counter_task 2 SERVICE_SENSOR DOMAIN_C] @ replicate 13 (forget_task task_slot_init),
       g_current_task = Some 0\<rparr>, g_rr_last_idx = l, g_eevdf_vsys = v\<rparr>"

definition slice :: "nat \<Rightarrow> task_ptr list" where "slice n = replicate 4 None @ [Some n]"

text \<open>Round robin goes through the tasks twice. EEVDF gives the task with twice the weight two slices in a row.\<close>

definition rr_decisions :: "task_ptr list" where "rr_decisions = concat (map slice [1, 2, 0, 1, 2, 0])"
definition eevdf_decisions :: "task_ptr list" where
  "eevdf_decisions = concat (map slice [1, 2, 0]) @ replicate 5 None @ concat (map slice [1, 0, 2])"

lemma rr_decides: "decides g_lettuce_sched_rr_ops counter_tasks None (None, three_tasks 1024 0 v) rr_decisions"
  by code_simp

lemma eevdf_decides: "decides g_lettuce_sched_eevdf_ops counter_tasks None (None, three_tasks 2048 l 0) eevdf_decisions"
  by code_simp

lemma decisions_facts:
  "switches rr_decisions = 6" "last rr_decisions \<noteq> None" "length rr_decisions = 30"
  "switches eevdf_decisions = 6" "last eevdf_decisions \<noteq> None" "length eevdf_decisions = 35"
  "i < 3 \<Longrightarrow> Some i \<in> insert (Some 0) (set (butlast rr_decisions))" "i < 3 \<Longrightarrow> Some i \<in> insert (Some 0) (set (butlast eevdf_decisions))"
proof -
  assume "i < 3"
  then have i: "i = 0 \<or> i = 1 \<or> i = 2" by linarith
  show "Some i \<in> insert (Some 0) (set (butlast rr_decisions))" using i by (elim disjE; simp only:; code_simp)
  show "Some i \<in> insert (Some 0) (set (butlast eevdf_decisions))" using i by (elim disjE; simp only:; code_simp)
qed code_simp+

end
