(* ===== verification/Preempt_Tests.thy ===== *)
theory Preempt_Tests
  imports Harness_Preempt
begin

text \<open>
  That tests 21 and 25 pass: what their preparation leaves behind is a state in which the three tasks can be preempted, and the run of the
  tasks then ends with the counters and the statistics that the tests ask for.
\<close>

section \<open>Memory of the kernel\<close>

lemma counter_access:
  assumes pl: "platform_ok pl" and h: "holds pl el h0 h" and c: "c < 3"
  shows "el1_store pl (counter_va c) v h = Some (h\<lparr>ew_mem := (ew_mem h)(counter_pa pl c := v)\<rparr>)"
    "el1_load pl (counter_va c) h = Some (ew_mem h (counter_pa pl c))"
proof -
  have "world_ok (pl_layout pl) el (ew_trap h)" using h by (simp add: holds_def harness_ok_def)
  then obtain k where d: "in_domain (pl_layout pl) el k (ew_mmu h)" using world_ok_domain by blast
  have "translate (pl_layout pl) (ew_mmu h) Store (counter_va c) = Inr (counter_pa pl c)"
    unfolding counter_address(1) [OF c] counter_pa_def by (rule translate_data(3) [OF platform_facts(1) [OF pl] d]) (use c in simp_all)
  then obtain e where "walk (pl_layout pl) (ew_mmu h) (ttbr0 (ew_mmu h)) (counter_va c) = Some (e, counter_pa pl c)" "permits Store e"
    by (auto simp: translate_def split: option.splits if_splits)
  then show "el1_store pl (counter_va c) v h = Some (h\<lparr>ew_mem := (ew_mem h)(counter_pa pl c := v)\<rparr>)"
      "el1_load pl (counter_va c) h = Some (ew_mem h (counter_pa pl c))"
    by (simp_all add: el1_store_def el1_load_def permits_def el0_write_def)
qed

lemma clear_counters_runs:
  assumes pl: "platform_ok pl" and h: "holds pl el h0 h"
  shows "\<exists>mem. clear_counters pl h = Some (h\<lparr>ew_mem := mem\<rparr>) \<and> (\<forall>i < 3. mem (counter_pa pl i) = 0)"
proof -
  let ?mem = "(ew_mem h)(counter_pa pl 0 := 0, counter_pa pl 1 := 0, counter_pa pl 2 := 0)"
  have s: "el1_store pl (counter_va c) 0 (h\<lparr>ew_mem := m\<rparr>) = Some (h\<lparr>ew_mem := m(counter_pa pl c := 0)\<rparr>)" if "c < 3" for c m
    using counter_access(1) [OF pl _ that, of el h0 "h\<lparr>ew_mem := m\<rparr>"] h by simp
  have "clear_counters pl h = Some (h\<lparr>ew_mem := ?mem\<rparr>)"
    using counter_access(1) [OF pl h, of 0 0] s [of 1] s [of 2] by (simp add: clear_counters_def)
  moreover have "\<forall>i < 3. ?mem (counter_pa pl i) = 0"
  proof (intro allI impI)
    fix i :: nat
    assume "i < 3"
    then have "i = 0 \<or> i = 1 \<or> i = 2" by linarith
    then show "?mem (counter_pa pl i) = 0" by auto
  qed
  ultimately show ?thesis by blast
qed

section \<open>The tasks\<close>

definition new_task :: "nat \<Rightarrow> u64 \<Rightarrow> LettuceTask" where
  "new_task c name = fresh_task c ([SERVICE_CAMERA, SERVICE_DISPLAY, SERVICE_SENSOR] ! c) ([DOMAIN_A, DOMAIN_B, DOMAIN_C] ! c)
     (code_at (17 + c) 0) (lettuce_arch_domain_stack_top ([DOMAIN_A, DOMAIN_B, DOMAIN_C] ! c)) name task_slot_init"

definition counters_created :: "u64 \<times> u64 \<times> u64 \<Rightarrow> task_state" where
  "counters_created names = (case names of (name_a, name_b, name_c) \<Rightarrow>
     \<lparr>g_task_table = [new_task 0 name_a, new_task 1 name_b, new_task 2 name_c] @ replicate 13 task_slot_init, g_current_task = None\<rparr>)"

lemma symbol_counters:
  "el0_service_va (image_symbols s) (task_counter_a (image_symbols s)) = code_at 17 0"
  "el0_service_va (image_symbols s) (task_counter_b (image_symbols s)) = code_at 18 0"
  "el0_service_va (image_symbols s) (task_counter_c (image_symbols s)) = code_at 19 0"
  by (simp_all add: el0_service_va_def image_symbols_def code_at_def Let_def)

lemma new_task_state: "t_state (new_task c name) = LETTUCE_TASK_STATE_READY"
  by (simp add: new_task_def fresh_task_def Let_def)

lemma slot_states: "task_slot_reusable task_slot_init" "\<not> task_slot_reusable (new_task c name)"
  by (simp_all add: task_slot_reusable_def task_slot_init_def new_task_state)

lemma init_table: "lettuce_task_init_subsystem = \<lparr>g_task_table = replicate 16 task_slot_init, g_current_task = None\<rparr>"
  by (simp add: lettuce_task_init_subsystem_def LETTUCE_MAX_TASKS_def map_replicate_const)

lemma create_counters_runs:
  assumes "ps_tasks (mc_policy (h_machine h)) = lettuce_task_init_subsystem"
  shows "create_counters pl names h =
    (Some 0, Some 1, Some 2, on_machine (\<lambda>m. m\<lparr>mc_policy := (mc_policy m)\<lparr>ps_tasks := counters_created names\<rparr>\<rparr>) h)"
proof -
  obtain a b c where n: "names = (a, b, c)" by (cases names) auto
  let ?t = "\<lambda>ts. on_machine (\<lambda>m. m\<lparr>mc_policy := (mc_policy m)\<lparr>ps_tasks := \<lparr>g_task_table = ts, g_current_task = None\<rparr>\<rparr>\<rparr>) h"
  have r16: "replicate 16 task_slot_init = task_slot_init # replicate 15 task_slot_init"
    "replicate 15 task_slot_init = task_slot_init # replicate 14 task_slot_init" "replicate 14 task_slot_init = task_slot_init # replicate 13 task_slot_init"
    by (simp_all add: numeral_eq_Suc)
  have 1: "create_task pl SERVICE_CAMERA DOMAIN_A (task_counter_a (el0_syms pl)) a h = (Some 0, ?t (new_task 0 a # replicate 15 task_slot_init))"
    unfolding create_task_def with_tasks_def assms init_table r16(1) symbol_counters
    by (simp add: lettuce_task_create_def slot_states upd_task_def new_task_def)
  have 2: "create_task pl SERVICE_DISPLAY DOMAIN_B (task_counter_b (el0_syms pl)) b (?t (new_task 0 a # replicate 15 task_slot_init)) =
      (Some 1, ?t (new_task 0 a # new_task 1 b # replicate 14 task_slot_init))"
    unfolding create_task_def with_tasks_def r16(2) symbol_counters
    by (simp add: lettuce_task_create_def slot_states upd_task_def new_task_def [of "Suc 0"])
  have 3: "create_task pl SERVICE_SENSOR DOMAIN_C (task_counter_c (el0_syms pl)) c (?t (new_task 0 a # new_task 1 b # replicate 14 task_slot_init)) =
      (Some 2, ?t (new_task 0 a # new_task 1 b # new_task 2 c # replicate 13 task_slot_init))"
    unfolding create_task_def with_tasks_def r16(3) symbol_counters
    by (simp add: lettuce_task_create_def slot_states upd_task_def new_task_def [of 2] flip: numeral_2_eq_2)
  show ?thesis by (simp add: create_counters_def n 1 2 3 counters_created_def del: One_nat_def)
qed

definition counters_ready :: "u64 \<times> u64 \<times> u64 \<Rightarrow> u32 \<Rightarrow> task_state" where
  "counters_ready names w = upd_task 0 (\<lambda>t. t\<lparr>t_state := LETTUCE_TASK_STATE_RUNNING, t_weight := w\<rparr>) (counters_created names)\<lparr>g_current_task := Some 0\<rparr>"

lemma forget_fresh: "forget_task (fresh_task i s d pc sp name task_slot_init) = forget_task (fresh_task i s d 0 0 0 task_slot_init)"
  by (simp add: fresh_task_def forget_task_def Let_def)

lemma counters_accounting:
  "same_accounting (s\<lparr>ps_tasks := counters_ready names w\<rparr>) (three_tasks w (g_rr_last_idx s) (g_eevdf_vsys s))"
proof -
  obtain a b c where n: "names = (a, b, c)" by (cases names) auto
  have up: "forget_task (t\<lparr>t_state := v, t_weight := w\<rparr>) = (forget_task t)\<lparr>t_state := v, t_weight := w\<rparr>" for t v by (simp add: forget_task_def)
  have idem: "forget_task (forget_task t) = forget_task t" for t by (simp add: forget_task_def)
  show ?thesis
    by (simp add: same_accounting_def forget_def forget_tasks_def counters_ready_def counters_created_def n upd_task_def three_tasks_def new_task_def
        up idem counter_task_def forget_fresh [of 0 _ _ "code_at 17 0"] forget_fresh [of "Suc 0" _ _ "code_at 18 0"] forget_fresh [of 2 _ _ "code_at 19 0"])
qed

lemma new_task_counts: "c < 3 \<Longrightarrow> counting_at c 0 0 (context_frame (t_context (new_task c name)))"
  by (simp add: counting_at_def new_task_def fresh_task_def Let_def zero_context_def context_frame_def)

section \<open>The run of the tasks\<close>

lemma counters_run:
  assumes cf: "context_free_policy ops" and pl: "platform_ok pl" and h1: "holds pl el h h1" "lettuce_preempt_is_enabled (ew_trap h1)"
    and m: "g_policy_ops (h_machine h1) = ops" "g_scheduler_active (h_machine h1)" "g_preempt_limit (h_machine h1) = 6" "g_preempt_count (h_machine h1) = 0"
      "g_cross_domain_switches (h_machine h1) = 0" and pol: "mc_policy (h_machine h1) = s1\<lparr>ps_tasks := counters_ready names w\<rparr>"
    and dec: "decides ops counter_tasks None (None, three_tasks w (g_rr_last_idx s1) (g_eevdf_vsys s1)) ds" "switches ds = 6" "last ds \<noteq> None"
      "\<And>i. i < 3 \<Longrightarrow> Some i \<in> insert (Some 0) (set (butlast ds))" "length ds \<le> 35"
    and mem: "\<forall>i < 3. ew_mem h1 (counter_pa pl i) = 0" and gaps: "timer_gaps irq 0 gs" "length ds \<le> length gs"
  shows "\<exists>h'. lettuce_el0_enter_irq pl irq (code_at 17 0) sp (entering DOMAIN_A SERVICE_CAMERA h1) = Some (0, h') \<and> holds pl el h h' \<and> lettuce_preempt_is_enabled (ew_trap h') \<and>
    g_policy_ops (h_machine h') = ops \<and> g_current_policy_type (h_machine h') = g_current_policy_type (h_machine h1) \<and>
    h_ticks h' = h_ticks h1 + of_nat (length ds) \<and> g_preempt_count (h_machine h') = 6 \<and> g_cross_domain_switches (h_machine h') = 6 \<and> (\<forall>i < 3. 0 < ew_mem h' (counter_pa pl i))"
proof -
  define h2 where "h2 = entering DOMAIN_A SERVICE_CAMERA h1"
  have k1: "keeps pl el h1 h1" using keeps_refl holds_ok [OF h1(1)] by blast
  note en = entering_ran [OF k1 domain_numbers(1), where service = SERVICE_CAMERA, folded h2_def]
  let ?s = "three_tasks w (g_rr_last_idx s1) (g_eevdf_vsys s1)"
  let ?fr = "el0_start (pl_regs pl (ew_trap h2)) (pl_link pl (ew_trap h2)) (code_at 17 0) sp"
  have m2: "h_machine h2 = (h_machine h1)\<lparr>mc_mmu := mc_mmu (h_machine h2), mc_kernel := mc_kernel (h_machine h2)\<rparr>"
    by (simp add: h2_def entering_def on_trap_def on_mmu_def on_kernel_def)
  have fr: "counting_at 0 0 0 ?fr" using platform_facts(3) [OF pl] by (simp add: counting_at_def el0_start_def)
  have "ptask (mc_policy (h_machine h1)) i = new_task i (fst (snd names)) \<or> ptask (mc_policy (h_machine h1)) i = new_task i (snd (snd names))"
    if "i < 3" "i \<noteq> 0" for i
  proof -
    have "i = 1 \<or> i = 2" using that by linarith
    then show ?thesis by (auto simp: pol counters_ready_def counters_created_def upd_task_def split: prod.split)
  qed
  then have cx: "\<exists>j. counting_at i j 0 (context_frame (t_context (ptask (mc_policy (h_machine h1)) i)))" if "i < 3" "i \<noteq> 0" for i
    using that new_task_counts [OF that(1)] by metis
  have "preempting pl el h1 ?s 0 0 (\<lambda>_. 0) ?fr h2"
  proof (rule preemptingI [where m = "h_machine h2" and c = 0])
    show "same_accounting (mc_policy (h_machine h2)) ?s" by (subst m2) (simp add: pol counters_accounting)
    show "counter_tasks ?s" using decides_good [OF dec(1)] by blast
    show "pcur ?s = Some 0" by (simp add: three_tasks_def pcur_def)
    show "\<And>i. i < 3 \<Longrightarrow> i \<noteq> 0 \<Longrightarrow> \<exists>j. counting_at i j (of_nat 0) (context_frame (t_context (ptask (mc_policy (h_machine h2)) i)))"
      by (subst m2) (simp add: cx)
  qed (use en(1-3) h1(2) m mem fr in \<open>auto simp: ran_def ready_in_def holds_facts(4) lettuce_preempt_is_enabled_def h2_def entering_def on_trap_def on_mmu_def on_kernel_def\<close>)
  note run = context_free_policy.preempting_run [OF cf pl m(1) this dec(1) gaps]
  obtain h' K' where r: "el0_loop_irq pl irq 0 ?fr h2 = Some (0, h')" "switched_out pl el h1 6 (length ds) K' h'"
      "\<forall>i < 3. K' i \<le> length ds * 2 ^ 32 \<and> (Some i \<in> insert (pcur ?s) (set (butlast ds)) \<longrightarrow> 1 \<le> K' i)"
    using run dec(2,3) by auto
  have "0 < ew_mem h' (counter_pa pl i)" if i: "i < 3" for i
  proof -
    have "1 \<le> K' i" "K' i \<le> 35 * 2 ^ 32" using r(3) [rule_format, OF i] dec(4) [OF i] dec(5) by (auto simp: three_tasks_def pcur_def)
    then have "unat (of_nat (K' i) :: u64) = K' i" by (simp add: unat_of_nat)
    then have "(of_nat (K' i) :: u64) \<noteq> 0" using \<open>1 \<le> K' i\<close> by (metis not_one_le_zero unat_0)
    then show ?thesis using r(2) i by (simp add: switched_out_def word_gt_0)
  qed
  then show ?thesis
    using r(1,2) holds_trans [OF h1(1)] m(1) by (intro exI [of _ h']) (simp add: lettuce_el0_enter_irq_def h2_def [symmetric] switched_out_def)
qed

section \<open>Test 21\<close>

lemma entering_steps:
  "on_trap (on_kernel (kernel_set_current_service_id service)) (on_trap (on_mmu (\<lambda>mmu. snd (lettuce_mmu_enter domain mmu))) h) = entering domain service h"
  by (simp add: entering_def on_trap_def on_mmu_def on_kernel_def)

lemma preempt_enabled_say [simp]: "lettuce_preempt_is_enabled (ew_trap (say ps h)) = lettuce_preempt_is_enabled (ew_trap h)"
  by (simp add: say_def on_console_def lettuce_preempt_is_enabled_def)

lemma holds_on_machine:
  assumes "holds pl el h0 h" "\<And>m. mc_mmu (f m) = mc_mmu m" "\<And>m. mc_kernel (f m) = mc_kernel m"
  shows "holds pl el h0 (on_machine f h)"
  by (subst on_machine_const, rule holds_machine) (use assms in simp_all)

lemma init_facts:
  assumes "sched_policy (g_policy_ops m)"
  shows "lettuce_scheduler_init m = m\<lparr>mc_policy := po_init (g_policy_ops m) ((mc_policy m)\<lparr>ps_tasks := lettuce_task_init_subsystem\<rparr>), g_scheduler_active := False,
      g_switch_count := 0, g_preempt_count := 0, g_same_domain_switches := 0, g_cross_domain_switches := 0, g_preempt_limit := 0\<rparr>"
    "ps_tasks (po_init (g_policy_ops m) ((mc_policy m)\<lparr>ps_tasks := lettuce_task_init_subsystem\<rparr>)) = lettuce_task_init_subsystem"
  using sched_policy.init_mech [OF assms] by (simp_all add: lettuce_scheduler_init_def Let_def)

lemma on_machine_mem: "on_machine f (h\<lparr>ew_mem := mem\<rparr>) = (on_machine f h)\<lparr>ew_mem := mem\<rparr>"
  by (simp add: on_machine_def on_trap_def)

text \<open>The six counters read after the run.\<close>

lemma counters_read:
  assumes "platform_ok pl" "holds pl el h h'" "\<forall>i < 3. 0 < ew_mem h' (counter_pa pl i)"
  shows "\<exists>a b c. el1_load pl (counter_va 0) h' = Some a \<and> el1_load pl (counter_va 1) h' = Some b \<and> el1_load pl (counter_va 2) h' = Some c \<and>
    0 < a \<and> 0 < b \<and> 0 < c"
  using counter_access(2) [OF assms(1,2)] assms(3) by simp

lemma with_tasks_eq:
  "set_current task h = on_machine (\<lambda>m. m\<lparr>mc_policy := (mc_policy m)\<lparr>ps_tasks := lettuce_task_set_current task (ps_tasks (mc_policy m))\<rparr>\<rparr>) h"
  "set_weight task weight h = on_machine (\<lambda>m. m\<lparr>mc_policy := (mc_policy m)\<lparr>ps_tasks := lettuce_task_set_weight task weight (ps_tasks (mc_policy m))\<rparr>\<rparr>) h"
  by (simp_all add: set_current_def set_weight_def with_tasks_def on_machine_def on_trap_def)

lemma new_task_weight: "t_weight (new_task c name) = 1024"
  by (simp add: new_task_def fresh_task_def Let_def)

lemma prepared:
  assumes "ps_tasks (mc_policy m) = counters_created names"
  shows "upd_ptask 0 (\<lambda>t. t\<lparr>t_state := LETTUCE_TASK_STATE_RUNNING\<rparr>) ((mc_policy m)\<lparr>ps_tasks := lettuce_task_set_current (Some 0) (ps_tasks (mc_policy m))\<rparr>) =
    (mc_policy m)\<lparr>ps_tasks := counters_ready names 1024\<rparr>"
proof -
  obtain a b c where n: "names = (a, b, c)" by (cases names) auto
  have "t\<lparr>t_state := v, t_weight := 1024\<rparr> = t\<lparr>t_state := v\<rparr>" if "t_weight t = 1024" for t v using that by simp
  note this [OF new_task_weight]
  then show ?thesis
    by (simp add: upd_ptask_def assms counters_ready_def counters_created_def n upd_task_def lettuce_task_set_current_def)
qed

lemma started_counters:
  assumes cf: "context_free_policy ops" and pl: "platform_ok pl" and h0: "holds pl el h h0" "lettuce_preempt_is_enabled (ew_trap h0)"
    and m: "g_policy_ops (h_machine h0) = ops" "g_preempt_count (h_machine h0) = 0" "g_cross_domain_switches (h_machine h0) = 0"
    and dec: "decides ops counter_tasks None (None, three_tasks w (g_rr_last_idx (mc_policy (h_machine h0))) (g_eevdf_vsys (mc_policy (h_machine h0)))) ds"
      "switches ds = 6" "last ds \<noteq> None" "\<And>i. i < 3 \<Longrightarrow> Some i \<in> insert (Some 0) (set (butlast ds))" "length ds \<le> 35"
    and mem: "\<forall>i < 3. mem (counter_pa pl i) = 0" and gaps: "timer_gaps irq 0 gs" "length ds \<le> length gs"
    and h1: "h1 = (on_machine (\<lambda>m. m\<lparr>mc_policy := (mc_policy m)\<lparr>ps_tasks := counters_ready names w\<rparr>, g_preempt_limit := 6, g_scheduler_active := True,
        mc_timer := T (mc_timer m)\<rparr>) h0)\<lparr>ew_mem := mem\<rparr>"
  shows "\<exists>h'. lettuce_el0_enter_irq pl irq (code_at 17 0) sp (entering DOMAIN_A SERVICE_CAMERA h1) = Some (0, h') \<and> holds pl el h h' \<and>
    lettuce_preempt_is_enabled (ew_trap h') \<and> g_policy_ops (h_machine h') = ops \<and>
    g_current_policy_type (h_machine h') = g_current_policy_type (h_machine h0) \<and>
    h_ticks h' = h_ticks h1 + of_nat (length ds) \<and> g_preempt_count (h_machine h') = 6 \<and> g_cross_domain_switches (h_machine h') = 6 \<and> (\<forall>i < 3. 0 < ew_mem h' (counter_pa pl i))"
proof -
  have k1: "holds pl el h h1" unfolding h1 holds_mem by (rule holds_on_machine [OF h0(1)]) simp_all
  have e: "lettuce_preempt_is_enabled (ew_trap h1)" using h0(2) by (simp add: h1)
  have m1: "g_policy_ops (h_machine h1) = ops" "g_scheduler_active (h_machine h1)" "g_preempt_limit (h_machine h1) = 6" "g_preempt_count (h_machine h1) = 0"
      "g_cross_domain_switches (h_machine h1) = 0" "mc_policy (h_machine h1) = (mc_policy (h_machine h0))\<lparr>ps_tasks := counters_ready names w\<rparr>"
      "g_current_policy_type (h_machine h1) = g_current_policy_type (h_machine h0)" "\<forall>i < 3. ew_mem h1 (counter_pa pl i) = 0"
    using m mem by (simp_all add: h1)
  show ?thesis using counters_run [OF cf pl k1 e m1(1-6) dec m1(8) gaps, of sp] m1(7) by simp
qed

lemma test21_runs:
  assumes pl: "platform_ok pl" and h: "harness_ok pl el h" and rr: "g_policy_ops (h_machine h) = g_lettuce_sched_rr_ops"
    and on: "lettuce_preempt_is_enabled (ew_trap h)" and gaps: "timer_gaps irq 0 gs" "30 \<le> length gs"
  shows "\<exists>h'. test21 pl irq names h = Some h' \<and> succeeds pl el h h' \<and> same_sched h h' \<and> h_ticks h' = h_ticks h + 30"
proof -
  define h0 where "h0 = on_machine lettuce_scheduler_init (say [puts ''\<newline>--- Test 21: Preemptive Multitasking Across 3 Isolated Domains ---\<newline>''] h)"
  have init: "lettuce_scheduler_init (h_machine h) = (h_machine h)\<lparr>mc_policy := (mc_policy (h_machine h))\<lparr>ps_tasks := lettuce_task_init_subsystem, g_rr_last_idx := 0\<rparr>,
      g_scheduler_active := False, g_switch_count := 0, g_preempt_count := 0, g_same_domain_switches := 0, g_cross_domain_switches := 0, g_preempt_limit := 0\<rparr>"
    by (simp add: lettuce_scheduler_init_def rr g_lettuce_sched_rr_ops_def rr_init_def Let_def)
  have m0: "h_machine h0 = lettuce_scheduler_init (h_machine h)" by (simp add: h0_def)
  have k0: "holds pl el h h0"
    unfolding h0_def by (rule holds_on_machine) (use holds_refl [OF h] in \<open>simp_all add: lettuce_scheduler_init_def Let_def\<close>)
  obtain mem where mem: "clear_counters pl h0 = Some (h0\<lparr>ew_mem := mem\<rparr>)" "\<forall>i < 3. mem (counter_pa pl i) = 0"
    using clear_counters_runs [OF pl k0] by blast
  define h1 where "h1 = (on_machine (\<lambda>m. m\<lparr>mc_policy := (mc_policy m)\<lparr>ps_tasks := counters_ready names 1024\<rparr>, g_preempt_limit := 6, g_scheduler_active := True,
      mc_timer := mc_timer m\<rparr>) h0)\<lparr>ew_mem := mem\<rparr>"
  let ?names = "\<lambda>m. (m :: machine)\<lparr>mc_policy := (mc_policy m)\<lparr>ps_tasks := counters_created names\<rparr>\<rparr>"
  have prep: "on_machine lettuce_scheduler_start (on_machine (lettuce_scheduler_set_preempt_limit 6)
      (upd_htask 0 (\<lambda>t. t\<lparr>t_state := LETTUCE_TASK_STATE_RUNNING\<rparr>) (set_current (Some 0) (on_machine ?names (h0\<lparr>ew_mem := mem\<rparr>))))) = h1"
    using prepared [of "?names _" names]
    by (simp add: upd_htask_def with_tasks_eq h1_def on_machine_mem lettuce_scheduler_start_def lettuce_scheduler_set_preempt_limit_def)
  have tasks: "ps_tasks (mc_policy (h_machine (h0\<lparr>ew_mem := mem\<rparr>))) = lettuce_task_init_subsystem" by (simp add: m0 init)
  obtain h2 where h2: "lettuce_el0_enter_irq pl irq (code_at 17 0) (lettuce_arch_domain_stack_top DOMAIN_A) (entering DOMAIN_A SERVICE_CAMERA h1) = Some (0, h2)"
      "holds pl el h h2" "lettuce_preempt_is_enabled (ew_trap h2)" "g_policy_ops (h_machine h2) = g_lettuce_sched_rr_ops" "h_ticks h2 = h_ticks h + 30"
      "g_preempt_count (h_machine h2) = 6" "g_cross_domain_switches (h_machine h2) = 6" "\<forall>i < 3. 0 < ew_mem h2 (counter_pa pl i)"
    using started_counters [OF rr_free.context_free_policy_axioms pl k0 _ _ _ _ _ decisions_facts(1,2,7) _ mem(2) gaps(1) _ h1_def, of "lettuce_arch_domain_stack_top DOMAIN_A"]
      on rr rr_decides gaps(2) decisions_facts(3) by (auto simp: m0 init h0_def decisions_facts(3) h1_def)
  let ?h2 = "on_machine lettuce_scheduler_stop h2"
  have k2: "holds pl el h ?h2" by (rule holds_on_machine [OF h2(2)]) (simp_all add: lettuce_scheduler_stop_def)
  obtain a b c where cnt: "el1_load pl (counter_va 0) ?h2 = Some a" "el1_load pl (counter_va 1) ?h2 = Some b" "el1_load pl (counter_va 2) ?h2 = Some c"
      "0 < a" "0 < b" "0 < c"
    using counters_read [OF pl k2] h2(8) by auto
  have "test21 pl irq names h = Some (log_test True ''Test 21: Preemptive round-robin context switching verified across 3 MMU domains''
      ''Test 21: Preemptive context switching across domains failed'' ?h2)"
    unfolding test21_def Let_def h0_def [symmetric] mem(1) bind.simps create_counters_runs [OF tasks] prod.case prep entering_steps symbol_counters
    using h2(1,6,7) cnt
    by (simp add: status_ok lettuce_scheduler_preempt_count_def lettuce_scheduler_cross_domain_switches_def lettuce_scheduler_stop_def word_le_nat_alt)
  then show ?thesis using succeeds_log [OF k2] h2(3,4,5) rr on
    by (simp add: log_facts same_sched_def lettuce_scheduler_stop_def)
qed

text \<open>
  C6: Preemption across domains under round robin. From any good state of the harness with preemption enabled, and for timer interrupts that
  arrive at least seven instructions apart, test 21 ends and passes: executing instruction by instruction, the three tasks are switched six
  times, each time into the address space of the next one, each task counts in its own counter and resumes where it was, and
  the sixth preemption gives the processor back to the test.
\<close>

theorem preemption_test_passes:
  assumes pl: "platform_ok pl" and h: "harness_ok pl el h" and rr: "g_policy_ops (h_machine h) = g_lettuce_sched_rr_ops"
    and on: "lettuce_preempt_is_enabled (ew_trap h)" and gaps: "timer_gaps irq 0 gs" "30 \<le> length gs"
  shows "\<exists>h'. test21 pl irq names h = Some h' \<and> succeeds pl el h h' \<and> same_sched h h' \<and> h_ticks h' = h_ticks h + 30"
  by (rule test21_runs [OF assms])

text \<open>Timer interrupts at every eighth step.\<close>

definition demo_irq :: irq_env where "demo_irq n = (if n mod 8 = 7 then Some 27 else None)"

lemma demo_irq_gaps: "n mod 8 = 0 \<Longrightarrow> timer_gaps demo_irq n (replicate k 7)"
proof (induction k arbitrary: n)
  case (Suc k)
  have "lettuce_gic_acknowledge 27 = GIC_INTID_VTIMER" by code_simp
  moreover have "(n + i) mod 8 = i" if "i < 8" for i using Suc.prems that by presburger
  moreover have "Suc (n + 7) mod 8 = 0" using Suc.prems by presburger
  ultimately show ?case using Suc.IH [of "Suc (n + 7)"] by (auto simp: demo_irq_def)
qed simp

lemma demo_harness_ready:
  "g_policy_ops (h_machine demo_harness) = g_lettuce_sched_rr_ops" "lettuce_preempt_is_enabled (ew_trap demo_harness)" "g_tests_passed demo_harness = 0"
  by (simp_all add: demo_harness_def boot_machine_def demo_machine_def demo_machine_with_def demo_machine0_def lettuce_preempt_is_enabled_def demo_trap_def)

lemma preemption_test_passes_witness:
  "\<exists>h'. test21 (demo_platform service_image) demo_irq (0x40090000, 0x40090010, 0x40090020) demo_harness = Some h' \<and> g_tests_passed h' = 1"
  using preemption_test_passes [OF demo_platform_ok demo_harness_ok(1) demo_harness_ready(1,2) demo_irq_gaps, of 30 "(0x40090000, 0x40090010, 0x40090020)"]
    demo_harness_ready(3)
  by (auto simp: succeeds_def holds_def)

section \<open>Test 25\<close>

lemma prepared_weights:
  assumes "ps_tasks (mc_policy m) = counters_created names"
  shows "upd_ptask 0 (\<lambda>t. t\<lparr>t_state := LETTUCE_TASK_STATE_RUNNING\<rparr>) ((mc_policy m)\<lparr>ps_tasks := lettuce_task_set_current (Some 0)
      (lettuce_task_set_weight (Some 2) 1024 (lettuce_task_set_weight (Some 1) 1024 (lettuce_task_set_weight (Some 0) 2048 (ps_tasks (mc_policy m)))))\<rparr>) =
    (mc_policy m)\<lparr>ps_tasks := counters_ready names 2048\<rparr>"
proof -
  obtain a b c where n: "names = (a, b, c)" by (cases names) auto
  have w: "(new_task i x)\<lparr>t_weight := 1024\<rparr> = new_task i x" for i x
    by (rule LettuceTask.equality) (simp_all add: new_task_weight)
  have "(t\<lparr>t_weight := v\<rparr>)\<lparr>t_state := u\<rparr> = t\<lparr>t_state := u, t_weight := v\<rparr>" for t u v by simp
  moreover have "(2048 :: u32) \<le> 10240" "(1024 :: u32) \<le> 10240" by (simp_all add: word_le_nat_alt)
  ultimately show ?thesis
    by (simp add: upd_ptask_def assms counters_ready_def counters_created_def n upd_task_def lettuce_task_set_current_def lettuce_task_set_weight_def
        Let_def w not_less)
qed

text \<open>
  Preemption across domains under EEVDF. From any good state of the harness with preemption enabled, and for timer interrupts that arrive
  at least seven instructions apart, test 25 ends and passes: with weights 2048, 1024 and 1024, EEVDF lets all three tasks
  run and count within six switches, every switch enters the address space of the next task, and the policy stays selected.
\<close>

theorem eevdf_preemption_test_passes:
  assumes pl: "platform_ok pl" and h: "harness_ok pl el h" and ops: "known_policy (g_policy_ops (h_machine h))"
    and on: "lettuce_preempt_is_enabled (ew_trap h)" and gaps: "timer_gaps irq 0 gs" "35 \<le> length gs"
  shows "\<exists>h'. test25 pl irq names h = Some h' \<and> succeeds pl el h h' \<and> g_policy_ops (h_machine h') = g_lettuce_sched_eevdf_ops"
proof -
  define h0 where "h0 = on_machine (lettuce_scheduler_set_policy LETTUCE_SCHED_POLICY_EEVDF)
    (on_machine lettuce_scheduler_init (say [puts ''\<newline>--- Test 25: EEVDF Preemptive Scheduling Across 3 MMU Domains ---\<newline>''] h))"
  have m0: "h_machine h0 = lettuce_scheduler_set_policy LETTUCE_SCHED_POLICY_EEVDF (lettuce_scheduler_init (h_machine h))" by (simp add: h0_def)
  note init = init_facts [OF known_policy_contract [OF ops]]
  have f0: "g_policy_ops (h_machine h0) = g_lettuce_sched_eevdf_ops" "g_preempt_count (h_machine h0) = 0" "g_cross_domain_switches (h_machine h0) = 0"
      "g_current_policy_type (h_machine h0) = LETTUCE_SCHED_POLICY_EEVDF" "ps_tasks (mc_policy (h_machine h0)) = lettuce_task_init_subsystem"
      "g_eevdf_vsys (mc_policy (h_machine h0)) = 0"
    using init(2) unfolding m0 lettuce_scheduler_set_policy_def init(1) Let_def by (simp_all add: g_lettuce_sched_eevdf_ops_def eevdf_init_def)
  have k0: "holds pl el h h0"
    unfolding h0_def
    by (intro holds_on_machine) (use holds_refl [OF h] in \<open>simp_all add: lettuce_scheduler_init_def lettuce_scheduler_set_policy_def Let_def\<close>)
  obtain mem where mem: "clear_counters pl h0 = Some (h0\<lparr>ew_mem := mem\<rparr>)" "\<forall>i < 3. mem (counter_pa pl i) = 0"
    using clear_counters_runs [OF pl k0] by blast
  define h1 where "h1 = (on_machine (\<lambda>m. m\<lparr>mc_policy := (mc_policy m)\<lparr>ps_tasks := counters_ready names 2048\<rparr>, g_preempt_limit := 6, g_scheduler_active := True,
      mc_timer := lettuce_timer_init (pl_freq pl) 100 (mc_timer m)\<rparr>) h0)\<lparr>ew_mem := mem\<rparr>"
  let ?names = "\<lambda>m. (m :: machine)\<lparr>mc_policy := (mc_policy m)\<lparr>ps_tasks := counters_created names\<rparr>\<rparr>"
  have prep: "on_machine (\<lambda>m. m\<lparr>mc_timer := lettuce_timer_init (pl_freq pl) 100 (mc_timer m)\<rparr>) (on_machine lettuce_scheduler_start
      (on_machine (lettuce_scheduler_set_preempt_limit 6) (upd_htask 0 (\<lambda>t. t\<lparr>t_state := LETTUCE_TASK_STATE_RUNNING\<rparr>) (set_current (Some 0)
        (set_weight (Some 2) 1024 (set_weight (Some 1) 1024 (set_weight (Some 0) 2048 (on_machine ?names (h0\<lparr>ew_mem := mem\<rparr>)))))))))  = h1"
    using prepared_weights [of "?names _" names]
    by (simp add: upd_htask_def with_tasks_eq h1_def on_machine_mem lettuce_scheduler_start_def lettuce_scheduler_set_preempt_limit_def)
  have tasks: "ps_tasks (mc_policy (h_machine (h0\<lparr>ew_mem := mem\<rparr>))) = lettuce_task_init_subsystem" using f0(5) by simp
  obtain h2 where h2: "lettuce_el0_enter_irq pl irq (code_at 17 0) (lettuce_arch_domain_stack_top DOMAIN_A) (entering DOMAIN_A SERVICE_CAMERA h1) = Some (0, h2)"
      "holds pl el h h2" "g_policy_ops (h_machine h2) = g_lettuce_sched_eevdf_ops" "g_current_policy_type (h_machine h2) = LETTUCE_SCHED_POLICY_EEVDF"
      "g_preempt_count (h_machine h2) = 6" "g_cross_domain_switches (h_machine h2) = 6" "\<forall>i < 3. 0 < ew_mem h2 (counter_pa pl i)"
    using started_counters [OF eevdf_free.context_free_policy_axioms pl k0 _ f0(1-3) _ decisions_facts(4,5,8) _ mem(2) gaps(1) _ h1_def,
        of "lettuce_arch_domain_stack_top DOMAIN_A"] on eevdf_decides gaps(2) decisions_facts(6) f0(4,6) by (auto simp: h0_def)
  let ?h2 = "on_machine lettuce_scheduler_stop h2"
  have k2: "holds pl el h ?h2" by (rule holds_on_machine [OF h2(2)]) (simp_all add: lettuce_scheduler_stop_def)
  obtain a b c where cnt: "el1_load pl (counter_va 0) ?h2 = Some a" "el1_load pl (counter_va 1) ?h2 = Some b" "el1_load pl (counter_va 2) ?h2 = Some c"
      "0 < a" "0 < b" "0 < c"
    using counters_read [OF pl k2] h2(7) by auto
  have "test25 pl irq names h = Some (log_test True ''Test 25: EEVDF preemptive scheduling and MMU domain isolation verified under hardware timer IRQs''
      ''Test 25: EEVDF preemptive context switching across domains failed'' ?h2)"
    unfolding test25_def Let_def h0_def [symmetric] mem(1) bind.simps create_counters_runs [OF tasks] prod.case prep entering_steps symbol_counters
    using h2(1,4,5,6) cnt
    by (simp add: status_ok lettuce_scheduler_preempt_count_def lettuce_scheduler_cross_domain_switches_def lettuce_scheduler_get_policy_def
        lettuce_scheduler_stop_def word_le_nat_alt)
  then show ?thesis using succeeds_log [OF k2] h2(3) by (simp add: log_test_def log_pass_def Let_def lettuce_scheduler_stop_def)
qed

lemma eevdf_preemption_test_passes_witness:
  "\<exists>h'. test25 (demo_platform service_image) demo_irq (0x40090000, 0x40090010, 0x40090020) demo_harness = Some h' \<and> g_tests_passed h' = 1"
proof -
  have k: "known_policy (g_policy_ops (h_machine demo_harness))" by (simp add: known_policy_def demo_harness_ready(1))
  show ?thesis
    using eevdf_preemption_test_passes [OF demo_platform_ok demo_harness_ok(1) k demo_harness_ready(2) demo_irq_gaps, of 35 "(0x40090000, 0x40090010, 0x40090020)"]
      demo_harness_ready(3)
    by (auto simp: succeeds_def holds_def)
qed

end
