(* ===== verification/Harness_Bench.thy ===== *)
theory Harness_Bench
  imports Preempt_Tests
begin

text \<open>
  The microbenchmarks at the end of \<^verbatim>\<open>kernel/arch/arm64/main.c\<close>: eleven cases, each with its preparation, its calls for warming up and fifty
  samples of a hundred calls between two readings of the counter, and the reports. The calls run the services at EL0 as the
  tests do. Every case ends, each sample is what the readings give, and the state of the tests is left intact.
\<close>

section \<open>Measuring\<close>

definition BENCH_CALLS_PER_SAMPLE :: nat where "BENCH_CALLS_PER_SAMPLE = 100"
definition BENCH_WARMUP_CALLS :: nat where "BENCH_WARMUP_CALLS = 100"

type_synonym bench_call = "harness_state \<Rightarrow> harness_state option"

primrec bench_loop :: "nat \<Rightarrow> bench_call \<Rightarrow> bench_call" where
  "bench_loop 0 call h = Some h"
| "bench_loop (Suc n) call h = call h \<bind> bench_loop n call"

text \<open>Reading \<^verbatim>\<open>n\<close> of the counter since the benchmarks began has the value \<^verbatim>\<open>clock n\<close>. The loop takes two readings for each sample.\<close>

type_synonym bench_clock = "nat \<Rightarrow> u64"

primrec bench_samples :: "bench_clock \<Rightarrow> bench_call \<Rightarrow> nat \<Rightarrow> nat \<Rightarrow> harness_state \<Rightarrow> (u64 list \<times> harness_state) option" where
  "bench_samples clock call reading 0 h = Some ([], h)"
| "bench_samples clock call reading (Suc n) h = do {
     let start = clock reading;
     h \<leftarrow> bench_loop BENCH_CALLS_PER_SAMPLE call h;
     let sample = (clock (reading + 1) - start) div of_nat BENCH_CALLS_PER_SAMPLE;
     (samples, h) \<leftarrow> bench_samples clock call (reading + 2) n h;
     Some (sample # samples, h)
   }"

definition bench_case :: "bench_clock \<Rightarrow> nat \<Rightarrow> bench_call \<Rightarrow> harness_state \<Rightarrow> (u64 list \<times> harness_state) option" where
  "bench_case clock reading call h = do {
     h \<leftarrow> bench_loop BENCH_WARMUP_CALLS call h;
     bench_samples clock call reading BENCH_SAMPLES h
   }"

section \<open>The calls\<close>

definition direct_el1_synthetic_entry :: LettuceStatus where
  "direct_el1_synthetic_entry = LETTUCE_STATUS_OK"

definition call_direct :: bench_call where
  "call_direct h = (let s = direct_el1_synthetic_entry in Some h)"

definition call_check :: "u32 \<Rightarrow> bench_call" where
  "call_check cap_cam_disp h =
     (let st = lettuce_capability_check (h_caps h) (h_service h) cap_cam_disp SERVICE_DISPLAY OP_DRAW LETTUCE_CAP_CALL RES_FRAMEBUFFER in Some h)"

text \<open>The result of the service is not used.\<close>

definition call_service :: "platform \<Rightarrow> u64 \<Rightarrow> bench_call" where
  "call_service pl symbol h = map_option snd (run_camera pl symbol h)"

definition call_enter_leave :: "domain_id \<Rightarrow> bench_call" where
  "call_enter_leave domain h =
     (let (saved, mmu) = lettuce_mmu_enter domain (ew_mmu h);
          h = on_trap (on_mmu (\<lambda>_. mmu)) h
      in Some (on_trap (on_mmu (lettuce_mmu_leave saved)) h))"

section \<open>The cases\<close>

definition bench_a :: "bench_clock \<Rightarrow> harness_state \<Rightarrow> (u64 list \<times> harness_state) option" where
  "bench_a clock = bench_case clock 0 call_direct"

definition bench_b :: "bench_clock \<Rightarrow> u32 \<Rightarrow> harness_state \<Rightarrow> (u64 list \<times> harness_state) option" where
  "bench_b clock cap_cam_disp = bench_case clock 100 (call_check cap_cam_disp)"

definition bench_c :: "platform \<Rightarrow> bench_clock \<Rightarrow> harness_state \<Rightarrow> (u64 list \<times> harness_state) option" where
  "bench_c pl clock = bench_case clock 200 (call_service pl (svc_minimal_return_entry (el0_syms pl)))"

definition bench_d :: "bench_clock \<Rightarrow> harness_state \<Rightarrow> (u64 list \<times> harness_state) option" where
  "bench_d clock = bench_case clock 300 (call_enter_leave DOMAIN_A)"

definition bench_e :: "bench_clock \<Rightarrow> harness_state \<Rightarrow> (u64 list \<times> harness_state) option" where
  "bench_e clock = bench_case clock 400 (call_enter_leave DOMAIN_B)"

definition bench_f :: "platform \<Rightarrow> bench_clock \<Rightarrow> u32 \<Rightarrow> harness_state \<Rightarrow> (u64 list \<times> harness_state) option" where
  "bench_f pl clock cap_cam_disp h = do {
     let h = register_entry pl SERVICE_DISPLAY OP_DRAW (svc_display_entry (el0_syms pl)) h;
     h \<leftarrow> shared_word pl 0 cap_cam_disp h;
     bench_case clock 500 (call_service pl (svc_camera_call_display (el0_syms pl))) h
   }"

definition bench_g :: "platform \<Rightarrow> bench_clock \<Rightarrow> u32 \<Rightarrow> harness_state \<Rightarrow> (u64 list \<times> harness_state) option" where
  "bench_g pl clock cap_cam_sensor h = do {
     h \<leftarrow> shared_word pl 2 cap_cam_sensor h;
     bench_case clock 600 (call_service pl (svc_camera_cross_layer_call (el0_syms pl))) h
   }"

definition bench_h :: "platform \<Rightarrow> bench_clock \<Rightarrow> u32 \<Rightarrow> harness_state \<Rightarrow> (u64 list \<times> harness_state) option" where
  "bench_h pl clock cap_cam_elev h = do {
     let h = on_trap (lettuce_elevator_set_use_asm False) h;
     h \<leftarrow> shared_word pl 3 cap_cam_elev h;
     bench_case clock 700 (call_service pl (svc_camera_elevator_call (el0_syms pl))) h
   }"

definition bench_i :: "platform \<Rightarrow> bench_clock \<Rightarrow> harness_state \<Rightarrow> (u64 list \<times> harness_state) option" where
  "bench_i pl clock h = do {
     let h = on_trap (lettuce_pac_enable True) h;
     (samples, h) \<leftarrow> bench_case clock 800 (call_service pl (svc_camera_call_display (el0_syms pl))) h;
     Some (samples, on_trap (lettuce_pac_enable False) h)
   }"

definition bench_j :: "platform \<Rightarrow> bench_clock \<Rightarrow> u32 \<Rightarrow> harness_state \<Rightarrow> (u64 list \<times> harness_state) option" where
  "bench_j pl clock cap_cam_elev h = do {
     let h = on_trap (lettuce_elevator_set_use_asm True) h;
     h \<leftarrow> shared_word pl 3 cap_cam_elev h;
     bench_case clock 900 (call_service pl (svc_camera_elevator_call (el0_syms pl))) h
   }"

definition bench_k :: "platform \<Rightarrow> bench_clock \<Rightarrow> harness_state \<Rightarrow> (u64 list \<times> harness_state) option" where
  "bench_k pl clock = bench_case clock 1000 (call_service pl (task_bench_syscall (el0_syms pl)))"

section \<open>The benchmarks\<close>

text \<open>The reports, one call for each case. The samples are sorted in place, and nothing uses them afterwards.\<close>

primrec print_reports :: "u64 \<Rightarrow> (string \<times> u64 list) list \<Rightarrow> harness_state \<Rightarrow> harness_state option" where
  "print_reports freq [] h = Some h"
| "print_reports freq (report # reports) h = do {
     (_, h) \<leftarrow> print_bench_stats (fst report) (snd report) freq h;
     print_reports freq reports h
   }"

definition microbenchmarks :: "platform \<Rightarrow> bench_clock \<Rightarrow> u32 \<Rightarrow> u32 \<Rightarrow> u32 \<Rightarrow> harness_state \<Rightarrow> harness_state option" where
  "microbenchmarks pl clock cap_cam_disp cap_cam_sensor cap_cam_elev h = do {
     let h = say [puts ''\<newline>--- ARM64 Statistical Microbenchmarks ---\<newline>''] h;
     let freq = pl_freq pl;
     (bench_a_samples, h) \<leftarrow> bench_a clock h;
     (bench_b_samples, h) \<leftarrow> bench_b clock cap_cam_disp h;
     (bench_c_samples, h) \<leftarrow> bench_c pl clock h;
     (bench_d_samples, h) \<leftarrow> bench_d clock h;
     (bench_e_samples, h) \<leftarrow> bench_e clock h;
     (bench_f_samples, h) \<leftarrow> bench_f pl clock cap_cam_disp h;
     (bench_g_samples, h) \<leftarrow> bench_g pl clock cap_cam_sensor h;
     (bench_h_samples, h) \<leftarrow> bench_h pl clock cap_cam_elev h;
     (bench_i_samples, h) \<leftarrow> bench_i pl clock h;
     (bench_j_samples, h) \<leftarrow> bench_j pl clock cap_cam_elev h;
     (bench_k_samples, h) \<leftarrow> bench_k pl clock h;
     h \<leftarrow> print_reports freq
       [(''Case A: Direct EL1 Baseline'', bench_a_samples), (''Case B: Independent Capability Check'', bench_b_samples),
        (''Case C: EL1 -> EL0 -> SVC -> EL1 Roundtrip'', bench_c_samples), (''Case D: Same-Domain Fast Path'', bench_d_samples),
        (''Case E: Cross-Domain MMU Switch Pair'', bench_e_samples), (''Case F: Same-Layer EL0 Mediated Call'', bench_f_samples),
        (''Case G: Cross-Layer EL0 Mediated Call'', bench_g_samples), (''Case H: Elevator Reference Call (C Path)'', bench_h_samples),
        (''Case I: Same-Layer EL0 Call + PAC'', bench_i_samples), (''Case J: Elevator Fast Path (ASM Gate)'', bench_j_samples),
        (''Case K: POSIX-Lite Syscall Roundtrip'', bench_k_samples)] h;
     Some (say [puts ''\<newline>NOTE: generic counter ticks != CPU core cycles.\<newline>'',
       puts ''NOTE: QEMU TCG measurements reflect software emulation overhead, not silicon hardware cycles.\<newline>''] h)
   }"

section \<open>The loops end\<close>

text \<open>The samples that a case reports, by the readings alone.\<close>

definition samples_read :: "bench_clock \<Rightarrow> nat \<Rightarrow> nat \<Rightarrow> u64 list" where
  "samples_read clock reading n = map (\<lambda>s. (clock (reading + 2 * s + 1) - clock (reading + 2 * s)) div 100) [0..<n]"

lemma samples_read_Suc: "samples_read clock reading (Suc n) = (clock (reading + 1) - clock reading) div 100 # samples_read clock (reading + 2) n"
proof -
  have "[0..<Suc n] = 0 # map Suc [0..<n]" by (simp add: map_Suc_upt upt_conv_Cons del: upt_Suc)
  then show ?thesis by (simp add: samples_read_def comp_def)
qed

text \<open>A call that ends in every state with a property and keeps the property can be measured.\<close>

locale bench_step =
  fixes call :: bench_call and P :: "harness_state \<Rightarrow> bool"
  assumes call_ends: "P h \<Longrightarrow> \<exists>h'. call h = Some h' \<and> P h'"
begin

lemma loop_ends: "P h \<Longrightarrow> \<exists>h'. bench_loop n call h = Some h' \<and> P h'"
proof (induction n arbitrary: h)
  case (Suc n)
  obtain h1 where "call h = Some h1" "P h1" using call_ends [OF Suc.prems] by blast
  then show ?case using Suc.IH by simp
qed simp

lemma samples_end: "P h \<Longrightarrow> \<exists>h'. bench_samples clock call reading n h = Some (samples_read clock reading n, h') \<and> P h'"
proof (induction n arbitrary: reading h)
  case 0
  then show ?case by (simp add: samples_read_def)
next
  case (Suc n)
  obtain h1 where h1: "bench_loop BENCH_CALLS_PER_SAMPLE call h = Some h1" "P h1" using loop_ends [OF Suc.prems] by blast
  obtain h2 where "bench_samples clock call (reading + 2) n h1 = Some (samples_read clock (reading + 2) n, h2)" "P h2"
    using Suc.IH [OF h1(2)] by blast
  then show ?case using h1(1) by (simp add: samples_read_Suc) (simp add: BENCH_CALLS_PER_SAMPLE_def)
qed

lemma case_ends: "P h \<Longrightarrow> \<exists>h'. bench_case clock reading call h = Some (samples_read clock reading BENCH_SAMPLES, h') \<and> P h'"
proof -
  assume "P h"
  then obtain h1 where h1: "bench_loop BENCH_WARMUP_CALLS call h = Some h1" "P h1" using loop_ends by blast
  then show ?thesis using samples_end [OF h1(2)] by (simp add: bench_case_def)
qed

end

section \<open>The calls keep the state of the tests\<close>

text \<open>
  What holds between the calls: the kernel is ready to run services, the capabilities are those of the tests, the counts of the tests
  are as they were, and the words of the shared page named by \<^verbatim>\<open>W\<close> hold their handles.
\<close>

definition benching :: "platform \<Rightarrow> u64 \<Rightarrow> capability_state \<Rightarrow> u32 \<times> u32 \<Rightarrow> (nat \<rightharpoonup> u32) \<Rightarrow> harness_state \<Rightarrow> bool" where
  "benching pl el cs n W h \<longleftrightarrow> platform_ok pl \<and> pac_sound (pl_pac pl) \<and> harness_ok pl el h \<and> h_caps h = cs \<and>
     (g_tests_passed h, g_tests_failed h) = n \<and>
     (\<forall>i < 4. \<forall>c. W i = Some c \<longrightarrow> ew_mem h (lay_shared (pl_layout pl) OR of_nat (8 * i)) = ucast c)"

lemma benching_facts:
  assumes "benching pl el cs n W h"
  shows "platform_ok pl" "pac_sound (pl_pac pl)" "harness_ok pl el h" "keeps pl el h h" "h_caps h = cs" "(g_tests_passed h, g_tests_failed h) = n"
    "i < 4 \<Longrightarrow> W i = Some c \<Longrightarrow> ew_mem h (lay_shared (pl_layout pl) OR of_nat (8 * i)) = ucast c"
  using assms keeps_refl by (simp_all add: benching_def)

lemma shared_words_apart:
  assumes "lay_ok lay" "i < 4" "j < 4"
  shows "i \<noteq> j \<Longrightarrow> lay_shared lay OR of_nat (8 * i) \<noteq> lay_shared lay OR of_nat (8 * j)"
    "k < 3 \<Longrightarrow> lay_shared lay OR of_nat (8 * i) \<noteq> private_frame lay k"
proof -
  have "(of_nat m :: u64) AND 0xfff = of_nat m" if "m < 4096" for m
    using that by (simp add: page_offset unsigned_of_nat take_bit_nat_eq_self)
  from this [of "8 * i"] have f: "page_frame (lay_shared lay)" "(of_nat (8 * i) :: u64) AND 0xfff = of_nat (8 * i)"
    using lay_frames(7) [OF assms(1), of 0] assms(2) by simp_all
  show "lay_shared lay OR of_nat (8 * i) \<noteq> lay_shared lay OR of_nat (8 * j)" if "i \<noteq> j"
  proof
    assume "lay_shared lay OR of_nat (8 * i) = lay_shared lay OR of_nat (8 * j)"
    then have "(of_nat (8 * i) :: u64) = of_nat (8 * j)"
      using frame_or_add [OF f(1), of "8 * i"] frame_or_add [OF f(1), of "8 * j"] assms by (simp del: of_nat_mult)
    then have "unat (of_nat (8 * i) :: u64) = unat (of_nat (8 * j) :: u64)" by (rule arg_cong)
    moreover have "unat (of_nat m :: u64) = m" if "m < 4096" for m using that by (simp add: unat_of_nat)
    ultimately show False using assms that by (simp del: of_nat_mult)
  qed
  show "lay_shared lay OR of_nat (8 * i) \<noteq> private_frame lay k" if k: "k < 3"
  proof
    assume e: "lay_shared lay OR of_nat (8 * i) = private_frame lay k"
    have z: "(0 :: u64) AND 0xfff = 0" by simp
    have "private_frame lay k AND ADDR_MASK = private_frame lay k"
      using frame_offset [OF lay_frames(5) [OF assms(1) k], of 0] by (simp only: z or.right_neutral)
    moreover have "(lay_shared lay OR of_nat (8 * i)) AND ADDR_MASK = lay_shared lay" using frame_offset [OF f(1), of "of_nat (8 * i)"] by (simp only: f(2))
    ultimately have p: "private_frame lay k = lay_shared lay" using e by simp
    define l where "l = (if k = 0 then 1 else 0 :: nat)"
    have l: "l < 3" "k \<noteq> l" "(lay_shared lay, True, False) \<in> set (el0_rights lay l)" by (auto simp: l_def el0_rights_def)
    show False using rights_apart(1) [OF assms(1) l(1,3) k l(2)] p by simp
  qed
qed

lemma benching_ran:
  assumes b: "benching pl el cs n W h" and r: "ran pl el d s h h'" and m: "only_changes {private_frame (pl_layout pl) k, private_frame (pl_layout pl) j} h h'" "k < 3" "j < 3"
  shows "benching pl el cs n W h'"
proof -
  note f = benching_facts [OF b]
  have "ew_mem h' (lay_shared (pl_layout pl) OR of_nat (8 * i)) = ew_mem h (lay_shared (pl_layout pl) OR of_nat (8 * i))" if "i < 4" for i
    using m shared_words_apart(2) [OF platform_facts(1) [OF f(1)] that that] by (simp add: only_changes_def)
  then show ?thesis using b r by (simp add: benching_def ran_def keeps_defs)
qed

lemma benching_say [simp]: "benching pl el cs n W (say ps h) = benching pl el cs n W h"
  by (simp add: benching_def) (simp add: say_def)

lemma benching_empty: "benching pl el cs n W h \<Longrightarrow> benching pl el cs n Map.empty h"
  by (simp add: benching_def)

lemma benching_flags:
  assumes "benching pl el cs n W h"
  shows "benching pl el cs n W (on_trap (lettuce_pac_enable b) h)" "benching pl el cs n W (on_trap (lettuce_elevator_set_use_asm b) h)"
  using assms keeps_flag [OF benching_facts(4) [OF assms], of b]
  by (simp_all add: benching_def keeps_defs) (simp_all add: on_trap_def lettuce_pac_enable_def lettuce_elevator_set_use_asm_def)

lemma benching_store:
  assumes b: "benching pl el cs n W h" and i: "i < 4"
  shows "\<exists>h'. shared_word pl i c h = Some h' \<and> benching pl el cs n (W(i \<mapsto> c)) h'"
proof -
  note f = benching_facts [OF b]
  define h' where "h' = h\<lparr>ew_mem := (ew_mem h)(lay_shared (pl_layout pl) OR of_nat (8 * i) := ucast c)\<rparr>"
  have "shared_word pl i c h = Some h'" using shared_word_store [OF f(1) f(4), of i c] i by (simp add: h'_def)
  moreover have "harness_ok pl el h'" using keeps_ok keeps_mem f(4) unfolding h'_def by blast
  then have "benching pl el cs n (W(i \<mapsto> c)) h'"
    using b i shared_words_apart(1) [OF platform_facts(1) [OF f(1)]] by (simp add: benching_def) (simp add: h'_def)
  ultimately show ?thesis by blast
qed

lemma on_mmu_twice: "on_trap (on_mmu f) (on_trap (on_mmu g) h) = on_trap (on_mmu (\<lambda>m. f (g m))) h"
  by (simp add: on_trap_def on_mmu_def)

lemma harness_enter:
  assumes "harness_ok pl el h"
  shows "harness_ok pl el (on_trap (on_mmu (\<lambda>mmu. snd (lettuce_mmu_enter d mmu))) h)"
proof -
  let ?m = "(tr_machine (ew_trap h))\<lparr>mc_mmu := snd (lettuce_mmu_enter d (ew_mmu h))\<rparr>"
  have "world_ok (pl_layout pl) el ((ew_trap h)\<lparr>tr_machine := ?m\<rparr>)" using assms machine_world [of _ el "ew_trap h" ?m] by (auto simp: harness_ok_def)
  then show ?thesis using assms by (simp add: harness_ok_def on_trap_def on_mmu_def)
qed

section \<open>The system calls of case K\<close>

lemma symbol_bench: "el0_service_va (image_symbols s) (task_bench_syscall (image_symbols s)) = code_at 21 0"
  by (simp add: el0_service_va_def image_symbols_def code_at_def Let_def)

lemma enter_bench_syscall:
  assumes pl: "platform_ok pl" and w: "ready_in pl el k w"
  shows "\<exists>io. lettuce_el0_enter pl (code_at 21 0) sp w = Some (0, w\<lparr>ew_trap := (ew_trap w)\<lparr>tr_posix := (tr_posix (ew_trap w))\<lparr>ps_io := io\<rparr>\<rparr>\<rparr>)"
proof -
  let ?st = "ew_trap w" and ?ps = "tr_posix (ew_trap w)" and ?lk = "pl_link pl (ew_trap w)"
  let ?pid = "lettuce_kernel_sys_getpid (ps_tasks (mc_policy (tr_machine ?st)))"
  define upd where "upd io = w\<lparr>ew_trap := ?st\<lparr>tr_posix := ?ps\<lparr>ps_io := io\<rparr>\<rparr>\<rparr>" for io
  note facts = ready_facts(2,3) [OF w] platform_facts [OF pl]
  let ?x1 = "(pl_regs pl ?st)[0 := code_at 21 0, 1 := sp, 8 := 4]"
  let ?x2 = "?x1[0 := ?pid, 0 := 1, 1 := 0x411c0040, 8 := 5]"
  obtain r io where g: "lettuce_kernel_sys_clock_gettime 1 0x411c0040 (pl_counter pl) (pl_freq pl) ?ps = (r, ?ps\<lparr>ps_io := io\<rparr>)"
    by (cases "pl_freq pl = 0"; cases ?ps) (simp_all add: lettuce_kernel_sys_clock_gettime_def in_kernel_range_def)
  have d: "in_domain (pl_layout pl) el k (ew_mmu (upd io))" "ew_trap (upd io) = ?st\<lparr>tr_posix := ?ps\<lparr>ps_io := io\<rparr>\<rparr>" for io
    using facts by (simp_all add: upd_def)
  note run = enter_simps loop_service [where el = el and k = k] service_text_nth task_bench_syscall_code_def run_simps(1-5,7,8) svc_continue_def [symmetric]
  have 1: "lettuce_el0_enter pl (code_at 21 0) sp w =
      svc_continue pl 5 \<lparr>tf_x = ?x1, tf_lr = ?lk, tf_elr = code_at 21 2, tf_spsr = 0, tf_sp_el0 = sp\<rparr> w"
    using facts by (simp add: run del: One_nat_def)
  have 2: "svc_continue pl 5 \<lparr>tf_x = ?x1, tf_lr = ?lk, tf_elr = code_at 21 2, tf_spsr = 0, tf_sp_el0 = sp\<rparr> w =
      el0_loop pl \<lparr>tf_x = ?x1[0 := ?pid], tf_lr = ?lk, tf_elr = code_at 21 2, tf_spsr = 0, tf_sp_el0 = sp\<rparr> w"
    using continue_syscall [of pl "\<lparr>tf_x = ?x1, tf_lr = ?lk, tf_elr = code_at 21 2, tf_spsr = 0, tf_sp_el0 = sp\<rparr>" w] facts
    by (simp add: svc_syscall_def set_x0_def Let_def del: One_nat_def)
  have 3: "el0_loop pl \<lparr>tf_x = ?x1[0 := ?pid], tf_lr = ?lk, tf_elr = code_at 21 2, tf_spsr = 0, tf_sp_el0 = sp\<rparr> w =
      svc_continue pl 5 \<lparr>tf_x = ?x2, tf_lr = ?lk, tf_elr = code_at 21 6, tf_spsr = 0, tf_sp_el0 = sp\<rparr> w"
    using facts by (simp add: run del: One_nat_def)
  have 4: "svc_continue pl 5 \<lparr>tf_x = ?x2, tf_lr = ?lk, tf_elr = code_at 21 6, tf_spsr = 0, tf_sp_el0 = sp\<rparr> w =
      el0_loop pl \<lparr>tf_x = ?x2[0 := r], tf_lr = ?lk, tf_elr = code_at 21 6, tf_spsr = 0, tf_sp_el0 = sp\<rparr> (upd io)"
    unfolding upd_def by (rule continue_syscall) (use g facts in \<open>simp add: svc_syscall_def set_x0_def Let_def del: One_nat_def\<close>)
  have 5: "el0_loop pl \<lparr>tf_x = ?x2[0 := r], tf_lr = ?lk, tf_elr = code_at 21 6, tf_spsr = 0, tf_sp_el0 = sp\<rparr> (upd io) = Some (0, upd io)"
    using facts d by (simp add: run del: One_nat_def)
  show ?thesis using 1 2 3 4 5 by (auto simp: upd_def)
qed

section \<open>Every case ends\<close>

interpretation direct: bench_step call_direct "benching pl el cs n W" for pl el cs n W
  by unfold_locales (simp add: call_direct_def)

interpretation check: bench_step "call_check c" "benching pl el cs n W" for c pl el cs n W
  by unfold_locales (simp add: call_check_def)

interpretation switch: bench_step "call_enter_leave d" "benching pl el cs n W" for d pl el cs n W
proof
  fix h
  assume b: "benching pl el cs n W h"
  let ?saved = "fst (lettuce_mmu_enter d (ew_mmu h))"
  define h' where "h' = on_trap (on_mmu (\<lambda>mmu. snd (lettuce_mmu_enter ?saved mmu))) (on_trap (on_mmu (\<lambda>mmu. snd (lettuce_mmu_enter d mmu))) h)"
  have "call_enter_leave d h = Some h'"
    by (simp add: call_enter_leave_def h'_def lettuce_mmu_leave_def on_trap_def on_mmu_def split: prod.split)
  moreover have "harness_ok pl el h'" unfolding h'_def using harness_enter benching_facts(3) [OF b] by blast
  then have "benching pl el cs n W h'" using b by (simp add: benching_def) (simp add: h'_def on_trap_def on_mmu_def)
  ultimately show "\<exists>h'. call_enter_leave d h = Some h' \<and> benching pl el cs n W h'" by blast
qed

interpretation minimal: bench_step "call_service pl (svc_minimal_return_entry (el0_syms pl))" "benching pl el cs n Map.empty" for pl el cs n
proof
  fix h
  assume b: "benching pl el cs n Map.empty h"
  obtain h' where "run_camera pl (svc_minimal_return_entry (el0_syms pl)) h = Some (0, h')" "ran pl el DOMAIN_A SERVICE_CAMERA h h'"
    using run_minimal [OF benching_facts(1,4) [OF b] domain_numbers(1)] by blast
  then show "\<exists>h'. call_service pl (svc_minimal_return_entry (el0_syms pl)) h = Some h' \<and> benching pl el cs n Map.empty h'"
    using b by (auto simp: call_service_def benching_def ran_def keeps_defs)
qed

interpretation syscalls: bench_step "call_service pl (task_bench_syscall (el0_syms pl))" "benching pl el cs n Map.empty" for pl el cs n
proof
  fix h
  assume b: "benching pl el cs n Map.empty h"
  let ?w = "entering DOMAIN_A SERVICE_CAMERA h"
  note e = entering_ran [OF benching_facts(4) [OF b] domain_numbers(1), of SERVICE_CAMERA]
  obtain io where io: "lettuce_el0_enter pl (code_at 21 0) (lettuce_arch_domain_stack_top DOMAIN_A) ?w =
      Some (0, ?w\<lparr>ew_trap := (ew_trap ?w)\<lparr>tr_posix := (tr_posix (ew_trap ?w))\<lparr>ps_io := io\<rparr>\<rparr>\<rparr>)"
    using enter_bench_syscall [OF benching_facts(1) [OF b] e(1)] by blast
  define h' where "h' = ?w\<lparr>ew_trap := (ew_trap ?w)\<lparr>tr_posix := (tr_posix (ew_trap ?w))\<lparr>ps_io := io\<rparr>\<rparr>\<rparr>"
  have "keeps pl el h h'" using ran_keeps [OF e(2)] by (simp add: h'_def)
  then have "benching pl el cs n Map.empty h'" using b by (simp add: benching_def keeps_defs)
  then show "\<exists>h'. call_service pl (task_bench_syscall (el0_syms pl)) h = Some h' \<and> benching pl el cs n Map.empty h'"
    using io by (simp add: call_service_def run_entering symbol_bench h'_def)
qed

text \<open>Protected calls: the word that holds the handle survives the calls, so that the next one is authorised again.\<close>

lemma call_service_ran:
  assumes "benching pl el cs n W h" "j < 3" "\<exists>h'. run_camera pl symbol h = Some (0, h') \<and> ran pl el DOMAIN_A SERVICE_CAMERA h h' \<and>
    only_changes {private_frame (pl_layout pl) 0, private_frame (pl_layout pl) j} h h'"
  shows "\<exists>h'. call_service pl symbol h = Some h' \<and> benching pl el cs n W h'"
  using assms(3) benching_ran [OF assms(1) _ _ _ assms(2)] by (auto simp: call_service_def)

interpretation display: bench_step "call_service pl (svc_camera_call_display (el0_syms pl))"
  "\<lambda>h. benching pl el cs n W h \<and> W 0 = Some c \<and> check_call cs c SERVICE_DISPLAY LETTUCE_CAP_CALL RES_FRAMEBUFFER" for pl el cs n W c
proof
  fix h
  assume b: "benching pl el cs n W h \<and> W 0 = Some c \<and> check_call cs c SERVICE_DISPLAY LETTUCE_CAP_CALL RES_FRAMEBUFFER"
  note f = benching_facts [OF conjunct1 [OF b]]
  have "ew_mem h (lay_shared (pl_layout pl)) = ucast c" using f(7) [of 0 c] b by simp
  note run = run_display_call(1) [OF f(1,4) f(2) this]
  show "\<exists>h'. call_service pl (svc_camera_call_display (el0_syms pl)) h = Some h' \<and>
      benching pl el cs n W h' \<and> W 0 = Some c \<and> check_call cs c SERVICE_DISPLAY LETTUCE_CAP_CALL RES_FRAMEBUFFER"
    using call_service_ran [OF conjunct1 [OF b] _ run] b f(5) by auto
qed

interpretation sensor: bench_step "call_service pl (svc_camera_cross_layer_call (el0_syms pl))"
  "\<lambda>h. benching pl el cs n W h \<and> W 2 = Some c \<and> check_call cs c SERVICE_SENSOR LETTUCE_CAP_CALL RES_DISK" for pl el cs n W c
proof
  fix h
  assume b: "benching pl el cs n W h \<and> W 2 = Some c \<and> check_call cs c SERVICE_SENSOR LETTUCE_CAP_CALL RES_DISK"
  note f = benching_facts [OF conjunct1 [OF b]]
  have "ew_mem h (lay_shared (pl_layout pl) OR 16) = ucast c" using f(7) [of 2 c] b by simp
  note run = run_sensor_call(1) [OF f(1,4) f(2) this]
  show "\<exists>h'. call_service pl (svc_camera_cross_layer_call (el0_syms pl)) h = Some h' \<and>
      benching pl el cs n W h' \<and> W 2 = Some c \<and> check_call cs c SERVICE_SENSOR LETTUCE_CAP_CALL RES_DISK"
    using call_service_ran [OF conjunct1 [OF b] _ run] b f(5) by auto
qed

interpretation elevator: bench_step "call_service pl (svc_camera_elevator_call (el0_syms pl))"
  "\<lambda>h. benching pl el cs n W h \<and> W 3 = Some c \<and> check_call cs c SERVICE_SENSOR (LETTUCE_CAP_CALL OR LETTUCE_CAP_CRITICAL) RES_DISK" for pl el cs n W c
proof
  fix h
  assume b: "benching pl el cs n W h \<and> W 3 = Some c \<and> check_call cs c SERVICE_SENSOR (LETTUCE_CAP_CALL OR LETTUCE_CAP_CRITICAL) RES_DISK"
  note f = benching_facts [OF conjunct1 [OF b]]
  have "ew_mem h (lay_shared (pl_layout pl) OR 24) = ucast c" using f(7) [of 3 c] b by simp
  note run = run_sensor_call(2) [OF f(1,4) f(2) this]
  show "\<exists>h'. call_service pl (svc_camera_elevator_call (el0_syms pl)) h = Some h' \<and>
      benching pl el cs n W h' \<and> W 3 = Some c \<and> check_call cs c SERVICE_SENSOR (LETTUCE_CAP_CALL OR LETTUCE_CAP_CRITICAL) RES_DISK"
    using call_service_ran [OF conjunct1 [OF b] _ run] b f(5) by auto
qed

section \<open>The reports and the whole\<close>

lemma report_ends:
  assumes "benching pl el cs n W h" "length samples = BENCH_SAMPLES"
  shows "\<exists>h'. print_bench_stats name samples freq h = Some (sort samples, h') \<and> benching pl el cs n W h'"
  using assms(1) by (simp add: print_bench_stats_def sort_samples_sorts [OF assms(2)] Let_def print_bench_line_def)

lemma reports_end:
  "benching pl el cs n W h \<Longrightarrow> \<forall>r \<in> set reports. length (snd r) = BENCH_SAMPLES \<Longrightarrow>
   \<exists>h'. print_reports freq reports h = Some h' \<and> benching pl el cs n W h'"
proof (induction reports arbitrary: h)
  case (Cons r reports)
  obtain h1 where "print_bench_stats (fst r) (snd r) freq h = Some (sort (snd r), h1)" "benching pl el cs n W h1"
    using report_ends [OF Cons.prems(1), of "snd r" "fst r" freq] Cons.prems(2) by auto
  then show ?case using Cons.IH [of h1] Cons.prems(2) by simp
qed simp

lemma samples_read_length [simp]: "length (samples_read clock reading n) = n"
  by (simp add: samples_read_def)

text \<open>The cases without preparation.\<close>

lemma plain_cases:
  assumes b: "benching pl el cs n W h"
  shows "\<exists>h'. bench_a clock h = Some (samples_read clock 0 BENCH_SAMPLES, h') \<and> benching pl el cs n W h'"
    "\<exists>h'. bench_b clock c h = Some (samples_read clock 100 BENCH_SAMPLES, h') \<and> benching pl el cs n W h'"
    "\<exists>h'. bench_c pl clock h = Some (samples_read clock 200 BENCH_SAMPLES, h') \<and> benching pl el cs n Map.empty h'"
    "\<exists>h'. bench_d clock h = Some (samples_read clock 300 BENCH_SAMPLES, h') \<and> benching pl el cs n W h'"
    "\<exists>h'. bench_e clock h = Some (samples_read clock 400 BENCH_SAMPLES, h') \<and> benching pl el cs n W h'"
    "\<exists>h'. bench_k pl clock h = Some (samples_read clock 1000 BENCH_SAMPLES, h') \<and> benching pl el cs n Map.empty h'"
  using direct.case_ends [OF b, of clock 0] check.case_ends [OF b, of clock 100 c] minimal.case_ends [OF benching_empty [OF b], of clock 200]
    switch.case_ends [OF b, of clock 300 DOMAIN_A] switch.case_ends [OF b, of clock 400 DOMAIN_B] syscalls.case_ends [OF benching_empty [OF b], of clock 1000]
  by (simp_all add: bench_a_def bench_b_def bench_c_def bench_d_def bench_e_def bench_k_def)

text \<open>The cases of protected calls: the handle is stored first, and the words stored before stay.\<close>

lemma call_cases:
  assumes b: "benching pl el cs n W h" and ok: "handles_ok cs cd cse ce"
  shows "\<exists>h'. bench_f pl clock cd h = Some (samples_read clock 500 BENCH_SAMPLES, h') \<and> benching pl el cs n (W(0 \<mapsto> cd)) h'"
    "\<exists>h'. bench_g pl clock cse h = Some (samples_read clock 600 BENCH_SAMPLES, h') \<and> benching pl el cs n (W(2 \<mapsto> cse)) h'"
    "\<exists>h'. bench_h pl clock ce h = Some (samples_read clock 700 BENCH_SAMPLES, h') \<and> benching pl el cs n (W(3 \<mapsto> ce)) h'"
    "W 0 = Some cd \<Longrightarrow> \<exists>h'. bench_i pl clock h = Some (samples_read clock 800 BENCH_SAMPLES, h') \<and> benching pl el cs n W h'"
    "\<exists>h'. bench_j pl clock ce h = Some (samples_read clock 900 BENCH_SAMPLES, h') \<and> benching pl el cs n (W(3 \<mapsto> ce)) h'"
proof -
  have reg: "register_entry pl SERVICE_DISPLAY OP_DRAW symbol h = h" for symbol
    by (rule register_entry_refused [OF benching_facts(4) [OF b]]) simp
  note ok = ok [unfolded handles_ok_def] and fl = benching_flags [OF b]
  obtain h1 where h1: "shared_word pl 0 cd h = Some h1" "benching pl el cs n (W(0 \<mapsto> cd)) h1" using benching_store [OF b, of 0] by auto
  show "\<exists>h'. bench_f pl clock cd h = Some (samples_read clock 500 BENCH_SAMPLES, h') \<and> benching pl el cs n (W(0 \<mapsto> cd)) h'"
    using display.case_ends [of pl el cs n "W(0 \<mapsto> cd)" h1 cd clock 500] h1 ok by (auto simp: bench_f_def reg)
  obtain h2 where h2: "shared_word pl 2 cse h = Some h2" "benching pl el cs n (W(2 \<mapsto> cse)) h2" using benching_store [OF b, of 2] by auto
  show "\<exists>h'. bench_g pl clock cse h = Some (samples_read clock 600 BENCH_SAMPLES, h') \<and> benching pl el cs n (W(2 \<mapsto> cse)) h'"
    using sensor.case_ends [of pl el cs n "W(2 \<mapsto> cse)" h2 cse clock 600] h2 ok by (auto simp: bench_g_def)
  have elev: "\<exists>h'. do { h \<leftarrow> shared_word pl 3 ce (on_trap (lettuce_elevator_set_use_asm a) h);
        bench_case clock r (call_service pl (svc_camera_elevator_call (el0_syms pl))) h } = Some (samples_read clock r BENCH_SAMPLES, h') \<and>
      benching pl el cs n (W(3 \<mapsto> ce)) h'" for a r
  proof -
    obtain h3 where h3: "shared_word pl 3 ce (on_trap (lettuce_elevator_set_use_asm a) h) = Some h3" "benching pl el cs n (W(3 \<mapsto> ce)) h3"
      using benching_store [OF fl(2), of 3] by auto
    then show ?thesis using elevator.case_ends [of pl el cs n "W(3 \<mapsto> ce)" h3 ce clock r] ok by auto
  qed
  show "\<exists>h'. bench_h pl clock ce h = Some (samples_read clock 700 BENCH_SAMPLES, h') \<and> benching pl el cs n (W(3 \<mapsto> ce)) h'"
    "\<exists>h'. bench_j pl clock ce h = Some (samples_read clock 900 BENCH_SAMPLES, h') \<and> benching pl el cs n (W(3 \<mapsto> ce)) h'"
    using elev by (simp_all add: bench_h_def bench_j_def)
  assume "W 0 = Some cd"
  then obtain h4 where "bench_case clock 800 (call_service pl (svc_camera_call_display (el0_syms pl))) (on_trap (lettuce_pac_enable True) h) =
      Some (samples_read clock 800 BENCH_SAMPLES, h4)" "benching pl el cs n W h4"
    using display.case_ends [of pl el cs n W "on_trap (lettuce_pac_enable True) h" cd clock 800] fl ok by auto
  then show "\<exists>h'. bench_i pl clock h = Some (samples_read clock 800 BENCH_SAMPLES, h') \<and> benching pl el cs n W h'"
    using benching_flags(1) [of pl el cs n W h4 False] by (simp add: bench_i_def)
qed

lemma microbenchmarks_end:
  assumes b: "benching pl el cs n W h" and ok: "handles_ok cs cd cse ce"
  shows "\<exists>h'. microbenchmarks pl clock cd cse ce h = Some h' \<and> benching pl el cs n Map.empty h'"
proof -
  let ?s = "\<lambda>r. samples_read clock r BENCH_SAMPLES" and ?b = "benching pl el cs n"
  obtain h1 where 1: "bench_a clock (say [puts ''\<newline>--- ARM64 Statistical Microbenchmarks ---\<newline>''] h) = Some (?s 0, h1)" "?b W h1"
    using plain_cases(1) [of pl el cs n W "say _ h"] b by (metis benching_say)
  obtain h2 where 2: "bench_b clock cd h1 = Some (?s 100, h2)" "?b W h2" using plain_cases(2) [OF 1(2)] by blast
  obtain h3 where 3: "bench_c pl clock h2 = Some (?s 200, h3)" "?b Map.empty h3" using plain_cases(3) [OF 2(2)] by blast
  obtain h4 where 4: "bench_d clock h3 = Some (?s 300, h4)" "?b Map.empty h4" using plain_cases(4) [OF 3(2)] by blast
  obtain h5 where 5: "bench_e clock h4 = Some (?s 400, h5)" "?b Map.empty h5" using plain_cases(5) [OF 4(2)] by blast
  obtain h6 where 6: "bench_f pl clock cd h5 = Some (?s 500, h6)" "?b [0 \<mapsto> cd] h6" using call_cases(1) [OF 5(2) ok] by blast
  obtain h7 where 7: "bench_g pl clock cse h6 = Some (?s 600, h7)" "?b [0 \<mapsto> cd, 2 \<mapsto> cse] h7" using call_cases(2) [OF 6(2) ok] by blast
  obtain h8 where 8: "bench_h pl clock ce h7 = Some (?s 700, h8)" "?b [0 \<mapsto> cd, 2 \<mapsto> cse, 3 \<mapsto> ce] h8" using call_cases(3) [OF 7(2) ok] by blast
  obtain h9 where 9: "bench_i pl clock h8 = Some (?s 800, h9)" "?b [0 \<mapsto> cd, 2 \<mapsto> cse, 3 \<mapsto> ce] h9" using call_cases(4) [OF 8(2) ok] by auto
  obtain h10 where 10: "bench_j pl clock ce h9 = Some (?s 900, h10)" "?b [0 \<mapsto> cd, 2 \<mapsto> cse, 3 \<mapsto> ce, 3 \<mapsto> ce] h10" using call_cases(5) [OF 9(2) ok] by blast
  obtain h11 where 11: "bench_k pl clock h10 = Some (?s 1000, h11)" "?b Map.empty h11" using plain_cases(6) [OF 10(2)] by blast
  define reports where "reports = [(''Case A: Direct EL1 Baseline'', ?s 0), (''Case B: Independent Capability Check'', ?s 100),
    (''Case C: EL1 -> EL0 -> SVC -> EL1 Roundtrip'', ?s 200), (''Case D: Same-Domain Fast Path'', ?s 300), (''Case E: Cross-Domain MMU Switch Pair'', ?s 400),
    (''Case F: Same-Layer EL0 Mediated Call'', ?s 500), (''Case G: Cross-Layer EL0 Mediated Call'', ?s 600), (''Case H: Elevator Reference Call (C Path)'', ?s 700),
    (''Case I: Same-Layer EL0 Call + PAC'', ?s 800), (''Case J: Elevator Fast Path (ASM Gate)'', ?s 900), (''Case K: POSIX-Lite Syscall Roundtrip'', ?s 1000)]"
  obtain h12 where 12: "print_reports (pl_freq pl) reports h11 = Some h12" "?b Map.empty h12"
    using reports_end [OF 11(2), of reports "pl_freq pl"] by (auto simp: reports_def)
  show ?thesis
    unfolding microbenchmarks_def Let_def 1 2 3 4 5 6 7 8 9 10 11 bind.simps prod.case reports_def [symmetric] using 12 by simp
qed

end
