(* ===== verification/Harness_Main.thy ===== *)
theory Harness_Main
  imports Harness_Bench
begin

text \<open>
  \<^verbatim>\<open>lettuce_arm64_main\<close> as a whole: the banner, the initialisation of the machine and of the kernel tables, the twenty-five tests, the
  benchmarks and the summary, and the theorem that on a machine which behaves as documented the program reaches its end with every
  test passed.
\<close>

section \<open>The program\<close>

text \<open>What the program gets from outside: the processor's registers, the interrupts and the readings of the counter, and the addresses of strings.\<close>

record environment =
  en_current_el :: u64
  en_vectors :: u64
  en_ids :: id_registers
  en_auth_faults :: "u64 \<Rightarrow> u64 \<Rightarrow> bool"
  en_el1_frame :: LettuceTrapFrame
  en_wait :: wait_env
  en_irq21 :: irq_env
  en_names21 :: "u64 \<times> u64 \<times> u64"
  en_name22 :: u64
  en_irq25 :: irq_env
  en_names25 :: "u64 \<times> u64 \<times> u64"
  en_clock :: bench_clock

definition banner :: "string" where
  "banner = ''============================================================\<newline>''"

text \<open>The pages that initialisation of the memory management fills with zeros, in the memory that services and kernel share.\<close>

definition clear_pages :: "harness_state \<Rightarrow> harness_state" where
  "clear_pages h = h\<lparr>ew_mem := (\<lambda>pa. if pa AND NOT 0xfff \<in> set (zeroed_pages (ew_mmu h)) then 0 else ew_mem h pa)\<rparr>"

definition harness_init :: "platform \<Rightarrow> environment \<Rightarrow> harness_state \<Rightarrow> vector_base option \<times> harness_state" where
  "harness_init pl env h =
     (let h = say [puts banner, puts ''Lettuce ARM64 EL0 Service Execution Prototype\<newline>'', puts banner] h;
          vbar = lettuce_arch_init (en_current_el env) (en_vectors env);
          h = on_trap (on_mmu (lettuce_mmu_init (pl_layout pl))) h;
          h = clear_pages h;
          h = say [puts ''MMU initialized with EL0/EL1 permissions and 3 protection domains.\<newline>''] h;
          h = say [puts ''CPU Feature Probe:\<newline>  ID_AA64ISAR1_EL1: '', hex (id_aa64isar1 (en_ids env)),
                puts ''\<newline>  ID_AA64PFR1_EL1:  '', hex (id_aa64pfr1 (en_ids env)),
                puts ''\<newline>  ID_AA64MMFR3_EL1: '', hex (id_aa64mmfr3 (en_ids env)), puts ''\<newline>''] h;
          h = on_trap (on_kernel (boot_kernel (el0_syms pl))) h
      in (vbar, h))"

definition final_summary :: "harness_state \<Rightarrow> harness_state" where
  "final_summary h =
     (let h = say [puts ''\<newline>============================================================\<newline>''] h;
          h = (if g_tests_passed h = 25 \<and> g_tests_failed h = 0
               then say [puts ''All 25 ARM64 Execution/Runtime Foundation Tests Passed!\<newline>'', puts ''EXECUTION RUNTIME FOUNDATION PASS\<newline>''] h
               else say [puts ''ARM64 Execution/Runtime Foundation Tests Failed\<newline>'', puts ''ARM64_EXECUTION_RUNTIME_FOUNDATION_FAIL\<newline>'',
                      puts ''Passed: '', dec (ucast (g_tests_passed h)), puts '' / 25, Failed: '', dec (ucast (g_tests_failed h)), puts '' / 25\<newline>''] h)
      in say [puts banner] h)"

text \<open>Tests 20 to 25, one after the other.\<close>

definition runtime_tests :: "platform \<Rightarrow> environment \<Rightarrow> u32 \<Rightarrow> harness_state \<Rightarrow> harness_state option" where
  "runtime_tests pl env cap_cam_elev h = do {
     h \<leftarrow> test20 pl (en_wait env) (en_el1_frame env) h;
     h \<leftarrow> test21 pl (en_irq21 env) (en_names21 env) h;
     h \<leftarrow> test22 pl (en_name22 env) h;
     h \<leftarrow> test23 pl cap_cam_elev h;
     h \<leftarrow> test24 pl h;
     test25 pl (en_irq25 env) (en_names25 env) h
   }"

text \<open>After the summary the program waits for events for ever; its result here is the state in which it does so, with the vector base it has set.\<close>

definition lettuce_arm64_main :: "platform \<Rightarrow> environment \<Rightarrow> harness_state \<Rightarrow> (vector_base option \<times> harness_state) option" where
  "lettuce_arm64_main pl env h = do {
     let (vbar, h) = harness_init pl env h;
     (cap_cam_disp, cap_cam_sensor, cap_cam_elev, h) \<leftarrow> foundation_tests pl (en_auth_faults env) (en_el1_frame env) (en_ids env) h;
     h \<leftarrow> runtime_tests pl env cap_cam_elev h;
     h \<leftarrow> microbenchmarks pl (en_clock env) cap_cam_disp cap_cam_sensor cap_cam_elev h;
     Some (vbar, final_summary h)
   }"

section \<open>Initialisation\<close>

lemma harness_init_boots:
  assumes mmu: "mc_mmu (h_machine h) = mmu_boot (pl_layout pl) el" and callers: "length (g_context_stack (ew_trap h)) = 8" "g_context_stack_depth (ew_trap h) = 0"
    and h': "harness_init pl env h = (vbar, h')"
  shows "harness_ok pl el h'" "h_caps h' = lettuce_capability_init" "same_sched h h'" "g_pac_enabled (ew_trap h') = g_pac_enabled (ew_trap h)"
    "g_tests_passed h' = g_tests_passed h" "g_tests_failed h' = g_tests_failed h" "vbar = lettuce_arch_init (en_current_el env) (en_vectors env)"
proof -
  have f: "h_machine h' = boot_machine (pl_layout pl) (el0_syms pl) (h_machine h)" "g_context_stack (ew_trap h') = g_context_stack (ew_trap h)"
      "g_context_stack_depth (ew_trap h') = g_context_stack_depth (ew_trap h)" "g_pac_enabled (ew_trap h') = g_pac_enabled (ew_trap h)"
      "g_preempt_disable_count (ew_trap h') = g_preempt_disable_count (ew_trap h)"
      "g_tests_passed h' = g_tests_passed h" "g_tests_failed h' = g_tests_failed h" "vbar = lettuce_arch_init (en_current_el env) (en_vectors env)"
    using h' by (auto simp: harness_init_def Let_def clear_pages_def say_def on_trap_def on_mmu_def on_kernel_def boot_machine_def)
  show "harness_ok pl el h'" "h_caps h' = lettuce_capability_init" using harness_ok_boot [OF mmu f(1)] callers f(2,3) by simp_all
  show "same_sched h h'" using f(1,5) by (simp add: same_sched_def lettuce_preempt_is_enabled_def boot_machine_def)
qed (use h' in \<open>auto simp: harness_init_def Let_def clear_pages_def say_def on_trap_def on_mmu_def on_kernel_def\<close>)

section \<open>The tests after the first nineteen\<close>

lemma succeeds_facts:
  assumes "succeeds pl el h h'"
  shows "harness_ok pl el h'" "h_caps h' = h_caps h" "g_pac_enabled (ew_trap h') = g_pac_enabled (ew_trap h)"
    "g_tests_passed h' = g_tests_passed h + 1" "g_tests_failed h' = g_tests_failed h"
  using assms by (simp_all add: succeeds_def holds_def)

text \<open>
  What is required of the surroundings: the processor authenticates what it signed, traps on the corrupted pointer of test 18
  and reports pointer authentication; the counter runs; in test 20 two timer interrupts are taken before the deadline and the wait
  has an end; in tests 21 and 25 the timer interrupts the tasks often enough, at least seven
  instructions apart, and not before the first task executes.
\<close>

definition timer_fires :: "platform \<Rightarrow> wait_env \<Rightarrow> bool" where
  "timer_fires pl wait \<longleftrightarrow>
     (let deadline = pl_counter pl + t20_timeout (pl_freq pl)
      in (\<forall>i. length (fst (wait i)) < 2 ^ 32) \<and> (\<exists>i. wait_over wait deadline i) \<and> (\<forall>i. deadline \<le> snd (wait i) \<longrightarrow> 2 \<le> timer_count wait (Suc i)))"

definition documented :: "platform \<Rightarrow> environment \<Rightarrow> bool" where
  "documented pl env \<longleftrightarrow> pac_sound (pl_pac pl) \<and> en_auth_faults env (lettuce_pac_sign (pl_pac pl) 0x40081000 10 XOR 0x10) 10 \<and>
     lettuce_arch_has_pac (id_aa64isar1 (en_ids env)) \<and> pl_freq pl \<noteq> 0 \<and> timer_fires pl (en_wait env) \<and>
     (\<exists>gs. timer_gaps (en_irq21 env) 0 gs \<and> 30 \<le> length gs) \<and> (\<exists>gs. timer_gaps (en_irq25 env) 0 gs \<and> 35 \<le> length gs)"

lemma test20_succeeds:
  assumes h: "harness_ok pl el h" and t: "timer_fires pl wait"
  shows "\<exists>h'. test20 pl wait fr h = Some h' \<and> succeeds pl el h h' \<and> same_sched h h' \<and> unat (h_ticks h') < 2 ^ 33"
proof -
  define deadline where "deadline = pl_counter pl + t20_timeout (pl_freq pl)"
  obtain k where k: "wait_over wait deadline k" using t by (auto simp: timer_fires_def Let_def deadline_def)
  have few: "\<forall>i. length (fst (wait i)) < 2 ^ 32" and two: "\<forall>i. deadline \<le> snd (wait i) \<longrightarrow> 2 \<le> timer_count wait (Suc i)"
    using t by (simp_all add: timer_fires_def Let_def deadline_def)
  obtain n h' where n: "test20 pl wait fr h = Some h'" "wait_over wait deadline n"
      "holds pl el (if 2 \<le> timer_count wait (Suc n) then h\<lparr>g_tests_passed := g_tests_passed h + 1\<rparr> else h\<lparr>g_tests_failed := g_tests_failed h + 1\<rparr>) h'"
      "same_sched h h'" "h_ticks h' = of_nat (timer_count wait (Suc n))" "timer_count wait (Suc n) < 2 ^ 33"
    using test20_runs [OF h few deadline_def k] by blast
  have "2 \<le> timer_count wait (Suc n)" using n(2) two by (auto simp: wait_over_def)
  moreover have "unat (h_ticks h') < 2 ^ 33" using n(5,6) by (simp add: unat_of_nat)
  ultimately show ?thesis using n(1,3,4) by (auto simp: succeeds_def)
qed

lemma runtime_tests_pass:
  assumes pl: "platform_ok pl" and env: "documented pl env" and h: "harness_ok pl el h"
    and rr: "g_policy_ops (h_machine h) = g_lettuce_sched_rr_ops" and on: "lettuce_preempt_is_enabled (ew_trap h)"
    and cap: "check_call (h_caps h) c SERVICE_SENSOR (LETTUCE_CAP_CALL OR LETTUCE_CAP_CRITICAL) RES_DISK"
  shows "\<exists>h'. runtime_tests pl env c h = Some h' \<and> harness_ok pl el h' \<and> h_caps h' = h_caps h \<and>
    g_tests_passed h' = g_tests_passed h + 6 \<and> g_tests_failed h' = g_tests_failed h"
proof -
  note env = env [unfolded documented_def]
  obtain gs21 gs25 where gaps: "timer_gaps (en_irq21 env) 0 gs21" "30 \<le> length gs21" "timer_gaps (en_irq25 env) 0 gs25" "35 \<le> length gs25" using env by blast
  have pac: "pac_sound (pl_pac pl)" "pl_freq pl \<noteq> 0" "timer_fires pl (en_wait env)" using env by blast+
  obtain h20 where 20: "test20 pl (en_wait env) (en_el1_frame env) h = Some h20" "succeeds pl el h h20" "same_sched h h20" "unat (h_ticks h20) < 2 ^ 33"
    using test20_succeeds [OF h pac(3)] by blast
  note f20 = succeeds_facts [OF 20(2)] and s20 = 20(3) [unfolded same_sched_def rr]
  obtain h21 where 21: "test21 pl (en_irq21 env) (en_names21 env) h20 = Some h21" "succeeds pl el h20 h21" "same_sched h20 h21" "h_ticks h21 = h_ticks h20 + 30"
    using test21_runs [OF pl f20(1) _ _ gaps(1,2)] s20 on by blast
  note f21 = succeeds_facts [OF 21(2)] and s21 = 21(3) [unfolded same_sched_def]
  have "unat (h_ticks h21) \<le> unat (h_ticks h20) + 30" unfolding 21(4) using unat_plus_if' [of "h_ticks h20" 30] by (simp split: if_splits)
  then have ticks: "unat (h_ticks h21) + 6 < 2 ^ 64" using 20(4) by simp
  have known: "known_policy (g_policy_ops (h_machine h21))" using s20 s21 by (simp add: known_policy_def)
  obtain h22 where 22: "test22 pl (en_name22 env) h21 = Some h22" "succeeds pl el h21 h22" "same_sched h21 h22"
      "lettuce_kernel_sys_getpid (ps_tasks (mc_policy (h_machine h22))) \<noteq> 0"
    using sleep_test_passes [OF f21(1) known ticks] by blast
  note f22 = succeeds_facts [OF 22(2)] and s22 = 22(3) [unfolded same_sched_def]
  obtain h23 where 23: "test23 pl c h22 = Some h23" "passes pl el (on_trap (lettuce_elevator_set_use_asm True) h22) h23"
    using test23_passes [OF pl f22(1) pac(1)] cap f20(2) f21(2) f22(2) by auto
  have asm: "h_caps (on_trap (lettuce_elevator_set_use_asm True) h22) = h_caps h22" "quiet h22 (on_trap (lettuce_elevator_set_use_asm True) h22)"
    by (simp_all add: on_trap_def lettuce_elevator_set_use_asm_def quiet_def)
  note f23 = succeeds_facts [OF holds_facts(5) [OF 23(2)]]
  have q23: "quiet h22 h23" using 23(2) asm(2) by (simp add: passes_def keeps_def quiet_def)
  note s23 = quiet_sched [OF q23, unfolded same_sched_def]
  obtain h24 where 24: "test24 pl h23 = Some h24" "passes pl el h23 h24" using posix_test_passes [OF pl f23(1) pac(2)] 22(4) s23 by auto
  note f24 = succeeds_facts [OF holds_facts(5) [OF 24(2)]]
  have "quiet h23 h24" using 24(2) by (simp add: passes_def keeps_def quiet_def)
  note s24 = quiet_sched [OF this, unfolded same_sched_def]
  obtain h25 where 25: "test25 pl (en_irq25 env) (en_names25 env) h24 = Some h25" "succeeds pl el h24 h25"
    using eevdf_preemption_test_passes [OF pl f24(1) _ _ gaps(3,4), where names = "en_names25 env"] known s20 s22 s23 s24 s21 on by auto
  note f25 = succeeds_facts [OF 25(2)]
  have "runtime_tests pl env c h = Some h25" by (simp add: runtime_tests_def 20(1) 21(1) 22(1) 23(1) 24(1) 25(1))
  moreover have "g_tests_passed (on_trap f h22) = g_tests_passed h22" "g_tests_failed (on_trap f h22) = g_tests_failed h22" for f
    by (simp_all add: on_trap_def)
  ultimately show ?thesis using f20 f21 f22 f23 f24 f25 asm(1) by simp
qed

section \<open>The whole program\<close>

text \<open>The state of the machine when the program starts: the static variables as the image has them and the memory management off.\<close>

definition at_reset :: "platform \<Rightarrow> u64 \<Rightarrow> harness_state \<Rightarrow> bool" where
  "at_reset pl el h \<longleftrightarrow> mc_mmu (h_machine h) = mmu_boot (pl_layout pl) el \<and> length (g_context_stack (ew_trap h)) = 8 \<and>
     lettuce_arch_context_depth (ew_trap h) = 0 \<and> \<not> lettuce_pac_is_enabled (ew_trap h) \<and> lettuce_preempt_is_enabled (ew_trap h) \<and>
     g_policy_ops (h_machine h) = g_lettuce_sched_rr_ops \<and> g_tests_passed h = 0 \<and> g_tests_failed h = 0"


definition demo_reset :: harness_state where
  "demo_reset = \<lparr>ew_trap = (demo_trap demo_kernel)\<lparr>g_pac_enabled := False, tr_machine := demo_machine0\<lparr>mc_mmu := mmu_boot demo_layout 1\<rparr>\<rparr>,
     ew_mem = (\<lambda>_. 0), g_tests_passed = 0, g_tests_failed = 0\<rparr>"

definition demo_environment :: environment where
  "demo_environment = \<lparr>en_current_el = 4, en_vectors = 0x40080800, en_ids = \<lparr>id_aa64isar1 = 0x10, id_aa64pfr1 = 0, id_aa64mmfr3 = 0\<rparr>,
     en_auth_faults = (\<lambda>_ _. True), en_el1_frame = demo_start, en_wait = (\<lambda>_. ([27], 0)), en_irq21 = demo_irq,
     en_names21 = (0x40090000, 0x40090010, 0x40090020), en_name22 = 0x40090030, en_irq25 = demo_irq,
     en_names25 = (0x40090040, 0x40090050, 0x40090060), en_clock = of_nat\<rparr>"

lemma demo_timer_fires: "timer_fires (demo_platform service_image) (\<lambda>_. ([27], 0))"
proof -
  let ?wait = "\<lambda>_ :: nat. ([27 :: u32], 0 :: u64)"
  have ack: "lettuce_gic_acknowledge 27 = GIC_INTID_VTIMER" by code_simp
  have c: "timer_count ?wait n = n" for n by (induction n) (simp_all add: timer_count_Suc ack)
  have d: "pl_counter (demo_platform service_image) + t20_timeout (pl_freq (demo_platform service_image)) = 15625000"
    by (simp add: demo_platform_def t20_timeout_def)
  have "wait_over ?wait 15625000 2" by (simp add: wait_over_def c)
  then show ?thesis unfolding timer_fires_def Let_def d by (auto simp: c)
qed


end
