(* ===== verification/Spec2Isabelle.thy ===== *)
theory Spec2Isabelle
  imports Dynamic_Array Fixed_Alloc Shared_Buffer El1_Asm Host_Arch Harness_Main
begin

text \<open>
  Lettuce, a layered ARM64 research kernel: a verification development.

  \<^bold>\<open>The program.\<close> Services live in layers and protection domains and call each other only through the kernel.
  A call names a target service, an operation and a resource and presents a capability handle; the kernel
  checks both services, their layers, the capability and the dispatch table, switches identity and address
  space, runs the target and switches back. Three gates differ in which layers they allow and which
  permission they ask for: same-layer, cross-layer and the Elevator for critical calls. On ARM64 the same
  checks run in the exception handler for calls from EL0, next to preemptive scheduling, interrupts, aborts
  and a small POSIX layer. All tables have fixed size, and handles carry generations.

  \<^bold>\<open>Theories\<close>, from the bottom up, with the files under \<^verbatim>\<open>src/\<close> they translate:

  \<^item> \<^verbatim>\<open>Prelude\<close>: fixed-width integers, status codes (\<^verbatim>\<open>include/lettuce/errors.h\<close>, \<^verbatim>\<open>types.h\<close>), shared lemmas.
  \<^item> \<^verbatim>\<open>Handles\<close>: packing of slot and generation, the interfaces of handle codecs, of tables with generations and
    of handle stores, as locales that the components interpret.
  \<^item> \<^verbatim>\<open>Capability\<close>: \<^verbatim>\<open>kernel/main/capability.c\<close>. The table refines a map from handles to capabilities; authority is
    never forged; a revoked handle stays dead while the generation cannot have come round.
  \<^item> \<^verbatim>\<open>Registry\<close>: \<^verbatim>\<open>kernel/main/kernel.c\<close>, \<^verbatim>\<open>dispatch.c\<close>. Both tables refine maps.
  \<^item> \<^verbatim>\<open>Ipc\<close>: \<^verbatim>\<open>kernel/main/context.c\<close>, \<^verbatim>\<open>protection.c\<close>, the gates under \<^verbatim>\<open>ipc/\<close> and the wrappers under \<^verbatim>\<open>runtime/c/\<close>. The
    code of a service is a parameter. Complete mediation, restoration of identity and domain whatever the
    target does, no extra authority through the Elevator.
  \<^item> \<^verbatim>\<open>Dynamic_Array\<close>: \<^verbatim>\<open>shared/dynamic_array/\<close>, a circular buffer that implements a list; the heap is a parameter.
  \<^item> \<^verbatim>\<open>Fixed_Alloc\<close> and \<^verbatim>\<open>Shared_Buffer\<close>: \<^verbatim>\<open>memory/allocator/fixed.c\<close> and \<^verbatim>\<open>memory/shared/buffer.c\<close>. Disjointness and
    ownership of blocks, mediation of access to payloads, clearing.
  \<^item> \<^verbatim>\<open>Task\<close>, \<^verbatim>\<open>Sched_Policy\<close>, \<^verbatim>\<open>Eevdf\<close>: \<^verbatim>\<open>kernel/main/task.c\<close>, \<^verbatim>\<open>kernel/scheduler/rr.c\<close>, \<^verbatim>\<open>eevdf.c\<close>. The operations record of a
    policy is an interface both policies are proved to satisfy; round robin serves every ready task within
    sixteen decisions, EEVDF picks the earliest eligible deadline and advances virtual time in proportion.
  \<^item> \<^verbatim>\<open>Mmu\<close>: \<^verbatim>\<open>kernel/arch/arm64/mmu.c\<close>. Translation tables are lists of descriptor words at the addresses a layout
    gives; a walk reads them as the architecture does, and isolation is a statement about every virtual
    address of 39 bits. \<^verbatim>\<open>Devices\<close>: console, interrupt controller, timer and feature probes.
  \<^item> \<^verbatim>\<open>Scheduler\<close> and \<^verbatim>\<open>Sched_Events\<close>: \<^verbatim>\<open>kernel/scheduler/scheduler.c\<close>. One scheduling decision is refined to an
    inductive relation \<^verbatim>\<open>dispatch\<close> on tasks without the policies' accounting; invariants and the resumption of
    tasks are proved for arbitrary sequences of ticks, yields, sleeps, creations and terminations.
  \<^item> \<^verbatim>\<open>Posix\<close>: \<^verbatim>\<open>runtime/posix/src/\<close>, descriptors, system calls and wrappers over a byte-addressed memory.
  \<^item> \<^verbatim>\<open>Arch_Trap\<close>: \<^verbatim>\<open>kernel/arch/arm64/cpu.c\<close> and \<^verbatim>\<open>elevator.S\<close>, every handler of synchronous exceptions and
    interrupts with its console output. Calls from EL0 are mediated, a call with everything nested in it
    returns to its caller, the assembly path of the Elevator equals the C path, interrupts are ended once.
  \<^item> \<^verbatim>\<open>El0\<close>, \<^verbatim>\<open>El0_Isolation\<close>: instructions at EL0, each fetch, load and store through the tables of \<^verbatim>\<open>Mmu\<close> and each exception to
    the handlers of \<^verbatim>\<open>Arch_Trap\<close>. For arbitrary code, with calls, interrupts and switches: no page of a domain that did not run
    changes, and what is computed depends only on pages that the domains that ran may read.
  \<^item> \<^verbatim>\<open>El0_Services\<close>, \<^verbatim>\<open>Service_Runs\<close>: the services of \<^verbatim>\<open>kernel/arch/arm64/entry.S\<close> as instruction lists, and what each does when it runs.
  \<^item> \<^verbatim>\<open>El1_Asm\<close>: the assembly of the kernel on a machine of registers and words: \<^verbatim>\<open>exception.S\<close>, entry and resumption of
    \<^verbatim>\<open>entry.S\<close>, \<^verbatim>\<open>context_switch.S\<close>, the loop of \<^verbatim>\<open>boot.S\<close>, \<^verbatim>\<open>irq.S\<close>, the initialisation of \<^verbatim>\<open>pac.S\<close>. The vectors hand each handler the
    interrupted registers and continue with the frame that it leaves, so that the handlers may be read as functions on frames.
  \<^item> \<^verbatim>\<open>Harness\<close>, \<^verbatim>\<open>Harness_Tests\<close>, \<^verbatim>\<open>Harness_Results\<close>, \<^verbatim>\<open>Harness_Sequence\<close>: \<^verbatim>\<open>kernel/arch/arm64/main.c\<close>, boot, reports, statistics and the tests that
    run services to their end. Boot establishes the invariants the other theories assume; the tests pass.
  \<^item> \<^verbatim>\<open>Harness_Timer\<close>, \<^verbatim>\<open>Sched_Trace\<close>, \<^verbatim>\<open>Harness_Preempt\<close>, \<^verbatim>\<open>Preempt_Tests\<close>: the tests that wait, wake and preempt. The interrupts are an arbitrary
    sequence; the decisions of a policy do not depend on saved registers, so they are computed once and hold for every run.
  \<^item> \<^verbatim>\<open>Harness_Bench\<close>, \<^verbatim>\<open>Harness_Main\<close>: the benchmarks, and \<^verbatim>\<open>lettuce_arm64_main\<close> as a whole, which on a machine that behaves as
    documented ends with twenty-five tests passed.
  \<^item> \<^verbatim>\<open>Host_Arch\<close>: \<^verbatim>\<open>kernel/main/host_arch_stubs.c\<close> and the hosted clock, which tells the time the target's computation gives.
  \<^item> This theory: properties that span traps, tasks and system calls.

  \<^bold>\<open>State.\<close> Static variables become record fields: \<^verbatim>\<open>kernel_state\<close> (identity, domain, registry, capabilities),
  \<^verbatim>\<open>policy_state\<close> (tasks and policy variables), \<^verbatim>\<open>mmu_state\<close>, \<^verbatim>\<open>machine\<close> (all that the scheduler touches) and
  \<^verbatim>\<open>trap_state\<close> (the machine, the POSIX layer and the statics of \<^verbatim>\<open>cpu.c\<close>). Operations keep the names of the C
  functions, take the state last and return it changed. Pointers to table entries are slot numbers; an
  out-parameter is part of the result; functions that do not return (\<^verbatim>\<open>lettuce_el0_resume_kernel\<close>, the endless
  waits) are outcomes of the trap. Values read from system registers and devices are arguments.

  The state of a run at EL0 (\<^verbatim>\<open>el0_world\<close>) adds the memory that instructions see to \<^verbatim>\<open>trap_state\<close>, and \<^verbatim>\<open>harness_state\<close> the counters of
  the tests. What the processor and the devices do beyond the code (interrupts, readings of the counter, pointer authentication,
  addresses of symbols) is a platform or an environment, an argument whose documented behaviour is a named predicate.

  \<^bold>\<open>Bounds and loops.\<close> Integers have the width of the source and wrap. A loop that is bounded by a table size or a
  word is a terminating recursion. Loops without such a bound are partial functions whose value is
  \<^verbatim>\<open>None\<close> when they do not end: running a service (\<^verbatim>\<open>el0_loop\<close>), running tasks with interrupts (\<^verbatim>\<open>el0_loop_irq\<close>), waiting for
  ticks (\<^verbatim>\<open>wait_ticks\<close>), clearing the data section (\<^verbatim>\<open>clear_bss\<close>). Each is proved to return where the development uses it. The
  insertion sort of the report is a \<^verbatim>\<open>while\<close> loop that is shown to end. No definition uses fuel. The counts of the benchmarks
  (100 calls of preparation, 50 samples of 100 calls) are those of the source, and the proofs do not unfold them. The windows in
  which revoked handles stay dead (65533 requests) are the periods of the 16-bit generations.

  \<^bold>\<open>What the theorems found.\<close> Where the code does not do what it means to, the behaviour is stated and proved as it
  is: a sleeping task resumes from a stale context, nanosleep overwrites x0 of the next task, the caller stack
  is shared by all tasks, tasks of generations above ten are never scheduled, the allocator revives stale
  handles and accepts sizes that wrap, only the start of a user buffer is checked, tests 11 and 12 of the
  harness do not reach the code they are for, and an interrupt while \<^verbatim>\<open>lettuce_el0_enter\<close> is setting up its return
  sends it back into itself.

  \<^bold>\<open>Not modelled.\<close> Barriers, caches and contents of the TLB; the algorithm of pointer authentication, of which the
  laws of signing and authenticating are used; the wait for the transmit queue of the console. Concurrency is that of one core: handlers
  run to completion between instructions. In tests 21 and 25 interrupts are taken only while a task executes; the
  window before its first instruction is treated in \<^verbatim>\<open>El1_Asm\<close>. The memory that instructions at EL0 load and store and the byte
  memory through which system calls see their buffers are separate. Left out are the host benchmarks (wall-clock time and
  floating point), unit tests, the binding for Rust, scripts, and the translation units that hold no code.
\<close>

section \<open>Traps, tasks and system calls together\<close>

text \<open>
  C36: The stack of callers is one for all tasks. When the callee of an accepted call is taken off the
  CPU by a timer interrupt or its own yield, the task that runs next and executes the return supervisor
  call continues at the program counter, PSTATE and stack of the other task's caller, under that
  caller's service identity, while it remains the current task.
\<close>

theorem switched_task_takes_foreign_return:
  assumes "trap_ok lay el st" "g_pac_enabled st \<Longrightarrow> pac_sound pac"
    "imm \<in> {LETTUCE_SVC_CALL, LETTUCE_SVC_CROSS_LAYER, LETTUCE_SVC_ELEVATOR}"
    "svc_call pac imm frame st = (e1, st1)" "lettuce_arch_context_depth st1 \<noteq> lettuce_arch_context_depth st"
    "svc_yield callee st1 = (e2, st2) \<or> lettuce_arch_irq_lower_el_handler iar callee st1 = (e2, st2)"
    "svc_return pac frame2 st2 = (e3, st3)"
  shows "e3 = TrapReturn (frame2\<lparr>tf_elr := tf_elr frame, tf_spsr := tf_spsr frame, tf_sp_el0 := tf_sp_el0 frame\<rparr>) \<and>
    current_service_id (tr_kernel st3) = current_service_id (tr_kernel st) \<and>
    running_task (tr_machine st3) = running_task (tr_machine st2)"
proof -
  obtain r asm where c: "g_context_stack_depth st < LETTUCE_ARCH_CONTEXT_MAX" "st1 = call_state pac asm r frame st"
    using call_accepted [OF assms(1,3,4)] assms(5) by auto
  obtain m where m: "st2 = st1\<lparr>tr_machine := m\<rparr>" using yield_keeps_callers irq_keeps_callers assms(6) by blast
  have len: "length (g_context_stack st) = 8" using assms(1) by (simp add: trap_ok_def LETTUCE_ARCH_CONTEXT_MAX_def)
  have "g_context_stack_depth st2 > 0 \<and> lettuce_arch_context_pop pac st2 =
      (Some ((saved_caller pac frame st)\<lparr>cf_elr := tf_elr frame\<rparr>), st2\<lparr>g_context_stack_depth := g_context_stack_depth st\<rparr>)"
    by (intro pop_saved_caller [OF len assms(2) c(1)]) (simp_all add: m c(2) call_state_def)
  then show ?thesis
    using assms(7) by (auto simp: svc_return_def on_mmu_def on_kernel_def saved_caller_def set_x0_def Let_def
        current_service_id_def kernel_set_current_service_id_def set_current_service_id_def)
qed

text \<open>The demonstration machine inside the demonstration trap state: task 0 yields to task 1.\<close>

lemma demo_yield_pick:
  "fst (policy_step g_lettuce_sched_rr_ops 0 (demo_frame 9) False (upd_ptask 0 (\<lambda>t. t\<lparr>t_time_slice_ticks := 0\<rparr>) demo_tasks)) = Some 1"
  by code_simp

lemma demo_yields:
  assumes "tr_machine st = demo_machine\<lparr>mc_kernel := ks, mc_mmu := mmu\<rparr>"
  shows "running_task (tr_machine (snd (svc_yield (demo_frame 9) st))) = Some 1"
proof -
  let ?P = "upd_ptask 0 (\<lambda>t. t\<lparr>t_time_slice_ticks := 0\<rparr>) demo_tasks" and ?m = "demo_machine\<lparr>mc_kernel := ks, mc_mmu := mmu\<rparr>"
  obtain s3 where s3: "policy_step g_lettuce_sched_rr_ops 0 (demo_frame 9) False ?P = (Some 1, s3)"
    using demo_yield_pick by (cases "policy_step g_lettuce_sched_rr_ops 0 (demo_frame 9) False ?P") simp
  have "lettuce_scheduler_yield (Some (demo_frame 9)) ?m = do_schedule (Some (demo_frame 9)) False (?m\<lparr>mc_policy := ?P\<rparr>)"
    using demo_machine_simps(5) by (simp add: lettuce_scheduler_yield_def lettuce_task_current_def pcur_def)
  also have "\<dots> = switch_to (Some 0) 1 False (?m\<lparr>mc_policy := s3\<rparr>)"
    using do_schedule_switches [of "?m\<lparr>mc_policy := ?P\<rparr>" "demo_frame 9" False 1 s3] s3 by simp
  finally show ?thesis
    using switch_to_policy(1) [of "Some 0" 1 False "?m\<lparr>mc_policy := s3\<rparr>"] assms
    by (simp add: svc_yield_def case_prod_unfold policy_switched_def Let_def pcur_def lettuce_task_set_current_def)
qed

lemma switched_task_takes_foreign_return_witness:
  "\<exists>st1 e2 st2 e3 st3. snd (svc_call demo_pac LETTUCE_SVC_CALL (message_frame demo_message) (demo_trap demo_kernel)) = st1 \<and>
     running_task (tr_machine st1) = Some 0 \<and> svc_yield (demo_frame 9) st1 = (e2, st2) \<and> running_task (tr_machine st2) = Some 1 \<and>
     svc_return demo_pac (demo_frame 5) st2 = (e3, st3) \<and>
     e3 = TrapReturn ((demo_frame 5)\<lparr>tf_elr := 9, tf_spsr := 0, tf_sp_el0 := 10\<rparr>) \<and> running_task (tr_machine st3) = Some 1"
proof -
  have ok: "trap_ok demo_layout 1 (demo_trap demo_kernel)" by (rule demo_trap_ok) (simp add: demo_kernel_def)
  obtain e1 st1 where c: "svc_call demo_pac LETTUCE_SVC_CALL (message_frame demo_message) (demo_trap demo_kernel) = (e1, st1)" by fastforce
  obtain e2 st2 where y: "svc_yield (demo_frame 9) st1 = (e2, st2)" by fastforce
  obtain e3 st3 where r: "svc_return demo_pac (demo_frame 5) st2 = (e3, st3)" by fastforce
  have dep: "lettuce_arch_context_depth st1 \<noteq> lettuce_arch_context_depth (demo_trap demo_kernel)"
    using demo_call_depth c by (simp add: lettuce_arch_context_depth_def)
  obtain r' asm where st1: "st1 = call_state demo_pac asm r' (message_frame demo_message) (demo_trap demo_kernel)"
    using call_accepted [OF ok _ c] dep by auto
  have m: "tr_machine st1 = demo_machine\<lparr>mc_kernel := mc_kernel (tr_machine st1), mc_mmu := tr_mmu st1\<rparr>"
    by (simp add: st1 call_state_def demo_trap_def)
  have "running_task (tr_machine st2) = Some 1" using demo_yields [OF m] y by simp
  moreover have "running_task (tr_machine st1) = Some 0" by (simp add: st1 call_state_def demo_trap_def)
  ultimately show ?thesis
    using switched_task_takes_foreign_return [OF ok demo_pac_sound _ c dep disjI1 [OF y] r] c y r
    by (simp add: message_frame_def demo_frame_def)
qed

lemma do_schedule_voluntary:
  "do_schedule (Some tf) False m = (flow, m') \<Longrightarrow> \<exists>f. flow = Continue (Some f)"
  by (auto simp: do_schedule_def switch_to_def Let_def split: if_splits prod.splits option.splits)

text \<open>
  C37: The result of nanosleep goes to the wrong task. When going to sleep hands the CPU to another task, the
  handler stores the status 0 into x0 of the frame it now holds, which is that task's saved context: the
  task that was switched to resumes with its own registers except for x0, which is lost.
\<close>

theorem nanosleep_overwrites_next_x0:
  assumes inv: "sched_inv (tr_machine st)" and fr: "frame_ok frame" and no: "tf_x frame ! 8 = LETTUCE_SYS_NANOSLEEP"
    and run: "svc_syscall counter freq frame st = (e, st')"
    and n: "running_task (tr_machine st') = Some n" "running_task (tr_machine st) \<noteq> Some n"
  shows "e = TrapReturn (set_x0 0 (context_frame (t_context (task_of (tr_machine st) n))))"
proof -
  obtain ticks flow where s: "lettuce_scheduler_sleep_current ticks (Some frame) (tr_machine st) = (flow, tr_machine st')"
    and e: "e = (case flow_end frame flow of TrapReturn fr \<Rightarrow> TrapReturn (set_x0 0 fr) | e \<Rightarrow> e)"
    using run n no
    by (auto simp: svc_syscall_def lettuce_kernel_sys_nanosleep_def Let_def split: if_splits prod.splits)
  let ?p = "event_prepare (EvSleep ticks frame) (tr_machine st)"
  have d: "do_schedule (Some frame) False ?p = (flow, tr_machine st')"
    using s n by (cases "running_task (tr_machine st)")
      (auto simp: lettuce_scheduler_sleep_current_def event_prepare_def lettuce_task_current_def pcur_def Let_def)
  obtain f where f: "flow = Continue (Some f)" using do_schedule_voluntary [OF d] by blast
  have "n < LETTUCE_MAX_TASKS"
    using view_okD(3) [OF sched_inv_view(3) [OF do_schedule_inv [OF prepare_inv [OF inv] fr d]]] n(1) by blast
  moreover have "running_task ?p \<noteq> Some n" using n(2) prepare_view(1) [OF inv] by simp
  ultimately have "f = context_frame (t_context (task_of ?p n))"
    using do_schedule_other [OF prepare_inv [OF inv] fr d, of n f] n(1) f by simp
  then show ?thesis using e f prepare_identity [OF inv \<open>n < LETTUCE_MAX_TASKS\<close>] by (simp add: flow_end_def)
qed

definition nanosleep_trap :: trap_state where
  "nanosleep_trap = (demo_trap (demo_kernel\<lparr>g_current_service_id := 10\<rparr>))
     \<lparr>tr_posix := demo_posix\<lparr>ps_io := (ps_io demo_posix)\<lparr>io_memory := (\<lambda>_. 0)\<rparr>\<rparr>\<rparr>"

definition nanosleep_frame :: LettuceTrapFrame where
  "nanosleep_frame = (demo_frame 9)\<lparr>tf_x := (replicate 30 0)[0 := 0x3000, 8 := LETTUCE_SYS_NANOSLEEP]\<rparr>"

definition demo_napping :: policy_state where
  "demo_napping = upd_ptask 0 (\<lambda>t. t\<lparr>t_sleep_deadline_ticks := 0, t_state := LETTUCE_TASK_STATE_SLEEPING\<rparr>) demo_tasks"

lemma demo_nap_pick: "fst (policy_step g_lettuce_sched_rr_ops 0 nanosleep_frame False demo_napping) = Some 1"
  by code_simp

lemma nanosleep_overwrites_next_x0_witness:
  "running_task (tr_machine nanosleep_trap) = Some 0 \<and>
   (\<exists>st'. svc_syscall 0 1 nanosleep_frame nanosleep_trap =
      (TrapReturn (set_x0 0 (context_frame (t_context (task_of (tr_machine nanosleep_trap) 1)))), st') \<and> running_task (tr_machine st') = Some 1)"
proof -
  let ?m = "tr_machine nanosleep_trap"
  have m: "?m = demo_machine\<lparr>mc_kernel := mc_kernel ?m, mc_mmu := mc_mmu ?m\<rparr>" by (simp add: nanosleep_trap_def demo_trap_def)
  have inv: "sched_inv ?m" using demo_machine_inv by (subst m) (simp add: sched_inv_def sched_view_of_def)
  have pol: "mc_policy ?m = demo_tasks" "g_policy_ops ?m = g_lettuce_sched_rr_ops" "g_scheduler_active ?m" "g_timer_ticks (mc_timer ?m) = 0"
    by (simp_all add: nanosleep_trap_def demo_trap_def)
  have zero: "load_u64 (\<lambda>_. 0) a = 0" for a by (rule bit_eqI) (simp add: load_u64_bit)
  obtain s3 where s3: "policy_step g_lettuce_sched_rr_ops 0 nanosleep_frame False demo_napping = (Some 1, s3)"
    using demo_nap_pick by (cases "policy_step g_lettuce_sched_rr_ops 0 nanosleep_frame False demo_napping") simp
  have "lettuce_scheduler_sleep_current 0 (Some nanosleep_frame) ?m = do_schedule (Some nanosleep_frame) False (?m\<lparr>mc_policy := demo_napping\<rparr>)"
    using demo_machine_simps(5)
    by (simp add: lettuce_scheduler_sleep_current_def lettuce_task_current_def demo_napping_def pcur_def Let_def pol
        lettuce_timer_get_ticks_def g_lettuce_sched_rr_ops_def rr_on_task_sleep_def)
  also have "\<dots> = switch_to (Some 0) 1 False (?m\<lparr>mc_policy := s3\<rparr>)"
    using do_schedule_switches [of "?m\<lparr>mc_policy := demo_napping\<rparr>" nanosleep_frame False 1 s3] s3 by (simp add: pol demo_napping_def)
  finally have sl: "running_task (snd (lettuce_scheduler_sleep_current 0 (Some nanosleep_frame) ?m)) = Some 1"
    using switch_to_policy(1) [of "Some 0" 1 False "?m\<lparr>mc_policy := s3\<rparr>"]
    by (simp add: policy_switched_def Let_def pcur_def lettuce_task_set_current_def)
  have no: "tf_x nanosleep_frame ! 8 = LETTUCE_SYS_NANOSLEEP" "tf_x nanosleep_frame ! 0 = 0x3000" "frame_ok nanosleep_frame"
    by (simp_all add: nanosleep_frame_def frame_ok_def)
  have "tr_machine (snd (svc_syscall 0 1 nanosleep_frame nanosleep_trap)) = snd (lettuce_scheduler_sleep_current 0 (Some nanosleep_frame) ?m)"
    by (simp add: svc_syscall_def no lettuce_kernel_sys_nanosleep_def in_kernel_range_def zero Let_def case_prod_unfold)
      (simp add: nanosleep_trap_def zero case_prod_unfold)
  then show ?thesis
    using nanosleep_overwrites_next_x0 [OF inv no(3,1) prod.collapse [symmetric]] sl by (metis demo_machine_simps(5) option.inject pol(1) prod.collapse zero_neq_one)
qed

text \<open>
  The supervisor call of a wrapper, taken to the kernel: the wrapper's argument registers and call number go
  into the trap frame of the task, the handler for synchronous exceptions runs with the syndrome of
  \<^verbatim>\<open>svc #5\<close>, and x0 of the frame it returns with is the result.
\<close>

definition el0_svc :: "pac_unit \<Rightarrow> u64 \<Rightarrow> u64 \<Rightarrow> LettuceTrapFrame \<Rightarrow> trap_state supervisor_call" where
  "el0_svc pac counter freq frame args no st =
     (case lettuce_arch_sync_lower_el_handler pac counter freq 0x56000005 0
             (frame\<lparr>tf_x := (args @ drop (length args) (tf_x frame))[8 := no]\<rparr>) st of
        (TrapReturn fr, st') \<Rightarrow> (tf_x fr ! 0, st') | (_, st') \<Rightarrow> (0, st'))"

lemma el0_svc_syscall:
  "el0_svc pac counter freq frame args no st =
     (case svc_syscall counter freq (frame\<lparr>tf_x := (args @ drop (length args) (tf_x frame))[8 := no]\<rparr>) st of
        (TrapReturn fr, st') \<Rightarrow> (tf_x fr ! 0, st') | (_, st') \<Rightarrow> (0, st'))"
proof -
  have "drop_bit 26 (0x56000005 :: u64) AND 0x3f = 0x15" "(ucast (0x56000005 AND (0xffff :: u64)) :: u32) = 5" by code_simp+
  then show ?thesis by (simp add: el0_svc_def lettuce_arch_sync_lower_el_handler_def Let_def)
qed



end
